(* ===== verification/Prelude.thy ===== *)
theory Prelude
  imports
    Main
    "HOL-Library.AList"
    "HOL-Library.Sublist"
    "HOL-Library.Multiset"
    "HOL-Library.Char_ord"
    "HOL-Library.List_Lexorder"
begin

text \<open>
  The part of Python the modelled code rests on: exceptions as values, ordered
  dictionaries, sets, and the string methods.

  \<^item> A call that may raise has a result of type \<open>pyerr + 'a\<close>; \<open>bindE\<close> runs
    the rest of a function only when the call returned, so the first exception wins.
  \<^item> A loop with no measure of its own counts its rounds; \<open>Diverges\<close> says that it has not ended
    within the rounds given, and is not an exception of the program.
  \<^item> A dictionary is an association list in insertion order.  Overwriting a key keeps its
    position and a new key goes to the end, as in Python.
  \<^item> A set is a duplicate-free list.  Python leaves the iteration order open; here it
    is the order of the list, and no property depends on it.
  \<^item> Characters are the 256 values of \<open>char\<close>, the Latin-1 part of Python's code points.
\<close>

named_theorems pydict "laws of dictionaries"
named_theorems pyset "laws of sets"
named_theorems pystr "laws of strings"

section \<open>Exceptions\<close>

datatype pyerr =
    KeyError
  | IndexError
  | ValueError string
  | AttributeError
  | Fatal string
  | VersionStringException string
  | NoProvider string
  | NoRProvider string
  | MultipleRProvider string
  | TypeError
  | OSError
  | RecursionError
  | RegexError
  | Diverges
  | SyntaxError bool
  | ExpansionError
  | SkipRecipe
  | PyException string
  | ParseError string
  | FileNotFoundError

definition bindE :: "'e + 'a \<Rightarrow> ('a \<Rightarrow> 'e + 'b) \<Rightarrow> 'e + 'b" where
  "bindE m f = (case m of Inl e \<Rightarrow> Inl e | Inr x \<Rightarrow> f x)"

lemma bindE_simps [simp]:
  "bindE (Inl e) f = Inl e"
  "bindE (Inr x) f = f x"
  by (simp_all add: bindE_def)

lemma bindE_Inr_iff: "bindE m f = Inr y \<longleftrightarrow> (\<exists>x. m = Inr x \<and> f x = Inr y)"
  by (cases m) auto

lemma bindE_InrE [elim!]:
  assumes "bindE m f = Inr y"
  obtains x where "m = Inr x" and "f x = Inr y"
  using assms by (cases m) auto

lemma bindE_Inl_iff: "bindE m f = Inl e \<longleftrightarrow> m = Inl e \<or> (\<exists>x. m = Inr x \<and> f x = Inl e)"
  by (cases m) auto

lemma bindE_cong [fundef_cong]:
  "m = m' \<Longrightarrow> (\<And>x. m' = Inr x \<Longrightarrow> f x = f' x) \<Longrightarrow> bindE m f = bindE m' f'"
  by (cases m') auto

text \<open>A \<open>for\<close> loop whose body may raise.\<close>

fun foldE :: "('a \<Rightarrow> 's \<Rightarrow> 'e + 's) \<Rightarrow> 'a list \<Rightarrow> 's \<Rightarrow> 'e + 's" where
  "foldE f [] s = Inr s"
| "foldE f (x # xs) s = bindE (f x s) (foldE f xs)"

fun mapE :: "('a \<Rightarrow> 'e + 'b) \<Rightarrow> 'a list \<Rightarrow> 'e + 'b list" where
  "mapE f [] = Inr []"
| "mapE f (x # xs) = bindE (f x) (\<lambda>y. bindE (mapE f xs) (\<lambda>ys. Inr (y # ys)))"

lemma foldE_append: "foldE f (xs @ ys) s = bindE (foldE f xs s) (foldE f ys)"
  by (induction xs arbitrary: s) (auto simp: bindE_def split: sum.splits)

text \<open>Loop invariants: what every step keeps holds at the end of the loop.\<close>

lemma foldE_invariant:
  assumes "foldE f xs s = Inr s'" and "P s"
    and "\<And>x s t. x \<in> set xs \<Longrightarrow> P s \<Longrightarrow> f x s = Inr t \<Longrightarrow> P t"
  shows "P s'"
  using assms
proof (induction xs arbitrary: s)
  case Nil
  then show ?case by simp
next
  case (Cons x xs)
  from Cons.prems(1) obtain t where t: "f x s = Inr t" and rest: "foldE f xs t = Inr s'"
    by auto
  have "P t" using Cons.prems(2,3) t by auto
  then show ?case using Cons.IH [OF rest] Cons.prems(3) by auto
qed

lemma foldE_total:
  assumes "P s"
    and "\<And>x s. x \<in> set xs \<Longrightarrow> P s \<Longrightarrow> \<exists>t. f x s = Inr t \<and> P t"
  shows "\<exists>t. foldE f xs s = Inr t \<and> P t"
  using assms
proof (induction xs arbitrary: s)
  case Nil
  then show ?case by simp
next
  case (Cons x xs)
  from Cons.prems obtain t where t: "f x s = Inr t" "P t" by auto
  with Cons.IH [OF t(2)] Cons.prems(2) show ?case by auto
qed

text \<open>The same with the elements already handled as a ghost argument.\<close>

lemma foldE_prefix:
  assumes "P [] s"
    and "\<And>ys x zs s. xs = ys @ x # zs \<Longrightarrow> P ys s \<Longrightarrow> \<exists>t. f x s = Inr t \<and> P (ys @ [x]) t"
  shows "\<exists>t. foldE f xs s = Inr t \<and> P xs t"
proof -
  have "\<exists>t. foldE f zs s = Inr t \<and> P xs t" if "xs = ys @ zs" "P ys s" for ys zs s
    using that
  proof (induction zs arbitrary: ys s)
    case Nil
    then show ?case by simp
  next
    case (Cons x zs)
    from assms(2) [OF Cons.prems] obtain t where "f x s = Inr t" "P (ys @ [x]) t" by blast
    then show ?case using Cons.IH [of "ys @ [x]" t] Cons.prems(1) by simp
  qed
  from this [of "[]" xs s] assms(1) show ?thesis by simp
qed

lemma foldE_prefix_inv:
  assumes "foldE f xs s = Inr s'" and "P [] s"
    and "\<And>ys x zs s t. xs = ys @ x # zs \<Longrightarrow> P ys s \<Longrightarrow> f x s = Inr t \<Longrightarrow> P (ys @ [x]) t"
  shows "P xs s'"
proof -
  have "P xs s'" if "xs = ys @ zs" "P ys s" "foldE f zs s = Inr s'" for ys zs s
    using that
  proof (induction zs arbitrary: ys s)
    case Nil
    then show ?case by simp
  next
    case (Cons x zs)
    from Cons.prems(3) obtain t where t: "f x s = Inr t" "foldE f zs t = Inr s'" by auto
    from assms(3) [OF Cons.prems(1,2) t(1)] have "P (ys @ [x]) t" .
    with Cons.IH [of "ys @ [x]" t] t(2) Cons.prems(1) show ?case by simp
  qed
  from this [of "[]" xs s] assms(1,2) show ?thesis by simp
qed

lemma fold_invariant_set:
  assumes "P s" and "\<And>x s. x \<in> set xs \<Longrightarrow> P s \<Longrightarrow> P (f x s)"
  shows "P (fold f xs s)"
  using assms by (induction xs arbitrary: s) auto

section \<open>Dictionaries\<close>

type_synonym ('k, 'v) dict = "('k \<times> 'v) list"

abbreviation dkeys :: "('k, 'v) dict \<Rightarrow> 'k list" where
  "dkeys d \<equiv> map fst d"

abbreviation dset :: "'k \<Rightarrow> 'v \<Rightarrow> ('k, 'v) dict \<Rightarrow> ('k, 'v) dict" where
  "dset k v d \<equiv> AList.update k v d"

abbreviation ddel :: "'k \<Rightarrow> ('k, 'v) dict \<Rightarrow> ('k, 'v) dict" where
  "ddel k d \<equiv> AList.delete k d"

definition din :: "'k \<Rightarrow> ('k, 'v) dict \<Rightarrow> bool" where
  "din k d \<longleftrightarrow> k \<in> set (map fst d)"

text \<open>\<open>d[k]\<close>, which raises \<open>KeyError\<close>.\<close>

definition dget :: "('k, 'v) dict \<Rightarrow> 'k \<Rightarrow> pyerr + 'v" where
  "dget d k = (case map_of d k of None \<Rightarrow> Inl KeyError | Some v \<Rightarrow> Inr v)"

text \<open>\<open>d.get(k, v)\<close>.\<close>

definition dgetd :: "('k, 'v) dict \<Rightarrow> 'k \<Rightarrow> 'v \<Rightarrow> 'v" where
  "dgetd d k v = (case map_of d k of None \<Rightarrow> v | Some w \<Rightarrow> w)"

lemma din_iff [pydict]: "din k d \<longleftrightarrow> (\<exists>v. map_of d k = Some v)"
  by (metis din_def map_of_eq_None_iff not_None_eq set_map)

lemma din_None: "\<not> din k d \<longleftrightarrow> map_of d k = None"
  by (simp add: din_iff)

lemma din_update [simp, pydict]: "din k (dset k' v d) \<longleftrightarrow> k = k' \<or> din k d"
  by (auto simp: din_iff update_conv')

lemma din_delete [simp, pydict]: "din k (ddel k' d) \<longleftrightarrow> k \<noteq> k' \<and> din k d"
  by (auto simp: din_iff delete_conv')

lemma din_Nil [simp]: "\<not> din k []"
  by (simp add: din_def)

lemma map_of_dset [simp, pydict]: "map_of (dset k v d) = (map_of d)(k \<mapsto> v)"
  by (rule update_conv')

lemma map_of_ddel [simp, pydict]: "map_of (ddel k d) = (map_of d)(k := None)"
  by (rule delete_conv')

lemma distinct_dset [simp, pydict]: "distinct (dkeys d) \<Longrightarrow> distinct (dkeys (dset k v d))"
  by (rule distinct_update)

lemma distinct_ddel [simp, pydict]: "distinct (dkeys d) \<Longrightarrow> distinct (dkeys (ddel k d))"
  by (rule distinct_delete)

lemma dkeys_dset [pydict]:
  "dkeys (dset k v d) = (if din k d then dkeys d else dkeys d @ [k])"
  by (induction d) (auto simp: din_def)

lemma set_dkeys_dset [simp]: "set (dkeys (dset k v d)) = insert k (set (dkeys d))"
  by (auto simp: dkeys_dset din_def)

lemma in_dkeys_iff [simp]: "k \<in> fst ` set d \<longleftrightarrow> din k d"
  by (simp add: din_def)

lemma dget_Inr_iff [pydict]: "dget d k = Inr v \<longleftrightarrow> map_of d k = Some v"
  by (auto simp: dget_def split: option.splits)

lemma dget_Inl_iff [pydict]: "dget d k = Inl e \<longleftrightarrow> e = KeyError \<and> \<not> din k d"
  by (auto simp: dget_def din_iff split: option.splits)

lemma dget_total: "din k d \<Longrightarrow> \<exists>v. dget d k = Inr v \<and> map_of d k = Some v"
  by (auto simp: dget_def din_iff)

lemma dget_dset [simp]: "dget (dset k v d) k' = (if k = k' then Inr v else dget d k')"
  by (simp add: dget_def)

lemma map_of_map_dict:
  "map_of (map (\<lambda>(k, v). (k, f k v)) d) k = map_option (f k) (map_of d k)"
  by (induction d) auto

text \<open>\<open>d.setdefault(k, []).append(v)\<close>.\<close>

definition dappend :: "'k \<Rightarrow> 'v \<Rightarrow> ('k, 'v list) dict \<Rightarrow> ('k, 'v list) dict" where
  "dappend k v d = dset k (dgetd d k [] @ [v]) d"

lemma dappend_simps [simp]:
  "dgetd (dappend k v d) k' [] = (if k' = k then dgetd d k [] @ [v] else dgetd d k' [])"
  "din k' (dappend k v d) \<longleftrightarrow> k' = k \<or> din k' d"
  "distinct (dkeys d) \<Longrightarrow> distinct (dkeys (dappend k v d))"
  by (auto simp: dappend_def dgetd_def)

section \<open>Sets\<close>

definition sadd :: "'a \<Rightarrow> 'a list \<Rightarrow> 'a list" where
  "sadd x s = (if x \<in> set s then s else s @ [x])"

definition sremove :: "'a \<Rightarrow> 'a list \<Rightarrow> 'a list" where
  "sremove x s = filter (\<lambda>y. y \<noteq> x) s"

definition sunion :: "'a list \<Rightarrow> 'a list \<Rightarrow> 'a list" where
  "sunion s t = s @ filter (\<lambda>y. y \<notin> set s) (remdups t)"

definition sinter :: "'a list \<Rightarrow> 'a list \<Rightarrow> 'a list" where
  "sinter s t = filter (\<lambda>y. y \<in> set t) s"

definition sdiff :: "'a list \<Rightarrow> 'a list \<Rightarrow> 'a list" where
  "sdiff s t = filter (\<lambda>y. y \<notin> set t) s"

definition ssubset :: "'a list \<Rightarrow> 'a list \<Rightarrow> bool" where
  "ssubset s t \<longleftrightarrow> (\<forall>x \<in> set s. x \<in> set t)"

definition sdisjoint :: "'a list \<Rightarrow> 'a list \<Rightarrow> bool" where
  "sdisjoint s t \<longleftrightarrow> (\<forall>x \<in> set s. x \<notin> set t)"

lemma set_sadd [simp, pyset]: "set (sadd x s) = insert x (set s)"
  by (auto simp: sadd_def)

lemma set_sremove [simp, pyset]: "set (sremove x s) = set s - {x}"
  by (auto simp: sremove_def)

lemma set_sunion [simp, pyset]: "set (sunion s t) = set s \<union> set t"
  by (auto simp: sunion_def)

lemma set_sinter [simp, pyset]: "set (sinter s t) = set s \<inter> set t"
  by (auto simp: sinter_def)

lemma set_sdiff [simp, pyset]: "set (sdiff s t) = set s - set t"
  by (auto simp: sdiff_def)

lemma ssubset_iff [simp, pyset]: "ssubset s t \<longleftrightarrow> set s \<subseteq> set t"
  by (auto simp: ssubset_def)

lemma sdisjoint_iff [simp, pyset]: "sdisjoint s t \<longleftrightarrow> set s \<inter> set t = {}"
  by (auto simp: sdisjoint_def)

lemma distinct_sets [simp, pyset]:
  "distinct s \<Longrightarrow> distinct (sadd x s)"
  "distinct s \<Longrightarrow> distinct (sremove x s)"
  "distinct s \<Longrightarrow> distinct (sunion s t)"
  "distinct s \<Longrightarrow> distinct (sinter s t)"
  "distinct s \<Longrightarrow> distinct (sdiff s t)"
  by (auto simp: sadd_def sremove_def sunion_def sinter_def sdiff_def)

lemma set_fold_sadd [simp]: "set (fold sadd xs s) = set s \<union> set xs"
  by (induction xs arbitrary: s) auto

lemma distinct_fold_sadd: "distinct s \<Longrightarrow> distinct (fold sadd xs s)"
  by (induction xs arbitrary: s) auto

section \<open>Lists\<close>

text \<open>\<open>xs.index(x)\<close>.\<close>

definition index_of :: "'a list \<Rightarrow> 'a \<Rightarrow> nat option" where
  "index_of xs x = (if x \<in> set xs then Some (length (takeWhile (\<lambda>y. y \<noteq> x) xs)) else None)"

lemma index_of_nth: "index_of xs x = Some i \<Longrightarrow> i < length xs \<and> xs ! i = x"
proof -
  assume i: "index_of xs x = Some i"
  then have "takeWhile (\<lambda>y. y \<noteq> x) xs \<noteq> xs" by (auto simp: index_of_def split: if_splits)
  then have l: "length (takeWhile (\<lambda>y. y \<noteq> x) xs) < length xs"
    by (metis length_takeWhile_le nat_less_le takeWhile_eq_take take_all_iff)
  with nth_length_takeWhile [OF l] i show ?thesis by (auto simp: index_of_def split: if_splits)
qed

lemma index_of_total: "x \<in> set xs \<Longrightarrow> \<exists>i. index_of xs x = Some i"
  by (simp add: index_of_def)

section \<open>Strings\<close>

text \<open>\<open>s.split(c)\<close> and \<open>c.join(xs)\<close> for a one-character separator.\<close>

fun split_on :: "char \<Rightarrow> string \<Rightarrow> string list" where
  "split_on c [] = [[]]"
| "split_on c (x # xs) =
     (if x = c then [] # split_on c xs
      else (case split_on c xs of [] \<Rightarrow> [[x]] | h # t \<Rightarrow> (x # h) # t))"

fun join_with :: "string \<Rightarrow> string list \<Rightarrow> string" where
  "join_with sep [] = []"
| "join_with sep [x] = x"
| "join_with sep (x # y # ys) = x @ sep @ join_with sep (y # ys)"

text \<open>\<open>s.rsplit(c, 1)\<close> splits at the last \<open>c\<close>: \<open>None\<close> when there is none.\<close>

definition rsplit1 :: "char \<Rightarrow> string \<Rightarrow> (string \<times> string) option" where
  "rsplit1 c s =
     (if c \<in> set s
      then Some (rev (tl (dropWhile (\<lambda>x. x \<noteq> c) (rev s))), rev (takeWhile (\<lambda>x. x \<noteq> c) (rev s)))
      else None)"

definition startswith :: "string \<Rightarrow> string \<Rightarrow> bool" where
  "startswith s p \<longleftrightarrow> take (length p) s = p"

definition endswith :: "string \<Rightarrow> string \<Rightarrow> bool" where
  "endswith s p \<longleftrightarrow> startswith (rev s) (rev p)"

text \<open>\<open>s.split()\<close>: maximal runs of characters that are not white space.\<close>

definition is_space :: "char \<Rightarrow> bool" where
  "is_space c \<longleftrightarrow> of_char c \<in> {9::nat, 10, 11, 12, 13, 28, 29, 30, 31, 32, 133, 160}"

fun words_acc :: "string \<Rightarrow> string \<Rightarrow> string list" where
  "words_acc w [] = (if w = [] then [] else [w])"
| "words_acc w (x # xs) =
     (if is_space x then (if w = [] then words_acc [] xs else w # words_acc [] xs)
      else words_acc (w @ [x]) xs)"

definition words :: "string \<Rightarrow> string list" where
  "words s = words_acc [] s"

definition strip_chars :: "(char \<Rightarrow> bool) \<Rightarrow> string \<Rightarrow> string" where
  "strip_chars p s = rev (dropWhile p (rev (dropWhile p s)))"

lemma split_on_nonempty [simp]: "split_on c s \<noteq> []"
  by (induction s) (auto split: list.splits)

lemma join_split [pystr]: "join_with [c] (split_on c s) = s"
proof (induction s)
  case Nil
  then show ?case by simp
next
  case (Cons x xs)
  then show ?case
    by (cases "split_on c xs"; cases "tl (split_on c xs)") auto
qed

lemma split_on_nosep [simp]: "c \<notin> set s \<Longrightarrow> split_on c s = [s]"
  by (induction s) auto

lemma split_on_append_sep [pystr]:
  "c \<notin> set p \<Longrightarrow> split_on c (p @ c # s) = p # split_on c s"
  by (induction p) (auto split: list.splits)

lemma split_on_no_sep_in: "\<forall>w \<in> set (split_on c s). c \<notin> set w"
  by (induction s) (auto split: list.splits)

lemma split_join [pystr]:
  "xs \<noteq> [] \<Longrightarrow> \<forall>x \<in> set xs. c \<notin> set x \<Longrightarrow> split_on c (join_with [c] xs) = xs"
  by (induction "[c]" xs rule: join_with.induct) (auto simp: split_on_append_sep)

lemma length_split_on [pystr]: "length (split_on c s) = Suc (count_list s c)"
  by (induction s) (auto split: list.splits)

lemma rsplit1_None [simp]: "rsplit1 c s = None \<longleftrightarrow> c \<notin> set s"
  by (simp add: rsplit1_def)

lemma rsplit1_notin [simp]: "c \<notin> set t \<Longrightarrow> rsplit1 c t = None"
  by (simp add: rsplit1_def)

lemma rsplit1_cases:
  obtains "c \<notin> set t" "rsplit1 c t = None" | a b where "c \<in> set t" "rsplit1 c t = Some (a, b)"
  by (cases "c \<in> set t") (auto simp: rsplit1_def)

lemma rsplit1_append [simp, pystr]: "c \<notin> set b \<Longrightarrow> rsplit1 c (a @ c # b) = Some (a, b)"
proof -
  assume b: "c \<notin> set b"
  then have *: "\<And>x. x \<in> set (rev b) \<Longrightarrow> x \<noteq> c" by auto
  have "takeWhile (\<lambda>x. x \<noteq> c) (rev b @ c # rev a) = rev b"
    and "dropWhile (\<lambda>x. x \<noteq> c) (rev b @ c # rev a) = c # rev a"
    using * by (simp_all add: takeWhile_append2 dropWhile_append2 del: set_rev)
  then show ?thesis by (simp add: rsplit1_def)
qed

lemma rsplit1_SomeD [pystr]:
  assumes "rsplit1 c s = Some (a, b)"
  shows "s = a @ c # b" and "c \<notin> set b"
proof -
  from assms have "c \<in> set s" by (auto simp: rsplit1_def split: if_splits)
  then obtain a' b' where s: "s = a' @ c # b'" "c \<notin> set b'"
    by (meson split_list_last)
  with assms show "s = a @ c # b" "c \<notin> set b" by auto
qed

lemma startswith_append [simp]: "startswith (p @ s) p"
  by (simp add: startswith_def)

lemma startswith_iff [pystr]: "startswith s p \<longleftrightarrow> (\<exists>r. s = p @ r)"
  by (metis append_eq_conv_conj startswith_def)

lemma endswith_iff [pystr]: "endswith s p \<longleftrightarrow> (\<exists>r. s = r @ p)"
proof
  assume "endswith s p"
  then obtain r where "rev s = rev p @ r" by (auto simp: endswith_def startswith_iff)
  then have "rev (rev s) = rev r @ p" by simp
  then show "\<exists>r. s = r @ p" by auto
qed (auto simp: endswith_def)

lemma words_acc_nospace:
  "\<forall>x \<in> set w. \<not> is_space x \<Longrightarrow> v \<in> set (words_acc w s) \<Longrightarrow> v \<noteq> [] \<and> (\<forall>x \<in> set v. \<not> is_space x)"
proof (induction s arbitrary: w)
  case Nil
  then show ?case by (auto split: if_splits)
next
  case (Cons x s)
  show ?case
  proof (cases "is_space x")
    case True
    with Cons.prems Cons.IH [of "[]"] show ?thesis by (auto split: if_splits)
  next
    case False
    with Cons.prems Cons.IH [of "w @ [x]"] show ?thesis by auto
  qed
qed

lemma words_nospace [pystr]:
  "v \<in> set (words s) \<Longrightarrow> v \<noteq> [] \<and> (\<forall>x \<in> set v. \<not> is_space x)"
  unfolding words_def by (rule words_acc_nospace [of "[]"]) auto

lemma words_acc_word:
  "\<forall>x \<in> set v. \<not> is_space x \<Longrightarrow> words_acc w (v @ s) = words_acc (w @ v) s"
  by (induction v arbitrary: w) auto

lemma words_cons_word [pystr]:
  "v \<noteq> [] \<Longrightarrow> \<forall>x \<in> set v. \<not> is_space x \<Longrightarrow> is_space c \<Longrightarrow>
   words (v @ c # s) = v # words s"
  by (simp add: words_def words_acc_word)

lemma words_single [pystr]:
  "v \<noteq> [] \<Longrightarrow> \<forall>x \<in> set v. \<not> is_space x \<Longrightarrow> words v = [v]"
  using words_acc_word [of v "[]" "[]"] by (simp add: words_def)

lemma words_join [pystr]:
  "\<forall>v \<in> set vs. v \<noteq> [] \<and> (\<forall>x \<in> set v. \<not> is_space x) \<Longrightarrow> is_space c \<Longrightarrow>
   words (join_with [c] vs) = vs"
proof (induction "[c]" vs rule: join_with.induct)
  case 1
  then show ?case by (simp add: words_def)
next
  case (2 x)
  then show ?case by (simp add: words_single)
next
  case (3 x y ys)
  then show ?case by (simp add: words_cons_word)
qed

section \<open>Grouping by key\<close>

text \<open>Collecting the elements key by key, in the order of the keys, is a stable sort.\<close>

lemma filter_concat_groups:
  "distinct ws \<Longrightarrow>
   filter (\<lambda>x. f x = v) (concat (map (\<lambda>w. filter (\<lambda>x. f x = w) xs) ws)) =
     (if v \<in> set ws then filter (\<lambda>x. f x = v) xs else [])"
  by (induction ws) (auto simp: filter_empty_conv intro!: filter_cong)

lemma mset_concat_groups:
  "distinct ws \<Longrightarrow>
   mset (concat (map (\<lambda>w. filter (\<lambda>x. f x = w) xs) ws)) = mset (filter (\<lambda>x. f x \<in> set ws) xs)"
proof (induction ws)
  case (Cons w ws)
  then have w: "w \<notin> set ws" by simp
  have "mset (filter (\<lambda>x. f x = w \<or> f x \<in> set ws) xs) =
      mset (filter (\<lambda>x. f x = w) xs) + mset (filter (\<lambda>x. f x \<in> set ws) xs)"
    using w by (induction xs) auto
  with Cons show ?case by simp
qed simp

lemma sorted_concat_groups:
  fixes f :: "'a \<Rightarrow> 'b::linorder"
  shows "sorted ws \<Longrightarrow> sorted (map f (concat (map (\<lambda>w. filter (\<lambda>x. f x = w) xs) ws)))"
proof (induction ws)
  case (Cons w ws)
  have "sorted (map f (filter (\<lambda>x. f x = w) xs))"
    by (induction xs) auto
  with Cons show ?case by (auto simp: sorted_append)
qed simp

lemma concat_groups_sort_key:
  fixes f :: "'a \<Rightarrow> 'b::linorder"
  assumes "sorted ws" "distinct ws" "f ` set xs \<subseteq> set ws"
  shows "concat (map (\<lambda>w. filter (\<lambda>x. f x = w) xs) ws) = sort_key f xs"
proof (rule properties_for_sort_key [symmetric])
  have "filter (\<lambda>x. f x \<in> set ws) xs = xs" using assms(3) by (auto simp: filter_id_conv)
  then show "mset (concat (map (\<lambda>w. filter (\<lambda>x. f x = w) xs) ws)) = mset xs"
    using mset_concat_groups [OF assms(2), of f xs] by simp
next
  fix k
  assume "k \<in> set (concat (map (\<lambda>w. filter (\<lambda>x. f x = w) xs) ws))"
  then have "f k \<in> set ws" by auto
  then show "filter (\<lambda>x. f k = f x) (concat (map (\<lambda>w. filter (\<lambda>x. f x = w) xs) ws)) =
      filter (\<lambda>x. f k = f x) xs"
    using filter_concat_groups [OF assms(2), of f "f k" xs] by (simp add: eq_commute)
qed (rule sorted_concat_groups [OF assms(1)])

end
