(* ===== verification/Version.thy ===== *)
theory Version
  imports Prelude
begin

text \<open>
  Version comparison, from \<open>poky/bitbake/lib/bb/utils.py\<close>: a version string is cut into
  tagged components (\<open>explode_version\<close>), two component lists are compared position by
  position with the end of a list ranking between \<open>~\<close> and everything else
  (\<open>vercmp_part\<close>), and a full version is a triple of epoch, version and revision
  (\<open>split_version\<close>, \<open>vercmp\<close>).  The lemmas show that the comparison is a total
  preorder; the locale \<open>three_way\<close> is the contract its callers use.
\<close>

section \<open>Numbers in strings\<close>

definition is_digit :: "char \<Rightarrow> bool" where
  "is_digit c \<longleftrightarrow> CHR ''0'' \<le> c \<and> c \<le> CHR ''9''"

definition is_letter :: "char \<Rightarrow> bool" where
  "is_letter c \<longleftrightarrow> (CHR ''a'' \<le> c \<and> c \<le> CHR ''z'') \<or> (CHR ''A'' \<le> c \<and> c \<le> CHR ''Z'')"

definition digit_val :: "char \<Rightarrow> int" where
  "digit_val c = int (of_char c) - 48"

definition digits_val :: "string \<Rightarrow> int" where
  "digits_val s = foldl (\<lambda>n c. 10 * n + digit_val c) 0 s"

text \<open>The digits of an \<open>int\<close> literal: single underscores may stand between digits.\<close>

fun int_digits :: "string \<Rightarrow> bool" where
  "int_digits [] = False"
| "int_digits [c] = is_digit c"
| "int_digits (c # d # s) =
     (is_digit c \<and> (if d = CHR ''_'' then int_digits s else int_digits (d # s)))"

definition unsigned_int :: "string \<Rightarrow> pyerr + int" where
  "unsigned_int s =
     (if int_digits s then Inr (digits_val (filter is_digit s))
      else Inl (ValueError ''invalid literal for int()''))"

definition py_int :: "string \<Rightarrow> pyerr + int" where
  "py_int s =
     (case strip_chars is_space s of
        [] \<Rightarrow> Inl (ValueError ''invalid literal for int()'')
      | c # r \<Rightarrow>
          if c = CHR ''-'' then bindE (unsigned_int r) (\<lambda>n. Inr (- n))
          else if c = CHR ''+'' then unsigned_int r
          else unsigned_int (c # r))"

section \<open>Component values\<close>

datatype vval = VInt int | VStr string

text \<open>
  Python compares two numbers or two strings.  It raises on a number against a string, which
  \<open>explode_tagged\<close> below rules out for components of equal rank; the order is made total
  by putting numbers first.
\<close>

instantiation vval :: linorder
begin

fun less_vval :: "vval \<Rightarrow> vval \<Rightarrow> bool" where
  "less_vval (VInt a) (VInt b) \<longleftrightarrow> a < b"
| "less_vval (VStr a) (VStr b) \<longleftrightarrow> a < b"
| "less_vval (VInt a) (VStr b) \<longleftrightarrow> True"
| "less_vval (VStr a) (VInt b) \<longleftrightarrow> False"

definition less_eq_vval :: "vval \<Rightarrow> vval \<Rightarrow> bool" where
  "less_eq_vval a b \<longleftrightarrow> \<not> b < a"

instance
proof
  fix x y z :: vval
  show "x < y \<longleftrightarrow> x \<le> y \<and> \<not> y \<le> x"
    by (cases x; cases y) (auto simp: less_eq_vval_def)
  show "x \<le> x"
    by (cases x) (auto simp: less_eq_vval_def)
  show "x \<le> y \<Longrightarrow> y \<le> z \<Longrightarrow> x \<le> z"
    by (cases x; cases y; cases z) (auto simp: less_eq_vval_def)
  show "x \<le> y \<Longrightarrow> y \<le> x \<Longrightarrow> x = y"
    by (cases x; cases y) (auto simp: less_eq_vval_def)
  show "x \<le> y \<or> y \<le> x"
    by (cases x; cases y) (auto simp: less_eq_vval_def)
qed

end

section \<open>explode_version\<close>

text \<open>
  The tail of \<open>^(\d+)(.*)$\<close> and \<open>^([a-zA-Z]+)(.*)$\<close>: \<open>.\<close> stops at a newline and
  \<open>$\<close> also matches before a final one.  When the expression does not match, \<open>m\<close> is
  \<open>None\<close> and \<open>m.group\<close> raises.
\<close>

definition regex_rest :: "string \<Rightarrow> pyerr + string" where
  "regex_rest s =
     (let r = takeWhile (\<lambda>c. c \<noteq> CHR 0x0A) s
      in if r = s \<or> r @ [CHR 0x0A] = s then Inr r else Inl AttributeError)"

lemma length_regex_rest: "regex_rest s = Inr r \<Longrightarrow> length r \<le> length s"
  unfolding regex_rest_def Let_def
  by (cases "takeWhile (\<lambda>c. c \<noteq> CHR 0x0A) s = s \<or> takeWhile (\<lambda>c. c \<noteq> CHR 0x0A) s @ [CHR 0x0A] = s")
     (simp_all only: if_True if_False sum.inject sum.distinct, use length_takeWhile_le in blast)

function explode_version :: "string \<Rightarrow> pyerr + (int \<times> vval) list" where
  "explode_version [] = Inr []"
| "explode_version (c # s) =
     (if is_digit c then
        (case regex_rest (dropWhile is_digit s) of
           Inl e \<Rightarrow> Inl e
         | Inr r \<Rightarrow>
             bindE (explode_version r)
               (\<lambda>p. Inr ((0, VInt (digits_val (c # takeWhile is_digit s))) # p)))
      else if is_letter c then
        (case regex_rest (dropWhile is_letter s) of
           Inl e \<Rightarrow> Inl e
         | Inr r \<Rightarrow>
             bindE (explode_version r)
               (\<lambda>p. Inr ((1, VStr (c # takeWhile is_letter s)) # p)))
      else bindE (explode_version s)
             (\<lambda>p. Inr ((if c = CHR ''~'' then (- 1, VStr [c]) else (2, VStr [c])) # p)))"
  by pat_completeness auto
termination
proof (relation "measure length", goal_cases)
  case (2 c s r)
  then show ?case
    by (metis length_regex_rest in_measure length_Cons length_dropWhile_le less_Suc_eq_le order_trans)
next
  case (3 c s r)
  then show ?case
    by (metis length_regex_rest in_measure length_Cons length_dropWhile_le less_Suc_eq_le order_trans)
qed auto

section \<open>Comparison\<close>

definition vpop :: "(int \<times> vval) list \<Rightarrow> (int \<times> vval option) \<times> (int \<times> vval) list" where
  "vpop v = (case v of [] \<Rightarrow> ((0, None), []) | (p, c) # r \<Rightarrow> ((p, Some c), r))"

function vercmp_loop :: "(int \<times> vval) list \<Rightarrow> (int \<times> vval) list \<Rightarrow> int" where
  "vercmp_loop va vb =
     (case vpop va of ((oa, ca), va') \<Rightarrow> (case vpop vb of ((ob, cb), vb') \<Rightarrow>
        if (oa, ca) = (0, None) \<and> (ob, cb) = (0, None) then 0
        else if oa < ob then - 1
        else if oa > ob then 1
        else (case ca of None \<Rightarrow> - 1
              | Some x \<Rightarrow>
                  (case cb of None \<Rightarrow> 1
                   | Some y \<Rightarrow>
                       if x < y then - 1
                       else if y < x then 1
                       else vercmp_loop va' vb'))))"
  by pat_completeness auto
termination
proof (relation "measure (\<lambda>(a, b). length a + length b)", goal_cases)
  case (2 va vb)
  then show ?case
    by (cases va; cases vb) (auto simp: vpop_def)
qed auto

definition vercmp_part :: "string \<Rightarrow> string \<Rightarrow> pyerr + int" where
  "vercmp_part a b =
     bindE (explode_version a) (\<lambda>va. bindE (explode_version b) (\<lambda>vb. Inr (vercmp_loop va vb)))"

text \<open>An epoch is a number, a string from the metadata, or missing: \<open>int(e or 0)\<close>.\<close>

datatype epoch = EpInt int | EpStr string | EpNone

fun epoch_int :: "epoch \<Rightarrow> pyerr + int" where
  "epoch_int (EpInt n) = Inr n"
| "epoch_int (EpStr s) = (if s = [] then Inr 0 else py_int s)"
| "epoch_int EpNone = Inr 0"

type_synonym version = "epoch \<times> string \<times> string"

definition vercmp :: "version \<Rightarrow> version \<Rightarrow> pyerr + int" where
  "vercmp ta tb =
     (let (ea, va, ra) = ta; (eb, vb, rb) = tb
      in bindE (epoch_int ea) (\<lambda>x. bindE (epoch_int eb) (\<lambda>y.
         bindE (if x - y = 0 then vercmp_part va vb else Inr (x - y)) (\<lambda>r.
         if r = 0 then vercmp_part ra rb else Inr r))))"

definition split_version :: "string \<Rightarrow> pyerr + version" where
  "split_version s0 =
     (let s = strip_chars (\<lambda>c. c \<in> set '' <>='') s0
      in bindE (if CHR '':'' \<in> set s then py_int (hd (split_on (CHR '':'') s)) else Inr 0) (\<lambda>e.
         let s = (if CHR '':'' \<in> set s then split_on (CHR '':'') s ! 1 else s)
         in case rsplit1 (CHR ''-'') s of
              None \<Rightarrow> Inr (EpInt e, s, '''')
            | Some (v, r) \<Rightarrow> Inr (EpInt e, v, r)))"

definition vercmp_string :: "string \<Rightarrow> string \<Rightarrow> pyerr + int" where
  "vercmp_string a b =
     bindE (split_version a) (\<lambda>ta. bindE (split_version b) (\<lambda>tb. vercmp ta tb))"

definition vercmp_string_op :: "string \<Rightarrow> string \<Rightarrow> string \<Rightarrow> pyerr + bool" where
  "vercmp_string_op a b op =
     bindE (vercmp_string a b) (\<lambda>res.
       if op \<in> {''='', ''==''} then Inr (res = 0)
       else if op = ''<='' then Inr (res \<le> 0)
       else if op = ''>='' then Inr (res \<ge> 0)
       else if op \<in> {''>'', ''>>''} then Inr (res > 0)
       else if op \<in> {''<'', ''<<''} then Inr (res < 0)
       else if op = ''!='' then Inr (res \<noteq> 0)
       else Inl (VersionStringException (''Unsupported comparison operator \"'' @ op @ ''\"'')))"


section \<open>Lemmas\<close>

subsection \<open>The loop is a total order on component lists\<close>

declare vercmp_loop.simps [simp del]

lemma vercmp_loop_simps [simp]:
  "vercmp_loop [] [] = 0"
  "vercmp_loop [] ((q, y) # b) = (if q < 0 then 1 else - 1)"
  "vercmp_loop ((p, x) # a) [] = (if p < 0 then - 1 else 1)"
  "vercmp_loop ((p, x) # a) ((q, y) # b) =
     (if p < q then - 1 else if q < p then 1
      else if x < y then - 1 else if y < x then 1 else vercmp_loop a b)"
  by (subst vercmp_loop.simps, simp add: vpop_def)+

lemma vercmp_loop_induct [case_names Nil_Nil Nil_Cons Cons_Nil Cons_Cons]:
  assumes "P [] []" and "\<And>q y b. P [] ((q, y) # b)" and "\<And>p x a. P ((p, x) # a) []"
    and "\<And>p x a q y b. P a b \<Longrightarrow> P ((p, x) # a) ((q, y) # b)"
  shows "P a b"
proof (induction a arbitrary: b)
  case Nil
  then show ?case using assms(1,2) by (cases b) auto
next
  case (Cons h a)
  then show ?case using assms(3,4) by (cases h; cases b) auto
qed

lemma vercmp_loop_antisym: "vercmp_loop b a = - vercmp_loop a b"
  by (induction a b rule: vercmp_loop_induct) auto

lemma vercmp_loop_refl [simp]: "vercmp_loop a a = 0"
  using vercmp_loop_antisym [of a a] by simp

lemma vercmp_loop_zero_iff: "vercmp_loop a b = 0 \<longleftrightarrow> a = b"
  by (induction a b rule: vercmp_loop_induct) auto

lemma vercmp_loop_trans: "vercmp_loop a b \<le> 0 \<Longrightarrow> vercmp_loop b c \<le> 0 \<Longrightarrow> vercmp_loop a c \<le> 0"
proof (induction a b arbitrary: c rule: vercmp_loop_induct)
  case Nil_Nil
  then show ?case by simp
next
  case (Nil_Cons q y b)
  then show ?case by (cases c) (auto split: if_splits)
next
  case (Cons_Nil p x a)
  then show ?case by (cases c) (auto split: if_splits)
next
  case (Cons_Cons p x a q y b)
  then show ?case by (cases c) (auto split: if_splits)
qed

subsection \<open>The contract of a three-way comparison\<close>

locale three_way =
  fixes cmp :: "'a \<Rightarrow> 'a \<Rightarrow> int"
  assumes flip: "cmp y x < 0 \<longleftrightarrow> 0 < cmp x y"
    and trans_le: "cmp x y \<le> 0 \<Longrightarrow> cmp y z \<le> 0 \<Longrightarrow> cmp x z \<le> 0"
begin

lemma self [simp]: "cmp x x = 0"
  using flip [of x x] by linarith

lemma flip_le: "cmp y x \<le> 0 \<longleftrightarrow> 0 \<le> cmp x y"
  using flip [of y x] flip [of x y] by linarith

lemma trans_less_le: "cmp x y < 0 \<Longrightarrow> cmp y z \<le> 0 \<Longrightarrow> cmp x z < 0"
  using trans_le [of y z x] trans_le [of x y z] flip [of x y] flip_le [of x z]
  by (smt (verit, best) flip)

text \<open>The loop that keeps the better of the candidate so far and the next one.\<close>

lemma fold_best_ge:
  assumes "b = fold (\<lambda>x best. if cmp best x < 0 then x else best) xs a"
  shows "cmp a b \<le> 0 \<and> (\<forall>x \<in> set xs. cmp x b \<le> 0) \<and> b \<in> insert a (set xs)"
  using assms
proof (induction xs arbitrary: a)
  case Nil
  then show ?case by simp
next
  case (Cons y xs)
  let ?a = "if cmp a y < 0 then y else a"
  have a: "cmp a ?a \<le> 0" and y: "cmp y ?a \<le> 0"
    using flip_le [of y a] by auto
  from Cons have "cmp ?a b \<le> 0 \<and> (\<forall>x \<in> set xs. cmp x b \<le> 0) \<and> b \<in> insert ?a (set xs)"
    by simp
  with trans_le [OF a] trans_le [OF y] show ?case by (auto split: if_splits)
qed

lemma trans_le_less: "cmp x y \<le> 0 \<Longrightarrow> cmp y z < 0 \<Longrightarrow> cmp x z < 0"
  using trans_le [of z x y] flip_le [of x z] flip [of y z] flip_le [of x y]
  by (meson linorder_not_le flip)

end

text \<open>Lexicographic combination: the second comparison breaks the ties of the first.\<close>

definition lex_cmp ::
  "('a \<Rightarrow> 'a \<Rightarrow> int) \<Rightarrow> ('b \<Rightarrow> 'b \<Rightarrow> int) \<Rightarrow> 'a \<times> 'b \<Rightarrow> 'a \<times> 'b \<Rightarrow> int" where
  "lex_cmp c d = (\<lambda>(a, x) (b, y). if c a b \<noteq> 0 then c a b else d x y)"

lemma lex_cmp_three_way:
  assumes c: "three_way c" and d: "three_way d"
  shows "three_way (lex_cmp c d)"
proof
  fix p q r
  show "lex_cmp c d q p < 0 \<longleftrightarrow> 0 < lex_cmp c d p q"
    using three_way.flip [OF c, of "fst p" "fst q"] three_way.flip [OF c, of "fst q" "fst p"]
      three_way.flip [OF d, of "snd p" "snd q"] three_way.flip [OF d, of "snd q" "snd p"]
    by (cases p; cases q) (auto simp: lex_cmp_def)
  assume le: "lex_cmp c d p q \<le> 0" "lex_cmp c d q r \<le> 0"
  then have pq: "c (fst p) (fst q) \<le> 0" and qr: "c (fst q) (fst r) \<le> 0"
    by (auto simp: lex_cmp_def split: prod.splits if_splits)
  show "lex_cmp c d p r \<le> 0"
  proof (cases "c (fst p) (fst q) < 0 \<or> c (fst q) (fst r) < 0")
    case True
    then have "c (fst p) (fst r) < 0"
      using three_way.trans_less_le [OF c _ qr] three_way.trans_le_less [OF c pq] by blast
    then show ?thesis by (cases p; cases r) (simp add: lex_cmp_def)
  next
    case False
    then have "c (fst p) (fst q) = 0" "c (fst q) (fst r) = 0" using pq qr by auto
    moreover from this have "c (fst p) (fst r) = 0"
      using three_way.trans_le [OF c pq qr] three_way.flip_le [OF c]
      by (metis c order_antisym order_refl three_way.trans_le)
    ultimately show ?thesis
      using le three_way.trans_le [OF d] by (auto simp: lex_cmp_def split: prod.splits)
  qed
qed

interpretation comps: three_way vercmp_loop
proof
  fix x y z
  show "vercmp_loop y x < 0 \<longleftrightarrow> 0 < vercmp_loop x y"
    using vercmp_loop_antisym [of y x] by simp
  show "vercmp_loop x y \<le> 0 \<Longrightarrow> vercmp_loop y z \<le> 0 \<Longrightarrow> vercmp_loop x z \<le> 0"
    by (rule vercmp_loop_trans)
qed

text \<open>
  A version whose three fields parse has a key; on such versions \<open>vercmp\<close> is the
  comparison of keys.
\<close>

type_synonym vkey = "int \<times> (int \<times> vval) list \<times> (int \<times> vval) list"

definition version_key :: "version \<Rightarrow> pyerr + vkey" where
  "version_key t =
     (let (e, v, r) = t
      in bindE (epoch_int e) (\<lambda>n. bindE (explode_version v) (\<lambda>a.
         bindE (explode_version r) (\<lambda>b. Inr (n, a, b)))))"

definition key_cmp :: "vkey \<Rightarrow> vkey \<Rightarrow> int" where
  "key_cmp = lex_cmp (-) (lex_cmp vercmp_loop vercmp_loop)"

lemma key_cmp_zero_iff: "key_cmp a b = 0 \<longleftrightarrow> a = b"
  by (cases a; cases b) (auto simp: key_cmp_def lex_cmp_def vercmp_loop_zero_iff)

lemma version_key_Inr_iff:
  "version_key (e, v, r) = Inr (n, a, b) \<longleftrightarrow>
   epoch_int e = Inr n \<and> explode_version v = Inr a \<and> explode_version r = Inr b"
  by (auto simp: version_key_def bindE_Inr_iff)

lemma vercmp_keys:
  "version_key s = Inr a \<Longrightarrow> version_key t = Inr b \<Longrightarrow> vercmp s t = Inr (key_cmp a b)"
  by (cases s; cases t; cases a; cases b)
    (auto simp: version_key_Inr_iff vercmp_def vercmp_part_def key_cmp_def lex_cmp_def)

interpretation keys: three_way key_cmp
proof -
  have "three_way ((-) :: int \<Rightarrow> int \<Rightarrow> int)"
    by unfold_locales auto
  then show "three_way key_cmp"
    unfolding key_cmp_def
    by (intro lex_cmp_three_way comps.three_way_axioms)
qed

subsection \<open>explode_version\<close>

lemma regex_rest_line [simp]: "CHR 0x0A \<notin> set s \<Longrightarrow> regex_rest s = Inr s"
proof -
  assume "CHR 0x0A \<notin> set s"
  then have "takeWhile (\<lambda>c. c \<noteq> CHR 0x0A) s = s" by (auto simp: takeWhile_eq_all_conv)
  then show ?thesis by (simp only: regex_rest_def Let_def simp_thms if_True)
qed

declare explode_version.simps [simp del]

lemmas explode_simps = explode_version.simps [unfolded bindE_def [symmetric]]

lemma not_in_dropWhile: "x \<notin> set s \<Longrightarrow> x \<notin> set (dropWhile p s)"
  using set_dropWhileD by fastforce

text \<open>Only a newline stops the expressions from matching.\<close>

lemma explode_version_total: "CHR 0x0A \<notin> set s \<Longrightarrow> \<exists>v. explode_version s = Inr v"
proof (induction s rule: explode_version.induct)
  case 1
  then show ?case by (simp add: explode_version.simps)
next
  case (2 c s)
  then show ?case
    by (cases "is_digit c"; cases "is_letter c")
      (auto simp: explode_version.simps(2) not_in_dropWhile)
qed

definition sep_comp :: "char \<Rightarrow> int \<times> vval" where
  "sep_comp c = (if c = CHR ''~'' then - 1 else 2, VStr [c])"

text \<open>A character that is neither a digit nor a letter ends the component before it.\<close>

lemma explode_version_append:
  assumes "\<not> is_digit c" "\<not> is_letter c"
  shows "CHR 0x0A \<notin> set (a @ c # s) \<Longrightarrow>
    explode_version (a @ c # s) =
    bindE (explode_version a) (\<lambda>p. bindE (explode_version s) (\<lambda>q. Inr (p @ sep_comp c # q)))"
proof (induction a rule: explode_version.induct)
  case 1
  then show ?case using assms by (simp add: explode_version.simps sep_comp_def)
next
  case (2 d a)
  then show ?case using assms
    by (cases "is_digit d"; cases "is_letter d"; cases "explode_version s")
      (auto simp: explode_version.simps(2) not_in_dropWhile dropWhile_append3 takeWhile_tail
        bindE_def split: sum.splits)
qed

fun comp_ok :: "int \<times> vval \<Rightarrow> bool" where
  "comp_ok (r, VInt n) \<longleftrightarrow> r = 0"
| "comp_ok (r, VStr w) \<longleftrightarrow> r \<noteq> 0"

text \<open>Components of equal rank hold the same kind of value.\<close>

lemma explode_tagged: "explode_version s = Inr v \<Longrightarrow> list_all comp_ok v"
proof (induction s arbitrary: v rule: explode_version.induct)
  case 1
  then show ?case by (simp add: explode_version.simps)
next
  case (2 c s)
  from "2.prems" show ?case
    by (cases "is_digit c"; cases "is_letter c"; cases "c = CHR ''~''")
      (auto simp: explode_version.simps(2) split: sum.splits intro: "2.IH")
qed

subsection \<open>vercmp\<close>

lemma vercmp_part_flip: "vercmp_part a b = Inr x \<Longrightarrow> vercmp_part b a = Inr (- x)"
proof -
  assume "vercmp_part a b = Inr x"
  then obtain v w where "explode_version a = Inr v" "explode_version b = Inr w" "x = vercmp_loop v w"
    by (auto simp: vercmp_part_def)
  then show ?thesis using vercmp_loop_antisym [of w v] by (simp add: vercmp_part_def)
qed

lemma vercmp_flip: "vercmp a b = Inr x \<Longrightarrow> vercmp b a = Inr (- x)"
proof -
  assume ab: "vercmp a b = Inr x"
  obtain ea va ra eb vb rb where t: "a = (ea, va, ra)" "b = (eb, vb, rb)"
    by (metis prod_cases3)
  from ab obtain l m where e: "epoch_int ea = Inr l" "epoch_int eb = Inr m"
    by (auto simp: t vercmp_def)
  show ?thesis
  proof (cases "l = m")
    case True
    with ab e obtain p where p: "vercmp_part va vb = Inr p"
      and x: "(if p = 0 then vercmp_part ra rb else Inr p) = Inr x"
      by (auto simp: t vercmp_def)
    show ?thesis
      using vercmp_part_flip [OF p] x vercmp_part_flip [of ra rb x] True e
      by (simp add: t vercmp_def split: if_splits)
  next
    case False
    with ab e show ?thesis by (simp add: t vercmp_def)
  qed
qed

lemma vercmp_part_trans:
  "vercmp_part a b = Inr x \<Longrightarrow> vercmp_part b c = Inr y \<Longrightarrow> x \<le> 0 \<Longrightarrow> y \<le> 0 \<Longrightarrow>
   \<exists>z. vercmp_part a c = Inr z \<and> z \<le> 0 \<and> (z = 0 \<longrightarrow> x = 0 \<and> y = 0)"
proof -
  assume "vercmp_part a b = Inr x" "vercmp_part b c = Inr y" "x \<le> 0" "y \<le> 0"
  then obtain u v w where "explode_version a = Inr u" "explode_version b = Inr v"
    "explode_version c = Inr w" and xy: "x = vercmp_loop u v" "y = vercmp_loop v w"
    by (auto simp: vercmp_part_def)
  moreover have "vercmp_loop u w \<le> 0 \<and> (vercmp_loop u w = 0 \<longrightarrow> x = 0 \<and> y = 0)"
    using \<open>x \<le> 0\<close> \<open>y \<le> 0\<close> xy comps.trans_le [of u v w] comps.trans_less_le [of u v w]
      comps.trans_le_less [of u v w] by force
  ultimately show ?thesis by (simp add: vercmp_part_def)
qed

lemma vercmp_trans:
  assumes ab: "vercmp a b = Inr x" and bc: "vercmp b c = Inr y" and le: "x \<le> 0" "y \<le> 0"
  shows "\<exists>z. vercmp a c = Inr z \<and> z \<le> 0"
proof -
  obtain ea va ra eb vb rb ec vc rc where
    t: "a = (ea, va, ra)" "b = (eb, vb, rb)" "c = (ec, vc, rc)"
    by (metis prod_cases3)
  from ab bc obtain l m n where e: "epoch_int ea = Inr l" "epoch_int eb = Inr m" "epoch_int ec = Inr n"
    by (auto simp: t vercmp_def)
  show ?thesis
  proof (cases "l = m \<and> m = n")
    case False
    then have "l \<noteq> n \<and> l - n \<le> 0"
      using ab bc le e by (auto simp: t vercmp_def split: if_splits)
    then show ?thesis using e by (simp add: t vercmp_def)
  next
    case True
    with ab bc e obtain p q where p: "vercmp_part va vb = Inr p" and q: "vercmp_part vb vc = Inr q"
      and x: "(if p = 0 then vercmp_part ra rb else Inr p) = Inr x"
      and y: "(if q = 0 then vercmp_part rb rc else Inr q) = Inr y"
      by (auto simp: t vercmp_def)
    have pq: "p \<le> 0" "q \<le> 0" using x y le by (auto split: if_splits)
    obtain z where z: "vercmp_part va vc = Inr z" "z \<le> 0" "z = 0 \<longrightarrow> p = 0 \<and> q = 0"
      using vercmp_part_trans [OF p q pq] by blast
    show ?thesis
    proof (cases "z = 0")
      case True
      with z x y have "vercmp_part ra rb = Inr x" "vercmp_part rb rc = Inr y" by auto
      from vercmp_part_trans [OF this le] show ?thesis
        using z True e \<open>l = m \<and> m = n\<close> by (auto simp: t vercmp_def)
    next
      case False
      with z e \<open>l = m \<and> m = n\<close> show ?thesis by (simp add: t vercmp_def)
    qed
  qed
qed



text \<open>
  A \<open>~\<close> suffix sorts before the version it is attached to, any other separator sorts
  after it: \<open>1.0~rc1 < 1.0 < 1.0.1\<close>, for all versions on one line.
\<close>

theorem vercmp_part_suffix:
  assumes "CHR 0x0A \<notin> set (a @ c # s)" and "\<not> is_digit c" and "\<not> is_letter c"
  shows "vercmp_part (a @ c # s) a = Inr (if c = CHR ''~'' then - 1 else 1)"
proof -
  obtain p q where p: "explode_version a = Inr p" "explode_version s = Inr q"
    using explode_version_total [of a] explode_version_total [of s] assms(1) by auto
  have "vercmp_loop (p @ sep_comp c # q) p = vercmp_loop (sep_comp c # q) []"
    by (induction p) auto
  then show ?thesis
    using p explode_version_append [OF assms(2,3,1)]
    by (simp add: vercmp_part_def sep_comp_def)
qed

theorem vercmp_part_suffix_witness: "vercmp_part ''1.0~rc1'' ''1.0'' = Inr (- 1)"
proof -
  have "CHR 0x0A \<notin> set (''1.0'' @ CHR ''~'' # ''rc1'')" "\<not> is_digit (CHR ''~'')"
    "\<not> is_letter (CHR ''~'')"
    by code_simp+
  from vercmp_part_suffix [OF this] show ?thesis by simp
qed

end
