(* ===== verification/DepStrings.thy ===== *)
theory DepStrings
  imports Prelude
begin

text \<open>
  Dependency strings and word lists of \<open>poky/bitbake/lib/bb/utils.py\<close>: \<open>explode_deps\<close> and
  \<open>explode_dep_versions2\<close> read a string such as \<open>a (>= 1.0), b\<close>, \<open>join_deps\<close> writes one;
  \<open>to_boolean\<close>, \<open>contains\<close>, \<open>contains_any\<close> and \<open>filter\<close> are the conditionals of recipes.
\<close>

section \<open>explode_deps\<close>

fun explode_deps_loop :: "bool \<Rightarrow> string list \<Rightarrow> string list" where
  "explode_deps_loop flag [] = []"
| "explode_deps_loop flag (i # l) =
     (let flag = (if startswith i ''('' then True else flag);
          r = (if flag then [] else [i])
      in r @ explode_deps_loop (if flag \<and> endswith i '')'' then False else flag) l)"

definition explode_deps :: "string \<Rightarrow> string list" where
  "explode_deps s = explode_deps_loop False (words s)"

section \<open>explode_dep_versions2\<close>

text \<open>
  The variables of the loop.  \<open>lastdep\<close> is \<open>None\<close> until the first name, and \<open>None\<close> is then
  used as a key when the string starts with a version.
\<close>

record depvars =
  dv_r :: "(string option, string list) dict"
  dv_lastdep :: "string option"
  dv_lastcmp :: string
  dv_lastver :: string
  dv_incmp :: bool
  dv_inversion :: bool

definition depvars_init :: depvars where
  "depvars_init = \<lparr>dv_r = [], dv_lastdep = None, dv_lastcmp = '''', dv_lastver = '''',
     dv_incmp = False, dv_inversion = False\<rparr>"

definition ops2 :: "string list" where
  "ops2 = [''<='', ''=<'', ''<<'', ''=='', ''!='', ''>='', ''=>'', ''>>'']"

definition ops1 :: "string list" where
  "ops1 = [''<'', ''>'', ''='']"

text \<open>The operator at the head of \<open>i\<close> and the rest.\<close>

definition split_op :: "string \<Rightarrow> pyerr + (string \<times> string)" where
  "split_op i =
     (if \<exists>p \<in> set ops2. startswith i p then Inr (take 2 i, drop 2 i)
      else if \<exists>p \<in> set ops1. startswith i p then Inr (take 1 i, drop 1 i)
      else Inl (VersionStringException ''missing operator''))"

definition in_version :: "string \<Rightarrow> depvars \<Rightarrow> depvars" where
  "in_version i v =
     (let fin = endswith i '')'';
          i = (if fin then butlast i else i);
          lastver = (if fin \<and> dv_lastver v \<noteq> '''' \<and> i \<noteq> '''' then dv_lastver v @ '' '' else dv_lastver v);
          v = v\<lparr>dv_inversion := \<not> fin, dv_lastver := lastver\<rparr>
      in if i = '''' then v
         else (let ver = lastver @ i
               in v\<lparr>dv_lastver := ver,
                    dv_r := dappend (dv_lastdep v) (dv_lastcmp v @ '' '' @ ver) (dv_r v)\<rparr>))"

definition new_dep :: "string \<Rightarrow> depvars \<Rightarrow> depvars" where
  "new_dep i v =
     v\<lparr>dv_lastdep := Some i, dv_lastver := '''', dv_lastcmp := '''',
       dv_r := (if dgetd (dv_r v) (Some i) [] \<noteq> [] then dv_r v else dset (Some i) [] (dv_r v))\<rparr>"

definition dep_word :: "string \<Rightarrow> depvars \<Rightarrow> pyerr + depvars" where
  "dep_word i v =
     (let paren = startswith i ''('';
          v = (if paren then v\<lparr>dv_incmp := True\<rparr> else v);
          i = (if paren then tl i else i)
      in if paren \<and> i = '''' then Inr v
         else if dv_incmp v then
           bindE (split_op i) (\<lambda>(op, i).
             let v = v\<lparr>dv_incmp := False, dv_inversion := True, dv_lastcmp := op\<rparr>
             in if i = '''' then Inr v else Inr (in_version i v))
         else if dv_inversion v then Inr (in_version i v)
         else Inr (new_dep i v))"

text \<open>Sorting items by name compares \<open>None\<close> with a string, which raises.\<close>

definition sort_items :: "(string option, 'v) dict \<Rightarrow> pyerr + (string option, 'v) dict" where
  "sort_items r =
     (if None \<in> set (dkeys r) \<and> length r > 1 then Inl TypeError
      else Inr (sort_key (\<lambda>(k, _). case k of None \<Rightarrow> [] | Some s \<Rightarrow> s) r))"

definition explode_dep_versions2 :: "string \<Rightarrow> bool \<Rightarrow> pyerr + (string option, string list) dict" where
  "explode_dep_versions2 s do_sort =
     bindE (foldE dep_word (words (filter (\<lambda>c. c \<noteq> CHR '','') s)) depvars_init) (\<lambda>v.
       if do_sort then sort_items (dv_r v) else Inr (dv_r v))"

definition explode_dep_versions :: "string \<Rightarrow> pyerr + (string option, string option) dict" where
  "explode_dep_versions s =
     bindE (explode_dep_versions2 s True) (\<lambda>r.
       Inr (map (\<lambda>(d, vs). (d, case vs of [] \<Rightarrow> None | v # _ \<Rightarrow> Some v)) r))"

section \<open>join_deps\<close>

text \<open>A value of the dictionary given to \<open>join_deps\<close>: nothing, one version, or a list.\<close>

datatype depval = NoVersion | Version string | Versions "string list"

fun join_dep :: "string \<times> depval \<Rightarrow> string list" where
  "join_dep (dep, NoVersion) = [dep]"
| "join_dep (dep, Version v) = (if v = '''' then [dep] else [dep @ '' ('' @ v @ '')''])"
| "join_dep (dep, Versions vs) =
     (if vs = [] then [dep] else map (\<lambda>v. dep @ '' ('' @ v @ '')'') vs)"

definition join_deps :: "(string, depval) dict \<Rightarrow> bool \<Rightarrow> string" where
  "join_deps deps commasep =
     (let result = concat (map join_dep deps)
      in if commasep then join_with '', '' result else join_with '' '' result)"

section \<open>Conditionals\<close>

text \<open>\<open>string.lower()\<close> on the letters that can make one of the accepted words.\<close>

definition lower_char :: "char \<Rightarrow> char" where
  "lower_char c =
     (let n = of_char c :: nat
      in if 65 \<le> n \<and> n \<le> 90 \<or> 192 \<le> n \<and> n \<le> 222 \<and> n \<noteq> 215 then char_of (n + 32) else c)"

datatype boolarg = BNone | BInt int | BStr string

definition to_boolean :: "boolarg \<Rightarrow> bool option \<Rightarrow> pyerr + bool option" where
  "to_boolean arg dflt =
     (case arg of
        BNone \<Rightarrow> Inr dflt
      | BInt n \<Rightarrow> Inr (if n = 0 then dflt else Some True)
      | BStr s \<Rightarrow>
          if s = '''' then Inr dflt
          else (let normalized = map lower_char s
                in if normalized \<in> set [''y'', ''yes'', ''1'', ''true''] then Inr (Some True)
                   else if normalized \<in> set [''n'', ''no'', ''0'', ''false''] then Inr (Some False)
                   else Inl (ValueError (''Invalid value for to_boolean: '' @ s))))"

text \<open>The values to look for are a string of words or a collection.\<close>

datatype checkvals = CStr string | CList "string list"

fun check_set :: "checkvals \<Rightarrow> string list" where
  "check_set (CStr s) = remdups (words s)"
| "check_set (CList l) = remdups l"

definition truthy :: "string option \<Rightarrow> bool" where
  "truthy v \<longleftrightarrow> (case v of None \<Rightarrow> False | Some s \<Rightarrow> s \<noteq> [])"

definition contains :: "(string \<Rightarrow> string option) \<Rightarrow> string \<Rightarrow> checkvals \<Rightarrow> 'v \<Rightarrow> 'v \<Rightarrow> 'v" where
  "contains d variable checkvalues truevalue falsevalue =
     (let val = d variable
      in if \<not> truthy val then falsevalue
         else if ssubset (check_set checkvalues) (words (the val)) then truevalue else falsevalue)"

definition contains_any :: "(string \<Rightarrow> string option) \<Rightarrow> string \<Rightarrow> checkvals \<Rightarrow> 'v \<Rightarrow> 'v \<Rightarrow> 'v" where
  "contains_any d variable checkvalues truevalue falsevalue =
     (let val = d variable
      in if \<not> truthy val then falsevalue
         else if sinter (check_set checkvalues) (words (the val)) \<noteq> [] then truevalue else falsevalue)"

definition filter_var :: "(string \<Rightarrow> string option) \<Rightarrow> string \<Rightarrow> checkvals \<Rightarrow> string" where
  "filter_var d variable checkvalues =
     (let val = d variable
      in if \<not> truthy val then ''''
         else join_with '' '' (sort (sinter (check_set checkvalues) (words (the val)))))"

end
