(* ===== verification/Tids.thy ===== *)
theory Tids
  imports Prelude
begin

text \<open>
  Task identifiers, from the head of \<open>poky/bitbake/lib/bb/runqueue.py\<close>.  A task of the
  file \<open>fn\<close> is \<open>fn:task\<close>, or \<open>mc:name:fn:task\<close> in the multiconfig \<open>name\<close>.  A
  string that does not have the expected colons raises where the code indexes past the
  split.
\<close>

type_synonym tid = string

definition fn_from_tid :: "tid \<Rightarrow> string" where
  "fn_from_tid tid = (case rsplit1 (CHR '':'') tid of None \<Rightarrow> tid | Some (a, b) \<Rightarrow> a)"

definition taskname_from_tid :: "tid \<Rightarrow> pyerr + string" where
  "taskname_from_tid tid =
     (case rsplit1 (CHR '':'') tid of None \<Rightarrow> Inl IndexError | Some (a, b) \<Rightarrow> Inr b)"

text \<open>The test \<open>tid.startswith('mc:') and tid.count(':') >= 2\<close>.\<close>

definition has_mc :: "string \<Rightarrow> bool" where
  "has_mc n \<longleftrightarrow> startswith n ''mc:'' \<and> 2 \<le> count_list n (CHR '':'')"

definition mc_from_tid :: "tid \<Rightarrow> string" where
  "mc_from_tid tid = (if has_mc tid then split_on (CHR '':'') tid ! 1 else '''')"

definition split_tid_mcfn :: "tid \<Rightarrow> pyerr + (string \<times> string \<times> string \<times> string)" where
  "split_tid_mcfn tid =
     (if has_mc tid then
        (let elems = split_on (CHR '':'') tid;
             mc = elems ! 1;
             fn = join_with '':'' (butlast (drop 2 elems));
             taskname = last elems;
             mcfn = ''mc:'' @ mc @ '':'' @ fn
         in Inr (mc, fn, taskname, mcfn))
      else
        (case rsplit1 (CHR '':'') tid of
           None \<Rightarrow> Inl IndexError
         | Some (fn, taskname) \<Rightarrow> Inr ('''', fn, taskname, fn)))"

definition split_tid :: "tid \<Rightarrow> pyerr + (string \<times> string \<times> string)" where
  "split_tid tid = bindE (split_tid_mcfn tid) (\<lambda>(mc, fn, taskname, _). Inr (mc, fn, taskname))"

text \<open>\<open>n.split(":", 2)\<close> of a name with two colons: the rest after the second stays whole.\<close>

definition split_mc :: "string \<Rightarrow> string \<times> string" where
  "split_mc n =
     (if has_mc n
      then (let elems = split_on (CHR '':'') n in (elems ! 1, join_with '':'' (drop 2 elems)))
      else ('''', n))"

definition build_tid :: "string \<Rightarrow> string \<Rightarrow> string \<Rightarrow> tid" where
  "build_tid mc fn taskname =
     (if mc \<noteq> '''' then ''mc:'' @ mc @ '':'' @ fn @ '':'' @ taskname
      else fn @ '':'' @ taskname)"

section \<open>Lemmas\<close>

lemma join_with_append:
  "xs \<noteq> [] \<Longrightarrow> ys \<noteq> [] \<Longrightarrow> join_with s (xs @ ys) = join_with s xs @ s @ join_with s ys"
proof (induction s xs rule: join_with.induct)
  case (2 s x)
  then show ?case by (cases ys) auto
qed auto

lemma split_on_append_last:
  "c \<notin> set b \<Longrightarrow> split_on c (a @ c # b) = split_on c a @ [b]"
proof (induction a)
  case (Cons x a)
  then show ?case by (cases "split_on c a") auto
qed simp

lemma has_mc_build:
  "CHR '':'' \<notin> set mc \<Longrightarrow> has_mc (''mc:'' @ mc @ '':'' @ r)"
  by (simp add: has_mc_def startswith_def)

lemma split_mc_form:
  "CHR '':'' \<notin> set mc \<Longrightarrow>
   split_on (CHR '':'') (''mc:'' @ mc @ '':'' @ r) = [''mc'', mc] @ split_on (CHR '':'') r"
  using split_on_append_sep [of "CHR '':''" "''mc''" "mc @ '':'' @ r"]
    split_on_append_sep [of "CHR '':''" mc r] by simp

text \<open>A well-formed file name: no multiconfig prefix of its own.\<close>

definition plain_fn :: "string \<Rightarrow> bool" where
  "plain_fn fn \<longleftrightarrow> \<not> startswith fn ''mc:''"

lemma startswith_mc_append:
  "\<not> startswith fn ''mc:'' \<Longrightarrow> CHR '':'' \<notin> set t \<Longrightarrow> startswith (fn @ '':'' @ t) ''mc:'' \<Longrightarrow> fn = ''mc''"
  by (cases fn; cases "tl fn"; cases "tl (tl fn)") (auto simp: startswith_def split: if_splits)

lemma has_mc_plain:
  assumes "plain_fn fn" "CHR '':'' \<notin> set t"
  shows "\<not> has_mc (fn @ '':'' @ t)"
proof
  assume h: "has_mc (fn @ '':'' @ t)"
  with assms have "fn = ''mc''" by (auto simp: has_mc_def plain_fn_def dest: startswith_mc_append)
  with h assms(2) show False by (simp add: has_mc_def count_notin)
qed

text \<open>
  \<open>split_tid_mcfn\<close> inverts \<open>build_tid\<close>, for a multiconfig name and a task name without
  colons: the parts come back, with the multiconfig prefix on the last one.
\<close>

theorem split_build_tid:
  assumes "CHR '':'' \<notin> set mc" and "CHR '':'' \<notin> set t" and "mc = '''' \<Longrightarrow> plain_fn fn"
  shows "split_tid_mcfn (build_tid mc fn t) =
    Inr (mc, fn, t, if mc = '''' then fn else ''mc:'' @ mc @ '':'' @ fn)"
proof (cases "mc = ''''")
  case True
  with assms has_mc_plain [of fn t] show ?thesis
    using rsplit1_append [of "CHR '':''" t fn]
    by (simp add: split_tid_mcfn_def build_tid_def)
next
  case False
  let ?r = "fn @ '':'' @ t"
  have "split_on (CHR '':'') (''mc:'' @ mc @ '':'' @ ?r)
      = ''mc'' # mc # split_on (CHR '':'') fn @ [t]"
    using split_mc_form [OF assms(1), of ?r] split_on_append_last [OF assms(2), of fn] by simp
  with False has_mc_build [OF assms(1), of ?r] join_split [of "CHR '':''" fn] show ?thesis
    by (simp add: split_tid_mcfn_def build_tid_def)
qed

theorem split_build_tid_witness:
  "split_tid_mcfn (build_tid ''musl'' ''virtual:native:/r/m4.bb'' ''do_compile'') =
   Inr (''musl'', ''virtual:native:/r/m4.bb'', ''do_compile'', ''mc:musl:virtual:native:/r/m4.bb'')"
proof -
  have "CHR '':'' \<notin> set ''musl''" "CHR '':'' \<notin> set ''do_compile''"
    "''musl'' = '''' \<Longrightarrow> plain_fn ''virtual:native:/r/m4.bb''"
    by simp_all
  from split_build_tid [OF this] show ?thesis by simp
qed

text \<open>The other direction: a tid is the join of its parts.\<close>

lemma build_split_tid:
  assumes "split_tid tid = Inr (mc, fn, t)" and "\<not> has_mc tid \<or> (mc \<noteq> '''' \<and> 3 \<le> count_list tid (CHR '':''))"
  shows "build_tid mc fn t = tid"
proof (cases "has_mc tid")
  case False
  with assms show ?thesis
    by (auto simp: split_tid_def split_tid_mcfn_def build_tid_def split: option.splits
        dest: rsplit1_SomeD)
next
  case True
  let ?e = "split_on (CHR '':'') tid"
  have len: "4 \<le> length ?e" using assms(2) True by (simp add: length_split_on)
  then obtain a b e1 es where e: "?e = a # b # e1 # es" "es \<noteq> []"
    by (cases ?e; cases "tl ?e"; cases "tl (tl ?e)"; cases "tl (tl (tl ?e))") auto
  have j: "join_with '':'' ?e = tid" by (rule join_split)
  have "startswith tid ''mc:''" using True by (simp add: has_mc_def)
  then have "a = ''mc''"
    using e(1) split_on_append_sep [of "CHR '':''" "''mc''" "drop 3 tid"]
    by (auto simp: startswith_iff)
  moreover have "join_with '':'' (e1 # es) = join_with '':'' (butlast (e1 # es)) @ '':'' @ last es"
    using join_with_append [of "butlast (e1 # es)" "[last es]" "'':''"] e(2) by simp
  moreover have "mc = b" "fn = join_with '':'' (butlast (e1 # es))" "t = last es" "mc \<noteq> ''''"
    using assms True e by (auto simp: split_tid_def split_tid_mcfn_def Let_def)
  ultimately show ?thesis using j e by (simp add: build_tid_def)
qed

lemma fn_from_tid_append [simp]: "CHR '':'' \<notin> set t \<Longrightarrow> fn_from_tid (fn @ '':'' @ t) = fn"
  by (simp add: fn_from_tid_def)

lemma taskname_from_tid_append [simp]:
  "CHR '':'' \<notin> set t \<Longrightarrow> taskname_from_tid (fn @ '':'' @ t) = Inr t"
  by (simp add: taskname_from_tid_def)

lemma taskname_from_tid_total: "CHR '':'' \<in> set tid \<Longrightarrow> \<exists>t. taskname_from_tid tid = Inr t"
  by (auto simp: taskname_from_tid_def rsplit1_def)

lemma split_tid_mcfn_total: "CHR '':'' \<in> set tid \<Longrightarrow> \<exists>r. split_tid_mcfn tid = Inr r"
  by (auto simp: split_tid_mcfn_def rsplit1_def Let_def)

end
