(* ===== verification/DataCache.thy ===== *)
theory DataCache
  imports DepStrings
begin

text \<open>
  The data cache of \<open>poky/bitbake/lib/bb/cache.py\<close>: \<open>cache_init\<close> is \<open>init_cacheData\<close> of
  \<open>CoreRecipeInfo\<close> and \<open>add_cacheData\<close> enters one parsed recipe file.  The indexes by name
  (\<open>providers\<close>, \<open>rproviders\<close>, \<open>packages\<close> and so on) are what the provider selection and the task
  data read.
\<close>

section \<open>Recipe files\<close>

text \<open>
  The task dependency data of a file: the task names, the tasks each comes after, and the
  flags, per flag name and task (\<open>depends\<close>, \<open>rdepends\<close>, \<open>mcdepends\<close>, \<open>recrdeptask\<close>, \<open>noexec\<close>,
  \<open>nostamp\<close>, \<open>fakeroot\<close> and so on).
\<close>

type_synonym flag_map = "(string, (string, string) dict) dict"

record task_deps =
  td_tasks :: "string list"
  td_parents :: "(string, string list) dict"
  td_flags :: flag_map

definition flagged :: "task_deps \<Rightarrow> string \<Rightarrow> string \<Rightarrow> bool" where
  "flagged taskdep flag task =
     (case map_of (td_flags taskdep) flag of None \<Rightarrow> False | Some ts \<Rightarrow> din task ts)"

definition flag_value :: "task_deps \<Rightarrow> string \<Rightarrow> string \<Rightarrow> string option" where
  "flag_value taskdep flag task =
     (case map_of (td_flags taskdep) flag of None \<Rightarrow> None | Some ts \<Rightarrow> map_of ts task)"

type_synonym pepvpr = "string \<times> string \<times> string"

text \<open>The fields of \<open>CoreRecipeInfo\<close> that \<open>add_cacheData\<close> reads.\<close>

record recipe_info =
  ri_pn :: string
  ri_provides :: "string list"
  ri_rprovides :: "string list"
  ri_packages :: "string list"
  ri_packages_dynamic :: "string list"
  ri_rprovides_pkg :: "(string, string list) dict"
  ri_task_deps :: task_deps
  ri_pepvpr :: pepvpr
  ri_defaultpref :: int
  ri_not_world :: boolarg
  ri_stamp :: string
  ri_stampclean :: string
  ri_depends :: "string list"
  ri_rdepends :: "string list"
  ri_rrecommends :: "string list"
  ri_rdepends_pkg :: "(string, string list) dict"
  ri_rrecommends_pkg :: "(string, string list) dict"
  ri_inherits :: string
  ri_fakerootenv :: string
  ri_fakerootdirs :: string
  ri_fakerootlogs :: string
  ri_fakerootnoenv :: string
  ri_extradepsfunc :: "string option"
  ri_hashfilename :: string
  ri_basetaskhashes :: "(string, string) dict"
  ri_stamp_extrainfo :: "(string, string) dict"
  ri_file_checksums :: "(string, string) dict"

section \<open>The cache\<close>

text \<open>
  Dictionaries made with \<open>defaultdict\<close> enter the default value when a missing key is read.
  \<open>ignored_dependencies\<close>, \<open>preferred\<close>, \<open>world_target\<close> and \<open>bbfile_priority\<close> are fields the
  cooker adds to the cache.
\<close>

record cache =
  task_deps_of :: "(string, task_deps) dict"
  pkg_fn :: "(string, string) dict"
  pkg_pn :: "(string, string list) dict"
  pkg_pepvpr :: "(string, pepvpr) dict"
  pkg_dp :: "(string, int) dict"
  stamp_of :: "(string, string) dict"
  stampclean_of :: "(string, string) dict"
  stamp_extrainfo_of :: "(string, (string, string) dict) dict"
  file_checksums_of :: "(string, (string, string) dict) dict"
  fn_provides :: "(string, string list) dict"
  pn_provides :: "(string, string list) dict"
  all_depends :: "string list"
  deps :: "(string, string list) dict"
  packages :: "(string, string list) dict"
  providers :: "(string, string list) dict"
  rproviders :: "(string, string list) dict"
  packages_dynamic :: "(string, string list) dict"
  rundeps :: "(string, (string, string list) dict) dict"
  runrecs :: "(string, (string, string list) dict) dict"
  possible_world :: "string list"
  universe_target :: "string list"
  hashfn :: "(string, string) dict"
  basetaskhash :: "(string, string) dict"
  inherits_of :: "(string, string) dict"
  fakerootenv_of :: "(string, string) dict"
  fakerootnoenv_of :: "(string, string) dict"
  fakerootdirs_of :: "(string, string) dict"
  fakerootlogs_of :: "(string, string) dict"
  extradepsfunc :: "(string, string option) dict"
  ignored_dependencies :: "string list"
  preferred :: "(string, string) dict"
  world_target :: "string list"
  bbfile_priority :: "(string, int) dict"

definition cache_init :: cache where
  "cache_init =
     \<lparr>task_deps_of = [], pkg_fn = [], pkg_pn = [], pkg_pepvpr = [], pkg_dp = [], stamp_of = [],
      stampclean_of = [], stamp_extrainfo_of = [], file_checksums_of = [], fn_provides = [],
      pn_provides = [], all_depends = [], deps = [], packages = [], providers = [],
      rproviders = [], packages_dynamic = [], rundeps = [], runrecs = [], possible_world = [],
      universe_target = [], hashfn = [], basetaskhash = [], inherits_of = [], fakerootenv_of = [],
      fakerootnoenv_of = [], fakerootdirs_of = [], fakerootlogs_of = [], extradepsfunc = [],
      ignored_dependencies = [], preferred = [], world_target = [], bbfile_priority = []\<rparr>"

text \<open>\<open>if v not in d[k]: d[k].append(v)\<close> on a \<open>defaultdict(list)\<close>.\<close>

definition dappend_new :: "'k \<Rightarrow> 'v \<Rightarrow> ('k, 'v list) dict \<Rightarrow> ('k, 'v list) dict" where
  "dappend_new k v d = (if v \<in> set (dgetd d k []) then d else dappend k v d)"

section \<open>add_cacheData\<close>

definition add_names :: "string \<Rightarrow> recipe_info \<Rightarrow> cache \<Rightarrow> cache" where
  "add_names fn info c =
     c\<lparr>task_deps_of := dset fn (ri_task_deps info) (task_deps_of c),
       pkg_fn := dset fn (ri_pn info) (pkg_fn c),
       pkg_pn := dappend (ri_pn info) fn (pkg_pn c),
       pkg_pepvpr := dset fn (ri_pepvpr info) (pkg_pepvpr c),
       pkg_dp := dset fn (ri_defaultpref info) (pkg_dp c),
       stamp_of := dset fn (ri_stamp info) (stamp_of c),
       stampclean_of := dset fn (ri_stampclean info) (stampclean_of c),
       stamp_extrainfo_of := dset fn (ri_stamp_extrainfo info) (stamp_extrainfo_of c),
       file_checksums_of := dset fn (ri_file_checksums info) (file_checksums_of c)\<rparr>"

definition provides_list :: "recipe_info \<Rightarrow> string list" where
  "provides_list info = fold sadd (ri_provides info) [ri_pn info]"

definition add_provides :: "string \<Rightarrow> recipe_info \<Rightarrow> cache \<Rightarrow> cache" where
  "add_provides fn info c =
     fold (\<lambda>p c. c\<lparr>providers := dappend p fn (providers c),
                    pn_provides := dappend_new (ri_pn info) p (pn_provides c)\<rparr>)
       (provides_list info)
       (c\<lparr>fn_provides := dset fn (provides_list info) (fn_provides c)\<rparr>)"

definition add_depends :: "string \<Rightarrow> recipe_info \<Rightarrow> cache \<Rightarrow> cache" where
  "add_depends fn info c =
     fold (\<lambda>dep c. c\<lparr>deps := dappend_new fn dep (deps c), all_depends := sadd dep (all_depends c)\<rparr>)
       (ri_depends info) c"

text \<open>\<open>rprovides += \<dots>\<close> extends the list of the recipe itself, so the recipe is returned too.\<close>

definition add_packages :: "string \<Rightarrow> recipe_info \<times> cache \<Rightarrow> pyerr + (recipe_info \<times> cache)" where
  "add_packages fn = (\<lambda>(info, c).
     foldE (\<lambda>p (info, c).
         bindE (dget (ri_rprovides_pkg info) p) (\<lambda>rp.
           Inr (info\<lparr>ri_rprovides := ri_rprovides info @ rp\<rparr>,
                c\<lparr>packages := dappend p fn (packages c)\<rparr>)))
       (ri_packages info) (info, c))"

definition add_rprovides :: "string \<Rightarrow> recipe_info \<Rightarrow> cache \<Rightarrow> cache" where
  "add_rprovides fn info c =
     (let c = fold (\<lambda>rp c. c\<lparr>rproviders := dappend_new rp fn (rproviders c)\<rparr>) (ri_rprovides info) c
      in fold (\<lambda>p c. c\<lparr>packages_dynamic := dappend p fn (packages_dynamic c)\<rparr>)
           (ri_packages_dynamic info) c)"

definition add_runtime :: "string \<Rightarrow> recipe_info \<Rightarrow> cache \<Rightarrow> pyerr + cache" where
  "add_runtime fn info c =
     foldE (\<lambda>p c.
         bindE (dget (ri_rdepends_pkg info) p) (\<lambda>rd.
         bindE (dget (ri_rrecommends_pkg info) p) (\<lambda>rr.
           Inr (c\<lparr>rundeps := dset fn (dset p (ri_rdepends info @ rd) (dgetd (rundeps c) fn [])) (rundeps c),
                  runrecs := dset fn (dset p (ri_rrecommends info @ rr) (dgetd (runrecs c) fn [])) (runrecs c)\<rparr>))))
       (ri_packages info) c"

definition add_world :: "string \<Rightarrow> recipe_info \<Rightarrow> cache \<Rightarrow> pyerr + cache" where
  "add_world fn info c =
     bindE (to_boolean (ri_not_world info) None) (\<lambda>nw.
       let c = (if nw = Some True then c else c\<lparr>possible_world := possible_world c @ [fn]\<rparr>);
           c = c\<lparr>universe_target := universe_target c @ [ri_pn info],
                 hashfn := dset fn (ri_hashfilename info) (hashfn c)\<rparr>;
           c = fold (\<lambda>(task, h) c. c\<lparr>basetaskhash := dset (fn @ '':'' @ task) h (basetaskhash c)\<rparr>)
                 (ri_basetaskhashes info) c
       in Inr (c\<lparr>inherits_of := dset fn (ri_inherits info) (inherits_of c),
                 fakerootenv_of := dset fn (ri_fakerootenv info) (fakerootenv_of c),
                 fakerootnoenv_of := dset fn (ri_fakerootnoenv info) (fakerootnoenv_of c),
                 fakerootdirs_of := dset fn (ri_fakerootdirs info) (fakerootdirs_of c),
                 fakerootlogs_of := dset fn (ri_fakerootlogs info) (fakerootlogs_of c),
                 extradepsfunc := dset fn (ri_extradepsfunc info) (extradepsfunc c)\<rparr>))"

definition add_cacheData :: "string \<Rightarrow> recipe_info \<Rightarrow> cache \<Rightarrow> pyerr + (recipe_info \<times> cache)" where
  "add_cacheData fn info c =
     bindE (add_packages fn (info, add_depends fn info (add_provides fn info (add_names fn info c))))
       (\<lambda>(info, c).
     bindE (add_runtime fn info (add_rprovides fn info c)) (\<lambda>c.
     bindE (add_world fn info c) (\<lambda>c. Inr (info, c))))"

end
