(* ===== verification/Providers.thy ===== *)
theory Providers
  imports Version DataCache "HOL-Library.Multiset"
begin

text \<open>
  Provider selection, from \<open>poky/bitbake/lib/bb/providers.py\<close>: which recipe file builds a
  target.  The configuration store is its \<open>getVar\<close> function, and a regular
  expression given by the metadata is the function \<open>re.compile\<close> returns for it (\<open>None\<close>
  when it does not compile).  Log messages are left out.
\<close>

type_synonym getvar = "string \<Rightarrow> string option"
type_synonym regex = "string \<Rightarrow> (string \<Rightarrow> bool) option"

section \<open>Priorities and preferred versions\<close>

definition allProviders :: "cache \<Rightarrow> pyerr + (string, (pepvpr \<times> string) list) dict" where
  "allProviders c =
     foldE (\<lambda>(fn, pn) d. bindE (dget (pkg_pepvpr c) fn) (\<lambda>ver. Inr (dappend pn (ver, fn) d)))
       (pkg_fn c) []"

definition add_priority ::
  "cache \<Rightarrow> string \<Rightarrow> (int, (int, string list) dict) dict \<Rightarrow> pyerr + (int, (int, string list) dict) dict" where
  "add_priority c f d =
     bindE (dget (bbfile_priority c) f) (\<lambda>priority.
     bindE (dget (pkg_dp c) f) (\<lambda>preference.
       Inr (dset priority (dappend preference f (dgetd d priority [])) d)))"

definition sortPriorities :: "string \<Rightarrow> cache \<Rightarrow> (string, string list) dict \<Rightarrow> pyerr + string list list" where
  "sortPriorities pn c pkgs =
     bindE (dget (if pkgs = [] then pkg_pn c else pkgs) pn) (\<lambda>files.
     bindE (foldE (add_priority c) files []) (\<lambda>priorities.
       Inr (fold (\<lambda>pri tmp_pn.
               concat (map (\<lambda>pref. dgetd (dgetd priorities pri []) pref [])
                 (sort (dkeys (dgetd priorities pri [])))) # tmp_pn)
             (sort (dkeys priorities)) [])))"

definition versionVariableMatch :: "getvar \<Rightarrow> string \<Rightarrow> string \<Rightarrow> string option" where
  "versionVariableMatch d keyword pn =
     (let ver = d (keyword @ ''_VERSION:pn-'' @ pn);
          ver = (if truthy ver then ver else d (keyword @ ''_VERSION_'' @ pn))
      in if truthy ver then ver else d (keyword @ ''_VERSION''))"

definition preferredVersionMatch ::
  "string \<Rightarrow> string \<Rightarrow> string \<Rightarrow> string option \<Rightarrow> string option \<Rightarrow> string option \<Rightarrow> bool" where
  "preferredVersionMatch pe pv pr preferred_e preferred_v preferred_r \<longleftrightarrow>
     (Some pr = preferred_r \<or> preferred_r = None) \<and> (Some pe = preferred_e \<or> preferred_e = None) \<and>
     (preferred_v = Some pv \<or>
      (case preferred_v of None \<Rightarrow> False | Some v \<Rightarrow> endswith v ''%'' \<and> startswith pv (butlast v)))"

text \<open>
  The match of \<open>(\d+:)*(.*)(_.*)*\<close>.  The first group keeps its last repetition, and the
  second takes the rest of the line, so the third never takes anything.
\<close>

function epoch_groups :: "string option \<Rightarrow> string \<Rightarrow> string option \<times> string" where
  "epoch_groups ep s =
     (let ds = takeWhile is_digit s; r = dropWhile is_digit s
      in if ds \<noteq> [] \<and> r \<noteq> [] \<and> hd r = CHR '':'' then epoch_groups (Some ds) (tl r)
         else (ep, takeWhile (\<lambda>c. c \<noteq> CHR 0x0A) s))"
  by pat_completeness auto
termination
proof (relation "measure (\<lambda>(l, s). length s)", goal_cases)
  case (2 l s ds r)
  then have "length (tl r) < length r" by (cases r) auto
  moreover have "length r \<le> length s" using 2 by (simp add: length_dropWhile_le)
  ultimately show ?case by simp
qed simp

text \<open>The first file, over all file sets in order, whose version is the preferred one.\<close>

fun first_match ::
  "cache \<Rightarrow> string option \<Rightarrow> string option \<Rightarrow> string option \<Rightarrow> string list \<Rightarrow> pyerr + (pepvpr \<times> string) option" where
  "first_match c e v r [] = Inr None"
| "first_match c e v r (f # fs) =
     bindE (dget (pkg_pepvpr c) f) (\<lambda>(pe, pv, pr).
       if preferredVersionMatch pe pv pr e v r then Inr (Some ((pe, pv, pr), f))
       else first_match c e v r fs)"

definition findPreferredProvider ::
  "string \<Rightarrow> getvar \<Rightarrow> cache \<Rightarrow> string list list \<Rightarrow> pyerr + ((pepvpr \<times> string) option \<times> bool)" where
  "findPreferredProvider pn d c file_sets =
     (let required_v = versionVariableMatch d ''REQUIRED'' pn;
          preferred_v = versionVariableMatch d ''PREFERRED'' pn;
          required = (required_v \<noteq> None);
          preferred_v = (if required then required_v else preferred_v)
      in if truthy preferred_v then
           (case epoch_groups None (the preferred_v) of (preferred_e, v) \<Rightarrow>
              bindE (first_match c preferred_e (Some v) None (concat file_sets)) (\<lambda>m. Inr (m, required)))
         else Inr (None, required))"

definition as_version :: "pepvpr \<Rightarrow> version" where
  "as_version = (\<lambda>(pe, pv, pr). (EpStr pe, pv, pr))"

definition latest_step ::
  "cache \<Rightarrow> string \<Rightarrow> (pepvpr \<times> int \<times> string) option \<Rightarrow> pyerr + (pepvpr \<times> int \<times> string) option" where
  "latest_step c f best =
     bindE (dget (pkg_pepvpr c) f) (\<lambda>ver.
     bindE (dget (pkg_dp c) f) (\<lambda>dp.
       case best of
         None \<Rightarrow> Inr (Some (ver, dp, f))
       | Some (latest, latest_p, latest_f) \<Rightarrow>
           bindE (if latest_p = dp
                  then bindE (vercmp (as_version latest) (as_version ver)) (\<lambda>r. Inr (r < 0))
                  else Inr False) (\<lambda>newer.
             if newer \<or> dp > latest_p then Inr (Some (ver, dp, f)) else Inr best)))"

definition findLatestProvider :: "cache \<Rightarrow> string list \<Rightarrow> pyerr + (pepvpr \<times> string) option" where
  "findLatestProvider c file_set =
     bindE (foldE (latest_step c) file_set None) (\<lambda>best.
       Inr (map_option (\<lambda>(ver, dp, f). (ver, f)) best))"

definition findBestProvider ::
  "string \<Rightarrow> getvar \<Rightarrow> cache \<Rightarrow> (string, string list) dict \<Rightarrow>
   pyerr + ((pepvpr \<times> string) option \<times> (pepvpr \<times> string) option \<times> bool)" where
  "findBestProvider pn d c pkgs =
     bindE (sortPriorities pn c pkgs) (\<lambda>sets_of.
     bindE (findPreferredProvider pn d c sets_of) (\<lambda>(pref, required).
     if sets_of = [] then Inl IndexError
     else bindE (findLatestProvider c (hd sets_of)) (\<lambda>latest.
       Inr (latest, if \<not> required \<and> pref = None then latest else pref, required))))"

text \<open>\<open>findProviders\<close>: latest, preferred and required version of every name.\<close>

definition findProviders ::
  "getvar \<Rightarrow> cache \<Rightarrow> (string, string list) dict \<Rightarrow>
   pyerr + ((string, (pepvpr \<times> string) option) dict \<times> (string, (pepvpr \<times> string) option) dict \<times>
            (string, bool) dict)" where
  "findProviders d c pkgs =
     (let pkgs = (if pkgs = [] then pkg_pn c else pkgs)
      in foldE (\<lambda>pn (latest, pref, req).
           bindE (findBestProvider pn d c pkgs) (\<lambda>(l, p, r).
             Inr (dset pn l latest, dset pn p pref, dset pn r req)))
         (dkeys pkgs) ([], [], []))"

section \<open>Filtering\<close>

definition collate :: "cache \<Rightarrow> string list \<Rightarrow> pyerr + (string, string list) dict" where
  "collate c provs =
     foldE (\<lambda>p d. bindE (dget (pkg_fn c) p) (\<lambda>pn. Inr (dappend pn p d))) provs []"

text \<open>
  The first loop, over the recipe names in order: the preferred file of each.  \<open>None\<close> in the
  first component is the early return when a required version is missing.
\<close>

definition pref_step ::
  "getvar \<Rightarrow> cache \<Rightarrow> (string, string list) dict \<Rightarrow> string \<Rightarrow>
   bool \<times> string list \<times> (string, string) dict \<times> (string, string list list) dict \<Rightarrow>
   pyerr + (bool \<times> string list \<times> (string, string) dict \<times> (string, string list list) dict)" where
  "pref_step d c pkgs pn = (\<lambda>(stopped, eligible, prefs, sets_of).
     if stopped then Inr (stopped, eligible, prefs, sets_of)
     else
       bindE (sortPriorities pn c pkgs) (\<lambda>sp.
       bindE (findPreferredProvider pn d c sp) (\<lambda>(pref, required).
         case pref of
           None \<Rightarrow> Inr (required, eligible, prefs, dset pn sp sets_of)
         | Some (ver, f) \<Rightarrow> Inr (False, eligible @ [f], dset pn f prefs, dset pn sp sets_of))))"

text \<open>The second loop: the latest file of each name that has no preferred one.\<close>

definition latest_pn_step ::
  "cache \<Rightarrow> (string, string list list) dict \<Rightarrow> string \<Rightarrow> string list \<times> (string, string) dict \<Rightarrow>
   pyerr + (string list \<times> (string, string) dict)" where
  "latest_pn_step c sets_of pn = (\<lambda>(eligible, prefs).
     if din pn prefs then Inr (eligible, prefs)
     else
       bindE (dget sets_of pn) (\<lambda>sp.
         if sp = [] then Inl IndexError
         else bindE (findLatestProvider c (hd sp)) (\<lambda>l.
           case l of
             None \<Rightarrow> Inl TypeError
           | Some (ver, f) \<Rightarrow> Inr (eligible @ [f], dset pn f prefs))))"

text \<open>The last loop moves the file of the recipe named like the item to the front.\<close>

definition own_name_step ::
  "cache \<Rightarrow> string \<Rightarrow> (string, string) dict \<Rightarrow> string \<Rightarrow> string list \<Rightarrow> pyerr + string list" where
  "own_name_step c item prefs p eligible =
     bindE (dget (pkg_fn c) p) (\<lambda>pn.
       if pn \<noteq> item then Inr eligible
       else bindE (dget prefs pn) (\<lambda>f.
         if f \<notin> set eligible then Inr eligible else Inr (f # remove1 f eligible)))"

definition filter_providers :: "string list \<Rightarrow> string \<Rightarrow> getvar \<Rightarrow> cache \<Rightarrow> pyerr + string list" where
  "filter_providers provs item d c =
     (let provs = sort provs
      in bindE (collate c provs) (\<lambda>pkgs.
         bindE (foldE (pref_step d c pkgs) (sort (dkeys pkgs)) (False, [], [], [])) (\<lambda>(stopped, eligible, prefs, sets_of).
         if stopped then Inr eligible
         else
           bindE (foldE (latest_pn_step c sets_of) (sort (dkeys sets_of)) (eligible, prefs)) (\<lambda>(eligible, prefs).
           if eligible = [] then Inr eligible
           else foldE (own_name_step c item prefs) provs eligible))))"

text \<open>
  \<open>for p in eligible\<close> up to the first file of the recipe \<open>pn\<close>, which moves to the front.
\<close>

fun prefer_pn :: "cache \<Rightarrow> string \<Rightarrow> string list \<Rightarrow> string list \<Rightarrow> pyerr + (string list \<times> bool)" where
  "prefer_pn c pn [] eligible = Inr (eligible, False)"
| "prefer_pn c pn (p # ps) eligible =
     bindE (dget (pkg_fn c) p) (\<lambda>pn'.
       if pn = pn' then Inr (p # remove1 p eligible, True) else prefer_pn c pn ps eligible)"

definition filterProviders ::
  "string list \<Rightarrow> string \<Rightarrow> getvar \<Rightarrow> cache \<Rightarrow> pyerr + (string list \<times> bool \<times> cache)" where
  "filterProviders provs item d c =
     bindE (filter_providers provs item d c) (\<lambda>eligible.
       let prefervar = d (''PREFERRED_PROVIDER_'' @ item);
           c = (if truthy prefervar then c\<lparr>preferred := dset item (the prefervar) (preferred c)\<rparr> else c)
       in case map_of (preferred c) item of
            None \<Rightarrow> Inr (eligible, False, c)
          | Some pn \<Rightarrow> bindE (prefer_pn c pn eligible eligible) (\<lambda>(eligible, u). Inr (eligible, u, c)))"

section \<open>Runtime providers\<close>

text \<open>
  The first provide of a recipe whose \<open>PREFERRED_PROVIDER\<close> is an eligible recipe not
  chosen before.
\<close>

fun find_pref :: "getvar \<Rightarrow> (string, string) dict \<Rightarrow> string list \<Rightarrow> string list \<Rightarrow> string option" where
  "find_pref d pns chosen [] = None"
| "find_pref d pns chosen (provide # ps) =
     (case d (''PREFERRED_PROVIDER_'' @ provide) of
        None \<Rightarrow> find_pref d pns chosen ps
      | Some v \<Rightarrow>
          (case map_of pns v of
             None \<Rightarrow> find_pref d pns chosen ps
           | Some f \<Rightarrow> if f \<in> set chosen then find_pref d pns chosen ps else Some f))"

text \<open>
  The loop over \<open>eligible\<close>.  The first \<open>eligible.remove(pref)\<close> changes the list the loop
  walks over, at position \<open>i\<close>; the assignment after it makes \<open>eligible\<close> another list, so later
  removals do not.
\<close>

function rprefs_loop ::
  "getvar \<Rightarrow> cache \<Rightarrow> (string, string) dict \<Rightarrow> nat \<Rightarrow> string list \<Rightarrow> string list \<times> string list \<Rightarrow>
   pyerr + (string list \<times> string list)" where
  "rprefs_loop d c pns i walked (eligible, chosen) =
     (if i < length walked then
        bindE (dget (pkg_fn c) (walked ! i)) (\<lambda>pn.
          case find_pref d pns chosen (dgetd (pn_provides c) pn []) of
            None \<Rightarrow> rprefs_loop d c pns (Suc i) walked (eligible, chosen)
          | Some f \<Rightarrow>
              rprefs_loop d c pns (Suc i) (if chosen = [] then remove1 f walked else walked)
                (f # remove1 f eligible, chosen @ [f]))
      else Inr (eligible, chosen))"
  by pat_completeness auto
termination
proof (relation "measure (\<lambda>(d, c, pns, i, walked, s). length walked - i)", goal_cases)
  case (3 d c pns i walked eligible chosen pn f)
  have "length (remove1 f walked) \<le> length walked" by (simp add: length_remove1)
  with 3 show ?case by (auto split: if_splits)
qed auto

definition infer_rprefs ::
  "getvar \<Rightarrow> cache \<Rightarrow> string list \<Rightarrow> pyerr + (string list \<times> nat)" where
  "infer_rprefs d c eligible =
     bindE (foldE (\<lambda>p pns. bindE (dget (pkg_fn c) p) (\<lambda>pn. Inr (dset pn p pns))) eligible []) (\<lambda>pns.
     bindE (rprefs_loop d c pns 0 eligible (eligible, [])) (\<lambda>(eligible, chosen).
       Inr (eligible, length chosen)))"

definition filterProvidersRunTime ::
  "string list \<Rightarrow> string \<Rightarrow> getvar \<Rightarrow> cache \<Rightarrow> pyerr + (string list \<times> nat)" where
  "filterProvidersRunTime provs item d c =
     bindE (filter_providers provs item d c) (\<lambda>eligible.
       let prefervar = d (''PREFERRED_RPROVIDER_'' @ item)
       in bindE (if truthy prefervar then prefer_pn c (the prefervar) eligible eligible
                 else Inr (eligible, False)) (\<lambda>(eligible, foundUnique).
            if foundUnique then Inr (eligible, 1) else infer_rprefs d c eligible))"

definition escape_plus :: "string \<Rightarrow> string" where
  "escape_plus s = concat (map (\<lambda>ch. if ch = CHR ''+'' then [CHR 0x5C, ch] else [ch]) s)"

definition getRuntimeProviders :: "regex \<Rightarrow> cache \<Rightarrow> string \<Rightarrow> pyerr + string list" where
  "getRuntimeProviders re c rdepend =
     (let rprovs = dgetd (rproviders c) rdepend [] @ dgetd (packages c) rdepend []
      in if rprovs \<noteq> [] then Inr rprovs
         else foldE (\<lambda>(pat_key, fns) rprovs.
                case re (escape_plus pat_key) of
                  None \<Rightarrow> Inl RegexError
                | Some f \<Rightarrow> Inr (if f rdepend then rprovs @ fns else rprovs))
              (packages_dynamic c) [])"

section \<open>World\<close>

text \<open>Reading a missing key of a \<open>defaultdict(list)\<close> enters it.\<close>

definition dtouch :: "'k \<Rightarrow> ('k, 'v list) dict \<Rightarrow> ('k, 'v list) dict" where
  "dtouch k d = (if din k d then d else dset k [] d)"

fun other_pn :: "cache \<Rightarrow> string \<Rightarrow> string list \<Rightarrow> pyerr + bool" where
  "other_pn c pn [] = Inr False"
| "other_pn c pn (pf # pfs) =
     bindE (dget (pkg_fn c) pf) (\<lambda>pn'. if pn' \<noteq> pn then Inr True else other_pn c pn pfs)"

fun world_provides :: "string \<Rightarrow> string list \<Rightarrow> bool \<Rightarrow> cache \<Rightarrow> pyerr + (bool \<times> cache)" where
  "world_provides pn [] terminal c = Inr (terminal, c)"
| "world_provides pn (p # ps) terminal c =
     (if startswith p ''virtual/'' then Inr (False, c)
      else (let c = c\<lparr>providers := dtouch p (providers c)\<rparr>
            in bindE (other_pn c pn (dgetd (providers c) p [])) (\<lambda>other.
                 world_provides pn ps (if other then False else terminal) c)))"

definition world_step :: "string option \<Rightarrow> string \<Rightarrow> cache \<Rightarrow> pyerr + cache" where
  "world_step task f c =
     bindE (dget (pkg_fn c) f) (\<lambda>pn.
     bindE (if truthy task then bindE (dget (task_deps_of c) f) (\<lambda>td. Inr (the task \<in> set (td_tasks td)))
            else Inr True) (\<lambda>terminal.
       let c = c\<lparr>pn_provides := dtouch pn (pn_provides c)\<rparr>
       in bindE (world_provides pn (dgetd (pn_provides c) pn []) terminal c) (\<lambda>(terminal, c).
            Inr (if terminal then c\<lparr>world_target := sadd pn (world_target c)\<rparr> else c))))"

definition buildWorldTargetList :: "cache \<Rightarrow> string option \<Rightarrow> pyerr + cache" where
  "buildWorldTargetList c task =
     (if world_target c \<noteq> [] then Inr c else foldE (world_step task) (possible_world c) c)"

end
