(* ===== verification/TaskData.thy ===== *)
theory TaskData
  imports Providers Tids
begin

text \<open>
  Task data, from \<open>poky/bitbake/lib/bb/taskdata.py\<close>: the names a build needs, the files chosen
  to provide them, and the tasks of those files.  Resolving a name may fail; failures spread:
  a file that needs a name nothing provides is failed, and a name whose last file failed is
  removed (\<open>fail_fn\<close>, \<open>remove_buildtarget\<close>, \<open>remove_runtarget\<close>).

  The code catches some exceptions and goes on with the state left behind, so a raised
  exception carries the state: a result is \<open>Inl (exception, state)\<close> or \<open>Inr state\<close>.
  The mutual recursion has the recursion limit as an argument; running out of it is
  Python's \<open>RecursionError\<close>.
\<close>

section \<open>State\<close>

record task_entry =
  tdepends :: "tid list"
  idepends :: "(string \<times> string) list"
  irdepends :: "(string \<times> string) list"

definition TaskEntry :: task_entry where
  "TaskEntry = \<lparr>tdepends = [], idepends = [], irdepends = []\<rparr>"

record skip_item =
  sk_pn :: string
  sk_reason :: string
  sk_provides :: "string list"
  sk_rprovides :: "string list"

datatype td_event =
    NoProviderEvent string bool "string list" "string list"
  | MultipleProvidersEvent string bool "string list"

record taskdata =
  build_targets :: "(string, string list) dict"
  run_targets :: "(string, string list) dict"
  external_targets :: "string list"
  seenfns :: "string list"
  taskentries :: "(tid, task_entry) dict"
  depids :: "(string, string list) dict"
  rdepids :: "(string, string list) dict"
  consider_msgs_cache :: "string list"
  failed_deps :: "string list"
  failed_rdeps :: "string list"
  failed_fns :: "string list"
  td_halt :: bool
  allowincomplete :: bool
  skiplist :: "(string, skip_item) dict"
  mcdepends :: "string list"
  td_events :: "td_event list"

definition TaskData :: "bool \<Rightarrow> (string, skip_item) dict \<Rightarrow> bool \<Rightarrow> taskdata" where
  "TaskData hlt skips incomplete =
     \<lparr>build_targets = [], run_targets = [], external_targets = [], seenfns = [], taskentries = [],
      depids = [], rdepids = [], consider_msgs_cache = [], failed_deps = [], failed_rdeps = [],
      failed_fns = [], td_halt = hlt, allowincomplete = incomplete, skiplist = skips,
      mcdepends = [], td_events = []\<rparr>"

text \<open>
  What the functions use besides the state: the configuration, \<open>re.compile\<close>, the
  \<open>calculate_extra_depends\<close> function of a file, which gives the new \<open>deps\<close> of the file, and the
  recursion limit.
\<close>

record td_env =
  te_getVar :: getvar
  te_regex :: regex
  te_extra_deps :: "string \<Rightarrow> string \<Rightarrow> cache \<Rightarrow> string list"
  te_limit :: nat

type_synonym 'a tdres = "(pyerr \<times> taskdata \<times> cache) + 'a"

definition lift :: "taskdata \<times> cache \<Rightarrow> pyerr + 'a \<Rightarrow> 'a tdres" where
  "lift s m = (case m of Inl e \<Rightarrow> Inl (e, s) | Inr x \<Rightarrow> Inr x)"

section \<open>Names and targets\<close>

fun re_match_strings :: "regex \<Rightarrow> string \<Rightarrow> string list \<Rightarrow> pyerr + bool" where
  "re_match_strings re target [] = Inr False"
| "re_match_strings re target (name # strings) =
     (if startswith name ''^'' \<or> endswith name ''$'' then
        (case re name of
           None \<Rightarrow> Inl RegexError
         | Some f \<Rightarrow> if f target then Inr True else re_match_strings re target strings)
      else if name = target then Inr True
      else re_match_strings re target strings)"

definition have_build_target :: "taskdata \<Rightarrow> string \<Rightarrow> bool" where
  "have_build_target t target \<longleftrightarrow> dgetd (build_targets t) target [] \<noteq> []"

definition have_runtime_target :: "taskdata \<Rightarrow> string \<Rightarrow> bool" where
  "have_runtime_target t target \<longleftrightarrow> dgetd (run_targets t) target [] \<noteq> []"

definition seen_build_target :: "string \<Rightarrow> taskdata \<Rightarrow> taskdata" where
  "seen_build_target name t = t\<lparr>build_targets := dtouch name (build_targets t)\<rparr>"

definition add_build_target :: "string \<Rightarrow> string \<Rightarrow> taskdata \<Rightarrow> taskdata" where
  "add_build_target fn item t = t\<lparr>build_targets := dappend_new item fn (build_targets t)\<rparr>"

definition seen_run_target :: "string \<Rightarrow> taskdata \<Rightarrow> taskdata" where
  "seen_run_target name t = t\<lparr>run_targets := dtouch name (run_targets t)\<rparr>"

definition add_runtime_target :: "string \<Rightarrow> string \<Rightarrow> taskdata \<Rightarrow> taskdata" where
  "add_runtime_target fn item t = t\<lparr>run_targets := dappend_new item fn (run_targets t)\<rparr>"

definition mark_external_target :: "string \<Rightarrow> taskdata \<Rightarrow> taskdata" where
  "mark_external_target target t = t\<lparr>external_targets := sadd target (external_targets t)\<rparr>"

definition unresolved_step ::
  "regex \<Rightarrow> cache \<Rightarrow> string list \<Rightarrow> string \<times> string list \<Rightarrow> string list \<Rightarrow> pyerr + string list" where
  "unresolved_step re c failed = (\<lambda>(target, fns) unresolved.
     bindE (re_match_strings re target (ignored_dependencies c)) (\<lambda>ign.
       if ign then Inr unresolved
       else if target \<in> set failed then Inr unresolved
       else if fns = [] then Inr (unresolved @ [target])
       else Inr unresolved))"

definition get_unresolved_build_targets :: "regex \<Rightarrow> taskdata \<Rightarrow> cache \<Rightarrow> pyerr + string list" where
  "get_unresolved_build_targets re t c =
     foldE (unresolved_step re c (failed_deps t)) (build_targets t) []"

definition get_unresolved_run_targets :: "regex \<Rightarrow> taskdata \<Rightarrow> cache \<Rightarrow> pyerr + string list" where
  "get_unresolved_run_targets re t c =
     foldE (unresolved_step re c (failed_rdeps t)) (run_targets t) []"

definition get_provider :: "taskdata \<Rightarrow> string \<Rightarrow> pyerr + string list" where
  "get_provider t item = dget (build_targets t) item"

definition get_dependees :: "taskdata \<Rightarrow> string \<Rightarrow> string list" where
  "get_dependees t item = map fst (filter (\<lambda>(fn, ids). item \<in> set ids) (depids t))"

definition get_rdependees :: "taskdata \<Rightarrow> string \<Rightarrow> string list" where
  "get_rdependees t item = map fst (filter (\<lambda>(fn, ids). item \<in> set ids) (rdepids t))"

definition get_reasons :: "taskdata \<Rightarrow> string \<Rightarrow> bool \<Rightarrow> string list" where
  "get_reasons t item runtime =
     concat (map (\<lambda>(fn, sk).
       if sk_pn sk = item then [sk_pn sk @ '' was skipped: '' @ sk_reason sk]
       else if runtime \<and> item \<in> set (sk_rprovides sk)
         then [sk_pn sk @ '' RPROVIDES '' @ item @ '' but was skipped: '' @ sk_reason sk]
       else if \<not> runtime \<and> item \<in> set (sk_provides sk)
         then [sk_pn sk @ '' PROVIDES '' @ item @ '' but was skipped: '' @ sk_reason sk]
       else []) (skiplist t))"

section \<open>Failing files\<close>

text \<open>
  The bodies of the three functions, with the recursive call as an argument.  The loops
  walk over the keys; \<open>set.remove\<close> of a list takes out the first occurrence.
\<close>

definition drop_build :: "string \<Rightarrow> string \<Rightarrow> taskdata \<Rightarrow> taskdata" where
  "drop_build fn target t =
     t\<lparr>build_targets := dset target (remove1 fn (dgetd (build_targets t) target [])) (build_targets t)\<rparr>"

definition drop_run :: "string \<Rightarrow> string \<Rightarrow> taskdata \<Rightarrow> taskdata" where
  "drop_run fn target t =
     t\<lparr>run_targets := dset target (remove1 fn (dgetd (run_targets t) target [])) (run_targets t)\<rparr>"

definition fail_deps_of ::
  "(string \<Rightarrow> taskdata \<Rightarrow> (pyerr \<times> taskdata) + taskdata) \<Rightarrow> (task_entry \<Rightarrow> (string \<times> string) list) \<Rightarrow>
   string \<Rightarrow> tid \<Rightarrow> taskdata \<Rightarrow> (pyerr \<times> taskdata) + taskdata" where
  "fail_deps_of fail sel target tid t =
     (case map_of (taskentries t) tid of
        None \<Rightarrow> Inr t
      | Some e \<Rightarrow>
          foldE (\<lambda>(idepend, idependtask) t.
            if idepend = target then fail (fn_from_tid tid) t else Inr t) (sel e) t)"

definition remove_buildtarget_body ::
  "(string \<Rightarrow> taskdata \<Rightarrow> (pyerr \<times> taskdata) + taskdata) \<Rightarrow>
   string \<Rightarrow> taskdata \<Rightarrow> (pyerr \<times> taskdata) + taskdata" where
  "remove_buildtarget_body fail target t =
     (let t = t\<lparr>failed_deps := failed_deps t @ [target]\<rparr>
      in bindE (foldE fail (get_dependees t target) t) (\<lambda>t.
         bindE (foldE (fail_deps_of fail idepends target) (dkeys (taskentries t)) t) (\<lambda>t.
           if td_halt t \<and> target \<in> set (external_targets t) then Inl (NoProvider target, t) else Inr t)))"

definition remove_runtarget_body ::
  "(string \<Rightarrow> taskdata \<Rightarrow> (pyerr \<times> taskdata) + taskdata) \<Rightarrow>
   string \<Rightarrow> taskdata \<Rightarrow> (pyerr \<times> taskdata) + taskdata" where
  "remove_runtarget_body fail target t =
     (let t = t\<lparr>failed_rdeps := failed_rdeps t @ [target]\<rparr>
      in bindE (foldE fail (get_rdependees t target) t) (\<lambda>t.
         foldE (fail_deps_of fail irdepends target) (dkeys (taskentries t)) t))"

fun fail_fn :: "nat \<Rightarrow> string \<Rightarrow> taskdata \<Rightarrow> (pyerr \<times> taskdata) + taskdata" where
  "fail_fn 0 fn t = Inl (RecursionError, t)"
| "fail_fn (Suc n) fn t =
     (if fn \<in> set (failed_fns t) then Inr t
      else
        (let t = t\<lparr>failed_fns := failed_fns t @ [fn]\<rparr>
         in bindE (foldE (\<lambda>target t.
              if fn \<in> set (dgetd (build_targets t) target []) then
                (let t = drop_build fn target t
                 in if dgetd (build_targets t) target [] = []
                    then remove_buildtarget_body (fail_fn n) target t else Inr t)
              else Inr t) (dkeys (build_targets t)) t) (\<lambda>t.
            foldE (\<lambda>target t.
              if fn \<in> set (dgetd (run_targets t) target []) then
                (let t = drop_run fn target t
                 in if dgetd (run_targets t) target [] = []
                    then remove_runtarget_body (fail_fn n) target t else Inr t)
              else Inr t) (dkeys (run_targets t)) t)))"

definition with_cache :: "cache \<Rightarrow> (pyerr \<times> taskdata) + taskdata \<Rightarrow> (taskdata \<times> cache) tdres" where
  "with_cache c m = (case m of Inl (e, t) \<Rightarrow> Inl (e, t, c) | Inr t \<Rightarrow> Inr (t, c))"

definition remove_buildtarget :: "td_env \<Rightarrow> string \<Rightarrow> taskdata \<times> cache \<Rightarrow> (taskdata \<times> cache) tdres" where
  "remove_buildtarget env target = (\<lambda>(t, c).
     with_cache c (remove_buildtarget_body (fail_fn (te_limit env)) target t))"

definition remove_runtarget :: "td_env \<Rightarrow> string \<Rightarrow> taskdata \<times> cache \<Rightarrow> (taskdata \<times> cache) tdres" where
  "remove_runtarget env target = (\<lambda>(t, c).
     with_cache c (remove_runtarget_body (fail_fn (te_limit env)) target t))"

section \<open>add_tasks\<close>

definition add_extra_deps :: "td_env \<Rightarrow> string \<Rightarrow> cache \<Rightarrow> pyerr + cache" where
  "add_extra_deps env fn c =
     (case map_of (extradepsfunc c) fn of
        Some (Some func) \<Rightarrow>
          if func = '''' then Inr c
          else bindE (buildWorldTargetList c None) (\<lambda>c.
               bindE (dget (pkg_fn c) fn) (\<lambda>pn.
                 Inr (c\<lparr>deps := dset fn (te_extra_deps env func fn c) (deps c)\<rparr>)))
      | _ \<Rightarrow> Inr c)"

definition add_mcdepend :: "string \<Rightarrow> taskdata \<Rightarrow> pyerr + taskdata" where
  "add_mcdepend dep t =
     (if length (split_on (CHR '':'') dep) \<noteq> 5 then Inl (Fatal ''TaskData'')
      else Inr (t\<lparr>mcdepends := sadd dep (mcdepends t)\<rparr>))"

text \<open>
  \<open>handle_deps\<close>: the words of a \<open>depends\<close> or \<open>rdepends\<close> flag, each \<open>name:task\<close>, are recorded at
  the task, and the names become targets.
\<close>

definition split_dep :: "string \<Rightarrow> pyerr + (string \<times> string)" where
  "split_dep dep =
     (case split_on (CHR '':'') dep of
        [a, b] \<Rightarrow> Inr (a, b)
      | _ \<Rightarrow> Inl (Fatal ''TaskData''))"

definition handle_deps ::
  "task_deps \<Rightarrow> string \<Rightarrow> string \<Rightarrow> (string \<Rightarrow> taskdata \<Rightarrow> taskdata) \<Rightarrow> taskdata \<Rightarrow>
   pyerr + ((string \<times> string) list \<times> taskdata)" where
  "handle_deps td task dep_name seen t =
     (case flag_value td dep_name task of
        None \<Rightarrow> Inr ([], t)
      | Some v \<Rightarrow>
          foldE (\<lambda>dep (ids, t). bindE (split_dep dep) (\<lambda>(a, b). Inr (ids @ [(a, b)], seen a t)))
            (words v) ([], t))"

definition add_task :: "string \<Rightarrow> task_deps \<Rightarrow> string \<Rightarrow> taskdata \<Rightarrow> pyerr + taskdata" where
  "add_task fn td task t =
     (let tid = fn @ '':'' @ task
      in bindE (dget (td_parents td) task) (\<lambda>parents.
           let parentids = map (\<lambda>dep. fn @ '':'' @ dep) (filter (\<lambda>dep. dep \<in> set (td_tasks td)) parents)
           in bindE (handle_deps td task ''depends'' seen_build_target t) (\<lambda>(ids, t).
              bindE (handle_deps td task ''rdepends'' seen_run_target t) (\<lambda>(irds, t).
                let t = t\<lparr>taskentries :=
                      dset tid \<lparr>tdepends = parentids, idepends = ids, irdepends = irds\<rparr> (taskentries t)\<rparr>
                in case flag_value td ''mcdepends'' task of
                     None \<Rightarrow> Inr t
                   | Some v \<Rightarrow> foldE add_mcdepend (words v) t))))"

definition add_depids :: "string \<Rightarrow> taskdata \<times> cache \<Rightarrow> taskdata \<times> cache" where
  "add_depids fn = (\<lambda>(t, c).
     if din fn (depids t) then (t, c)
     else (let c = c\<lparr>deps := dtouch fn (deps c)\<rparr>
           in (t\<lparr>depids := dset fn (remdups (dgetd (deps c) fn [])) (depids t)\<rparr>, c)))"

definition add_rdepids :: "string \<Rightarrow> taskdata \<times> cache \<Rightarrow> taskdata \<times> cache" where
  "add_rdepids fn = (\<lambda>(t, c).
     if din fn (rdepids t) then (t, c)
     else (let c = c\<lparr>rundeps := dtouch fn (rundeps c), runrecs := dtouch fn (runrecs c)\<rparr>;
               names = concat (map snd (dgetd (rundeps c) fn [])) @ concat (map snd (dgetd (runrecs c) fn []))
           in (t\<lparr>rdepids := dset fn (remdups names) (rdepids t)\<rparr>, c)))"

text \<open>The last two loops: the first name that already failed fails the file and ends the call.\<close>

fun seen_or_fail ::
  "(string \<Rightarrow> taskdata \<Rightarrow> taskdata) \<Rightarrow> (taskdata \<Rightarrow> string list) \<Rightarrow> string list \<Rightarrow> taskdata \<Rightarrow> taskdata \<times> bool" where
  "seen_or_fail seen failed [] t = (t, False)"
| "seen_or_fail seen failed (dep # ds) t =
     (let t = seen dep t
      in if dep \<in> set (failed t) then (t, True) else seen_or_fail seen failed ds t)"

definition add_tasks :: "td_env \<Rightarrow> string \<Rightarrow> taskdata \<times> cache \<Rightarrow> (taskdata \<times> cache) tdres" where
  "add_tasks env fn = (\<lambda>(t, c).
     bindE (lift (t, c) (dget (task_deps_of c) fn)) (\<lambda>td.
     if fn \<in> set (failed_fns t) then Inl (Fatal ''TaskData'', t, c)
     else if fn \<in> set (seenfns t) then Inr (t, c)
     else
       (let t = t\<lparr>seenfns := seenfns t @ [fn]\<rparr>
        in bindE (lift (t, c) (add_extra_deps env fn c)) (\<lambda>c.
           bindE (lift (t, c) (foldE (add_task fn td) (td_tasks td) t)) (\<lambda>t.
           case add_rdepids fn (add_depids fn (t, c)) of (t, c) \<Rightarrow>
           case seen_or_fail seen_build_target failed_deps (dgetd (depids t) fn []) t of (t, stop) \<Rightarrow>
           if stop then with_cache c (fail_fn (te_limit env) fn t)
           else
             (case seen_or_fail seen_run_target failed_rdeps (dgetd (rdepids t) fn []) t of (t, stop) \<Rightarrow>
              if stop then with_cache c (fail_fn (te_limit env) fn t) else Inr (t, c)))))))"

section \<open>Adding providers\<close>

definition td_fire :: "td_event \<Rightarrow> taskdata \<Rightarrow> taskdata" where
  "td_fire e t = t\<lparr>td_events := td_events t @ [e]\<rparr>"

definition consider_multiple :: "bool \<Rightarrow> string \<Rightarrow> string list \<Rightarrow> cache \<Rightarrow> taskdata \<Rightarrow> pyerr + taskdata" where
  "consider_multiple runtime item eligible c t =
     bindE (if item \<in> set (consider_msgs_cache t) then Inr t
            else bindE (mapE (dget (pkg_fn c)) eligible) (\<lambda>l.
                   Inr (td_fire (MultipleProvidersEvent item runtime l) t))) (\<lambda>t.
       Inr (t\<lparr>consider_msgs_cache := consider_msgs_cache t @ [item]\<rparr>))"

definition add_eligible ::
  "td_env \<Rightarrow> (string \<Rightarrow> string \<Rightarrow> taskdata \<Rightarrow> taskdata) \<Rightarrow> string \<Rightarrow> string \<Rightarrow> taskdata \<times> cache \<Rightarrow>
   (taskdata \<times> cache) tdres" where
  "add_eligible env add item fn = (\<lambda>(t, c).
     if fn \<in> set (failed_fns t) then Inr (t, c) else add_tasks env fn (add fn item t, c))"

definition add_provider_internal ::
  "td_env \<Rightarrow> string \<Rightarrow> taskdata \<times> cache \<Rightarrow> (taskdata \<times> cache) tdres" where
  "add_provider_internal env item = (\<lambda>(t, c).
     bindE (lift (t, c) (re_match_strings (te_regex env) item (ignored_dependencies c))) (\<lambda>ign.
     if ign then Inr (t, c)
     else if \<not> din item (providers c) then
       bindE (lift (t, c) (bindE (getRuntimeProviders (te_regex env) c item) (mapE (dget (pkg_fn c))))) (\<lambda>_.
         Inl (NoProvider item,
              td_fire (NoProviderEvent item False (get_dependees t item) (get_reasons t item False)) t, c))
     else if have_build_target t item then Inr (t, c)
     else
       (let all_p = sort (dgetd (providers c) item []);
            c = c\<lparr>providers := dset item all_p (providers c)\<rparr>
        in bindE (lift (t, c) (filterProviders all_p item (te_getVar env) c)) (\<lambda>(eligible, foundUnique, c).
           let eligible = sdiff eligible (failed_fns t)
           in if eligible = [] then
                Inl (NoProvider item,
                     td_fire (NoProviderEvent item False (get_dependees t item) [''No eligible PROVIDERs'']) t, c)
              else
                bindE (lift (t, c) (if length eligible > 1 \<and> \<not> foundUnique
                                    then consider_multiple False item eligible c t else Inr t)) (\<lambda>t.
                  foldE (add_eligible env add_build_target item) eligible (t, c))))))"

definition add_provider :: "td_env \<Rightarrow> string \<Rightarrow> taskdata \<times> cache \<Rightarrow> (taskdata \<times> cache) tdres" where
  "add_provider env item s =
     bindE (case add_provider_internal env item s of
              Inl (NoProvider p, t, c) \<Rightarrow>
                if td_halt t then Inl (NoProvider p, t, c) else remove_buildtarget env item (t, c)
            | r \<Rightarrow> r) (\<lambda>(t, c). Inr (mark_external_target item t, c))"

definition add_rprovider :: "td_env \<Rightarrow> string \<Rightarrow> taskdata \<times> cache \<Rightarrow> (taskdata \<times> cache) tdres" where
  "add_rprovider env item = (\<lambda>(t, c).
     bindE (lift (t, c) (re_match_strings (te_regex env) item (ignored_dependencies c))) (\<lambda>ign.
     if ign then Inr (t, c)
     else if have_runtime_target t item then Inr (t, c)
     else
       bindE (lift (t, c) (getRuntimeProviders (te_regex env) c item)) (\<lambda>all_p.
       if all_p = [] then
         Inl (NoRProvider item,
              td_fire (NoProviderEvent item True (get_rdependees t item) (get_reasons t item True)) t, c)
       else
         bindE (lift (t, c) (filterProvidersRunTime all_p item (te_getVar env) c)) (\<lambda>(eligible, numberPreferred).
           let eligible = sdiff eligible (failed_fns t)
           in if eligible = [] then
                Inl (NoRProvider item,
                     td_fire (NoProviderEvent item True (get_rdependees t item) [''No eligible RPROVIDERs'']) t, c)
              else
                bindE (lift (t, c) (if length eligible > 1 \<and> numberPreferred = 0
                                    then consider_multiple True item eligible c t else Inr t)) (\<lambda>t.
                if numberPreferred > 1 then
                  bindE (lift (t, c) (consider_multiple True item eligible c t)) (\<lambda>t.
                    Inl (MultipleRProvider item, t, c))
                else foldE (add_eligible env add_runtime_target item) eligible (t, c))))))"

section \<open>add_unresolved\<close>

definition resolve_build ::
  "td_env \<Rightarrow> string \<Rightarrow> nat \<times> taskdata \<times> cache \<Rightarrow> (nat \<times> taskdata \<times> cache) tdres" where
  "resolve_build env target = (\<lambda>(added, s).
     case add_provider_internal env target s of
       Inl (NoProvider p, t, c) \<Rightarrow>
         if td_halt t \<and> target \<in> set (external_targets t) \<and> \<not> allowincomplete t
         then Inl (NoProvider p, t, c)
         else if \<not> allowincomplete t
           then bindE (remove_buildtarget env target (t, c)) (\<lambda>s. Inr (added, s))
         else Inr (added, t, c)
     | Inl e \<Rightarrow> Inl e
     | Inr s \<Rightarrow> Inr (added + 1, s))"

definition resolve_run ::
  "td_env \<Rightarrow> string \<Rightarrow> nat \<times> taskdata \<times> cache \<Rightarrow> (nat \<times> taskdata \<times> cache) tdres" where
  "resolve_run env target = (\<lambda>(added, s).
     case add_rprovider env target s of
       Inl (e, t, c) \<Rightarrow>
         (case e of
            NoRProvider _ \<Rightarrow> bindE (remove_runtarget env target (t, c)) (\<lambda>s. Inr (added, s))
          | MultipleRProvider _ \<Rightarrow> bindE (remove_runtarget env target (t, c)) (\<lambda>s. Inr (added, s))
          | _ \<Rightarrow> Inl (e, t, c))
     | Inr s \<Rightarrow> Inr (added + 1, s))"

definition resolve_round :: "td_env \<Rightarrow> taskdata \<times> cache \<Rightarrow> (nat \<times> taskdata \<times> cache) tdres" where
  "resolve_round env s =
     bindE (lift s (get_unresolved_build_targets (te_regex env) (fst s) (snd s))) (\<lambda>targets.
     bindE (foldE (resolve_build env) targets (0, s)) (\<lambda>(added, s).
     bindE (lift s (get_unresolved_run_targets (te_regex env) (fst s) (snd s))) (\<lambda>targets.
       foldE (resolve_run env) targets (added, s))))"

text \<open>The \<open>while True\<close> loop; \<open>None\<close> when it has not stopped after \<open>n\<close> rounds.\<close>

fun add_unresolved :: "nat \<Rightarrow> td_env \<Rightarrow> taskdata \<times> cache \<Rightarrow> (taskdata \<times> cache) tdres option" where
  "add_unresolved 0 env s = None"
| "add_unresolved (Suc n) env s =
     (case resolve_round env s of
        Inl e \<Rightarrow> Some (Inl e)
      | Inr (added, s) \<Rightarrow> if added = 0 then Some (Inr s) else add_unresolved n env s)"

section \<open>Results\<close>

definition get_providermap :: "taskdata \<Rightarrow> string option \<Rightarrow> (string \<times> string) list" where
  "get_providermap t pre =
     concat (map (\<lambda>(name, fns).
         if truthy pre \<and> \<not> startswith name (the pre) then []
         else (case fns of [] \<Rightarrow> [] | f # _ \<Rightarrow> [(name, f)])) (build_targets t))"

definition get_mcdepends :: "taskdata \<Rightarrow> string list" where
  "get_mcdepends t = mcdepends t"

end
