(* ===== verification/TaskGraph.thy ===== *)
theory TaskGraph
  imports Tids
begin

text \<open>
  The task graph of \<open>RunQueueData\<close> (\<open>poky/bitbake/lib/bb/runqueue.py\<close>): the entries
  \<open>runtaskentries\<close>, the reverse dependencies and chain ends computed in step D of
  \<open>prepare\<close>, and \<open>calculate_task_weights\<close>, which weighs the tasks and finds the ones
  no order can run.  The locale \<open>dep_graph\<close> is what the algorithms need of a graph.
\<close>

section \<open>Entries\<close>

record run_task_entry =
  depends :: "tid list"
  revdeps :: "tid list"
  hash :: "string option"
  unihash :: "string option"
  weight :: int

type_synonym entries = "(tid, run_task_entry) dict"

definition RunTaskEntry :: run_task_entry where
  "RunTaskEntry = \<lparr>depends = [], revdeps = [], hash = None, unihash = None, weight = 1\<rparr>"

definition deps_of :: "entries \<Rightarrow> tid \<Rightarrow> tid list" where
  "deps_of es t = (case map_of es t of None \<Rightarrow> [] | Some e \<Rightarrow> depends e)"

definition revs_of :: "entries \<Rightarrow> tid \<Rightarrow> tid list" where
  "revs_of es t = (case map_of es t of None \<Rightarrow> [] | Some e \<Rightarrow> revdeps e)"

section \<open>Graphs\<close>

definition graph_edges :: "('g \<Rightarrow> 'n list) \<Rightarrow> ('g \<Rightarrow> 'n \<Rightarrow> 'n list) \<Rightarrow> 'g \<Rightarrow> ('n \<times> 'n) set" where
  "graph_edges ns ds g = {(s, t). s \<in> set (ns g) \<and> t \<in> set (ds g s)}"

text \<open>
  An edge \<open>(s, t)\<close> says that \<open>s\<close> depends on \<open>t\<close>.  A node is accessible when every chain of
  dependents above it ends; a graph without cycles is one whose nodes are all accessible.
\<close>

locale dep_graph =
  fixes nodes :: "'g \<Rightarrow> 'n list" and deps revs :: "'g \<Rightarrow> 'n \<Rightarrow> 'n list" and invar :: "'g \<Rightarrow> bool"
  assumes nodes_distinct: "invar g \<Longrightarrow> distinct (nodes g)"
    and deps_closed: "invar g \<Longrightarrow> s \<in> set (nodes g) \<Longrightarrow> set (deps g s) \<subseteq> set (nodes g)"
    and revs_iff: "invar g \<Longrightarrow> t \<in> set (nodes g) \<Longrightarrow>
      s \<in> set (revs g t) \<longleftrightarrow> s \<in> set (nodes g) \<and> t \<in> set (deps g s)"
    and deps_distinct: "invar g \<Longrightarrow> s \<in> set (nodes g) \<Longrightarrow> distinct (deps g s)"
    and revs_distinct: "invar g \<Longrightarrow> s \<in> set (nodes g) \<Longrightarrow> distinct (revs g s)"
begin

lemma finite_edges: "invar g \<Longrightarrow> finite (graph_edges nodes deps g)"
proof -
  assume "invar g"
  then have "graph_edges nodes deps g \<subseteq> set (nodes g) \<times> set (nodes g)"
    using deps_closed by (fastforce simp: graph_edges_def)
  then show ?thesis by (rule finite_subset) simp
qed

lemma edge_iff_revs:
  "invar g \<Longrightarrow> t \<in> set (nodes g) \<Longrightarrow> (s, t) \<in> graph_edges nodes deps g \<longleftrightarrow> s \<in> set (revs g t)"
  by (auto simp: graph_edges_def revs_iff)

lemma acyclic_iff_acc:
  assumes "invar g"
  shows "acyclic (graph_edges nodes deps g) \<longleftrightarrow>
    set (nodes g) \<subseteq> Wellfounded.acc (graph_edges nodes deps g)" (is "acyclic ?E \<longleftrightarrow> ?R")
proof
  assume "acyclic ?E"
  then have "wf ?E" using finite_acyclic_wf [OF finite_edges [OF assms]] by simp
  then show ?R by (auto simp: wf_iff_acc)
next
  assume r: ?R
  have "x \<in> Wellfounded.acc ?E" for x
  proof (cases "x \<in> set (nodes g)")
    case False
    then have "(y, x) \<notin> ?E" for y
      using deps_closed [OF assms] by (auto simp: graph_edges_def)
    then show ?thesis by (auto intro: acc.intros)
  qed (use r in auto)
  then show "acyclic ?E" by (intro wf_acyclic) (simp add: wf_iff_acc)
qed

text \<open>A set of nodes that holds a node as soon as it holds its dependents has the accessible ones.\<close>

lemma acc_closed_subset:
  assumes "invar g" and "\<And>t. t \<in> set (nodes g) \<Longrightarrow> set (revs g t) \<subseteq> D \<Longrightarrow> t \<in> D"
    and "t \<in> Wellfounded.acc (graph_edges nodes deps g)" and "t \<in> set (nodes g)"
  shows "t \<in> D"
  using assms(3,4)
proof (induction rule: acc.induct)
  case (accI t)
  have "set (revs g t) \<subseteq> D"
    using accI.IH accI.prems edge_iff_revs [OF assms(1) accI.prems] revs_iff [OF assms(1) accI.prems]
    by blast
  then show ?case using assms(2) accI.prems by blast
qed

lemma acc_node:
  assumes "invar g" and "t \<in> set (nodes g)"
    and "set (revs g t) \<subseteq> Wellfounded.acc (graph_edges nodes deps g)"
  shows "t \<in> Wellfounded.acc (graph_edges nodes deps g)"
proof (rule acc.intros)
  fix s assume "(s, t) \<in> graph_edges nodes deps g"
  with assms edge_iff_revs [OF assms(1,2)] show "s \<in> Wellfounded.acc (graph_edges nodes deps g)"
    by blast
qed

end

definition graph_ok :: "entries \<Rightarrow> bool" where
  "graph_ok es \<longleftrightarrow> distinct (dkeys es) \<and>
     (\<forall>t \<in> set (dkeys es). distinct (deps_of es t) \<and> distinct (revs_of es t) \<and>
        set (deps_of es t) \<subseteq> set (dkeys es) \<and>
        set (revs_of es t) = {s. s \<in> set (dkeys es) \<and> t \<in> set (deps_of es s)})"

interpretation tg: dep_graph dkeys deps_of revs_of graph_ok
proof
  fix es s t
  assume ok: "graph_ok es"
  then show "distinct (dkeys es)" by (simp add: graph_ok_def)
  assume "s \<in> set (dkeys es)"
  with ok show "set (deps_of es s) \<subseteq> set (dkeys es)" "distinct (deps_of es s)" "distinct (revs_of es s)"
    unfolding graph_ok_def by blast+
next
  fix es s t
  assume "graph_ok es" "t \<in> set (dkeys es)"
  then show "s \<in> set (revs_of es t) \<longleftrightarrow> s \<in> set (dkeys es) \<and> t \<in> set (deps_of es s)"
    unfolding graph_ok_def by blast
qed

abbreviation task_edges :: "entries \<Rightarrow> (tid \<times> tid) set" where
  "task_edges es \<equiv> graph_edges dkeys deps_of es"

section \<open>Step D of prepare: reverse dependencies and chain ends\<close>

definition add_revdep :: "tid \<Rightarrow> tid \<Rightarrow> entries \<Rightarrow> pyerr + entries" where
  "add_revdep tid dep es =
     bindE (dget es dep) (\<lambda>e. Inr (dset dep (e\<lparr>revdeps := sadd tid (revdeps e)\<rparr>) es))"

definition gen_revdeps :: "entries \<Rightarrow> pyerr + entries" where
  "gen_revdeps es =
     foldE (\<lambda>tid es. bindE (dget es tid) (\<lambda>e. foldE (add_revdep tid) (depends e) es))
       (dkeys es) es"

definition find_endpoints :: "entries \<Rightarrow> pyerr + tid list" where
  "find_endpoints es =
     foldE (\<lambda>tid eps. bindE (dget es tid) (\<lambda>e.
        let eps = (if revdeps e = [] then eps @ [tid] else eps)
        in if \<exists>dep \<in> set (revdeps e). dep \<in> set (depends e)
           then Inl (Fatal ''circular dependency'') else Inr eps))
       (dkeys es) []"

section \<open>calculate_task_weights\<close>

record wstate =
  w_weight :: "(tid, int) dict"
  deps_left :: "(tid, int) dict"
  task_done :: "(tid, bool) dict"

definition weights_init :: "entries \<Rightarrow> tid list \<Rightarrow> wstate" where
  "weights_init es endpoints =
     (let st = fold (\<lambda>(tid, e) st.
            st\<lparr>task_done := dset tid False (task_done st),
               w_weight := dset tid 1 (w_weight st),
               deps_left := dset tid (int (length (revdeps e))) (deps_left st)\<rparr>)
          es \<lparr>w_weight = [], deps_left = [], task_done = []\<rparr>
      in fold (\<lambda>tid st.
            st\<lparr>w_weight := dset tid 10 (w_weight st), task_done := dset tid True (task_done st)\<rparr>)
          endpoints st)"

text \<open>The body of the inner loops, with the list \<open>next_points\<close> it appends to.\<close>

definition relax :: "tid \<Rightarrow> tid \<Rightarrow> wstate \<times> tid list \<Rightarrow> pyerr + (wstate \<times> tid list)" where
  "relax tid revdep = (\<lambda>(st, next_points).
     bindE (dget (w_weight st) revdep) (\<lambda>w.
     bindE (dget (w_weight st) tid) (\<lambda>v.
     bindE (dget (deps_left st) revdep) (\<lambda>n.
       let st = st\<lparr>w_weight := dset revdep (w + v) (w_weight st),
                   deps_left := dset revdep (n - 1) (deps_left st)\<rparr>
       in if n - 1 = 0
          then Inr (st\<lparr>task_done := dset revdep True (task_done st)\<rparr>, next_points @ [revdep])
          else Inr (st, next_points)))))"

definition relax_point :: "entries \<Rightarrow> tid \<Rightarrow> wstate \<times> tid list \<Rightarrow> pyerr + (wstate \<times> tid list)" where
  "relax_point es tid s = bindE (dget es tid) (\<lambda>e. foldE (relax tid) (depends e) s)"

definition relax_round :: "entries \<Rightarrow> tid list \<Rightarrow> wstate \<Rightarrow> pyerr + (wstate \<times> tid list)" where
  "relax_round es endpoints st = foldE (relax_point es) endpoints (st, [])"
text \<open>Each entry of \<open>next_points\<close> is a count that just reached zero, so the loop ends.\<close>

definition npos :: "('k, int) dict \<Rightarrow> nat" where
  "npos d = length (filter (\<lambda>(k, n). 0 < n) d)"

lemma npos_dset:
  "map_of d k = Some n \<Longrightarrow>
   npos (dset k m d) + (if 0 < n then 1 else 0) = npos d + (if 0 < m then 1 else 0)"
  by (induction d) (auto simp: npos_def split: if_splits)

lemma relax_Inr:
  assumes "relax tid r (st, nx) = Inr (st', nx')"
  shows "\<exists>w v n. map_of (w_weight st) r = Some w \<and> map_of (w_weight st) tid = Some v \<and>
    map_of (deps_left st) r = Some n \<and>
    w_weight st' = dset r (w + v) (w_weight st) \<and> deps_left st' = dset r (n - 1) (deps_left st) \<and>
    task_done st' = (if n = 1 then dset r True (task_done st) else task_done st) \<and>
    nx' = (if n = 1 then nx @ [r] else nx)"
proof -
  from assms obtain w v n where wvn: "map_of (w_weight st) r = Some w"
    "map_of (w_weight st) tid = Some v" "map_of (deps_left st) r = Some n"
    by (auto simp: relax_def dget_Inr_iff)
  with assms show ?thesis
    by (intro exI [of _ w] exI [of _ v] exI [of _ n])
      (auto simp: relax_def Let_def dget_def split: if_splits)
qed

lemma relax_npos:
  assumes "relax tid r (st, nx) = Inr (st', nx')"
  shows "npos (deps_left st') + length nx' \<le> npos (deps_left st) + length nx"
proof -
  obtain n where n: "map_of (deps_left st) r = Some n" "deps_left st' = dset r (n - 1) (deps_left st)"
    "nx' = (if n = 1 then nx @ [r] else nx)"
    using relax_Inr [OF assms] by blast
  from npos_dset [OF n(1), of "n - 1"] n(2,3) show ?thesis by (auto split: if_splits)
qed

lemma relax_point_npos:
  assumes "relax_point es tid s = Inr s'"
  shows "npos (deps_left (fst s')) + length (snd s') \<le> npos (deps_left (fst s)) + length (snd s)"
proof -
  from assms obtain e :: run_task_entry where "foldE (relax tid) (depends e) s = Inr s'"
    by (auto simp: relax_point_def)
  then show ?thesis
  proof (rule foldE_invariant)
    fix x t u
    assume "npos (deps_left (fst t)) + length (snd t) \<le> npos (deps_left (fst s)) + length (snd s)"
      and "relax tid x t = Inr u"
    then show "npos (deps_left (fst u)) + length (snd u) \<le> npos (deps_left (fst s)) + length (snd s)"
      using relax_npos [of tid x "fst t" "snd t" "fst u" "snd u"] by simp
  qed simp
qed

lemma relax_round_npos:
  assumes "relax_round es eps st = Inr (st', nx)"
  shows "npos (deps_left st') + length nx \<le> npos (deps_left st)"
proof -
  have "npos (deps_left (fst (st', nx))) + length (snd (st', nx)) \<le> npos (deps_left st)"
    using assms unfolding relax_round_def
    by (rule foldE_invariant) (use relax_point_npos in fastforce)+
  then show ?thesis by simp
qed

function weights_loop :: "entries \<Rightarrow> tid list \<Rightarrow> wstate \<Rightarrow> pyerr + wstate" where
  "weights_loop es endpoints st =
     bindE (relax_round es endpoints st) (\<lambda>(st', next_points).
       if next_points = [] then Inr st' else weights_loop es next_points st')"
  by pat_completeness auto
termination
  by (relation "measure (\<lambda>(es, eps, st). npos (deps_left st))")
    (auto dest!: relax_round_npos simp: length_greater_0_conv [symmetric] simp del: length_greater_0_conv)

declare weights_loop.simps [simp del]

definition problem_tasks :: "entries \<Rightarrow> wstate \<Rightarrow> tid list" where
  "problem_tasks es st =
     filter (\<lambda>tid. map_of (task_done st) tid = Some False \<or> map_of (deps_left st) tid \<noteq> Some 0) (dkeys es)"

definition store_weights :: "wstate \<Rightarrow> entries \<Rightarrow> entries" where
  "store_weights st = map (\<lambda>(tid, e). (tid, e\<lparr>weight := dgetd (w_weight st) tid (weight e)\<rparr>))"

text \<open>
  The result is the new entries and the dictionary of weights.  With tasks left over the code
  prints the loops it finds and ends the build; the message is not modelled.
\<close>

definition calculate_task_weights ::
  "entries \<Rightarrow> tid list \<Rightarrow> pyerr + (entries \<times> (tid, int) dict)" where
  "calculate_task_weights es endpoints =
     bindE (weights_loop es endpoints (weights_init es endpoints)) (\<lambda>st.
       if problem_tasks es st \<noteq> [] then Inl (Fatal ''unbuildable tasks'')
       else Inr (store_weights st es, w_weight st))"

section \<open>Correctness of the weights\<close>

definition w_base :: "entries \<Rightarrow> tid \<Rightarrow> int" where
  "w_base es t = (if revs_of es t = [] then 10 else 1)"

abbreviation wt :: "wstate \<Rightarrow> tid \<Rightarrow> int" where
  "wt st t \<equiv> the (map_of (w_weight st) t)"

text \<open>
  What the three dictionaries hold when the edges \<open>D\<close> have been handled: the weights that
  came in, the dependents still to come, and whether none is left.
\<close>

definition winv :: "entries \<Rightarrow> (tid \<times> tid) set \<Rightarrow> wstate \<Rightarrow> bool" where
  "winv es D st \<longleftrightarrow> (\<forall>t \<in> set (dkeys es).
     map_of (w_weight st) t =
       Some (w_base es t + (\<Sum>s | s \<in> set (revs_of es t) \<and> (s, t) \<in> D. wt st s)) \<and>
     map_of (deps_left st) t = Some (int (card {s \<in> set (revs_of es t). (s, t) \<notin> D})) \<and>
     map_of (task_done st) t = Some (\<forall>s \<in> set (revs_of es t). (s, t) \<in> D))"

lemma winvD:
  assumes "winv es D st" and "t \<in> set (dkeys es)"
  shows "map_of (w_weight st) t =
      Some (w_base es t + (\<Sum>s | s \<in> set (revs_of es t) \<and> (s, t) \<in> D. wt st s))"
    and "map_of (deps_left st) t = Some (int (card {s \<in> set (revs_of es t). (s, t) \<notin> D}))"
    and "map_of (task_done st) t = Some (\<forall>s \<in> set (revs_of es t). (s, t) \<in> D)"
  using assms unfolding winv_def by blast+

lemma relax_Some:
  assumes "map_of (w_weight st) r = Some w" "map_of (w_weight st) tid = Some v"
    "map_of (deps_left st) r = Some n"
  shows "relax tid r (st, nx) = Inr
    (st\<lparr>w_weight := dset r (w + v) (w_weight st), deps_left := dset r (n - 1) (deps_left st),
        task_done := (if n = 1 then dset r True (task_done st) else task_done st)\<rparr>,
     if n = 1 then nx @ [r] else nx)"
  using assms by (simp add: relax_def dget_def Let_def)

lemma winv_relax:
  assumes ok: "graph_ok es" and inv: "winv es D st"
    and closed: "\<And>a b r. (a, b) \<in> D \<Longrightarrow> r \<in> set (revs_of es a) \<Longrightarrow> (r, a) \<in> D"
    and s: "s \<in> set (dkeys es)" and ready: "\<forall>r \<in> set (revs_of es s). (r, s) \<in> D"
    and t: "t \<in> set (deps_of es s)" and new: "(s, t) \<notin> D"
  shows "\<exists>st'. relax s t (st, nx) =
      Inr (st', if \<forall>r \<in> set (revs_of es t). (r, t) \<in> insert (s, t) D then nx @ [t] else nx) \<and>
    winv es (insert (s, t) D) st'"
proof -
  let ?D = "insert (s, t) D"
  have tk: "t \<in> set (dkeys es)" using tg.deps_closed [OF ok s] t by blast
  have sr: "s \<in> set (revs_of es t)" using tg.revs_iff [OF ok tk] s t by blast
  have st: "s \<noteq> t" using ready sr new by blast
  have out: "(t, u) \<notin> ?D" for u using closed [of t u s] sr new st by blast
  let ?L = "\<lambda>D u. {r \<in> set (revs_of es u). (r, u) \<notin> D}"
  let ?S = "\<lambda>D u. {r \<in> set (revs_of es u). (r, u) \<in> D}"
  have L: "?L D t = insert s (?L ?D t)" "s \<notin> ?L ?D t" using sr new by auto
  have card: "card (?L D t) = Suc (card (?L ?D t))" unfolding L(1) using L(2) by simp
  have S: "?S ?D t = insert s (?S D t)" "s \<notin> ?S D t" using sr new by auto
  have other: "?L ?D u = ?L D u" "?S ?D u = ?S D u" if "u \<noteq> t" for u using that by auto
  define st' where "st' = st\<lparr>w_weight := dset t (wt st t + wt st s) (w_weight st),
      deps_left := dset t (int (card (?L D t)) - 1) (deps_left st),
      task_done := (if int (card (?L D t)) = 1 then dset t True (task_done st) else task_done st)\<rparr>"
  have all: "int (card (?L D t)) = 1 \<longleftrightarrow> (\<forall>r \<in> set (revs_of es t). (r, t) \<in> ?D)"
    unfolding card by auto
  have step: "relax s t (st, nx) = Inr (st', if int (card (?L D t)) = 1 then nx @ [t] else nx)"
    using relax_Some [of st t "wt st t" s "wt st s" "int (card (?L D t))" nx]
      winvD [OF inv tk] winvD(1) [OF inv s] by (simp add: st'_def)
  have wsum: "(\<Sum>r \<in> ?S ?D u. wt st' r) = (\<Sum>r \<in> ?S ?D u. wt st r)" for u
    by (rule sum.cong) (use out in \<open>auto simp: st'_def\<close>)
  have "winv es ?D st'"
    unfolding winv_def
  proof (intro ballI)
    fix u assume u: "u \<in> set (dkeys es)"
    show "map_of (w_weight st') u =
        Some (w_base es u + (\<Sum>r | r \<in> set (revs_of es u) \<and> (r, u) \<in> ?D. wt st' r)) \<and>
      map_of (deps_left st') u = Some (int (card {r \<in> set (revs_of es u). (r, u) \<notin> ?D})) \<and>
      map_of (task_done st') u = Some (\<forall>r \<in> set (revs_of es u). (r, u) \<in> ?D)"
    proof (cases "u = t")
      case True
      have "(\<Sum>r \<in> ?S ?D t. wt st' r) = wt st s + (\<Sum>r \<in> ?S D t. wt st r)"
        unfolding wsum unfolding S(1) using S(2) by simp
      then have w: "map_of (w_weight st') t = Some (w_base es t + (\<Sum>r \<in> ?S ?D t. wt st' r))"
        using winvD(1) [OF inv tk] by (simp add: st'_def)
      have l: "map_of (deps_left st') t = Some (int (card (?L ?D t)))"
        using card by (simp add: st'_def)
      have "(\<forall>r \<in> set (revs_of es t). (r, t) \<in> D) = False" using sr new by blast
      then have "map_of (task_done st') t = Some (int (card (?L D t)) = 1)"
        using winvD(3) [OF inv tk] by (simp add: st'_def)
      with w l show ?thesis unfolding True all by blast
    next
      case False
      have w: "map_of (w_weight st') u = Some (w_base es u + (\<Sum>r \<in> ?S ?D u. wt st' r))"
        using winvD(1) [OF inv u] False unfolding wsum unfolding other(2) [OF False] by (simp add: st'_def)
      have l: "map_of (deps_left st') u = Some (int (card (?L ?D u)))"
        using winvD(2) [OF inv u] False unfolding other(1) [OF False] by (simp add: st'_def)
      have "(\<forall>r \<in> set (revs_of es u). (r, u) \<in> ?D) = (\<forall>r \<in> set (revs_of es u). (r, u) \<in> D)"
        using False by (intro ball_cong refl) simp
      then have d: "map_of (task_done st') u = Some (\<forall>r \<in> set (revs_of es u). (r, u) \<in> ?D)"
        using winvD(3) [OF inv u] False unfolding st'_def by (simp only: split: if_split) simp
      show ?thesis by (intro conjI w l d)
    qed
  qed
  with step show ?thesis unfolding all by blast
qed

text \<open>
  Between two points, the handled edges are those out of a set \<open>P\<close> of finished tasks; the
  tasks whose dependents are all finished are \<open>P\<close> and the points still to visit.
\<close>

definition out_edges :: "entries \<Rightarrow> tid set \<Rightarrow> (tid \<times> tid) set" where
  "out_edges es P = {(s, t). s \<in> P \<and> t \<in> set (deps_of es s)}"

definition ready :: "entries \<Rightarrow> (tid \<times> tid) set \<Rightarrow> tid set" where
  "ready es D = {t \<in> set (dkeys es). \<forall>r \<in> set (revs_of es t). (r, t) \<in> D}"

definition pinv :: "entries \<Rightarrow> tid set \<Rightarrow> tid list \<Rightarrow> wstate \<Rightarrow> bool" where
  "pinv es P pend st \<longleftrightarrow> winv es (out_edges es P) st \<and> distinct pend \<and> set pend \<inter> P = {} \<and>
     ready es (out_edges es P) = P \<union> set pend \<and>
     P \<union> set pend \<subseteq> Wellfounded.acc (task_edges es)"

lemma ready_insert:
  assumes "t \<in> set (dkeys es)" and "s \<in> set (revs_of es t)" and "(s, t) \<notin> D"
  shows "ready es (insert (s, t) D) =
    (if \<forall>r \<in> set (revs_of es t). (r, t) \<in> insert (s, t) D then insert t (ready es D)
     else ready es D)"
proof (rule set_eqI)
  fix u
  show "u \<in> ready es (insert (s, t) D) \<longleftrightarrow> u \<in> (if \<forall>r \<in> set (revs_of es t).
      (r, t) \<in> insert (s, t) D then insert t (ready es D) else ready es D)"
    using assms by (cases "u = t") (simp_all add: ready_def, blast+)
qed

lemma ready_out_edges:
  assumes "graph_ok es"
  shows "ready es (out_edges es P) = {t \<in> set (dkeys es). set (revs_of es t) \<subseteq> P}"
  using tg.revs_iff [OF assms] unfolding ready_def out_edges_def by blast

lemma pinv_point:
  assumes ok: "graph_ok es" and inv: "pinv es P (s # rest @ nx) st"
  shows "\<exists>st' nx'. relax_point es s (st, nx) = Inr (st', nx') \<and> pinv es (insert s P) (rest @ nx') st'"
proof -
  let ?R = "\<lambda>ds. out_edges es P \<union> {s} \<times> set ds"
  have sk: "s \<in> set (dkeys es)" and sr: "\<forall>r \<in> set (revs_of es s). (r, s) \<in> out_edges es P"
    and sP: "s \<notin> P" and acc: "P \<union> set (s # rest @ nx) \<subseteq> Wellfounded.acc (task_edges es)"
    using inv by (auto simp: pinv_def ready_def)
  from sk obtain e where e: "map_of es s = Some e" "depends e = deps_of es s"
    by (auto simp: deps_of_def din_iff)
  let ?Q = "\<lambda>ds (st, nx). winv es (?R ds) st \<and> distinct (rest @ nx) \<and>
    set (rest @ nx) \<inter> insert s P = {} \<and> ready es (?R ds) = insert s P \<union> set (rest @ nx)"
  have "\<exists>x. foldE (relax s) (depends e) (st, nx) = Inr x \<and> ?Q (depends e) x"
  proof (rule foldE_prefix)
    show "?Q [] (st, nx)" using inv by (auto simp: pinv_def)
  next
    fix ds t zs x
    assume ds: "depends e = ds @ t # zs" and q: "?Q ds x"
    obtain st1 nx1 where x: "x = (st1, nx1)" by fastforce
    from q have q: "winv es (?R ds) st1" "distinct (rest @ nx1)" "set (rest @ nx1) \<inter> insert s P = {}"
      "ready es (?R ds) = insert s P \<union> set (rest @ nx1)" by (auto simp: x)
    have t: "t \<in> set (deps_of es s)" "t \<notin> set ds"
      using ds e tg.deps_distinct [OF ok sk] by auto
    have sub: "ready es (out_edges es P) \<subseteq> ready es (?R ds)" by (auto simp: ready_def)
    have closed: "(r, a) \<in> ?R ds" if "(a, b) \<in> ?R ds" "r \<in> set (revs_of es a)" for a b r
      using that sr inv by (auto simp: pinv_def ready_def out_edges_def)
    have new: "(s, t) \<notin> ?R ds" using t sP by (auto simp: out_edges_def)
    have R: "insert (s, t) (?R ds) = ?R (ds @ [t])" by auto
    have tk: "t \<in> set (dkeys es)" using tg.deps_closed [OF ok sk] t by blast
    have "s \<in> set (revs_of es t)" using tg.revs_iff [OF ok tk] sk t by blast
    then have told: "t \<notin> ready es (?R ds)" and sr': "s \<in> set (revs_of es t)"
      using new by (auto simp: ready_def)
    have rdy: "ready es (?R (ds @ [t])) =
        (if \<forall>r \<in> set (revs_of es t). (r, t) \<in> ?R (ds @ [t]) then insert t (ready es (?R ds)) else ready es (?R ds))"
      using ready_insert [OF tk sr' new] unfolding R .
    have rd: "\<forall>r \<in> set (revs_of es s). (r, s) \<in> ?R ds" using sr by blast
    have "\<exists>st2. relax s t (st1, nx1) = Inr (st2,
        if \<forall>r \<in> set (revs_of es t). (r, t) \<in> ?R (ds @ [t]) then nx1 @ [t] else nx1) \<and>
      winv es (?R (ds @ [t])) st2"
      using winv_relax [OF ok q(1) _ sk rd t(1) new, where nx = nx1] closed unfolding R by blast
    then obtain st2 where st2: "relax s t (st1, nx1) = Inr (st2,
        if \<forall>r \<in> set (revs_of es t). (r, t) \<in> ?R (ds @ [t]) then nx1 @ [t] else nx1)"
      "winv es (?R (ds @ [t])) st2" by blast
    have "?Q (ds @ [t]) (st2, if \<forall>r \<in> set (revs_of es t). (r, t) \<in> ?R (ds @ [t]) then nx1 @ [t] else nx1)"
      using st2(2) q told unfolding rdy by auto
    with st2(1) show "\<exists>y. relax s t x = Inr y \<and> ?Q (ds @ [t]) y" unfolding x by blast
  qed
  then obtain st' nx' where run: "relax_point es s (st, nx) = Inr (st', nx')" and q: "?Q (deps_of es s) (st', nx')"
    using e by (auto simp: relax_point_def dget_def)
  have R: "?R (deps_of es s) = out_edges es (insert s P)" by (auto simp: out_edges_def)
  have "insert s P \<union> set (rest @ nx') \<subseteq> Wellfounded.acc (task_edges es)"
  proof
    fix t assume "t \<in> insert s P \<union> set (rest @ nx')"
    then have "t \<in> ready es (out_edges es (insert s P))" using q unfolding R by auto
    then have "t \<in> set (dkeys es)" "set (revs_of es t) \<subseteq> insert s P"
      unfolding ready_out_edges [OF ok] by auto
    then show "t \<in> Wellfounded.acc (task_edges es)"
      using acc by (intro tg.acc_node [OF ok]) auto
  qed
  with run q show ?thesis unfolding R pinv_def by auto
qed

lemma pinv_points:
  assumes ok: "graph_ok es"
  shows "pinv es P (pend @ nx) st \<Longrightarrow>
    \<exists>st' nx'. foldE (relax_point es) pend (st, nx) = Inr (st', nx') \<and> pinv es (P \<union> set pend) nx' st'"
proof (induction pend arbitrary: P nx st)
  case Nil
  then show ?case by simp
next
  case (Cons s pend)
  then obtain st1 nx1 where run: "relax_point es s (st, nx) = Inr (st1, nx1)"
    and "pinv es (insert s P) (pend @ nx1) st1"
    using pinv_point [OF ok, of P s pend nx st] by auto
  from Cons.IH [OF this(2)] run show ?case by auto
qed

lemma pinv_loop:
  assumes "graph_ok es"
  shows "pinv es P pend st \<Longrightarrow> \<exists>st' P'. weights_loop es pend st = Inr st' \<and> pinv es P' [] st'"
  using assms
proof (induction es pend st arbitrary: P rule: weights_loop.induct)
  case (1 es pend st)
  from pinv_points [OF "1.prems"(2), of P pend "[]" st] "1.prems"(1)
  obtain st' nx' where run: "relax_round es pend st = Inr (st', nx')"
    and inv: "pinv es (P \<union> set pend) nx' st'"
    by (auto simp: relax_round_def)
  show ?case
  proof (cases "nx' = []")
    case True
    with run inv show ?thesis by (auto simp: weights_loop.simps [of es pend st])
  next
    case False
    from "1.IH" [OF run refl False inv "1.prems"(2)] run False show ?thesis
      by (auto simp: weights_loop.simps [of es pend st])
  qed
qed

lemma weights_init_maps:
  assumes "distinct (dkeys es)"
  shows "map_of (w_weight (weights_init es eps)) t =
      (if t \<in> set eps then Some 10 else if t \<in> set (dkeys es) then Some 1 else None)"
    and "map_of (deps_left (weights_init es eps)) t =
      map_option (\<lambda>e. int (length (revdeps e))) (map_of es t)"
    and "map_of (task_done (weights_init es eps)) t =
      (if t \<in> set eps then Some True else if t \<in> set (dkeys es) then Some False else None)"
proof -
  let ?f = "\<lambda>(tid, e :: run_task_entry) st.
            st\<lparr>task_done := dset tid False (task_done st),
               w_weight := dset tid 1 (w_weight st),
               deps_left := dset tid (int (length (revdeps e))) (deps_left st)\<rparr>"
  let ?g = "\<lambda>tid st.
            st\<lparr>w_weight := dset tid 10 (w_weight st), task_done := dset tid True (task_done st)\<rparr>"
  have f: "map_of (w_weight (fold ?f xs st)) t =
        (if t \<in> set (dkeys xs) then Some 1 else map_of (w_weight st) t) \<and>
      map_of (deps_left (fold ?f xs st)) t =
        (case map_of xs t of None \<Rightarrow> map_of (deps_left st) t | Some e \<Rightarrow> Some (int (length (revdeps e)))) \<and>
      map_of (task_done (fold ?f xs st)) t =
        (if t \<in> set (dkeys xs) then Some False else map_of (task_done st) t)"
    if "distinct (dkeys xs)" for xs :: entries and st :: wstate
    using that
    by (induction xs arbitrary: st) (auto simp: din_iff split: option.splits if_splits)
  have g: "map_of (w_weight (fold ?g ys st)) t = (if t \<in> set ys then Some 10 else map_of (w_weight st) t) \<and>
      map_of (deps_left (fold ?g ys st)) t = map_of (deps_left st) t \<and>
      map_of (task_done (fold ?g ys st)) t = (if t \<in> set ys then Some True else map_of (task_done st) t)"
    for ys and st :: wstate
    by (induction ys arbitrary: st) auto
  show "map_of (w_weight (weights_init es eps)) t =
      (if t \<in> set eps then Some 10 else if t \<in> set (dkeys es) then Some 1 else None)"
    and "map_of (deps_left (weights_init es eps)) t =
      map_option (\<lambda>e. int (length (revdeps e))) (map_of es t)"
    and "map_of (task_done (weights_init es eps)) t =
      (if t \<in> set eps then Some True else if t \<in> set (dkeys es) then Some False else None)"
    unfolding weights_init_def Let_def using g f [OF assms] by (simp_all split: option.splits)
qed

definition endpoints_of :: "entries \<Rightarrow> tid list" where
  "endpoints_of es = filter (\<lambda>t. revs_of es t = []) (dkeys es)"

lemma pinv_init:
  assumes ok: "graph_ok es"
  shows "pinv es {} (endpoints_of es) (weights_init es (endpoints_of es))"
proof -
  let ?st = "weights_init es (endpoints_of es)"
  have d: "distinct (dkeys es)" by (rule tg.nodes_distinct [OF ok])
  have out: "out_edges es {} = {}" by (simp add: out_edges_def)
  have "winv es {} ?st"
    unfolding winv_def
  proof (intro ballI)
    fix t assume t: "t \<in> set (dkeys es)"
    then obtain e where e: "map_of es t = Some e" by (auto simp: din_iff)
    have r: "revdeps e = revs_of es t" by (simp add: revs_of_def e)
    have "card (set (revs_of es t)) = length (revs_of es t)"
      by (rule distinct_card [OF tg.revs_distinct [OF ok t]])
    moreover have ep: "t \<in> set (endpoints_of es) \<longleftrightarrow> revs_of es t = []"
      using t by (simp add: endpoints_of_def)
    ultimately show "map_of (w_weight ?st) t = Some (w_base es t + (\<Sum>s | s \<in> set (revs_of es t) \<and> (s, t) \<in> {}. wt ?st s)) \<and>
       map_of (deps_left ?st) t = Some (int (card {s \<in> set (revs_of es t). (s, t) \<notin> {}})) \<and>
       map_of (task_done ?st) t = Some (\<forall>s \<in> set (revs_of es t). (s, t) \<in> {})"
      unfolding weights_init_maps [OF d] using t e r
      by (cases "revs_of es t = []") (simp_all add: w_base_def)
  qed
  moreover have rd: "ready es {} = set (endpoints_of es)"
    unfolding ready_def endpoints_of_def set_filter by (rule Collect_cong) auto
  moreover have "set (endpoints_of es) \<subseteq> Wellfounded.acc (task_edges es)"
  proof
    fix t assume "t \<in> set (endpoints_of es)"
    then have "t \<in> set (dkeys es)" "revs_of es t = []"
      by (simp_all only: endpoints_of_def set_filter mem_Collect_eq)
    then show "t \<in> Wellfounded.acc (task_edges es)"
      by (intro tg.acc_node [OF ok]) simp_all
  qed
  ultimately show ?thesis
    using d by (simp add: pinv_def out endpoints_of_def)
qed

lemma calculate_task_weights_run:
  assumes ok: "graph_ok es"
  shows "\<exists>st. weights_loop es (endpoints_of es) (weights_init es (endpoints_of es)) = Inr st \<and>
    set (problem_tasks es st) = set (dkeys es) - Wellfounded.acc (task_edges es) \<and>
    (\<forall>t \<in> set (dkeys es) \<inter> Wellfounded.acc (task_edges es).
       map_of (w_weight st) t = Some (w_base es t + (\<Sum>s \<in> set (revs_of es t). wt st s)))"
proof -
  obtain st P where run: "weights_loop es (endpoints_of es) (weights_init es (endpoints_of es)) = Inr st"
    and inv: "pinv es P [] st"
    using pinv_loop [OF ok pinv_init [OF ok]] by blast
  have w: "winv es (out_edges es P) st" and PA: "P \<subseteq> Wellfounded.acc (task_edges es)"
    and R: "{t \<in> set (dkeys es). set (revs_of es t) \<subseteq> P} = P"
    using inv unfolding pinv_def ready_out_edges [OF ok] by auto
  have Piff: "t \<in> P \<longleftrightarrow> set (revs_of es t) \<subseteq> P" if "t \<in> set (dkeys es)" for t
  proof -
    have "t \<in> {t \<in> set (dkeys es). set (revs_of es t) \<subseteq> P} \<longleftrightarrow> t \<in> P" by (simp only: R)
    with that show ?thesis by simp
  qed
  have AP: "t \<in> P" if "t \<in> set (dkeys es)" "t \<in> Wellfounded.acc (task_edges es)" for t
    using tg.acc_closed_subset [OF ok, of P t] Piff that by blast
  have out: "(s, t) \<in> out_edges es P \<longleftrightarrow> s \<in> P"
    if "t \<in> set (dkeys es)" "s \<in> set (revs_of es t)" for s t
    using that tg.revs_iff [OF ok that(1)] by (auto simp: out_edges_def)
  have done_iff: "map_of (task_done st) t = Some (t \<in> P)" if "t \<in> set (dkeys es)" for t
  proof -
    have "(\<forall>s \<in> set (revs_of es t). (s, t) \<in> out_edges es P) \<longleftrightarrow> set (revs_of es t) \<subseteq> P"
      using out [OF that] by blast
    then show ?thesis using winvD(3) [OF w that] Piff [OF that] by simp
  qed
  have left: "map_of (deps_left st) t = Some 0 \<longleftrightarrow> t \<in> P" if "t \<in> set (dkeys es)" for t
  proof -
    have "{s \<in> set (revs_of es t). (s, t) \<notin> out_edges es P} = {} \<longleftrightarrow> set (revs_of es t) \<subseteq> P"
      using out [OF that] by blast
    moreover have "finite {s \<in> set (revs_of es t). (s, t) \<notin> out_edges es P}" by simp
    ultimately show ?thesis
      using winvD(2) [OF w that] Piff [OF that] by (simp only: option.inject of_nat_eq_0_iff card_0_eq)
  qed
  have "set (problem_tasks es st) = set (dkeys es) - P"
    unfolding problem_tasks_def set_filter
  proof (rule set_eqI)
    fix x
    show "x \<in> {x \<in> set (dkeys es). map_of (task_done st) x = Some False \<or>
        map_of (deps_left st) x \<noteq> Some 0} \<longleftrightarrow> x \<in> set (dkeys es) - P"
      using done_iff [of x] left [of x] by (cases "din x es") auto
  qed
  moreover have "set (dkeys es) - P = set (dkeys es) - Wellfounded.acc (task_edges es)"
    using AP PA by blast
  moreover have "map_of (w_weight st) t = Some (w_base es t + (\<Sum>s \<in> set (revs_of es t). wt st s))"
    if "t \<in> set (dkeys es) \<inter> Wellfounded.acc (task_edges es)" for t
  proof -
    have t: "t \<in> set (dkeys es)" "t \<in> P" using that AP by auto
    then have "set (revs_of es t) \<subseteq> P" using Piff by blast
    then have "{s. s \<in> set (revs_of es t) \<and> (s, t) \<in> out_edges es P} = set (revs_of es t)"
      using out [OF t(1)] by blast
    with winvD(1) [OF w t(1)] show ?thesis by simp
  qed
  ultimately show ?thesis using run by auto
qed

lemma calculate_task_weights_weight:
  assumes ok: "graph_ok es" and run: "calculate_task_weights es (endpoints_of es) = Inr (es', ws)"
    and t: "t \<in> set (dkeys es)"
  shows "map_of ws t = Some (w_base es t + (\<Sum>s \<in> set (revs_of es t). the (map_of ws s)))"
  using calculate_task_weights_run [OF ok] run t
  by (auto simp: calculate_task_weights_def split: if_splits)

lemma calculate_accept:
  assumes "graph_ok es"
  shows "(\<exists>r. calculate_task_weights es (endpoints_of es) = Inr r) \<longleftrightarrow> acyclic (task_edges es)"
    and "\<not> acyclic (task_edges es) \<Longrightarrow>
      calculate_task_weights es (endpoints_of es) = Inl (Fatal ''unbuildable tasks'')"
proof -
  obtain st where run: "weights_loop es (endpoints_of es) (weights_init es (endpoints_of es)) = Inr st"
    and pt: "set (problem_tasks es st) = set (dkeys es) - Wellfounded.acc (task_edges es)"
    using calculate_task_weights_run [OF assms] by blast
  have "problem_tasks es st = [] \<longleftrightarrow> acyclic (task_edges es)"
    unfolding tg.acyclic_iff_acc [OF assms] using pt by (metis Diff_eq_empty_iff set_empty)
  then show "(\<exists>r. calculate_task_weights es (endpoints_of es) = Inr r) \<longleftrightarrow> acyclic (task_edges es)"
    and "\<not> acyclic (task_edges es) \<Longrightarrow>
      calculate_task_weights es (endpoints_of es) = Inl (Fatal ''unbuildable tasks'')"
    using run by (auto simp: calculate_task_weights_def)
qed

lemma weights_positive:
  assumes ok: "graph_ok es" and run: "calculate_task_weights es (endpoints_of es) = Inr (es', ws)"
    and t: "t \<in> set (dkeys es)"
  shows "0 < the (map_of ws t)"
proof -
  have "t \<in> Wellfounded.acc (task_edges es)"
    using calculate_accept(1) [OF ok] run tg.acyclic_iff_acc [OF ok] t by blast
  then show ?thesis using t
  proof (induction rule: acc.induct)
    case (accI t)
    have "0 \<le> (\<Sum>s \<in> set (revs_of es t). the (map_of ws s))"
    proof (rule sum_nonneg)
      fix s assume "s \<in> set (revs_of es t)"
      then have "(s, t) \<in> task_edges es" "s \<in> set (dkeys es)"
        using tg.edge_iff_revs [OF ok accI.prems] tg.revs_iff [OF ok accI.prems] by auto
      then show "0 \<le> the (map_of ws s)" using accI.IH by force
    qed
    then show ?case
      using calculate_task_weights_weight [OF ok run accI.prems] by (simp add: w_base_def)
  qed
qed

lemma weights_decrease:
  assumes ok: "graph_ok es" and run: "calculate_task_weights es (endpoints_of es) = Inr (es', ws)"
    and t: "t \<in> set (dkeys es)" and s: "s \<in> set (revs_of es t)"
  shows "the (map_of ws s) < the (map_of ws t)"
proof -
  have "the (map_of ws s) \<le> (\<Sum>s \<in> set (revs_of es t). the (map_of ws s))"
    using s tg.revs_iff [OF ok t] weights_positive [OF ok run]
    by (intro member_le_sum) (auto intro: less_imp_le)
  moreover from s have "revs_of es t \<noteq> []" by auto
  ultimately show ?thesis
    using calculate_task_weights_weight [OF ok run t] by (simp add: w_base_def)
qed

lemma map_of_store_weights:
  "map_of (store_weights st es) t =
   map_option (\<lambda>e. e\<lparr>weight := dgetd (w_weight st) t (weight e)\<rparr>) (map_of es t)"
  by (induction es) (auto simp: store_weights_def)

lemma calculate_task_weights_entries:
  assumes "calculate_task_weights es eps = Inr (es', ws)"
  shows "dkeys es' = dkeys es" and "deps_of es' = deps_of es" and "revs_of es' = revs_of es"
    and "map_of es' t = Some e' \<Longrightarrow> map_of ws t = Some w \<Longrightarrow> weight e' = w"
proof -
  from assms obtain st where st: "es' = store_weights st es" "ws = w_weight st"
    by (auto simp: calculate_task_weights_def split: if_splits)
  show "dkeys es' = dkeys es" by (simp add: st store_weights_def comp_def case_prod_beta)
  show "deps_of es' = deps_of es" "revs_of es' = revs_of es"
    by (auto simp: st deps_of_def revs_of_def map_of_store_weights fun_eq_iff split: option.splits)
  show "map_of es' t = Some e' \<Longrightarrow> map_of ws t = Some w \<Longrightarrow> weight e' = w"
    by (auto simp: st map_of_store_weights dgetd_def)
qed

section \<open>Reverse dependencies\<close>

lemma add_revdep_Inr:
  assumes "din dep es"
  shows "\<exists>es'. add_revdep tid dep es = Inr es' \<and> dkeys es' = dkeys es \<and> deps_of es' = deps_of es \<and>
    (\<forall>t. revs_of es' t = (if t = dep then sadd tid (revs_of es dep) else revs_of es t))"
proof -
  from assms obtain e where e: "map_of es dep = Some e" by (auto simp: din_iff)
  let ?es = "dset dep (e\<lparr>revdeps := sadd tid (revdeps e)\<rparr>) es"
  have "add_revdep tid dep es = Inr ?es" using e by (simp add: add_revdep_def dget_def)
  moreover have "dkeys ?es = dkeys es" using assms by (simp add: dkeys_dset)
  moreover have "deps_of ?es = deps_of es" using e by (auto simp: deps_of_def fun_eq_iff)
  moreover have "\<forall>t. revs_of ?es t = (if t = dep then sadd tid (revs_of es dep) else revs_of es t)"
    using e by (auto simp: revs_of_def)
  ultimately show ?thesis by blast
qed

definition fresh_entries :: "entries \<Rightarrow> bool" where
  "fresh_entries es \<longleftrightarrow> distinct (dkeys es) \<and>
     (\<forall>t \<in> set (dkeys es). revs_of es t = [] \<and> distinct (deps_of es t) \<and>
        set (deps_of es t) \<subseteq> set (dkeys es))"

lemma gen_revdeps_ok:
  assumes "fresh_entries es"
  shows "\<exists>es'. gen_revdeps es = Inr es' \<and> dkeys es' = dkeys es \<and> deps_of es' = deps_of es \<and> graph_ok es'"
proof -
  let ?P = "\<lambda>E x. dkeys x = dkeys es \<and> deps_of x = deps_of es \<and>
    (\<forall>t \<in> set (dkeys es). distinct (revs_of x t) \<and> set (revs_of x t) = {s. (s, t) \<in> E})"
  let ?E = "\<lambda>ys. {(s, t). s \<in> set ys \<and> t \<in> set (deps_of es s)}"
  have "\<exists>x. gen_revdeps es = Inr x \<and> ?P (?E (dkeys es)) x"
    unfolding gen_revdeps_def
  proof (rule foldE_prefix [where P = "\<lambda>ys. ?P (?E ys)"])
    show "?P (?E []) es" using assms by (simp add: fresh_entries_def)
  next
    fix ys tid zs x
    assume ys: "dkeys es = ys @ tid # zs" and x: "?P (?E ys) x"
    have tid: "tid \<in> set (dkeys es)" using ys by simp
    then have "tid \<in> set (dkeys x)" using x by simp
    then obtain e where e: "map_of x tid = Some e" by (auto simp: din_iff)
    have dep: "depends e = deps_of es tid" using x e by (metis deps_of_def option.simps(5))
    have "\<exists>y. foldE (add_revdep tid) (depends e) x = Inr y \<and> ?P (?E ys \<union> {tid} \<times> set (depends e)) y"
    proof (rule foldE_prefix [where P = "\<lambda>ds. ?P (?E ys \<union> {tid} \<times> set ds)"])
      show "?P (?E ys \<union> {tid} \<times> set []) x" using x by simp
    next
      fix ds d es2 z
      assume d: "depends e = ds @ d # es2" and z: "?P (?E ys \<union> {tid} \<times> set ds) z"
      have "set (deps_of es tid) \<subseteq> set (dkeys es)"
        using assms tid unfolding fresh_entries_def by blast
      then have dk: "d \<in> set (dkeys es)" using d unfolding dep by auto
      then have "d \<in> set (dkeys z)" using z by simp
      then have "din d z" by simp
      from add_revdep_Inr [OF this, of tid] obtain y where y: "add_revdep tid d z = Inr y"
        "dkeys y = dkeys z" "deps_of y = deps_of z"
        "\<And>t. revs_of y t = (if t = d then sadd tid (revs_of z d) else revs_of z t)" by blast
      have "?P (?E ys \<union> {tid} \<times> set (ds @ [d])) y" using y z dk by auto
      with y(1) show "\<exists>y. add_revdep tid d z = Inr y \<and> ?P (?E ys \<union> {tid} \<times> set (ds @ [d])) y" by blast
    qed
    moreover have "?E ys \<union> {tid} \<times> set (depends e) = ?E (ys @ [tid])" using dep by auto
    ultimately show "\<exists>y. bindE (dget x tid) (\<lambda>e. foldE (add_revdep tid) (depends e) x) = Inr y \<and>
        ?P (?E (ys @ [tid])) y"
      using e by (simp add: dget_def)
  qed
  then obtain x where x: "gen_revdeps es = Inr x" "?P (?E (dkeys es)) x" by blast
  moreover have "graph_ok x"
    using x(2) assms unfolding graph_ok_def fresh_entries_def by auto
  ultimately show ?thesis by blast
qed

text \<open>A chain end is a task without reverse dependencies; a loop of two tasks is fatal.\<close>

lemma find_endpoints_result:
  assumes ok: "graph_ok es"
  shows "find_endpoints es =
    (if \<exists>s \<in> set (dkeys es). \<exists>t \<in> set (deps_of es s). s \<in> set (deps_of es t)
     then Inl (Fatal ''circular dependency'') else Inr (endpoints_of es))"
proof -
  let ?body = "\<lambda>tid eps. bindE (dget es tid) (\<lambda>e.
        let eps = (if revdeps e = [] then eps @ [tid] else eps)
        in if \<exists>dep \<in> set (revdeps e). dep \<in> set (depends e)
           then Inl (Fatal ''circular dependency'') else Inr eps)"
  let ?bad = "\<lambda>t. \<exists>s \<in> set (revs_of es t). s \<in> set (deps_of es t)"
  have step: "?body t eps = (if ?bad t then Inl (Fatal ''circular dependency'')
      else Inr (if revs_of es t = [] then eps @ [t] else eps))" if "t \<in> set (dkeys es)" for t eps
    using that by (auto simp: dget_def deps_of_def revs_of_def din_iff Let_def)
  have run: "foldE ?body ts eps = (if \<exists>t \<in> set ts. ?bad t then Inl (Fatal ''circular dependency'')
      else Inr (eps @ filter (\<lambda>t. revs_of es t = []) ts))" if "set ts \<subseteq> set (dkeys es)" for ts eps
    using that
  proof (induction ts arbitrary: eps)
    case (Cons t ts)
    then show ?case using step [of t eps] by (cases "?bad t") simp_all
  qed simp
  have "(\<exists>t \<in> set (dkeys es). ?bad t) \<longleftrightarrow>
      (\<exists>s \<in> set (dkeys es). \<exists>t \<in> set (deps_of es s). s \<in> set (deps_of es t))"
    using tg.revs_iff [OF ok] tg.deps_closed [OF ok] by blast
  then show ?thesis
    using run [OF order_refl, of "[]"] unfolding find_endpoints_def endpoints_of_def by simp
qed

section \<open>Properties\<close>

text \<open>Step D from the pruned entries to the weights.\<close>

definition weigh_tasks :: "entries \<Rightarrow> pyerr + (entries \<times> (tid, int) dict)" where
  "weigh_tasks es =
     bindE (gen_revdeps es) (\<lambda>es. bindE (find_endpoints es) (calculate_task_weights es))"

lemma task_edges_cong: "dkeys es' = dkeys es \<Longrightarrow> deps_of es' = deps_of es \<Longrightarrow> task_edges es' = task_edges es"
  by (simp only: graph_edges_def)

lemma two_cycle: "s \<in> set (dkeys es) \<Longrightarrow> t \<in> set (dkeys es) \<Longrightarrow> t \<in> set (deps_of es s) \<Longrightarrow>
  s \<in> set (deps_of es t) \<Longrightarrow> \<not> acyclic (task_edges es)"
proof -
  assume "s \<in> set (dkeys es)" "t \<in> set (dkeys es)" "t \<in> set (deps_of es s)" "s \<in> set (deps_of es t)"
  then have "(s, t) \<in> task_edges es" "(t, s) \<in> task_edges es"
    by (simp_all only: graph_edges_def mem_Collect_eq case_prod_conv simp_thms)
  then have "(s, s) \<in> (task_edges es)\<^sup>+" by (rule trancl.trancl_into_trancl [OF r_into_trancl])
  then show ?thesis by (auto simp: acyclic_def)
qed

lemma weigh_tasks_cases:
  assumes fresh: "fresh_entries es"
  obtains (cycle) m where "weigh_tasks es = Inl (Fatal m)" and "\<not> acyclic (task_edges es)"
  | (ok) es1 r where "graph_ok es1" and "dkeys es1 = dkeys es" and "deps_of es1 = deps_of es"
      and "calculate_task_weights es1 (endpoints_of es1) = Inr r" and "weigh_tasks es = Inr r"
      and "acyclic (task_edges es)"
proof -
  obtain es1 where gen: "gen_revdeps es = Inr es1" and keys: "dkeys es1 = dkeys es"
    and deps: "deps_of es1 = deps_of es" and g: "graph_ok es1"
    using gen_revdeps_ok [OF fresh] by blast
  have edges: "task_edges es1 = task_edges es" by (rule task_edges_cong [OF keys deps])
  show ?thesis
  proof (cases "\<exists>s \<in> set (dkeys es1). \<exists>t \<in> set (deps_of es1 s). s \<in> set (deps_of es1 t)")
    case True
    then obtain s t where st: "s \<in> set (dkeys es1)" "t \<in> set (deps_of es1 s)" "s \<in> set (deps_of es1 t)"
      by blast
    then have "t \<in> set (dkeys es1)" using tg.deps_closed [OF g] by blast
    with two_cycle [of s es1 t] st have "\<not> acyclic (task_edges es)" unfolding edges by blast
    then show ?thesis
      using cycle True gen find_endpoints_result [OF g] by (simp add: weigh_tasks_def)
  next
    case False
    then have run: "weigh_tasks es = calculate_task_weights es1 (endpoints_of es1)"
      using gen find_endpoints_result [OF g] by (simp add: weigh_tasks_def)
    show ?thesis
    proof (cases "acyclic (task_edges es)")
      case True
      then obtain r where "calculate_task_weights es1 (endpoints_of es1) = Inr r"
        using calculate_accept(1) [OF g] unfolding edges by blast
      with ok g keys deps run True show ?thesis by simp
    next
      case False
      then show ?thesis
        using cycle run calculate_accept(2) [OF g] unfolding edges by simp
    qed
  qed
qed

text \<open>
  C4: the task graph is accepted exactly when its dependencies have no cycle.  From pruned
  entries, step D of \<open>prepare\<close> (reverse dependencies, chain ends, \<open>calculate_task_weights\<close>)
  returns when the dependencies are acyclic and ends in a fatal error when they are not; its
  loop always stops.
\<close>

theorem weigh_tasks_iff_acyclic:
  assumes "fresh_entries es"
  shows "((\<exists>r. weigh_tasks es = Inr r) \<longleftrightarrow> acyclic (task_edges es)) \<and>
    ((\<exists>m. weigh_tasks es = Inl (Fatal m)) \<longleftrightarrow> \<not> acyclic (task_edges es))"
  using assms by (cases es rule: weigh_tasks_cases) auto

definition demo_entries :: entries where
  "demo_entries =
     [(''a:build'', RunTaskEntry\<lparr>depends := [''a:compile'', ''b:compile'']\<rparr>),
      (''a:compile'', RunTaskEntry\<lparr>depends := [''b:compile'']\<rparr>),
      (''b:compile'', RunTaskEntry)]"

lemma demo_fresh: "fresh_entries demo_entries"
  by (simp add: fresh_entries_def demo_entries_def deps_of_def revs_of_def RunTaskEntry_def) auto

theorem weigh_tasks_iff_acyclic_witness:
  "acyclic (task_edges demo_entries)"
proof -
  have "(\<exists>r. weigh_tasks demo_entries = Inr r) \<longleftrightarrow> acyclic (task_edges demo_entries)"
    using weigh_tasks_iff_acyclic [OF demo_fresh] by blast
  moreover have "map_sum id snd (weigh_tasks demo_entries) =
      Inr [(''a:build'', 10), (''a:compile'', 11), (''b:compile'', 22)]"
    by code_simp
  ultimately show ?thesis by (cases "weigh_tasks demo_entries") auto
qed

lemma weigh_tasks_InrE:
  assumes "fresh_entries es" and "weigh_tasks es = Inr (es', ws)"
  obtains es1 where "graph_ok es1" and "dkeys es1 = dkeys es" and "deps_of es1 = deps_of es"
    and "calculate_task_weights es1 (endpoints_of es1) = Inr (es', ws)"
  using assms(1) by (cases es rule: weigh_tasks_cases) (use assms(2) in auto)

lemma weigh_tasks_keys:
  assumes "fresh_entries es" and "weigh_tasks es = Inr (es', ws)"
  shows "dkeys es' = dkeys es" and "deps_of es' = deps_of es" and "graph_ok es'"
proof -
  obtain es1 where 1: "graph_ok es1" "dkeys es1 = dkeys es" "deps_of es1 = deps_of es"
    "calculate_task_weights es1 (endpoints_of es1) = Inr (es', ws)"
    using weigh_tasks_InrE [OF assms] .
  note e = calculate_task_weights_entries(1-3) [OF 1(4)]
  show "dkeys es' = dkeys es" "deps_of es' = deps_of es" using e 1 by simp_all
  show "graph_ok es'" using 1(1) unfolding graph_ok_def e .
qed

lemma weigh_tasks_weight_stored:
  assumes "fresh_entries es" and "weigh_tasks es = Inr (es', ws)" and t: "t \<in> set (dkeys es)"
  shows "\<exists>e. map_of es' t = Some e \<and> Some (weight e) = map_of ws t"
proof -
  obtain es1 where 1: "graph_ok es1" "dkeys es1 = dkeys es" "deps_of es1 = deps_of es"
    "calculate_task_weights es1 (endpoints_of es1) = Inr (es', ws)"
    using weigh_tasks_InrE [OF assms(1,2)] .
  have t1: "t \<in> set (dkeys es1)" using t 1(2) by simp
  have "t \<in> set (dkeys es')" using weigh_tasks_keys(1) [OF assms(1,2)] t by simp
  then obtain e where "map_of es' t = Some e" by (auto simp: din_iff)
  with calculate_task_weights_entries(4) [OF 1(4)] calculate_task_weights_weight [OF 1(1,4) t1]
  show ?thesis by simp
qed

lemma weigh_tasks_decrease:
  assumes fresh: "fresh_entries es" and run: "weigh_tasks es = Inr (es', ws)"
    and s: "s \<in> set (dkeys es)" and t: "t \<in> set (deps_of es s)"
  shows "the (map_of ws s) < the (map_of ws t)"
proof -
  obtain es1 where 1: "graph_ok es1" "dkeys es1 = dkeys es" "deps_of es1 = deps_of es"
    "calculate_task_weights es1 (endpoints_of es1) = Inr (es', ws)"
    using weigh_tasks_InrE [OF fresh run] .
  have "t \<in> set (dkeys es1)"
    using tg.deps_closed [OF 1(1), of s] s t unfolding 1(2,3) by blast
  moreover from this have "s \<in> set (revs_of es1 t)" using tg.revs_iff [OF 1(1)] s t 1(2,3) by simp
  ultimately show ?thesis by (rule weights_decrease [OF 1(1,4)])
qed

text \<open>
  C9: the weight of a task is its base (10 for a task nothing needs, 1 otherwise) plus the
  weights of all tasks that depend on it; so a task always weighs more than every task that
  needs it.  The stored weights are these.
\<close>

theorem weigh_tasks_weights:
  assumes fresh: "fresh_entries es" and run: "weigh_tasks es = Inr (es', ws)"
    and t: "t \<in> set (dkeys es)"
  shows "map_of ws t =
      Some ((if \<forall>s \<in> set (dkeys es). t \<notin> set (deps_of es s) then 10 else 1) +
        (\<Sum>s | s \<in> set (dkeys es) \<and> t \<in> set (deps_of es s). the (map_of ws s))) \<and>
    (\<forall>s \<in> set (dkeys es). t \<in> set (deps_of es s) \<longrightarrow> the (map_of ws s) < the (map_of ws t)) \<and>
    (\<exists>e. map_of es' t = Some e \<and> Some (weight e) = map_of ws t)"
proof -
  obtain es1 where 1: "graph_ok es1" "dkeys es1 = dkeys es" "deps_of es1 = deps_of es"
    "calculate_task_weights es1 (endpoints_of es1) = Inr (es', ws)"
    using weigh_tasks_InrE [OF fresh run] .
  have t1: "t \<in> set (dkeys es1)" using t 1(2) by simp
  have revs: "set (revs_of es1 t) = {s. s \<in> set (dkeys es) \<and> t \<in> set (deps_of es s)}"
    using tg.revs_iff [OF 1(1) t1] unfolding 1(2,3) by blast
  have "revs_of es1 t = [] \<longleftrightarrow> set (revs_of es1 t) = {}" by simp
  then have empty: "revs_of es1 t = [] \<longleftrightarrow> (\<forall>s \<in> set (dkeys es). t \<notin> set (deps_of es s))"
    unfolding revs by blast
  have "map_of ws t = Some (w_base es1 t + (\<Sum>s \<in> set (revs_of es1 t). the (map_of ws s)))"
    by (rule calculate_task_weights_weight [OF 1(1,4) t1])
  with weigh_tasks_weight_stored [OF fresh run t] weigh_tasks_decrease [OF fresh run]
  show ?thesis unfolding w_base_def empty revs by blast
qed

theorem weigh_tasks_weights_witness:
  "\<exists>es' ws. weigh_tasks demo_entries = Inr (es', ws) \<and> the (map_of ws ''a:compile'') < the (map_of ws ''b:compile'')"
proof -
  have run: "map_sum id snd (weigh_tasks demo_entries) =
      Inr [(''a:build'', 10), (''a:compile'', 11), (''b:compile'', 22)]"
    by code_simp
  then obtain es' ws where w: "weigh_tasks demo_entries = Inr (es', ws)"
    by (cases "weigh_tasks demo_entries") auto
  have t: "''b:compile'' \<in> set (dkeys demo_entries)" "''a:compile'' \<in> set (dkeys demo_entries)"
    "''b:compile'' \<in> set (deps_of demo_entries ''a:compile'')"
    by code_simp+
  from weigh_tasks_weights [OF demo_fresh w t(1)] t(2,3)
  have "the (map_of ws ''a:compile'') < the (map_of ws ''b:compile'')" by blast
  with w show ?thesis by blast
qed

end
