(* ===== verification/RunQueueState.thy ===== *)
theory RunQueueState
  imports TaskGraph TaskData
begin

text \<open>
  The state of a running build, from \<open>poky/bitbake/lib/bb/runqueue.py\<close>: the counters of
  \<open>RunQueueStats\<close>, the scene queue data \<open>SQData\<close>, the scheduler's fields and the
  fields of \<open>RunQueueExecute\<close>, with the read-only data they are used with.
\<close>

section \<open>RunQueueStats\<close>

record stats =
  st_completed :: int
  st_skipped :: int
  st_failed :: int
  st_active :: int
  st_setscene_active :: int
  st_setscene_covered :: int
  st_setscene_notcovered :: int
  st_setscene_total :: int
  st_total :: int

definition RunQueueStats :: "int \<Rightarrow> int \<Rightarrow> stats" where
  "RunQueueStats tot setscene_total =
     \<lparr>st_completed = 0, st_skipped = 0, st_failed = 0, st_active = 0, st_setscene_active = 0,
      st_setscene_covered = 0, st_setscene_notcovered = 0,
      st_setscene_total = setscene_total, st_total = tot\<rparr>"

definition taskFailed :: "stats \<Rightarrow> stats" where
  "taskFailed s = s\<lparr>st_active := st_active s - 1, st_failed := st_failed s + 1\<rparr>"

definition taskCompleted :: "stats \<Rightarrow> stats" where
  "taskCompleted s = s\<lparr>st_active := st_active s - 1, st_completed := st_completed s + 1\<rparr>"

definition taskSkipped :: "stats \<Rightarrow> stats" where
  "taskSkipped s = s\<lparr>st_active := st_active s + 1, st_skipped := st_skipped s + 1\<rparr>"

definition taskActive :: "stats \<Rightarrow> stats" where
  "taskActive s = s\<lparr>st_active := st_active s + 1\<rparr>"

definition updateCovered :: "int \<Rightarrow> int \<Rightarrow> stats \<Rightarrow> stats" where
  "updateCovered covered notcovered s =
     s\<lparr>st_setscene_covered := covered, st_setscene_notcovered := notcovered\<rparr>"

definition updateActiveSetscene :: "int \<Rightarrow> stats \<Rightarrow> stats" where
  "updateActiveSetscene n s = s\<lparr>st_setscene_active := n\<rparr>"

section \<open>States of the run queue and events\<close>

datatype rq_state =
    runQueuePrepare | runQueueSceneInit | runQueueRunning | runQueueFailed
  | runQueueCleanUp | runQueueComplete

text \<open>The events fired at listeners, in order, as far as the executor fires them.\<close>

datatype rq_event =
    TaskStarted tid bool
  | TaskCompleted tid
  | TaskSkipped tid string
  | TaskFailed tid
  | SQTaskStarted tid
  | SQTaskCompleted tid
  | SQTaskFailed tid
  | SQComplete
  | RunTask tid bool
  | ExitWait int

section \<open>Read-only data\<close>

text \<open>
  Configuration of the build, and what lies outside the modelled code as functions: the stamp
  file name of a task (the signature generator, from the current hashes), the effect of
  writing a stamp file, the hash and dependency validation functions of the metadata, glob
  matching (\<open>fnmatch\<close>), the \<open>number_threads\<close> flag, whether a fakeroot worker starts, and the
  hashes the signature generator computes.  \<open>rec_limit\<close> bounds the depth of recursive calls.
\<close>

record rq_env =
  caches :: "(string, cache) dict"
  taskdatas :: "(string, taskdata) dict"
  setscene_tids :: "tid list"
  target_tids :: "tid list"
  setscene_enforce :: bool
  ignore_tasks :: "string list option"
  cfg_force :: bool
  cfg_skipsetscene :: bool
  cfg_setsceneonly :: bool
  cfg_dry_run :: bool
  stampfile :: "entries \<Rightarrow> string \<Rightarrow> string \<Rightarrow> bool \<Rightarrow> string"
  make_stamp :: "string \<Rightarrow> string \<Rightarrow> (string \<Rightarrow> int option) \<Rightarrow> (string \<Rightarrow> int option)"
  hashvalidate :: bool
  validate_hash ::
    "(tid \<times> string option \<times> string \<times> string option) list \<Rightarrow> nat \<Rightarrow> bool \<Rightarrow> bool \<Rightarrow> tid list"
  depvalidate :: "(tid \<Rightarrow> (tid, string \<times> string \<times> string) dict \<Rightarrow> tid list \<Rightarrow> bool) option"
  glob_match :: "string \<Rightarrow> string \<Rightarrow> bool"
  number_threads :: "string \<Rightarrow> string option"
  fakeworker_starts :: "string \<Rightarrow> bool"
  get_taskhash :: "entries \<Rightarrow> tid \<Rightarrow> tid list \<Rightarrow> string"
  get_unihashes :: "entries \<Rightarrow> (tid \<times> string) list \<Rightarrow> (tid, string) dict"
  rec_limit :: nat

definition cache_of :: "rq_env \<Rightarrow> string \<Rightarrow> pyerr + cache" where
  "cache_of env mc = dget (caches env) mc"

text \<open>\<open>dataCaches[mc].task_deps[taskfn]\<close> and \<open>dataCaches[mc].pkg_fn[taskfn]\<close> of a task.\<close>

definition task_flags :: "rq_env \<Rightarrow> tid \<Rightarrow> pyerr + (string \<times> string \<times> task_deps)" where
  "task_flags env tid =
     bindE (split_tid_mcfn tid) (\<lambda>(mc, fn, taskname, taskfn).
     bindE (cache_of env mc) (\<lambda>c.
     bindE (dget (task_deps_of c) taskfn) (\<lambda>taskdep. Inr (taskname, taskfn, taskdep))))"

definition task_pn :: "rq_env \<Rightarrow> tid \<Rightarrow> pyerr + string" where
  "task_pn env tid =
     bindE (split_tid_mcfn tid) (\<lambda>(mc, fn, taskname, taskfn).
     bindE (cache_of env mc) (\<lambda>c. dget (pkg_fn c) taskfn))"

section \<open>SQData\<close>

record sqdata =
  sq_deps :: "(tid, tid list) dict"
  sq_revdeps :: "(tid, tid list) dict"
  sq_harddeps :: "(tid, tid list) dict"
  sq_harddeps_rev :: "(tid, tid list) dict"
  sq_stamps :: "(tid, string) dict"
  unskippable :: "tid list"
  outrightfail :: "tid list"
  sq_covered_tasks :: "(tid, tid list) dict"
  cantskip :: "tid list"
  multiconfigs :: "string list"
  sq_noexec :: "tid list"
  stamppresent :: "tid list"
  sq_valid :: "tid list"
  sq_hashes :: "(string, tid) dict"

definition SQData :: sqdata where
  "SQData =
     \<lparr>sq_deps = [], sq_revdeps = [], sq_harddeps = [], sq_harddeps_rev = [], sq_stamps = [],
      unskippable = [], outrightfail = [], sq_covered_tasks = [], cantskip = [],
      multiconfigs = [], sq_noexec = [], stamppresent = [], sq_valid = [], sq_hashes = []\<rparr>"

section \<open>The scheduler's fields\<close>

text \<open>
  The base class puts one element into its priority map, the view of all keys, which is equal
  to no task; the derived classes a list of tasks.
\<close>

datatype prio_map = KeysView "tid list" | Order "tid list"

record sched =
  s_prio_map :: prio_map
  s_buildable :: "tid list"
  s_skip_maxthread :: "(string, string option) dict"
  s_stamps :: "(tid, string) dict"
  s_rev_prio_map :: "(tid, nat) dict"

section \<open>RunQueueExecute\<close>

record rqexe =
  entries :: entries
  number_tasks :: int
  sq_buildable :: "tid list"
  sq_running :: "tid list"
  sq_live :: "tid list"
  updated_taskhash_queue :: "(tid \<times> string) list"
  pending_migrations :: "tid list"
  runq_buildable :: "tid list"
  runq_running :: "tid list"
  runq_complete :: "tid list"
  runq_tasksrun :: "tid list"
  build_stamps :: "(tid, string) dict"
  build_stamps2 :: "string list"
  failed_tids :: "tid list"
  sq_deferred :: "(tid, tid) dict"
  sq_needed_harddeps :: "tid list"
  sq_harddep_deferred :: "tid list"
  stampcache :: "(tid, bool) dict"
  holdoff_tasks :: "tid list"
  holdoff_need_update :: bool
  sqdone :: bool
  rq_stats :: stats
  scenequeue_covered :: "tid list"
  tasks_covered :: "tid list"
  tasks_scenequeue_done :: "tid list"
  scenequeue_notcovered :: "tid list"
  tasks_notcovered :: "tid list"
  scenequeue_notneeded :: "tid list"
  sched :: sched
  sqd :: sqdata
  rq_state :: rq_state
  setscene_cycle :: "tid list"
  fakeworkers :: "string list"
  fs :: "string \<Rightarrow> int option"
  events :: "rq_event list"

definition fire :: "rq_event \<Rightarrow> rqexe \<Rightarrow> rqexe" where
  "fire e r = r\<lparr>events := events r @ [e]\<rparr>"

definition upd_stats :: "(stats \<Rightarrow> stats) \<Rightarrow> rqexe \<Rightarrow> rqexe" where
  "upd_stats f r = r\<lparr>rq_stats := f (rq_stats r)\<rparr>"

definition upd_sqd :: "(sqdata \<Rightarrow> sqdata) \<Rightarrow> rqexe \<Rightarrow> rqexe" where
  "upd_sqd f r = r\<lparr>sqd := f (sqd r)\<rparr>"

definition can_start_task :: "rqexe \<Rightarrow> bool" where
  "can_start_task r \<longleftrightarrow> st_active (rq_stats r) + int (length (sq_live r)) < number_tasks r"

definition entry :: "rqexe \<Rightarrow> tid \<Rightarrow> pyerr + run_task_entry" where
  "entry r tid = dget (entries r) tid"

end
