(* ===== verification/Scheduler.thy ===== *)
theory Scheduler
  imports RunQueueState "HOL-Library.Multiset"
begin

text \<open>
  The schedulers of \<open>poky/bitbake/lib/bb/runqueue.py\<close>.  \<open>next_buildable_task\<close> picks the
  task to start; the classes differ in the priority map: \<open>speed\<close> sorts by weight,
  \<open>completion\<close> groups the tasks of that order by task name.  Whether the machine is under
  pressure (\<open>exceeds_max_pressure\<close>, read from \<open>/proc\<close>) is an argument.
\<close>

section \<open>next_buildable_task\<close>

definition prio_index :: "prio_map \<Rightarrow> tid \<Rightarrow> pyerr + nat" where
  "prio_index pm t =
     (case pm of
        KeysView ks \<Rightarrow> Inl (ValueError ''not in list'')
      | Order ts \<Rightarrow> (case index_of ts t of
                        None \<Rightarrow> Inl (ValueError ''not in list'') | Some n \<Rightarrow> Inr n))"

text \<open>Count the running tasks per task name, for the names that have a limit.\<close>

definition count_running ::
  "rq_env \<Rightarrow> tid \<Rightarrow> (string, string option) dict \<times> (string, int) dict \<Rightarrow>
   pyerr + ((string, string option) dict \<times> (string, int) dict)" where
  "count_running env running = (\<lambda>(maxthread, skip).
     bindE (taskname_from_tid running) (\<lambda>name.
       let maxthread = (if din name maxthread then maxthread
                        else dset name (number_threads env name) maxthread)
       in if \<not> truthy (dgetd maxthread name None) then Inr (maxthread, skip)
          else Inr (maxthread, dset name (dgetd skip name 0 + 1) skip)))"

text \<open>\<open>taskname in skip_buildable and skip_buildable[taskname] >= int(self.skip_maxthread[taskname])\<close>.\<close>

definition at_limit ::
  "(string, string option) dict \<Rightarrow> (string, int) dict \<Rightarrow> string \<Rightarrow> pyerr + bool" where
  "at_limit maxthread skip name =
     (case map_of skip name of
        None \<Rightarrow> Inr False
      | Some n \<Rightarrow> (case dgetd maxthread name None of
                       None \<Rightarrow> Inl (ValueError ''int()'')
                     | Some s \<Rightarrow> bindE (py_int s) (\<lambda>k. Inr (n \<ge> k))))"

definition rev_prio :: "rqexe \<Rightarrow> pyerr + (tid, nat) dict" where
  "rev_prio r =
     (if s_rev_prio_map (sched r) \<noteq> [] then Inr (s_rev_prio_map (sched r))
      else foldE (\<lambda>tid m. bindE (prio_index (s_prio_map (sched r)) tid) (\<lambda>n. Inr (dset tid n m)))
             (dkeys (entries r)) [])"

definition stamp_in_use :: "rqexe \<Rightarrow> string \<Rightarrow> bool" where
  "stamp_in_use r stamp \<longleftrightarrow> stamp \<in> set (map snd (build_stamps r))"

definition consider_task ::
  "rqexe \<Rightarrow> (string, string option) dict \<Rightarrow> (string, int) dict \<Rightarrow> (tid, nat) dict \<Rightarrow>
   tid \<Rightarrow> (tid \<times> nat) option \<Rightarrow> pyerr + (tid \<times> nat) option" where
  "consider_task r maxthread skip revprio tid best =
     bindE (dget revprio tid) (\<lambda>prio.
     if (case best of None \<Rightarrow> True | Some (_, bestprio) \<Rightarrow> bestprio > prio) then
       bindE (taskname_from_tid tid) (\<lambda>name.
       bindE (at_limit maxthread skip name) (\<lambda>lim.
       if lim then Inr best
       else bindE (dget (s_stamps (sched r)) tid) (\<lambda>stamp.
            if stamp_in_use r stamp then Inr best else Inr (Some (tid, prio)))))
     else Inr best)"

definition upd_sched :: "(sched \<Rightarrow> sched) \<Rightarrow> rqexe \<Rightarrow> rqexe" where
  "upd_sched f r = r\<lparr>sched := f (sched r)\<rparr>"

definition candidates :: "rqexe \<Rightarrow> tid list" where
  "candidates r =
     sinter (sdiff (sdiff (s_buildable (sched r)) (runq_running r)) (holdoff_tasks r))
       (sunion (tasks_covered r) (tasks_notcovered r))"

definition best_task ::
  "rqexe \<Rightarrow> (string, string option) dict \<Rightarrow> (string, int) dict \<Rightarrow> tid list \<Rightarrow>
   pyerr + (rqexe \<times> tid option)" where
  "best_task r maxthread skip buildable =
     bindE (rev_prio r) (\<lambda>rp.
     bindE (foldE (consider_task r maxthread skip rp) buildable None) (\<lambda>best.
       Inr (upd_sched (\<lambda>s. s\<lparr>s_rev_prio_map := rp\<rparr>) r, map_option fst best)))"

definition next_buildable_task :: "rq_env \<Rightarrow> bool \<Rightarrow> rqexe \<Rightarrow> pyerr + (rqexe \<times> tid option)" where
  "next_buildable_task env pressure r0 =
     (let r = upd_sched (\<lambda>s. s\<lparr>s_buildable := sdiff (s_buildable s) (runq_running r0)\<rparr>) r0;
          buildable = candidates r0
      in if buildable = [] then Inr (r, None)
         else if st_active (rq_stats r) \<noteq> 0 \<and> pressure then Inr (r, None)
         else
           bindE (foldE (count_running env) (sdiff (runq_running r) (runq_complete r))
                    (s_skip_maxthread (sched r), [])) (\<lambda>(maxthread, skip).
           let r = upd_sched (\<lambda>s. s\<lparr>s_skip_maxthread := maxthread\<rparr>) r
           in case buildable of
                [tid] \<Rightarrow>
                  bindE (taskname_from_tid tid) (\<lambda>name.
                  bindE (at_limit maxthread skip name) (\<lambda>lim.
                  if lim then Inr (r, None)
                  else bindE (dget (s_stamps (sched r)) tid) (\<lambda>stamp.
                       if \<not> stamp_in_use r stamp then Inr (r, Some tid)
                       else best_task r maxthread skip [])))
              | _ \<Rightarrow> best_task r maxthread skip buildable))"

definition sched_next :: "rq_env \<Rightarrow> bool \<Rightarrow> rqexe \<Rightarrow> pyerr + (rqexe \<times> tid option)" where
  "sched_next env pressure r =
     (if can_start_task r then next_buildable_task env pressure r else Inr (r, None))"

definition newbuildable :: "tid \<Rightarrow> rqexe \<Rightarrow> rqexe" where
  "newbuildable task = upd_sched (\<lambda>s. s\<lparr>s_buildable := sadd task (s_buildable s)\<rparr>)"

text \<open>\<open>set.remove\<close> raises when the element is missing.\<close>

definition removebuildable :: "tid \<Rightarrow> rqexe \<Rightarrow> pyerr + rqexe" where
  "removebuildable task r =
     (if task \<in> set (s_buildable (sched r))
      then Inr (upd_sched (\<lambda>s. s\<lparr>s_buildable := sremove task (s_buildable s)\<rparr>) r)
      else Inl KeyError)"

section \<open>Priority maps\<close>

definition basic_prio_map :: "entries \<Rightarrow> prio_map" where
  "basic_prio_map es = KeysView (dkeys es)"

definition speed_prio_map :: "entries \<Rightarrow> tid list" where
  "speed_prio_map es =
     (let weights = fold (\<lambda>(tid, e) ws. dappend (weight e) tid ws) es []
      in rev (concat (map (\<lambda>w. dgetd weights w []) (sort (dkeys weights)))))"

definition nth_opt :: "'a list \<Rightarrow> nat \<Rightarrow> 'a option" where
  "nth_opt xs n = (if n < length xs then Some (xs ! n) else None)"

definition split_task :: "tid \<Rightarrow> pyerr + (string \<times> string)" where
  "split_task t =
     (case rsplit1 (CHR '':'') t of
        None \<Rightarrow> Inl (ValueError ''not enough values to unpack'') | Some p \<Rightarrow> Inr p)"

definition task_lists :: "tid list \<Rightarrow> pyerr + (string, string list) dict" where
  "task_lists prio =
     foldE (\<lambda>t d. bindE (split_task t) (\<lambda>(fn, name). Inr (dappend fn name d))) prio []"

definition unify_task ::
  "string \<Rightarrow> string list \<times> nat \<times> string option \<Rightarrow> string list \<times> nat \<times> string option" where
  "unify_task new_task = (\<lambda>(all_tasks, index, old_task).
     if old_task = Some new_task then
       (all_tasks, index + 1, nth_opt all_tasks (index + 1))
     else (case index_of all_tasks new_task of
             Some i \<Rightarrow> (all_tasks, i + 1, nth_opt all_tasks (i + 1))
           | None \<Rightarrow> (take index all_tasks @ new_task # drop index all_tasks, index + 1, old_task)))"

definition unify_lists :: "(string, string list) dict \<Rightarrow> string list" where
  "unify_lists task_ls =
     fold (\<lambda>(recipe, new_tasks) all_tasks.
             fst (fold unify_task new_tasks (all_tasks, 0, nth_opt all_tasks 0))) task_ls []"

definition move_task :: "string \<Rightarrow> nat \<Rightarrow> tid list \<times> nat \<Rightarrow> pyerr + (tid list \<times> nat)" where
  "move_task task index = (\<lambda>(prio, task_index).
     if index < length prio then
       bindE (taskname_from_tid (prio ! index)) (\<lambda>name.
         if name = task then
           (let taskid = prio ! index; rest = take index prio @ drop (Suc index) prio
            in Inr (take task_index rest @ taskid # drop task_index rest, task_index + 1))
         else Inr (prio, task_index))
     else Inl IndexError)"

definition move_group :: "nat \<Rightarrow> string \<Rightarrow> tid list \<times> nat \<Rightarrow> pyerr + (tid list \<times> nat)" where
  "move_group numTasks task = (\<lambda>(prio, task_index).
     foldE (move_task task) [task_index ..< numTasks] (prio, task_index))"

definition completion_prio_map :: "entries \<Rightarrow> pyerr + tid list" where
  "completion_prio_map es =
     (let prio = speed_prio_map es
      in bindE (task_lists prio) (\<lambda>tls.
         bindE (foldE (move_group (length es)) (rev (unify_lists tls)) (prio, 0)) (\<lambda>(prio, _).
           Inr prio)))"

section \<open>What next_buildable_task returns\<close>

definition tname :: "tid \<Rightarrow> string" where
  "tname t = (case taskname_from_tid t of Inl _ \<Rightarrow> '''' | Inr n \<Rightarrow> n)"

lemma tname_eq [simp]: "taskname_from_tid t = Inr n \<Longrightarrow> tname t = n"
  by (simp add: tname_def)

definition running_count :: "rqexe \<Rightarrow> string \<Rightarrow> nat" where
  "running_count r n =
     length (filter (\<lambda>t. tname t = n) (sdiff (runq_running r) (runq_complete r)))"

text \<open>The \<open>number_threads\<close> limit of a task name is used up.\<close>

definition limit_reached :: "rq_env \<Rightarrow> rqexe \<Rightarrow> string \<Rightarrow> bool" where
  "limit_reached env r n \<longleftrightarrow>
     truthy (number_threads env n) \<and> running_count r n \<noteq> 0 \<and>
     (case py_int (the (number_threads env n)) of
        Inl _ \<Rightarrow> False | Inr k \<Rightarrow> int (running_count r n) \<ge> k)"

definition startable :: "rq_env \<Rightarrow> rqexe \<Rightarrow> tid \<Rightarrow> bool" where
  "startable env r t \<longleftrightarrow>
     \<not> limit_reached env r (tname t) \<and>
     (\<exists>stamp. map_of (s_stamps (sched r)) t = Some stamp \<and> \<not> stamp_in_use r stamp)"

text \<open>The two caches of the scheduler agree with what they cache.\<close>

definition cache_ok :: "rq_env \<Rightarrow> (string, string option) dict \<Rightarrow> bool" where
  "cache_ok env m \<longleftrightarrow> (\<forall>n v. map_of m n = Some v \<longrightarrow> v = number_threads env n)"

lemma count_running_fold:
  assumes "foldE (count_running env) rs (mt0, []) = Inr (mt, sk)" and "cache_ok env mt0"
  shows "cache_ok env mt \<and> (\<forall>n. map_of sk n =
      (if truthy (number_threads env n) \<and> length (filter (\<lambda>t. tname t = n) rs) \<noteq> 0
       then Some (int (length (filter (\<lambda>t. tname t = n) rs))) else None) \<and>
      (map_of sk n \<noteq> None \<longrightarrow> map_of mt n = Some (number_threads env n)))"
proof -
  let ?c = "\<lambda>rs n. length (filter (\<lambda>t. tname t = n) rs)"
  let ?P = "\<lambda>rs (mt, sk). cache_ok env mt \<and> (\<forall>n. map_of sk n =
      (if truthy (number_threads env n) \<and> ?c rs n \<noteq> 0 then Some (int (?c rs n)) else None) \<and>
      (map_of sk n \<noteq> None \<longrightarrow> map_of mt n = Some (number_threads env n)))"
  have "?P rs (mt, sk)"
    using assms(1)
  proof (rule foldE_prefix_inv [where P = ?P])
    show "?P [] (mt0, [])" using assms(2) by simp
  next
    fix ys x zs s t
    assume p: "?P ys s" and run: "count_running env x s = Inr t"
    obtain m k where s: "s = (m, k)" by fastforce
    have co: "cache_ok env m" using p by (simp add: s)
    from run obtain n where n: "taskname_from_tid x = Inr n" by (auto simp: s count_running_def)
    let ?m = "if din n m then m else dset n (number_threads env n) m"
    have m: "cache_ok env ?m" "map_of ?m n = Some (number_threads env n)"
      "\<And>n'. map_of m n' \<noteq> None \<Longrightarrow> map_of ?m n' = map_of m n'"
      using co by (cases "din n m"; fastforce simp: cache_ok_def din_iff)+
    have t: "t = (if \<not> truthy (number_threads env n) then (?m, k) else (?m, dset n (dgetd k n 0 + 1) k))"
      using run m(2) by (auto simp: s count_running_def n dgetd_def Let_def split: if_splits)
    have c: "?c (ys @ [x]) n' = ?c ys n' + (if n' = n then 1 else 0)" for n' using n by auto
    show "?P (ys @ [x]) t"
    proof (cases "truthy (number_threads env n)")
      case False
      with t p m c show ?thesis by (auto simp: s split: if_splits)
    next
      case True
      have k: "map_of k n' = (if truthy (number_threads env n') \<and> ?c ys n' \<noteq> 0
          then Some (int (?c ys n')) else None)" for n'
        using p by (simp add: s)
      have d: "dgetd k n 0 = int (?c ys n)" using k [of n] True by (simp add: dgetd_def)
      show ?thesis
        using t p m c True k d by (auto simp: s split: if_splits)
    qed
  qed
  then show ?thesis by simp
qed

lemma at_limit_iff:
  assumes "foldE (count_running env) (sdiff (runq_running r) (runq_complete r)) (mt0, []) = Inr (mt, sk)"
    and "cache_ok env mt0" and "at_limit mt sk n = Inr b"
  shows "b \<longleftrightarrow> limit_reached env r n"
proof -
  let ?c = "running_count r n"
  have sk: "map_of sk n = (if truthy (number_threads env n) \<and> ?c \<noteq> 0 then Some (int ?c) else None)"
    and mt: "map_of sk n \<noteq> None \<Longrightarrow> map_of mt n = Some (number_threads env n)"
    using count_running_fold [OF assms(1,2)] by (simp_all add: running_count_def)
  show ?thesis
  proof (cases "truthy (number_threads env n) \<and> ?c \<noteq> 0")
    case True
    then obtain s where s: "number_threads env n = Some s" by (auto simp: truthy_def split: option.splits)
    with True sk mt assms(3) show ?thesis by (auto simp: at_limit_def limit_reached_def dgetd_def)
  next
    case False
    then have "map_of sk n = None" using sk by auto
    with False assms(3) show ?thesis by (auto simp: at_limit_def limit_reached_def)
  qed
qed

lemma consider_task_Inr:
  assumes "consider_task r mt sk rp t best = Inr best'"
    and lim: "\<And>n b. at_limit mt sk n = Inr b \<Longrightarrow> b \<longleftrightarrow> limit_reached env r n"
  shows "\<exists>p. map_of rp t = Some p \<and>
    best' = (if (case best of None \<Rightarrow> True | Some (_, bp) \<Rightarrow> bp > p) \<and> startable env r t
             then Some (t, p) else best)"
proof -
  from assms(1) obtain p where p: "map_of rp t = Some p"
    by (auto simp: consider_task_def dget_Inr_iff)
  show ?thesis
  proof (cases "case best of None \<Rightarrow> True | Some (_, bp) \<Rightarrow> bp > p")
    case True
    with assms(1) p lim show ?thesis
      by (auto simp: consider_task_def dget_def startable_def split: option.splits if_splits)
  next
    case False
    with assms(1) p show ?thesis by (auto simp: consider_task_def dget_def)
  qed
qed

lemma best_task_result:
  assumes run: "best_task r mt sk ts = Inr (r', ot)"
    and lim: "\<And>n b. at_limit mt sk n = Inr b \<Longrightarrow> b \<longleftrightarrow> limit_reached env r n"
  shows "\<exists>rp. rev_prio r = Inr rp \<and> r' = upd_sched (\<lambda>s. s\<lparr>s_rev_prio_map := rp\<rparr>) r \<and>
    (case ot of None \<Rightarrow> \<forall>t \<in> set ts. \<not> startable env r t
     | Some t \<Rightarrow> t \<in> set ts \<and> startable env r t \<and>
         (\<forall>t' \<in> set ts. startable env r t' \<longrightarrow> the (map_of rp t) \<le> the (map_of rp t')))"
proof -
  from run obtain rp best where rp: "rev_prio r = Inr rp"
    and f: "foldE (consider_task r mt sk rp) ts None = Inr best"
    and r': "r' = upd_sched (\<lambda>s. s\<lparr>s_rev_prio_map := rp\<rparr>) r" "ot = map_option fst best"
    by (auto simp: best_task_def)
  let ?P = "\<lambda>ts best. case best of None \<Rightarrow> \<forall>t \<in> set ts. \<not> startable env r t
     | Some (t, p) \<Rightarrow> t \<in> set ts \<and> startable env r t \<and> map_of rp t = Some p \<and>
         (\<forall>t' \<in> set ts. startable env r t' \<longrightarrow> p \<le> the (map_of rp t'))"
  have "?P ts best"
    using f
  proof (rule foldE_prefix_inv [where P = ?P])
    fix ys x zs b b'
    assume p: "?P ys b" and c: "consider_task r mt sk rp x b = Inr b'"
    from consider_task_Inr [OF c lim] obtain q where q: "map_of rp x = Some q"
      and b': "b' = (if (case b of None \<Rightarrow> True | Some (_, bp) \<Rightarrow> bp > q) \<and> startable env r x
             then Some (x, q) else b)" by blast
    show "?P (ys @ [x]) b'"
    proof (cases b)
      case None
      with p q b' show ?thesis by auto
    next
      case (Some tp)
      with p q b' show ?thesis by (cases tp; cases "startable env r x") auto
    qed
  qed simp
  then show ?thesis using rp r' by (cases best) auto
qed

lemma set_candidates:
  "set (candidates r) = {t \<in> set (s_buildable (sched r)). t \<notin> set (runq_running r) \<and>
     t \<notin> set (holdoff_tasks r) \<and> (t \<in> set (tasks_covered r) \<or> t \<in> set (tasks_notcovered r))}"
  by (auto simp: candidates_def)

lemma upd_sched_fields [simp]:
  "sched (upd_sched f r) = f (sched r)" "runq_running (upd_sched f r) = runq_running r"
  "runq_complete (upd_sched f r) = runq_complete r" "entries (upd_sched f r) = entries r"
  "build_stamps (upd_sched f r) = build_stamps r" "rq_stats (upd_sched f r) = rq_stats r"
  by (simp_all add: upd_sched_def)

lemma upd_sched_simps [simp]:
  "stamp_in_use (upd_sched f r) s = stamp_in_use r s"
  "running_count (upd_sched f r) n = running_count r n"
  "limit_reached env (upd_sched f r) n = limit_reached env r n"
  "candidates (upd_sched (\<lambda>s. s\<lparr>s_skip_maxthread := m\<rparr>) r) = candidates r"
  "candidates (upd_sched (\<lambda>s. s\<lparr>s_rev_prio_map := rp\<rparr>) r) = candidates r"
proof -
  show c: "running_count (upd_sched f r) n = running_count r n" for n
    by (simp add: running_count_def)
  show "limit_reached env (upd_sched f r) n = limit_reached env r n"
    unfolding limit_reached_def c ..
qed (simp_all add: stamp_in_use_def candidates_def upd_sched_def)

lemma startable_upd_sched [simp]:
  "startable env (upd_sched (\<lambda>s. s\<lparr>s_buildable := f s\<rparr>) r) t = startable env r t"
  "startable env (upd_sched (\<lambda>s. s\<lparr>s_skip_maxthread := m\<rparr>) r) t = startable env r t"
  "startable env (upd_sched (\<lambda>s. s\<lparr>s_rev_prio_map := rp\<rparr>) r) t = startable env r t"
  by (simp_all add: startable_def)

lemma rev_prio_upd_sched [simp]:
  "rev_prio (upd_sched (\<lambda>s. s\<lparr>s_buildable := f s\<rparr>) r) = rev_prio r"
  "rev_prio (upd_sched (\<lambda>s. s\<lparr>s_skip_maxthread := m\<rparr>) r) = rev_prio r"
  by (simp_all add: rev_prio_def)

lemma next_buildable_task_result:
  assumes run: "next_buildable_task env pressure r = Inr (r', ot)"
    and cache: "cache_ok env (s_skip_maxthread (sched r))"
  shows "(\<exists>sc. r' = r\<lparr>sched := sc\<rparr> \<and> s_buildable sc = sdiff (s_buildable (sched r)) (runq_running r)) \<and>
    (case ot of
       None \<Rightarrow> st_active (rq_stats r) \<noteq> 0 \<and> pressure \<or> (\<forall>t \<in> set (candidates r). \<not> startable env r t)
     | Some t \<Rightarrow> t \<in> set (candidates r) \<and> startable env r t \<and>
         (\<forall>rp. rev_prio r = Inr rp \<longrightarrow>
            (\<forall>t' \<in> set (candidates r). startable env r t' \<longrightarrow> the (map_of rp t) \<le> the (map_of rp t'))))"
proof -
  let ?r = "upd_sched (\<lambda>s. s\<lparr>s_buildable := sdiff (s_buildable s) (runq_running r)\<rparr>) r"
  show ?thesis
  proof (cases "candidates r = [] \<or> st_active (rq_stats r) \<noteq> 0 \<and> pressure")
    case True
    with run have "r' = ?r" "ot = None"
      by (cases "candidates r = []"; simp add: next_buildable_task_def Let_def)+
    then show ?thesis using True unfolding upd_sched_def by auto
  next
    case False
    then have nonempty: "candidates r \<noteq> []"
      and cond: "(st_active (rq_stats r) \<noteq> 0 \<and> pressure) = False" by auto
    from run nonempty cond obtain mt sk where
      f: "foldE (count_running env) (sdiff (runq_running r) (runq_complete r))
            (s_skip_maxthread (sched r), []) = Inr (mt, sk)"
      by (cases "foldE (count_running env) (sdiff (runq_running r) (runq_complete r))
            (s_skip_maxthread (sched r), [])") (auto simp: next_buildable_task_def Let_def)
    let ?s = "upd_sched (\<lambda>s. s\<lparr>s_skip_maxthread := mt\<rparr>) ?r"
    have lim: "b \<longleftrightarrow> limit_reached env ?s n" if "at_limit mt sk n = Inr b" for n b
      using at_limit_iff [OF f cache that] by simp
    have sc: "\<exists>sc. upd_sched (\<lambda>s. s\<lparr>s_rev_prio_map := rp\<rparr>) ?s = r\<lparr>sched := sc\<rparr> \<and>
        s_buildable sc = sdiff (s_buildable (sched r)) (runq_running r)"
      "\<exists>sc. ?s = r\<lparr>sched := sc\<rparr> \<and> s_buildable sc = sdiff (s_buildable (sched r)) (runq_running r)" for rp
      by (auto simp: upd_sched_def intro!: exI)
    have body: "(case candidates r of
                [tid] \<Rightarrow>
                  bindE (taskname_from_tid tid) (\<lambda>name.
                  bindE (at_limit mt sk name) (\<lambda>lim.
                  if lim then Inr (?s, None)
                  else bindE (dget (s_stamps (sched ?s)) tid) (\<lambda>stamp.
                       if \<not> stamp_in_use ?s stamp then Inr (?s, Some tid)
                       else best_task ?s mt sk [])))
              | _ \<Rightarrow> best_task ?s mt sk (candidates r)) = Inr (r', ot)"
      using run nonempty cond f by (simp add: next_buildable_task_def Let_def)
    show ?thesis
    proof (cases "\<exists>tid. candidates r = [tid]")
      case True
      then obtain tid where tid: "candidates r = [tid]" by blast
      from body tid obtain name b where n: "taskname_from_tid tid = Inr name"
        and b: "at_limit mt sk name = Inr b" by auto
      show ?thesis
      proof (cases b)
        case True
        with body tid n b lim [OF b] sc show ?thesis by (auto simp: startable_def)
      next
        case False
        with body tid n b obtain st where st: "map_of (s_stamps (sched r)) tid = Some st"
          by (auto simp: dget_Inr_iff)
        show ?thesis
        proof (cases "stamp_in_use r st")
          case True
          then have u: "stamp_in_use ?s st" by (simp)
          have "best_task ?s mt sk [] = Inr (r', ot)"
            using body tid n b False st u by (auto simp: dget_def)
          from best_task_result [OF this lim] have "ot = None"
            "\<exists>rp. r' = upd_sched (\<lambda>s. s\<lparr>s_rev_prio_map := rp\<rparr>) ?s"
            by (auto split: option.splits)
          with sc(1) True tid st show ?thesis by (auto simp: startable_def)
        next
          case nu: False
          then have u: "\<not> stamp_in_use ?s st" by (simp)
          have "r' = ?s" "ot = Some tid"
            using body tid n b False st u by (auto simp: dget_def)
          with sc(2) tid st nu lim [OF b] False n show ?thesis by (auto simp: startable_def)
        qed
      qed
    next
      case many: False
      have st: "startable env ?s = startable env r" by (rule ext) simp
      from many nonempty body have "best_task ?s mt sk (candidates r) = Inr (r', ot)"
        by (auto split: list.splits)
      from best_task_result [OF this lim] obtain rp where
        rp: "rev_prio r = Inr rp" "r' = upd_sched (\<lambda>s. s\<lparr>s_rev_prio_map := rp\<rparr>) ?s"
        and ot: "case ot of None \<Rightarrow> \<forall>t \<in> set (candidates r). \<not> startable env r t
          | Some t \<Rightarrow> t \<in> set (candidates r) \<and> startable env r t \<and>
             (\<forall>t' \<in> set (candidates r). startable env r t' \<longrightarrow> the (map_of rp t) \<le> the (map_of rp t'))"
        unfolding st rev_prio_upd_sched by blast
      show ?thesis
      proof (cases ot)
        case None
        with sc(1) [of rp] rp ot show ?thesis by simp
      next
        case (Some t)
        with sc(1) [of rp] rp ot show ?thesis by simp
      qed
    qed
  qed
qed

section \<open>The speed order\<close>

lemma snd_imageI: "(a, b) \<in> A \<Longrightarrow> f b \<in> (\<lambda>x. f (snd x)) ` A"
  by (rule rev_image_eqI, assumption) simp

lemma group_by_weight:
  assumes "d = fold (\<lambda>(t, e) ws. dappend (f e) t ws) es []"
  shows "distinct (dkeys d)" "din w d \<longleftrightarrow> w \<in> (f \<circ> snd) ` set es"
    "dgetd d w [] = map fst (filter (\<lambda>(t, e). f e = w) es)"
proof -
  have "distinct (dkeys d) \<and> (\<forall>w. (din w d \<longleftrightarrow> w \<in> (f \<circ> snd) ` set es) \<and>
      dgetd d w [] = map fst (filter (\<lambda>(t, e). f e = w) es))"
    unfolding assms by (induction es rule: rev_induct)
      (auto simp: dgetd_def [of "[]"] intro: snd_imageI)
  then show "distinct (dkeys d)" "din w d \<longleftrightarrow> w \<in> (f \<circ> snd) ` set es"
    "dgetd d w [] = map fst (filter (\<lambda>(t, e). f e = w) es)" by auto
qed

lemma speed_prio_map_sort:
  "speed_prio_map es = rev (map fst (sort_key (\<lambda>(t, e). weight e) es))"
proof -
  let ?f = "\<lambda>(t :: tid, e :: run_task_entry). weight e"
  define ws where "ws = fold (\<lambda>(t, e) ws. dappend (weight e) t ws) es []"
  note g = group_by_weight [OF ws_def]
  have A: "concat (map (\<lambda>w. filter (\<lambda>x. ?f x = w) es) (sort (dkeys ws))) = sort_key ?f es"
  proof (rule concat_groups_sort_key)
    show "?f ` set es \<subseteq> set (sort (dkeys ws))"
      by (auto simp: g(2) intro: snd_imageI)
  qed (use g(1) in auto)
  have B: "map (\<lambda>w. dgetd ws w []) (sort (dkeys ws)) =
      map (map fst) (map (\<lambda>w. filter (\<lambda>x. ?f x = w) es) (sort (dkeys ws)))"
    unfolding list.map_comp using g(3) by (intro map_cong refl) (simp add: case_prod_unfold)
  show ?thesis
    unfolding speed_prio_map_def ws_def [symmetric] Let_def by (simp only: B map_concat [symmetric] A)
qed

lemma mset_speed_prio_map: "mset (speed_prio_map es) = mset (dkeys es)"
  by (simp add: speed_prio_map_sort)

lemma set_speed_prio_map [simp]: "set (speed_prio_map es) = set (dkeys es)"
  using mset_speed_prio_map by (rule mset_eq_setD)

lemma distinct_speed_prio_map: "distinct (speed_prio_map es) \<longleftrightarrow> distinct (dkeys es)"
  using mset_speed_prio_map by (rule mset_eq_imp_distinct_iff)

definition weight_of :: "entries \<Rightarrow> tid \<Rightarrow> int" where
  "weight_of es t = weight (the (map_of es t))"

lemma sorted_speed_prio_map:
  assumes "distinct (dkeys es)"
  shows "sorted_wrt (\<lambda>s t. weight_of es s \<ge> weight_of es t) (speed_prio_map es)"
proof -
  let ?f = "\<lambda>(t :: tid, e :: run_task_entry). weight e"
  have w: "weight_of es (fst p) = ?f p" if "p \<in> set es" for p
  proof (cases p)
    case (Pair t e)
    then have "map_of es t = Some e" using that assms by (intro map_of_is_SomeI) auto
    then show ?thesis by (simp add: Pair weight_of_def)
  qed
  have "sorted_wrt (\<lambda>x y. ?f x \<le> ?f y) (sort_key ?f es)"
    using sorted_sort_key [of ?f es] by (simp add: sorted_wrt_map)
  then have "sorted_wrt (\<lambda>x y. weight_of es (fst x) \<le> weight_of es (fst y)) (sort_key ?f es)"
    by (rule sorted_wrt_mono_rel [rotated]) (simp add: w)
  then show ?thesis
    unfolding speed_prio_map_sort by (simp add: sorted_wrt_rev sorted_wrt_map)
qed

text \<open>A heavier task has a smaller index, so it is preferred.\<close>

lemma speed_index_less:
  assumes d: "distinct (dkeys es)" and w: "weight_of es s < weight_of es t"
    and i: "index_of (speed_prio_map es) t = Some i" and j: "index_of (speed_prio_map es) s = Some j"
  shows "i < j"
proof (rule ccontr)
  let ?p = "speed_prio_map es"
  assume "\<not> i < j"
  moreover have "i \<noteq> j" using index_of_nth [OF i] index_of_nth [OF j] w by auto
  ultimately have "j < i" by simp
  then have "weight_of es (?p ! j) \<ge> weight_of es (?p ! i)"
    using sorted_wrt_nth_less [OF sorted_speed_prio_map [OF d]] index_of_nth [OF i] by blast
  with w index_of_nth [OF i] index_of_nth [OF j] show False by simp
qed

text \<open>
  The speed scheduler's priority map is the tasks of the build, each once, by
  decreasing weight; with the weights the task graph gets, every task comes before every
  task that depends on it.
\<close>

theorem speed_prio_map_order:
  assumes fresh: "fresh_entries es" and run: "weigh_tasks es = Inr (es', ws)"
  shows "mset (speed_prio_map es') = mset (dkeys es) \<and>
    sorted_wrt (\<lambda>s t. weight_of es' s \<ge> weight_of es' t) (speed_prio_map es') \<and>
    (\<forall>s \<in> set (dkeys es). \<forall>t \<in> set (deps_of es s). \<exists>i j.
       index_of (speed_prio_map es') t = Some i \<and> index_of (speed_prio_map es') s = Some j \<and> i < j)"
proof -
  have d: "distinct (dkeys es')" and k: "dkeys es' = dkeys es"
    using weigh_tasks_keys [OF fresh run] fresh by (auto simp: fresh_entries_def)
  have ds: "t \<in> set (dkeys es)" if "s \<in> set (dkeys es)" "t \<in> set (deps_of es s)" for s t
    using fresh that unfolding fresh_entries_def by blast
  have wt: "weight_of es' t = the (map_of ws t)" if t: "t \<in> set (dkeys es)" for t
  proof -
    from weigh_tasks_weight_stored [OF fresh run t] obtain e where
      "map_of es' t = Some e" "Some (weight e) = map_of ws t" by blast
    then show ?thesis by (metis option.sel weight_of_def)
  qed
  show ?thesis
  proof (intro conjI ballI)
    fix s t
    assume s: "s \<in> set (dkeys es)" and t: "t \<in> set (deps_of es s)"
    note t' = ds [OF s t]
    have w: "weight_of es' s < weight_of es' t"
      using weigh_tasks_decrease [OF fresh run s t] wt [OF s] wt [OF t'] by simp
    from index_of_total [of t "speed_prio_map es'"] obtain i where
      i: "index_of (speed_prio_map es') t = Some i" using t' k by auto
    from index_of_total [of s "speed_prio_map es'"] obtain j where
      j: "index_of (speed_prio_map es') s = Some j" using s k by auto
    from i j speed_index_less [OF d w i j] show "\<exists>i j. index_of (speed_prio_map es') t = Some i \<and>
      index_of (speed_prio_map es') s = Some j \<and> i < j" by blast
  next
    show "sorted_wrt (\<lambda>s t. weight_of es' s \<ge> weight_of es' t) (speed_prio_map es')"
      by (rule sorted_speed_prio_map [OF d])
  qed (simp add: mset_speed_prio_map k)
qed

theorem speed_prio_map_order_witness:
  "map_sum id (\<lambda>(es, ws). speed_prio_map es) (weigh_tasks demo_entries) =
     Inr [''b:compile'', ''a:compile'', ''a:build''] \<and>
   (\<exists>es' ws. weigh_tasks demo_entries = Inr (es', ws) \<and>
     mset (speed_prio_map es') = mset (dkeys demo_entries))"
proof -
  have run: "map_sum id (\<lambda>(es, ws). speed_prio_map es) (weigh_tasks demo_entries) =
     Inr [''b:compile'', ''a:compile'', ''a:build'']" by code_simp
  then obtain es' ws where w: "weigh_tasks demo_entries = Inr (es', ws)"
    by (cases "weigh_tasks demo_entries") auto
  from speed_prio_map_order [OF demo_fresh w] have "mset (speed_prio_map es') = mset (dkeys demo_entries)"
    by blast
  with run w show ?thesis by blast
qed

section \<open>The completion order\<close>

lemma tname_set: "taskname_from_tid t = Inr n \<longleftrightarrow> CHR '':'' \<in> set t \<and> tname t = n"
  by (rule rsplit1_cases [of "CHR '':''" t]) (auto simp: taskname_from_tid_def tname_def)

lemma split_task_Inr: "split_task t = Inr (fn, n) \<longleftrightarrow> rsplit1 (CHR '':'') t = Some (fn, n)"
  by (auto simp: split_task_def split: option.splits)

lemma split_task_tname: "split_task t = Inr (fn, n) \<Longrightarrow> tname t = n"
  by (rule rsplit1_cases [of "CHR '':''" t]) (auto simp: split_task_Inr taskname_from_tid_def tname_def)

definition list_names :: "(string, string list) dict \<Rightarrow> string set" where
  "list_names tls = \<Union> (set ` set (map snd tls))"

lemma list_names_dappend:
  "distinct (dkeys d) \<Longrightarrow> list_names (dappend k v d) = insert v (list_names d)"
proof (induction d)
  case Nil
  then show ?case by (simp add: dappend_def list_names_def dgetd_def)
next
  case (Cons p d)
  then show ?case
    by (cases p) (auto simp: dappend_def list_names_def dgetd_def)
qed

lemma task_lists_names:
  assumes "task_lists ts = Inr tls"
  shows "list_names tls = tname ` set ts"
proof -
  have "distinct (dkeys tls) \<and> list_names tls = tname ` set ts"
    using assms unfolding task_lists_def
    by (rule foldE_prefix_inv) (auto simp: list_names_dappend split_task_tname,
        simp_all add: list_names_def)
  then show ?thesis by simp
qed

lemma task_lists_total:
  assumes "\<forall>t \<in> set ts. CHR '':'' \<in> set t"
  shows "\<exists>tls. task_lists ts = Inr tls"
proof -
  have "\<exists>tls. task_lists ts = Inr tls \<and> True"
    unfolding task_lists_def
  proof (rule foldE_total)
    fix x s
    assume "x \<in> set ts"
    then show "\<exists>t. bindE (split_task x) (\<lambda>(fn, name). Inr (dappend fn name s)) = Inr t \<and> True"
      using assms by (cases x rule: rsplit1_cases [where c = "CHR '':''"]) (auto simp: split_task_def)
  qed simp
  then show ?thesis by simp
qed

text \<open>The unified list has every task name once.\<close>

definition unify_ok :: "string set \<Rightarrow> string list \<times> nat \<times> string option \<Rightarrow> bool" where
  "unify_ok N = (\<lambda>(ts, i, old). distinct ts \<and> set ts = N \<and> (\<forall>x. old = Some x \<longrightarrow> x \<in> set ts))"

lemma nth_opt_in: "nth_opt xs n = Some x \<Longrightarrow> x \<in> set xs"
  by (auto simp: nth_opt_def split: if_splits)

lemma unify_task_ok: "unify_ok N s \<Longrightarrow> unify_ok (insert t N) (unify_task t s)"
proof -
  assume ok: "unify_ok N s"
  obtain ts i old where s: "s = (ts, i, old)" by (cases s) auto
  have ins: "distinct (take i ts @ t # drop i ts)" "set (take i ts @ t # drop i ts) = insert t (set ts)"
    if "distinct ts" "t \<notin> set ts"
  proof -
    have "distinct (take i ts @ drop i ts)" using that(1) unfolding append_take_drop_id .
    moreover have st: "set (take i ts) \<union> set (drop i ts) = set ts"
      by (metis append_take_drop_id set_append)
    ultimately show "distinct (take i ts @ t # drop i ts)" using that(2) unfolding distinct_append by auto
    show "set (take i ts @ t # drop i ts) = insert t (set ts)" using st by auto
  qed
  show ?thesis
  proof (cases "old = Some t \<or> t \<in> set ts")
    case True
    with ok have "t \<in> set ts" by (auto simp: s unify_ok_def)
    then have "index_of ts t \<noteq> None" by (simp add: index_of_def)
    with ok \<open>t \<in> set ts\<close> show ?thesis
      by (auto simp: s unify_ok_def unify_task_def insert_absorb dest: nth_opt_in)
  next
    case False
    then have "index_of ts t = None" by (simp add: index_of_def)
    with ok False ins show ?thesis by (auto simp: s unify_ok_def unify_task_def simp del: set_append)
  qed
qed

lemma unify_fold_ok: "unify_ok N s \<Longrightarrow> unify_ok (N \<union> set new) (fold unify_task new s)"
proof (induction new arbitrary: N s)
  case (Cons t new)
  from Cons.IH [OF unify_task_ok [OF Cons.prems]] show ?case by simp
qed simp

lemma unify_lists_ok: "distinct (unify_lists tls) \<and> set (unify_lists tls) = list_names tls"
proof -
  let ?f = "\<lambda>(recipe :: string, new) all. fst (fold unify_task new (all, 0, nth_opt all 0))"
  have "distinct (fold ?f tls all) \<and> set (fold ?f tls all) = set all \<union> list_names tls"
    if "distinct all" for all
    using that
  proof (induction tls arbitrary: all)
    case Nil
    then show ?case by (simp add: list_names_def)
  next
    case (Cons p tls)
    obtain r new where p: "p = (r, new)" by fastforce
    have "unify_ok (set all) (all, 0, nth_opt all 0)"
      using Cons.prems by (auto simp: unify_ok_def dest: nth_opt_in)
    from unify_fold_ok [OF this, of new]
    have "distinct (?f p all)" "set (?f p all) = set all \<union> set new"
      by (auto simp: p unify_ok_def split: prod.splits)
    with Cons.IH [of "?f p all"] show ?case by (auto simp: p list_names_def)
  qed
  from this [of "[]"] show ?thesis by (simp add: unify_lists_def)
qed

text \<open>One round of the regrouping moves the tasks of one name to the front, in order.\<close>

lemma move_task_step:
  assumes x: "CHR '':'' \<in> set x"
    and p: "prio = A @ M @ N @ x # R" and i: "i = length (A @ M @ N)"
  shows "move_task task i (prio, length (A @ M)) =
    Inr (if tname x = task then (A @ M @ x # N @ R, length (A @ M @ [x]))
         else (prio, length (A @ M)))"
proof -
  have nth: "prio ! i = x" "i < length prio" "take i prio = A @ M @ N" "drop (Suc i) prio = R"
    using p i by (simp_all add: nth_append)
  then show ?thesis
    using x tname_set [of x "tname x"] by (simp add: move_task_def nth Let_def del: tname_eq)
qed

lemma move_group_result:
  assumes B: "\<forall>x \<in> set B. CHR '':'' \<in> set x"
  shows "move_group (length (A @ B)) task (A @ B, length A) =
    Inr (A @ filter (\<lambda>x. tname x = task) B @ filter (\<lambda>x. tname x \<noteq> task) B,
         length A + length (filter (\<lambda>x. tname x = task) B))"
proof -
  let ?M = "\<lambda>k. filter (\<lambda>x. tname x = task) (take k B)"
  let ?N = "\<lambda>k. filter (\<lambda>x. tname x \<noteq> task) (take k B)"
  let ?n = "length A"
  let ?P = "\<lambda>ys s. s = (A @ ?M (length ys) @ ?N (length ys) @ drop (length ys) B, length (A @ ?M (length ys)))"
  have "\<exists>t. foldE (move_task task) [?n ..< length (A @ B)] (A @ B, ?n) = Inr t \<and>
      ?P [?n ..< length (A @ B)] t"
  proof (rule foldE_prefix)
    fix ys i zs s
    assume sp: "[?n ..< length (A @ B)] = ys @ i # zs" and s: "?P ys s"
    let ?k = "length ys"
    have "?k < length [?n ..< length (A @ B)]" unfolding sp by simp
    then have k: "?k < length B" by simp
    have "[?n ..< length (A @ B)] ! ?k = i" unfolding sp by simp
    then have i: "i = ?n + ?k" using k by simp
    have d: "drop ?k B = B ! ?k # drop (Suc ?k) B" using k by (simp add: Cons_nth_drop_Suc)
    have tk: "take (Suc ?k) B = take ?k B @ [B ! ?k]" using k by (simp add: take_Suc_conv_app_nth)
    have len: "length (?M ?k) + length (?N ?k) = ?k"
      using sum_length_filter_compl [of "\<lambda>x. tname x = task" "take ?k B"] k by simp
    have c: "CHR '':'' \<in> set (B ! ?k)" using B k by simp
    have "move_task task i s = Inr (if tname (B ! ?k) = task
        then (A @ ?M ?k @ (B ! ?k) # ?N ?k @ drop (Suc ?k) B, length (A @ ?M ?k @ [B ! ?k]))
        else (A @ ?M ?k @ ?N ?k @ B ! ?k # drop (Suc ?k) B, length (A @ ?M ?k)))"
      unfolding s d by (rule move_task_step [OF c refl]) (simp add: i len)
    then show "\<exists>t. move_task task i s = Inr t \<and> ?P (ys @ [i]) t"
      by (simp add: tk)
  qed simp
  then show ?thesis by (simp add: move_group_def)
qed

lemma move_groups_result:
  assumes "\<forall>x \<in> set S. CHR '':'' \<in> set x" and "distinct (ts @ us)"
  shows "\<exists>n. foldE (move_group (length S)) us
      (concat (map (\<lambda>t. filter (\<lambda>x. tname x = t) S) ts) @ filter (\<lambda>x. tname x \<notin> set ts) S,
       length (concat (map (\<lambda>t. filter (\<lambda>x. tname x = t) S) ts))) =
    Inr (concat (map (\<lambda>t. filter (\<lambda>x. tname x = t) S) (ts @ us)) @
       filter (\<lambda>x. tname x \<notin> set (ts @ us)) S, n)"
  using assms(2)
proof (induction us arbitrary: ts)
  case Nil
  then show ?case by simp
next
  case (Cons u us)
  let ?A = "\<lambda>ts. concat (map (\<lambda>t. filter (\<lambda>x. tname x = t) S) ts)"
  let ?B = "\<lambda>ts. filter (\<lambda>x. tname x \<notin> set ts) S"
  have "distinct ts" using Cons.prems by simp
  then have "mset (?A ts @ ?B ts) = mset S"
    using mset_concat_groups [of ts tname S] by (simp add: union_filter_mset_complement)
  then have len: "length S = length (?A ts @ ?B ts)" by (metis size_mset)
  have f: "filter (\<lambda>x. tname x = u) (?B ts) = filter (\<lambda>x. tname x = u) S"
    "filter (\<lambda>x. tname x \<noteq> u) (?B ts) = ?B (ts @ [u])"
    using Cons.prems by (auto intro!: filter_cong)
  have m: "move_group (length S) u (?A ts @ ?B ts, length (?A ts)) =
      Inr (?A (ts @ [u]) @ ?B (ts @ [u]), length (?A (ts @ [u])))"
    unfolding len using move_group_result [of "?B ts" "?A ts" u] assms(1) unfolding f by simp
  show ?case
    using Cons.IH [of "ts @ [u]"] Cons.prems m by simp
qed

lemma completion_result:
  assumes "\<forall>t \<in> set (dkeys es). CHR '':'' \<in> set t"
  obtains names where "completion_prio_map es =
      Inr (concat (map (\<lambda>t. filter (\<lambda>x. tname x = t) (speed_prio_map es)) names))"
    and "distinct names" and "set names = tname ` set (dkeys es)"
    and "task_lists (speed_prio_map es) \<noteq> Inl KeyError"
proof -
  let ?S = "speed_prio_map es"
  have S: "\<forall>x \<in> set ?S. CHR '':'' \<in> set x" using assms by simp
  obtain tls where tls: "task_lists ?S = Inr tls" using task_lists_total [OF S] by blast
  let ?names = "rev (unify_lists tls)"
  have names: "distinct ?names" "set ?names = tname ` set (dkeys es)"
    using unify_lists_ok [of tls] task_lists_names [OF tls] by auto
  have len: "length ?S = length es" using mset_speed_prio_map [of es] by (metis length_map size_mset)
  have e: "filter (\<lambda>x. tname x \<notin> set ?names) ?S = []"
    using names(2) by (auto simp: filter_empty_conv)
  obtain n where "foldE (move_group (length ?S)) ?names (?S, 0) =
     Inr (concat (map (\<lambda>t. filter (\<lambda>x. tname x = t) ?S) ?names), n)"
    using move_groups_result [OF S, of "[]" ?names] names(1) e by auto
  then have "completion_prio_map es =
      Inr (concat (map (\<lambda>t. filter (\<lambda>x. tname x = t) ?S) ?names))"
    by (simp add: completion_prio_map_def Let_def tls len)
  with that names tls show ?thesis by simp
qed

text \<open>
  the completion scheduler regroups the speed order by task name: its priority map is
  the concatenation, over the distinct task names of the build, of the tasks of that name in
  speed order.  So it has the tasks of the build, each once, and never raises.
\<close>

theorem completion_prio_map_groups:
  assumes "\<forall>t \<in> set (dkeys es). CHR '':'' \<in> set t"
  shows "\<exists>names. distinct names \<and> set names = tname ` set (dkeys es) \<and>
    completion_prio_map es =
      Inr (concat (map (\<lambda>name. filter (\<lambda>t. tname t = name) (speed_prio_map es)) names)) \<and>
    mset (concat (map (\<lambda>name. filter (\<lambda>t. tname t = name) (speed_prio_map es)) names)) =
      mset (dkeys es)"
proof -
  obtain names where n: "completion_prio_map es =
      Inr (concat (map (\<lambda>t. filter (\<lambda>x. tname x = t) (speed_prio_map es)) names))"
    "distinct names" "set names = tname ` set (dkeys es)"
    using completion_result [OF assms] .
  have "filter (\<lambda>x. tname x \<in> set names) (speed_prio_map es) = speed_prio_map es"
    using n(3) by (auto simp: filter_id_conv)
  then have "mset (concat (map (\<lambda>t. filter (\<lambda>x. tname x = t) (speed_prio_map es)) names)) =
      mset (dkeys es)"
    using mset_concat_groups [OF n(2), of tname "speed_prio_map es"] mset_speed_prio_map [of es] by simp
  with n show ?thesis by blast
qed

definition demo_weighed :: entries where
  "demo_weighed = [(''a:build'', RunTaskEntry\<lparr>weight := 10\<rparr>), (''b:build'', RunTaskEntry\<lparr>weight := 10\<rparr>),
    (''a:fetch'', RunTaskEntry\<lparr>weight := 11\<rparr>), (''b:fetch'', RunTaskEntry\<lparr>weight := 12\<rparr>)]"

theorem completion_prio_map_groups_witness:
  "completion_prio_map demo_weighed = Inr [''b:build'', ''a:build'', ''b:fetch'', ''a:fetch''] \<and>
   (\<exists>names. distinct names \<and> set names = {''build'', ''fetch''} \<and> completion_prio_map demo_weighed =
      Inr (concat (map (\<lambda>name. filter (\<lambda>t. tname t = name) (speed_prio_map demo_weighed)) names)))"
proof
  show "completion_prio_map demo_weighed = Inr [''b:build'', ''a:build'', ''b:fetch'', ''a:fetch'']"
    by code_simp
  have c: "\<forall>t \<in> set (dkeys demo_weighed). CHR '':'' \<in> set t" by code_simp
  have n: "tname ` set (dkeys demo_weighed) = {''build'', ''fetch''}" by code_simp
  show "\<exists>names. distinct names \<and> set names = {''build'', ''fetch''} \<and> completion_prio_map demo_weighed =
      Inr (concat (map (\<lambda>name. filter (\<lambda>t. tname t = name) (speed_prio_map demo_weighed)) names))"
    using completion_prio_map_groups [OF c] unfolding n by blast
qed

section \<open>next\<close>

text \<open>
  C5: what the scheduler hands out.  A task it returns is buildable, not running, not held
  off, decided by the scene queue, below its \<open>number_threads\<close> limit and with a stamp no running
  task uses, and no such task has a smaller priority index.  When it returns none, the
  threads are all in use, or the machine is under pressure while some task runs, or there is no
  such task.  Only the scheduler's own fields change, and of its tasks only running ones are dropped.
\<close>

theorem sched_next_picks:
  assumes "sched_next env pressure r = Inr (r', ot)"
    and "cache_ok env (s_skip_maxthread (sched r))"
  shows "(\<exists>sc. r' = r\<lparr>sched := sc\<rparr> \<and>
      set (s_buildable (sched r)) - set (runq_running r) \<subseteq> set (s_buildable sc) \<and>
      set (s_buildable sc) \<subseteq> set (s_buildable (sched r))) \<and>
    (case ot of
       None \<Rightarrow> \<not> can_start_task r \<or> st_active (rq_stats r) \<noteq> 0 \<and> pressure \<or>
         (\<forall>t \<in> set (candidates r). \<not> startable env r t)
     | Some t \<Rightarrow> can_start_task r \<and> t \<in> set (s_buildable (sched r)) \<and> t \<notin> set (runq_running r) \<and>
         t \<notin> set (holdoff_tasks r) \<and> t \<in> set (tasks_covered r) \<union> set (tasks_notcovered r) \<and>
         startable env r t \<and>
         (\<forall>rp. rev_prio r = Inr rp \<longrightarrow> (\<forall>t' \<in> set (candidates r).
            startable env r t' \<longrightarrow> the (map_of rp t) \<le> the (map_of rp t'))))"
proof (cases "can_start_task r")
  case False
  with assms(1) have "r' = r" "ot = None" by (simp_all add: sched_next_def)
  then show ?thesis using False by (auto intro!: exI [of _ "sched r"])
next
  case True
  then have "next_buildable_task env pressure r = Inr (r', ot)"
    using assms(1) by (simp add: sched_next_def)
  from next_buildable_task_result [OF this assms(2)] obtain sc where
    sc: "r' = r\<lparr>sched := sc\<rparr>" "s_buildable sc = sdiff (s_buildable (sched r)) (runq_running r)"
    and ot: "case ot of
       None \<Rightarrow> st_active (rq_stats r) \<noteq> 0 \<and> pressure \<or> (\<forall>t \<in> set (candidates r). \<not> startable env r t)
     | Some t \<Rightarrow> t \<in> set (candidates r) \<and> startable env r t \<and>
         (\<forall>rp. rev_prio r = Inr rp \<longrightarrow>
            (\<forall>t' \<in> set (candidates r). startable env r t' \<longrightarrow> the (map_of rp t) \<le> the (map_of rp t')))"
    by blast
  have "\<exists>sc. r' = r\<lparr>sched := sc\<rparr> \<and>
      set (s_buildable (sched r)) - set (runq_running r) \<subseteq> set (s_buildable sc) \<and>
      set (s_buildable sc) \<subseteq> set (s_buildable (sched r))"
    using sc by auto
  moreover have "t \<in> set (s_buildable (sched r)) \<and> t \<notin> set (runq_running r) \<and>
         t \<notin> set (holdoff_tasks r) \<and> t \<in> set (tasks_covered r) \<union> set (tasks_notcovered r)"
    if "ot = Some t" for t
    using ot that unfolding set_candidates by simp
  ultimately show ?thesis using True ot by (cases ot) auto
qed

end
