(* ===== verification/SceneQueue.thy ===== *)
theory SceneQueue
  imports Scheduler
begin

text \<open>
  The scene queue of \<open>poky/bitbake/lib/bb/runqueue.py\<close>: the stamp checks, the construction of the
  graph of setscene tasks (\<open>build_scenequeue_data\<close>), and what happens when a setscene task is
  skipped, completes or fails.  A setscene task that succeeds covers the tasks below it, which
  then need not run.
\<close>

section \<open>Stamps\<close>

text \<open>A missing file has no time, and time 0 counts as missing in a test of truth.\<close>

definition has_time :: "int option \<Rightarrow> bool" where
  "has_time t \<longleftrightarrow> t \<noteq> None \<and> t \<noteq> Some 0"

definition dep_stamp ::
  "(tid \<Rightarrow> (tid, bool) dict \<Rightarrow> pyerr + (bool \<times> (tid, bool) dict)) \<Rightarrow> rq_env \<Rightarrow> rqexe \<Rightarrow>
   string \<Rightarrow> int option \<Rightarrow> bool \<Rightarrow> tid \<Rightarrow> bool \<times> (tid, bool) dict \<Rightarrow>
   pyerr + (bool \<times> (tid, bool) dict)" where
  "dep_stamp check env r fn t1 rcrs dep = (\<lambda>(iscurrent, cch).
     if \<not> iscurrent then Inr (iscurrent, cch)
     else
       bindE (split_tid_mcfn dep) (\<lambda>(mc2, fn2, taskname2, taskfn2).
         let t2 = fs r (stampfile env (entries r) taskname2 taskfn2 True);
             t3 = fs r (stampfile env (entries r) (taskname2 @ ''_setscene'') taskfn2 True)
         in if has_time t3 \<and> \<not> has_time t2 then Inr (iscurrent, cch)
            else if has_time t3 \<and> the t3 > the t2 then Inr (iscurrent, cch)
            else if fn = fn2 then
              (if \<not> has_time t2 then Inr (False, cch)
               else if the t1 < the t2 then Inr (False, cch)
               else if rcrs then
                 (case map_of cch dep of
                    Some b \<Rightarrow> Inr (b, cch)
                  | None \<Rightarrow> bindE (check dep cch) (\<lambda>(b, cch). Inr (b, dset dep b cch)))
               else Inr (iscurrent, cch))
            else Inr (iscurrent, cch)))"

fun check_stamp ::
  "nat \<Rightarrow> rq_env \<Rightarrow> rqexe \<Rightarrow> tid \<Rightarrow> string option \<Rightarrow> bool \<Rightarrow> (tid, bool) dict \<Rightarrow>
   pyerr + (bool \<times> (tid, bool) dict)" where
  "check_stamp 0 env r tid tn rcrs cch = Inl RecursionError"
| "check_stamp (Suc n) env r tid tn rcrs cch =
     bindE (split_tid_mcfn tid) (\<lambda>(mc, fn, name, taskfn).
       let taskname = (case tn of None \<Rightarrow> name | Some x \<Rightarrow> x);
           t1 = fs r (stampfile env (entries r) taskname taskfn True)
       in if t1 = None then Inr (False, cch)
          else
            bindE (cache_of env mc) (\<lambda>c.
            bindE (dget (task_deps_of c) taskfn) (\<lambda>taskdep.
            if flagged taskdep ''nostamp'' taskname then Inr (False, cch)
            else if endswith taskname ''_setscene'' then Inr (True, cch)
            else
              bindE (entry r tid) (\<lambda>e.
              bindE (foldE (dep_stamp (\<lambda>dep cch. check_stamp n env r dep None True cch)
                       env r fn t1 rcrs) (depends e) (True, cch)) (\<lambda>(iscurrent, cch).
                Inr (iscurrent, if rcrs then dset tid iscurrent cch else cch))))))"

definition check_stamp_task :: "rq_env \<Rightarrow> tid \<Rightarrow> string \<Rightarrow> bool \<Rightarrow> rqexe \<Rightarrow> pyerr + (bool \<times> rqexe)" where
  "check_stamp_task env tid taskname rcrs r =
     bindE (check_stamp (rec_limit env) env r tid (Some taskname) rcrs (stampcache r)) (\<lambda>(b, cch).
       Inr (b, r\<lparr>stampcache := cch\<rparr>))"

definition make_stamp_mcfn :: "rq_env \<Rightarrow> string \<Rightarrow> string \<Rightarrow> rqexe \<Rightarrow> rqexe" where
  "make_stamp_mcfn env taskname taskfn r = r\<lparr>fs := make_stamp env taskname taskfn (fs r)\<rparr>"

definition check_setscene_stamps :: "rq_env \<Rightarrow> tid \<Rightarrow> rqexe \<Rightarrow> pyerr + (bool \<times> bool \<times> rqexe)" where
  "check_setscene_stamps env tid r =
     bindE (task_flags env tid) (\<lambda>(taskname, taskfn, taskdep).
     if flagged taskdep ''noexec'' taskname
     then Inr (True, False, make_stamp_mcfn env (taskname @ ''_setscene'') taskfn r)
     else
       bindE (check_stamp_task env tid (taskname @ ''_setscene'') False r) (\<lambda>(b, r).
       if b then Inr (False, True, r)
       else
         bindE (check_stamp_task env tid taskname True r) (\<lambda>(b, r).
         if b then Inr (False, True, r) else Inr (False, False, r))))"

section \<open>Hashes\<close>

definition pending_hash_index :: "rq_env \<Rightarrow> tid \<Rightarrow> rqexe \<Rightarrow> pyerr + string" where
  "pending_hash_index env tid r =
     bindE (task_pn env tid) (\<lambda>pn.
     bindE (entry r tid) (\<lambda>e.
       case unihash e of
         None \<Rightarrow> Inl TypeError
       | Some h \<Rightarrow> Inr (pn @ '':'' @ ''taskname'' @ h)))"

definition validate_hashes ::
  "rq_env \<Rightarrow> tid list \<Rightarrow> nat \<Rightarrow> bool \<Rightarrow> bool \<Rightarrow> rqexe \<Rightarrow> pyerr + tid list" where
  "validate_hashes env tocheck currentcount siginfo summary r =
     (if hashvalidate env then
        bindE (mapE (\<lambda>tid.
            bindE (split_tid_mcfn tid) (\<lambda>(mc, fn, taskname, taskfn).
            bindE (entry r tid) (\<lambda>e.
            bindE (cache_of env mc) (\<lambda>c.
            bindE (dget (hashfn c) taskfn) (\<lambda>hf. Inr (tid, hash e, hf, unihash e)))))) tocheck)
          (\<lambda>sq_data. Inr (validate_hash env sq_data currentcount siginfo summary))
      else Inr [])"

section \<open>Runqueue operations used by the scene queue\<close>

definition setbuildable :: "tid \<Rightarrow> rqexe \<Rightarrow> rqexe" where
  "setbuildable task r = newbuildable task (r\<lparr>runq_buildable := sadd task (runq_buildable r)\<rparr>)"

section \<open>scenequeue_updatecounters\<close>

text \<open>
  The loop that marks as done the tasks below \<open>task\<close> whose dependents are all done, down to
  the next setscene tasks.
\<close>

definition done_dep ::
  "entries \<Rightarrow> tid list \<Rightarrow> tid list \<Rightarrow> tid \<Rightarrow> tid list \<Rightarrow> pyerr + tid list" where
  "done_dep es ss dn dep new =
     (if dep \<in> set ss \<or> dep \<in> set dn then Inr new
      else bindE (dget es dep) (\<lambda>e. Inr (if ssubset (revdeps e) dn then sadd dep new else new)))"

definition done_task ::
  "entries \<Rightarrow> tid list \<Rightarrow> tid \<Rightarrow> tid list \<times> tid list \<Rightarrow> pyerr + (tid list \<times> tid list)" where
  "done_task es ss t = (\<lambda>(new, dn).
     let dn = sadd t dn
     in bindE (dget es t) (\<lambda>e.
        bindE (foldE (done_dep es ss dn) (depends e) new) (\<lambda>new. Inr (new, dn))))"

definition done_round ::
  "entries \<Rightarrow> tid list \<Rightarrow> tid list \<Rightarrow> tid list \<Rightarrow> pyerr + (tid list \<times> tid list)" where
  "done_round es ss nxt dn = foldE (done_task es ss) (sort nxt) ([], dn)"

lemma done_dep_new:
  assumes "foldE (done_dep es ss dn) ds new = Inr new'"
  shows "set new \<subseteq> set new' \<and> set new' \<subseteq> set new \<union> (set ds \<inter> set (dkeys es) - set dn)"
proof (rule foldE_invariant [OF assms, where P = "\<lambda>n. set new \<subseteq> set n \<and>
    set n \<subseteq> set new \<union> (set ds \<inter> set (dkeys es) - set dn)"])
  fix x s t
  assume x: "x \<in> set ds" and P: "set new \<subseteq> set s \<and> set s \<subseteq> set new \<union> (set ds \<inter> set (dkeys es) - set dn)"
    and run: "done_dep es ss dn x s = Inr t"
  show "set new \<subseteq> set t \<and> set t \<subseteq> set new \<union> (set ds \<inter> set (dkeys es) - set dn)"
  proof (cases "x \<in> set ss \<or> x \<in> set dn")
    case True
    with run P show ?thesis by (simp add: done_dep_def)
  next
    case False
    with run obtain e where e: "map_of es x = Some e"
      and t: "t = (if ssubset (revdeps e) dn then sadd x s else s)"
      by (auto simp: done_dep_def dget_Inr_iff)
    have "x \<in> set (dkeys es)" using e by (simp add: din_iff)
    with P False t x show ?thesis by auto
  qed
qed simp

lemma done_round_result:
  assumes "done_round es ss nxt dn = Inr (new, dn')"
  shows "set dn' = set dn \<union> set nxt" and "set nxt \<subseteq> set (dkeys es)"
    and "set new \<subseteq> set (dkeys es) - set dn"
proof -
  let ?P = "\<lambda>ys (n, d). set d = set dn \<union> set ys \<and> set ys \<subseteq> set (dkeys es) \<and>
    set n \<subseteq> set (dkeys es) - set dn"
  have "?P (sort nxt) (new, dn')"
    using assms unfolding done_round_def
  proof (rule foldE_prefix_inv [where P = ?P])
    fix ys x zs s t
    assume P: "?P ys s" and run: "done_task es ss x s = Inr t"
    obtain n d where s: "s = (n, d)" by fastforce
    from run obtain e n' where e: "map_of es x = Some e" and t: "t = (n', sadd x d)"
      and f: "foldE (done_dep es ss (sadd x d)) (depends e) n = Inr n'"
      by (auto simp: s done_task_def Let_def dget_Inr_iff)
    have x: "x \<in> set (dkeys es)" using e by (simp add: din_iff)
    show "?P (ys @ [x]) t"
      using done_dep_new [OF f] P x unfolding s t by auto
  qed simp
  then show "set dn' = set dn \<union> set nxt" "set nxt \<subseteq> set (dkeys es)"
    "set new \<subseteq> set (dkeys es) - set dn" by auto
qed

definition done_measure :: "entries \<Rightarrow> tid list \<Rightarrow> tid list \<Rightarrow> nat" where
  "done_measure es nxt dn =
     2 * card (set (dkeys es) - set dn) + (if set nxt \<subseteq> set dn then 1 else 0)"

lemma done_measure_less:
  assumes "done_round es ss nxt dn = Inr (new, dn')" and "new \<noteq> []"
  shows "done_measure es new dn' < done_measure es nxt dn"
proof -
  note r = done_round_result [OF assms(1)]
  show ?thesis
  proof (cases "set nxt \<subseteq> set dn")
    case True
    with r have "set dn' = set dn" by blast
    with r(3) assms(2) True show ?thesis by (cases new) (auto simp: done_measure_def)
  next
    case False
    then have "set (dkeys es) - set dn' \<subset> set (dkeys es) - set dn" using r(1,2) by blast
    then have "card (set (dkeys es) - set dn') < card (set (dkeys es) - set dn)"
      by (intro psubset_card_mono) auto
    then show ?thesis using False by (simp add: done_measure_def)
  qed
qed

function done_loop :: "entries \<Rightarrow> tid list \<Rightarrow> tid list \<Rightarrow> tid list \<Rightarrow> pyerr + tid list" where
  "done_loop es ss nxt dn =
     (if nxt = [] then Inr dn
      else bindE (done_round es ss nxt dn) (\<lambda>(new, dn). done_loop es ss new dn))"
  by pat_completeness auto
termination
proof (relation "measure (\<lambda>(es, ss, nxt, dn). if nxt = [] then 0 else Suc (done_measure es nxt dn))",
    goal_cases)
  case (2 es ss nxt dn x new dn')
  then show ?case using done_measure_less [of es ss nxt dn new dn'] by auto
qed simp

definition handled :: "rqexe \<Rightarrow> tid list" where
  "handled r = sunion (scenequeue_covered r) (scenequeue_notcovered r)"

text \<open>A hard dependent of a failed task fails too, unless it was handled or needs no setscene.\<close>

definition harddep_step ::
  "(tid \<Rightarrow> rqexe \<Rightarrow> pyerr + rqexe) \<Rightarrow> rq_env \<Rightarrow> tid \<Rightarrow> rqexe \<Rightarrow> pyerr + rqexe" where
  "harddep_step failoutright env dep r =
     (if dep \<in> set (scenequeue_covered r) \<or> dep \<in> set (scenequeue_notcovered r) then Inr r
      else bindE (check_setscene_stamps env dep r) (\<lambda>(noexec, stamppresent, r).
             if noexec \<or> stamppresent then Inr r else failoutright dep r))"

definition sq_dep_step :: "tid list \<Rightarrow> tid \<Rightarrow> rqexe \<Rightarrow> pyerr + rqexe" where
  "sq_dep_step allcovered dep r =
     bindE (dget (sq_revdeps (sqd r)) dep) (\<lambda>rd.
       Inr (if ssubset rd allcovered then r\<lparr>sq_buildable := sadd dep (sq_buildable r)\<rparr> else r))"

definition undefer_step :: "tid \<Rightarrow> rqexe \<Rightarrow> pyerr + rqexe" where
  "undefer_step dep r =
     bindE (dget (sq_harddeps_rev (sqd r)) dep) (\<lambda>rd.
       Inr (if ssubset rd (handled r)
            then r\<lparr>sq_harddep_deferred := sremove dep (sq_harddep_deferred r)\<rparr> else r))"

definition updatecounters_body ::
  "(tid \<Rightarrow> rqexe \<Rightarrow> pyerr + rqexe) \<Rightarrow> rq_env \<Rightarrow> tid \<Rightarrow> bool \<Rightarrow> rqexe \<Rightarrow> pyerr + rqexe" where
  "updatecounters_body failoutright env task failed r =
     bindE (case map_of (sq_harddeps (sqd r)) task of
              Some ds \<Rightarrow> if failed then foldE (harddep_step failoutright env) (sort ds) r else Inr r
            | None \<Rightarrow> Inr r) (\<lambda>r.
     bindE (dget (sq_deps (sqd r)) task) (\<lambda>ds.
     bindE (foldE (sq_dep_step (handled r)) (sort ds) r) (\<lambda>r.
     bindE (done_loop (entries r) (setscene_tids env) [task] (tasks_scenequeue_done r)) (\<lambda>dn.
       let r = r\<lparr>tasks_scenequeue_done := dn\<rparr>
       in bindE (if din task (sq_harddeps (sqd r)) then foldE undefer_step (sq_harddep_deferred r) r
                 else Inr r) (\<lambda>r.
          Inr ((upd_stats (updateCovered (int (length (scenequeue_covered r)))
                                         (int (length (scenequeue_notcovered r)))) r)
               \<lparr>holdoff_need_update := True\<rparr>))))))"

definition mark_sq_running :: "tid \<Rightarrow> rqexe \<Rightarrow> rqexe" where
  "mark_sq_running task r =
     r\<lparr>sq_running := sadd task (sq_running r), sq_buildable := sadd task (sq_buildable r)\<rparr>"

definition mark_notcovered :: "tid \<Rightarrow> rqexe \<Rightarrow> rqexe" where
  "mark_notcovered task r = r\<lparr>scenequeue_notcovered := sadd task (scenequeue_notcovered r)\<rparr>"

fun failoutright :: "nat \<Rightarrow> rq_env \<Rightarrow> tid \<Rightarrow> rqexe \<Rightarrow> pyerr + rqexe" where
  "failoutright 0 env task r = Inl RecursionError"
| "failoutright (Suc n) env task r =
     updatecounters_body (failoutright n env) env task True (mark_notcovered task (mark_sq_running task r))"

definition sq_task_failoutright :: "rq_env \<Rightarrow> tid \<Rightarrow> rqexe \<Rightarrow> pyerr + rqexe" where
  "sq_task_failoutright env = failoutright (rec_limit env) env"

definition scenequeue_updatecounters :: "rq_env \<Rightarrow> tid \<Rightarrow> bool \<Rightarrow> rqexe \<Rightarrow> pyerr + rqexe" where
  "scenequeue_updatecounters env = updatecounters_body (sq_task_failoutright env) env"

definition sq_task_completeoutright :: "rq_env \<Rightarrow> tid \<Rightarrow> rqexe \<Rightarrow> pyerr + rqexe" where
  "sq_task_completeoutright env task r =
     scenequeue_updatecounters env task False
       (r\<lparr>scenequeue_covered := sadd task (scenequeue_covered r)\<rparr>)"

text \<open>\<open>fnmatch\<close> of \<open>pn:taskname\<close> against the list; without a list every task is let through.\<close>

definition check_setscene_enforce_ignore_tasks ::
  "rq_env \<Rightarrow> string \<Rightarrow> string \<Rightarrow> string list option \<Rightarrow> bool" where
  "check_setscene_enforce_ignore_tasks env pn taskname ignores =
     (case ignores of
        None \<Rightarrow> True
      | Some pats \<Rightarrow> (\<exists>pat \<in> set pats. glob_match env (pn @ '':'' @ taskname) pat))"

definition enforce_item :: "(string \<times> string \<times> string \<times> string) list \<Rightarrow> string \<Rightarrow> string list" where
  "enforce_item targets item =
     (if startswith item ''%:''
      then map (\<lambda>(mc, target, task, fn). target @ '':'' @ split_on (CHR '':'') item ! 1) targets
      else [item])"

definition get_setscene_enforce_ignore_tasks ::
  "getvar \<Rightarrow> (string \<times> string \<times> string \<times> string) list \<Rightarrow> string list option" where
  "get_setscene_enforce_ignore_tasks d targets =
     (if d ''BB_SETSCENE_ENFORCE'' \<noteq> Some ''1'' then None
      else
        (let v = d ''BB_SETSCENE_ENFORCE_IGNORE_TASKS''
         in Some (concat (map (enforce_item targets) (words (if truthy v then the v else ''''))))))"

text \<open>\<open>task.split('_setscene')[0]\<close>.\<close>

fun before_sub :: "string \<Rightarrow> string \<Rightarrow> string" where
  "before_sub sub [] = []"
| "before_sub sub (c # s) = (if startswith (c # s) sub then [] else c # before_sub sub s)"

definition sq_check_taskfail :: "rq_env \<Rightarrow> tid \<Rightarrow> rqexe \<Rightarrow> pyerr + rqexe" where
  "sq_check_taskfail env task r =
     (if ignore_tasks env = None then Inr r
      else
        (let realtask = before_sub ''_setscene'' task
         in bindE (split_tid_mcfn realtask) (\<lambda>(mc, fn, taskname, taskfn).
            bindE (task_pn env realtask) (\<lambda>pn.
              Inr (if check_setscene_enforce_ignore_tasks env pn taskname (ignore_tasks env) then r
                   else r\<lparr>rq_state := runQueueCleanUp\<rparr>)))))"

definition sq_task_complete :: "rq_env \<Rightarrow> tid \<Rightarrow> rqexe \<Rightarrow> pyerr + rqexe" where
  "sq_task_complete env task r = sq_task_completeoutright env task (fire (SQTaskCompleted task) r)"

definition sq_task_fail :: "rq_env \<Rightarrow> tid \<Rightarrow> rqexe \<Rightarrow> pyerr + rqexe" where
  "sq_task_fail env task r =
     bindE (scenequeue_updatecounters env task True (mark_notcovered task (fire (SQTaskFailed task) r)))
       (sq_check_taskfail env task)"

definition sq_task_skip :: "rq_env \<Rightarrow> tid \<Rightarrow> rqexe \<Rightarrow> pyerr + rqexe" where
  "sq_task_skip env task r = sq_task_completeoutright env task (mark_sq_running task r)"

end
