(* ===== verification/SceneQueueBuild.thy ===== *)
theory SceneQueueBuild
  imports SceneQueue
begin

text \<open>
  The construction of the scene queue: \<open>build_scenequeue_data\<close> collapses the task graph to a
  graph of the setscene tasks, and \<open>update_scenequeue_data\<close> sorts out which of them have
  something to run, both from \<open>poky/bitbake/lib/bb/runqueue.py\<close>.
\<close>

section \<open>update_scenequeue_data\<close>

definition forget_tid :: "tid \<Rightarrow> sqdata \<Rightarrow> sqdata" where
  "forget_tid tid q =
     q\<lparr>stamppresent := sremove tid (stamppresent q), sq_valid := sremove tid (sq_valid q),
       outrightfail := sremove tid (outrightfail q)\<rparr>"

definition update_tid :: "rq_env \<Rightarrow> tid \<Rightarrow> tid list \<times> rqexe \<Rightarrow> pyerr + (tid list \<times> rqexe)" where
  "update_tid env tid = (\<lambda>(tocheck, r).
     bindE (check_setscene_stamps env tid (upd_sqd (forget_tid tid) r)) (\<lambda>(noexec, present, r).
       if noexec then
         bindE (sq_task_skip env tid (upd_sqd (\<lambda>q. q\<lparr>sq_noexec := sadd tid (sq_noexec q)\<rparr>) r)) (\<lambda>r.
           Inr (tocheck, r))
       else if present then
         bindE (sq_task_skip env tid (upd_sqd (\<lambda>q. q\<lparr>stamppresent := sadd tid (stamppresent q)\<rparr>) r)) (\<lambda>r.
           Inr (tocheck, r))
       else Inr (sadd tid tocheck, r)))"

definition outright_tid :: "tid \<Rightarrow> rqexe \<Rightarrow> rqexe" where
  "outright_tid tid r =
     (if tid \<in> set (stamppresent (sqd r)) \<or> tid \<in> set (sq_valid (sqd r)) \<or>
         tid \<in> set (sq_noexec (sqd r)) \<or> tid \<in> set (scenequeue_covered r) \<or>
         tid \<in> set (scenequeue_notcovered r) \<or> din tid (sq_deferred r)
      then r
      else upd_sqd (\<lambda>q. q\<lparr>outrightfail := sadd tid (outrightfail q)\<rparr>) r)"

definition update_scenequeue_data :: "rq_env \<Rightarrow> tid list \<Rightarrow> bool \<Rightarrow> rqexe \<Rightarrow> pyerr + rqexe" where
  "update_scenequeue_data env tids summary r =
     bindE (foldE (update_tid env) (sort tids) ([], r)) (\<lambda>(tocheck, r).
     bindE (validate_hashes env tocheck (length (stamppresent (sqd r))) False summary r) (\<lambda>valid.
       Inr (fold outright_tid tids (upd_sqd (\<lambda>q. q\<lparr>sq_valid := sunion (sq_valid q) valid\<rparr>) r))))"

section \<open>build_scenequeue_data\<close>

text \<open>The local dictionaries of the function.\<close>

record bsq =
  b_revdeps :: "(tid, tid list) dict"
  b_squash :: "(tid, tid list) dict"
  b_collated :: "(tid, tid list) dict"
  b_endpoints :: "(tid, tid list) dict"

definition bsq_entry :: "tid list \<Rightarrow> tid \<times> run_task_entry \<Rightarrow> bsq \<Rightarrow> bsq" where
  "bsq_entry ss = (\<lambda>(tid, e) b.
     b\<lparr>b_revdeps := dset tid (revdeps e) (b_revdeps b),
       b_squash := dset tid [] (b_squash b),
       b_endpoints := (if revdeps e = [] \<and> tid \<notin> set ss then dset tid [] (b_endpoints b)
                       else b_endpoints b)\<rparr>)"

definition cut_revdep :: "tid \<Rightarrow> tid \<Rightarrow> bsq \<Rightarrow> pyerr + bsq" where
  "cut_revdep tid dep b =
     bindE (dget (b_revdeps b) dep) (\<lambda>rd. Inr (b\<lparr>b_revdeps := dset dep (sremove tid rd) (b_revdeps b)\<rparr>))"

definition bsq_setscene :: "entries \<Rightarrow> tid \<Rightarrow> bsq \<Rightarrow> pyerr + bsq" where
  "bsq_setscene es tid b =
     bindE (dget es tid) (\<lambda>e.
       foldE (\<lambda>dep b. bindE (cut_revdep tid dep b) (\<lambda>b.
                Inr (b\<lparr>b_endpoints := dset dep (sadd tid (dgetd (b_endpoints b) dep [])) (b_endpoints b)\<rparr>)))
         (depends e) (b\<lparr>b_collated := dset tid [] (b_collated b)\<rparr>))"

definition collate_point :: "tid \<Rightarrow> tid \<Rightarrow> bsq \<Rightarrow> pyerr + bsq" where
  "collate_point point t b =
     bindE (dget (b_collated b) t) (\<lambda>ps. Inr (b\<lparr>b_collated := dset t (sadd point ps) (b_collated b)\<rparr>))"

definition squash_dep ::
  "tid list \<Rightarrow> tid \<Rightarrow> tid list \<Rightarrow> tid list \<Rightarrow> tid \<Rightarrow> bsq \<times> (tid, tid list) dict \<Rightarrow>
   pyerr + (bsq \<times> (tid, tid list) dict)" where
  "squash_dep ss point task tasks dep = (\<lambda>(b, newendpoints).
     bindE (cut_revdep point dep b) (\<lambda>b.
     bindE (if tasks = [] then Inr b
            else bindE (dget (b_squash b) dep) (\<lambda>sq.
                   Inr (b\<lparr>b_squash := dset dep (sunion sq tasks) (b_squash b)\<rparr>))) (\<lambda>b.
       Inr (b, if dgetd (b_revdeps b) dep [] = [] \<and> dep \<notin> set ss then dset dep task newendpoints
               else newendpoints))))"

definition process_point ::
  "entries \<Rightarrow> tid list \<Rightarrow> tid \<times> tid list \<Rightarrow> bsq \<times> (tid, tid list) dict \<Rightarrow>
   pyerr + (bsq \<times> (tid, tid list) dict)" where
  "process_point es ss = (\<lambda>(point, task) (b, newendpoints).
     bindE (dget (b_squash b) point) (\<lambda>sq.
       let tasks = sunion (sunion [] task) sq
       in bindE (if point \<in> set ss then Inr b else foldE (collate_point point) tasks b) (\<lambda>b.
          if point \<in> set ss then Inr (b\<lparr>b_squash := dset point tasks (b_squash b)\<rparr>, newendpoints)
          else
            bindE (dget es point) (\<lambda>e.
              foldE (squash_dep ss point task tasks) (depends e)
                (b\<lparr>b_squash := dset point [] (b_squash b)\<rparr>, newendpoints)))))"

text \<open>The function calls itself on the new endpoints.\<close>

fun process_endpoints ::
  "nat \<Rightarrow> entries \<Rightarrow> tid list \<Rightarrow> (tid, tid list) dict \<Rightarrow> bsq \<Rightarrow> pyerr + bsq" where
  "process_endpoints 0 es ss endpoints b = Inl RecursionError"
| "process_endpoints (Suc n) es ss endpoints b =
     bindE (foldE (process_point es ss) endpoints (b, [])) (\<lambda>(b, newendpoints).
       if newendpoints = [] then Inr b else process_endpoints n es ss newendpoints b)"

text \<open>The loop that collects the tasks the build needs down to the first setscene tasks.\<close>

definition unskip_step ::
  "tid list \<Rightarrow> tid \<Rightarrow> tid list \<times> rqexe \<Rightarrow> pyerr + (tid list \<times> rqexe)" where
  "unskip_step ss tid = (\<lambda>(un, r).
     if tid \<in> set ss then Inr (un, r)
     else bindE (entry r tid) (\<lambda>e.
            Inr (sunion un (depends e), if depends e = [] then setbuildable tid r else r)))"

definition unskip_round :: "tid list \<Rightarrow> tid list \<Rightarrow> rqexe \<Rightarrow> pyerr + (tid list \<times> rqexe)" where
  "unskip_round ss un r = foldE (unskip_step ss) (rev (sort un)) (un, r)"

definition all_depends :: "entries \<Rightarrow> tid set" where
  "all_depends es = (\<Union>(t, e) \<in> set es. set (depends e))"

lemma entries_setbuildable [simp]: "entries (setbuildable t r) = entries r"
  by (simp add: setbuildable_def newbuildable_def)

lemma unskip_round_result:
  assumes "unskip_round ss un r = Inr (un', r')"
  shows "entries r' = entries r" and "set un \<subseteq> set un'" and "set un' - set un \<subseteq> all_depends (entries r)"
proof -
  let ?P = "\<lambda>(u, q). entries q = entries r \<and> set un \<subseteq> set u \<and> set u - set un \<subseteq> all_depends (entries r)"
  have "?P (un', r')"
    using assms unfolding unskip_round_def
  proof (rule foldE_invariant [where P = ?P])
    fix x s t
    assume P: "?P s" and run: "unskip_step ss x s = Inr t"
    obtain u q where s: "s = (u, q)" by fastforce
    show "?P t"
    proof (cases "x \<in> set ss")
      case True
      with run P show ?thesis by (simp add: s unskip_step_def)
    next
      case False
      with run obtain e where e: "map_of (entries q) x = Some e"
        and t: "t = (sunion u (depends e), if depends e = [] then setbuildable x q else q)"
        by (auto simp: s unskip_step_def entry_def dget_Inr_iff)
      have "set (depends e) \<subseteq> all_depends (entries q)"
        using map_of_SomeD [OF e] by (auto simp: all_depends_def)
      then show ?thesis using P unfolding s t by auto
    qed
  qed simp
  then show "entries r' = entries r" "set un \<subseteq> set un'" "set un' - set un \<subseteq> all_depends (entries r)"
    by auto
qed

function unskip_loop :: "tid list \<Rightarrow> tid list \<Rightarrow> rqexe \<Rightarrow> pyerr + (tid list \<times> rqexe)" where
  "unskip_loop ss un r =
     bindE (unskip_round ss un r) (\<lambda>(un', r').
       if set un' = set un then Inr (un', r') else unskip_loop ss un' r')"
  by pat_completeness auto
termination
proof (relation "measure (\<lambda>(ss, un, r). card (all_depends (entries r) - set un))", goal_cases)
  case (2 ss un r x un' r')
  then have run: "unskip_round ss un r = Inr (un', r')" and ne: "set un' \<noteq> set un" by auto
  note u = unskip_round_result [OF run]
  have "finite (all_depends (entries r))" by (auto simp: all_depends_def)
  moreover have "all_depends (entries r') - set un' \<subset> all_depends (entries r) - set un"
    using u ne by auto
  ultimately show ?case by (auto intro: psubset_card_mono)
qed simp

definition squash_check :: "tid list \<Rightarrow> tid \<Rightarrow> (tid, tid list) dict \<Rightarrow> pyerr + (tid, tid list) dict" where
  "squash_check ss tid sq =
     (if tid \<in> set ss then Inr sq
      else bindE (dget sq tid) (\<lambda>ts. if ts \<noteq> [] then Inl (Fatal ''RunQueue'') else Inr (ddel tid sq)))"

text \<open>\<open>s.replace(sub, "")\<close>.\<close>

function remove_sub :: "string \<Rightarrow> string \<Rightarrow> string" where
  "remove_sub sub s =
     (if s = [] \<or> sub = [] then s
      else if startswith s sub then remove_sub sub (drop (length sub) s)
      else hd s # remove_sub sub (tl s))"
  by pat_completeness auto
termination
  by (relation "measure (\<lambda>(sub, s). length s)") auto

definition harddep_add :: "rq_env \<Rightarrow> rqexe \<Rightarrow> taskdata \<Rightarrow> tid \<Rightarrow> string \<times> string \<Rightarrow> sqdata \<Rightarrow> pyerr + sqdata" where
  "harddep_add env r td tid = (\<lambda>(depname, idependtask) q.
     if \<not> din depname (build_targets td) then Inr q
     else (case dgetd (build_targets td) depname [] of
             [] \<Rightarrow> Inl IndexError
           | depfn # _ \<Rightarrow>
               (let deptid = depfn @ '':'' @ remove_sub ''_setscene'' idependtask
                in if \<not> din deptid (entries r) then Inl (Fatal ''RunQueue'')
                   else Inr (q\<lparr>sq_harddeps := dset deptid (sadd tid (dgetd (sq_harddeps q) deptid [])) (sq_harddeps q),
                               sq_harddeps_rev :=
                                 dset tid (sadd deptid (dgetd (sq_harddeps_rev q) tid [])) (sq_harddeps_rev q)\<rparr>))))"

definition harddeps_of :: "rq_env \<Rightarrow> rqexe \<Rightarrow> tid \<Rightarrow> sqdata \<Rightarrow> pyerr + sqdata" where
  "harddeps_of env r tid q =
     bindE (split_tid_mcfn tid) (\<lambda>(mc, fn, taskname, taskfn).
     bindE (dget (taskdatas env) mc) (\<lambda>td.
     bindE (dget (taskentries td) (tid @ ''_setscene'')) (\<lambda>te.
       foldE (harddep_add env r td tid) (idepends te)
         (q\<lparr>sq_stamps := dset tid (stampfile env (entries r) taskname taskfn False) (sq_stamps q),
            sq_harddeps_rev := dset tid [] (sq_harddeps_rev q)\<rparr>))))"

text \<open>\<open>sq_deps\<close> is the reverse of \<open>sq_revdeps\<close>.\<close>

definition reverse_deps :: "(tid, tid list) dict \<Rightarrow> pyerr + (tid, tid list) dict" where
  "reverse_deps rd =
     foldE (\<lambda>(tid, ds) d. foldE (\<lambda>dep d. bindE (dget d dep) (\<lambda>ts. Inr (dset dep (sadd tid ts) d))) ds d)
       rd (map (\<lambda>(tid, _). (tid, [])) rd)"

definition hash_step :: "rq_env \<Rightarrow> string \<Rightarrow> tid \<Rightarrow> rqexe \<Rightarrow> pyerr + rqexe" where
  "hash_step env mc tid r =
     (if mc_from_tid tid \<noteq> mc then Inr r
      else bindE (pending_hash_index env tid r) (\<lambda>h.
             case map_of (sq_hashes (sqd r)) h of
               None \<Rightarrow> Inr (upd_sqd (\<lambda>q. q\<lparr>sq_hashes := dset h tid (sq_hashes q)\<rparr>) r)
             | Some t \<Rightarrow> Inr (r\<lparr>sq_deferred := dset tid t (sq_deferred r)\<rparr>)))"

definition hash_tids :: "rq_env \<Rightarrow> rqexe \<Rightarrow> pyerr + rqexe" where
  "hash_tids env r =
     foldE (\<lambda>mc. foldE (hash_step env mc) (sort (dkeys (sq_revdeps (sqd r)))))
       (sort (multiconfigs (sqd r)))
       (upd_sqd (\<lambda>q. q\<lparr>sq_noexec := [], stamppresent := [], sq_valid := [], sq_hashes := []\<rparr>) r\<lparr>sq_deferred := []\<rparr>)"

definition squash_graph :: "rq_env \<Rightarrow> entries \<Rightarrow> pyerr + bsq" where
  "squash_graph env es =
     (let ss = setscene_tids env;
          b = fold (bsq_entry ss) es \<lparr>b_revdeps = [], b_squash = [], b_collated = [], b_endpoints = []\<rparr>
      in bindE (foldE (bsq_setscene es) ss b) (\<lambda>b.
           process_endpoints (rec_limit env) es ss (b_endpoints b) b))"

definition find_unskippable :: "rq_env \<Rightarrow> rqexe \<Rightarrow> pyerr + rqexe" where
  "find_unskippable env r =
     (let ss = setscene_tids env;
          tops = map fst (filter (\<lambda>(t, e). revdeps e = []) (entries r));
          un = sunion (fold sadd tops (unskippable (sqd r))) (cantskip (sqd r))
      in bindE (unskip_loop ss un r) (\<lambda>(un, r).
           Inr ((upd_sqd (\<lambda>q. q\<lparr>unskippable := un\<rparr>) r)
                \<lparr>tasks_scenequeue_done := sunion (tasks_scenequeue_done r) (sdiff un ss)\<rparr>)))"

definition build_scenequeue_data :: "rq_env \<Rightarrow> rqexe \<Rightarrow> pyerr + rqexe" where
  "build_scenequeue_data env r =
     (let ss = setscene_tids env;
          r = upd_sqd (\<lambda>q. q\<lparr>cantskip := sinter (sdiff (target_tids env) ss) (dkeys (entries r))\<rparr>) r
      in bindE (squash_graph env (entries r)) (\<lambda>b.
         bindE (find_unskippable env r) (\<lambda>r.
         bindE (foldE (squash_check ss) (dkeys (entries r)) (b_squash b)) (\<lambda>squash.
         bindE (foldE (harddeps_of env r) ss (sqd r)) (\<lambda>q.
         bindE (reverse_deps squash) (\<lambda>sqdeps.
           let q = q\<lparr>sq_revdeps := squash, sq_covered_tasks := b_collated b, sq_deps := sqdeps,
                     multiconfigs := remdups (map mc_from_tid (dkeys squash))\<rparr>;
               ready = map fst (filter (\<lambda>(tid, ds). ds = []) squash)
           in hash_tids env (r\<lparr>sqd := q, sq_buildable := fold sadd ready (sq_buildable r)\<rparr>)))))))"

end
