(* ===== verification/Execute.thy ===== *)
theory Execute
  imports SceneQueueBuild
begin

text \<open>
  \<open>RunQueueExecute\<close> of \<open>poky/bitbake/lib/bb/runqueue.py\<close>: a task becomes buildable when its
  dependencies are complete, \<open>execute\<close> starts one setscene task or one task, and
  \<open>runqueue_process_waitpid\<close> takes the exit status of a worker.  Worker messages are read by
  \<open>read_workers\<close> at the start of \<open>execute\<close> and when it has nothing to start; here they are steps of
  their own, between the calls of \<open>execute\<close>.
\<close>

section \<open>Completing tasks\<close>

definition ready_revdep :: "tid \<Rightarrow> rqexe \<Rightarrow> pyerr + rqexe" where
  "ready_revdep revdep r =
     (if revdep \<in> set (runq_running r) \<or> revdep \<in> set (runq_buildable r) then Inr r
      else bindE (entry r revdep) (\<lambda>e.
             Inr (if ssubset (depends e) (runq_complete r) then setbuildable revdep r else r)))"

definition undefer :: "rq_env \<Rightarrow> tid \<Rightarrow> tid \<Rightarrow> string option \<times> rqexe \<Rightarrow> pyerr + (string option \<times> rqexe)" where
  "undefer env task t = (\<lambda>(found, r).
     bindE (dget (sq_deferred r) t) (\<lambda>d.
       if d \<noteq> task then Inr (found, r)
       else if \<not> truthy found then
         bindE (update_scenequeue_data env [t] False (r\<lparr>sq_deferred := ddel t (sq_deferred r)\<rparr>)) (\<lambda>r.
           Inr (Some t, r))
       else Inr (found, r\<lparr>sq_deferred := dset t (the found) (sq_deferred r)\<rparr>)))"

definition task_completeoutright :: "rq_env \<Rightarrow> tid \<Rightarrow> rqexe \<Rightarrow> pyerr + rqexe" where
  "task_completeoutright env task r =
     (let r = r\<lparr>runq_complete := sadd task (runq_complete r)\<rparr>
      in bindE (entry r task) (\<lambda>e.
         bindE (foldE ready_revdep (revdeps e) r) (\<lambda>r.
         bindE (foldE (undefer env task) (sort (dkeys (sq_deferred r))) (None, r)) (\<lambda>(found, r). Inr r))))"

definition task_complete :: "rq_env \<Rightarrow> tid \<Rightarrow> rqexe \<Rightarrow> pyerr + rqexe" where
  "task_complete env task r =
     bindE (task_completeoutright env task (fire (TaskCompleted task) (upd_stats taskCompleted r))) (\<lambda>r.
       Inr (r\<lparr>runq_tasksrun := sadd task (runq_tasksrun r)\<rparr>))"

definition task_fail :: "rq_env \<Rightarrow> tid \<Rightarrow> rqexe \<Rightarrow> pyerr + rqexe" where
  "task_fail env task r =
     (let r = upd_stats taskFailed r;
          r = fire (TaskFailed task) (r\<lparr>failed_tids := failed_tids r @ [task]\<rparr>)
      in bindE (dget (taskdatas env) '''') (\<lambda>td.
           Inr (if td_halt td then r\<lparr>rq_state := runQueueCleanUp\<rparr> else r)))"

definition task_skip :: "rq_env \<Rightarrow> tid \<Rightarrow> string \<Rightarrow> rqexe \<Rightarrow> pyerr + rqexe" where
  "task_skip env task reason r =
     (let r = setbuildable task (r\<lparr>runq_running := sadd task (runq_running r)\<rparr>)
      in bindE (task_completeoutright env task (fire (TaskSkipped task reason) r)) (\<lambda>r.
           Inr (upd_stats taskCompleted (upd_stats taskSkipped r))))"

section \<open>Worker results\<close>

definition drop_stamp :: "tid \<Rightarrow> rqexe \<Rightarrow> pyerr + rqexe" where
  "drop_stamp task r =
     (case map_of (build_stamps r) task of
        None \<Rightarrow> Inr r
      | Some s \<Rightarrow>
          if s \<in> set (build_stamps2 r)
          then Inr (r\<lparr>build_stamps2 := remove1 s (build_stamps2 r), build_stamps := ddel task (build_stamps r)\<rparr>)
          else Inl (ValueError ''list.remove(x): x not in list''))"

definition runqueue_process_waitpid :: "rq_env \<Rightarrow> tid \<Rightarrow> int \<Rightarrow> rqexe \<Rightarrow> pyerr + rqexe" where
  "runqueue_process_waitpid env task status r =
     bindE (drop_stamp task r) (\<lambda>r.
     if task \<in> set (sq_live r) then
       bindE (if status \<noteq> 0 then sq_task_fail env task r else sq_task_complete env task r) (\<lambda>r.
         if task \<in> set (sq_live r) then
           (let r = r\<lparr>sq_live := sremove task (sq_live r)\<rparr>
            in Inr (upd_stats (updateActiveSetscene (int (length (sq_live r)))) r))
         else Inl KeyError)
     else if status \<noteq> 0 then task_fail env task r else task_complete env task r)"

section \<open>Finishing\<close>

definition finish_now :: "rqexe \<Rightarrow> rqexe" where
  "finish_now r = r\<lparr>rq_state := (if failed_tids r \<noteq> [] then runQueueFailed else runQueueComplete)\<rparr>"

definition finish :: "rqexe \<Rightarrow> rqexe" where
  "finish r =
     (let r = r\<lparr>rq_state := runQueueCleanUp\<rparr>;
          active = st_active (rq_stats r) + int (length (sq_live r))
      in if active > 0 then fire (ExitWait active) r
         else if failed_tids r \<noteq> [] then r\<lparr>rq_state := runQueueFailed\<rparr>
         else r\<lparr>rq_state := runQueueComplete\<rparr>)"

definition check_dependencies :: "rq_env \<Rightarrow> tid \<Rightarrow> tid list \<Rightarrow> rqexe \<Rightarrow> pyerr + bool" where
  "check_dependencies env task taskdeps r =
     (case depvalidate env of
        None \<Rightarrow> Inr False
      | Some validate \<Rightarrow>
          bindE (foldE (\<lambda>dep d.
              bindE (split_tid_mcfn dep) (\<lambda>(mc, fn, taskname, taskfn).
              bindE (task_pn env dep) (\<lambda>pn. Inr (dset dep (pn, taskname, fn) d))))
            (sadd task taskdeps) []) (\<lambda>taskdata.
            Inr (validate task taskdata (scenequeue_notneeded r))))"

definition summarise_scenequeue_errors :: "rq_env \<Rightarrow> rqexe \<Rightarrow> bool \<times> rqexe" where
  "summarise_scenequeue_errors env r =
     (let r = (if sqdone r then r else fire SQComplete r);
          err = (sq_deferred r \<noteq> [] \<or> updated_taskhash_queue r \<noteq> [] \<or> holdoff_tasks r \<noteq> [] \<or>
            (\<exists>tid \<in> set (setscene_tids env).
               tid \<notin> set (scenequeue_covered r) \<and> tid \<notin> set (scenequeue_notcovered r) \<or>
               tid \<notin> set (sq_buildable r) \<or> tid \<notin> set (sq_running r)) \<or>
            (\<exists>(x, e) \<in> set (entries r).
               x \<notin> set (tasks_covered r) \<and> x \<notin> set (tasks_notcovered r) \<or>
               x \<notin> set (tasks_scenequeue_done r) \<or>
               depends e = [] \<and> x \<notin> set (runq_buildable r)))
      in (err, r))"

section \<open>update_holdofftasks\<close>

definition covers :: "rqexe \<Rightarrow> tid list \<Rightarrow> tid list \<Rightarrow> pyerr + tid list" where
  "covers r tids acc =
     foldE (\<lambda>tid acc. bindE (dget (sq_covered_tasks (sqd r)) tid) (\<lambda>ts. Inr (sunion acc ts))) tids acc"

definition holdoff_buildable :: "tid \<Rightarrow> rqexe \<Rightarrow> pyerr + rqexe" where
  "holdoff_buildable tid r =
     bindE (entry r tid) (\<lambda>e.
       Inr (if depends e = [] \<or> ssubset (depends e) (runq_complete r) then setbuildable tid r else r))"

definition hold_covered :: "rqexe \<Rightarrow> tid \<Rightarrow> tid list \<Rightarrow> pyerr + tid list" where
  "hold_covered r tid held =
     bindE (dget (sq_covered_tasks (sqd r)) tid) (\<lambda>ts.
       Inr (sunion held (sdiff ts (runq_complete r))))"

definition update_holdofftasks :: "rq_env \<Rightarrow> rqexe \<Rightarrow> pyerr + rqexe" where
  "update_holdofftasks env r =
     (if \<not> holdoff_need_update r then Inr r
      else
        bindE (covers r (scenequeue_notcovered r)
                 (sunion (scenequeue_notcovered r) (cantskip (sqd r)))) (\<lambda>nc.
        bindE (covers r (scenequeue_covered r) (scenequeue_covered r)) (\<lambda>cov.
          let notcovered = sinter (sunion nc (sdiff (unskippable (sqd r)) (setscene_tids env)))
                             (tasks_scenequeue_done r);
              covered = sinter (sdiff cov notcovered) (tasks_scenequeue_done r)
          in bindE (foldE holdoff_buildable (sunion notcovered covered) r) (\<lambda>r.
             let held = sdiff (sdiff (setscene_tids env) (scenequeue_covered r)) (scenequeue_notcovered r)
             in bindE (foldE (hold_covered r) held held) (\<lambda>held.
                  Inr (r\<lparr>tasks_covered := covered, tasks_notcovered := notcovered,
                         holdoff_tasks := held, holdoff_need_update := False\<rparr>))))))"

section \<open>process_possible_migrations\<close>

definition set_entry_unihash :: "string \<Rightarrow> tid \<Rightarrow> rqexe \<Rightarrow> pyerr + rqexe" where
  "set_entry_unihash h tid r =
     bindE (entry r tid) (\<lambda>e. Inr (r\<lparr>entries := dset tid (e\<lparr>unihash := Some h\<rparr>) (entries r)\<rparr>))"

definition take_hash :: "tid \<times> string \<Rightarrow> tid list \<times> rqexe \<Rightarrow> pyerr + (tid list \<times> rqexe)" where
  "take_hash = (\<lambda>(tid, h) (toprocess, r).
     if tid \<in> set (runq_running r) \<and> tid \<notin> set (runq_complete r) then Inr (toprocess, r)
     else
       (let r = r\<lparr>updated_taskhash_queue := remove1 (tid, h) (updated_taskhash_queue r)\<rparr>
        in bindE (entry r tid) (\<lambda>e.
           if unihash e = Some h then Inr (toprocess, r)
           else
             (let torehash = tid # map fst (filter (\<lambda>(t, d). d = tid) (sq_deferred r))
              in bindE (foldE (set_entry_unihash h) torehash r) (\<lambda>r.
                   Inr (fold sadd torehash toprocess, r))))))"

text \<open>All tasks that depend on the tasks \<open>nxt\<close>, these included.\<close>

definition revs_union :: "entries \<Rightarrow> tid list \<Rightarrow> pyerr + tid list" where
  "revs_union es ts = foldE (\<lambda>t acc. bindE (dget es t) (\<lambda>e. Inr (sunion acc (revdeps e)))) ts []"

lemma revs_union_keys: "revs_union es ts = Inr us \<Longrightarrow> set ts \<subseteq> set (dkeys es)"
proof -
  assume run: "revs_union es ts = Inr us"
  have "set ts \<subseteq> set (dkeys es)"
    using run unfolding revs_union_def
    by (rule foldE_prefix_inv [where P = "\<lambda>ys _. set ys \<subseteq> set (dkeys es)"])
      (auto simp: dget_Inr_iff din_iff)
  then show ?thesis .
qed

function dependents_loop :: "entries \<Rightarrow> tid list \<Rightarrow> tid list \<Rightarrow> pyerr + tid list" where
  "dependents_loop es nxt tot =
     (if nxt = [] then Inr tot
      else bindE (revs_union es nxt) (\<lambda>us.
             dependents_loop es (sdiff us (sunion tot nxt)) (sunion tot nxt)))"
  by pat_completeness auto
termination
proof (relation "measure (\<lambda>(es, nxt, tot). if nxt = [] then 0 else Suc (done_measure es nxt tot))",
    goal_cases)
  case (2 es nxt tot us)
  let ?tot = "sunion tot nxt" and ?nxt = "sdiff us (sunion tot nxt)"
  have k: "set nxt \<subseteq> set (dkeys es)" using revs_union_keys [OF 2(2)] .
  show ?case
  proof (cases "?nxt = []")
    case False
    then have "set ?nxt \<noteq> {}" using set_empty by blast
    then have ns: "\<not> set ?nxt \<subseteq> set ?tot" by auto
    have "done_measure es ?nxt ?tot < done_measure es nxt tot"
    proof (cases "set nxt \<subseteq> set tot")
      case True
      then have "set ?tot = set tot" by auto
      with True ns show ?thesis by (simp add: done_measure_def)
    next
      case F: False
      then have "set (dkeys es) - set ?tot \<subset> set (dkeys es) - set tot" using k by auto
      then have "card (set (dkeys es) - set ?tot) < card (set (dkeys es) - set tot)"
        by (intro psubset_card_mono) auto
      then show ?thesis using ns by (simp add: done_measure_def)
    qed
    with 2 False show ?thesis by simp
  qed (use 2 in simp)
qed simp

definition rehash_roots :: "entries \<Rightarrow> tid list \<Rightarrow> pyerr + tid list" where
  "rehash_roots es tot =
     foldE (\<lambda>p nxt. bindE (dget es p) (\<lambda>e.
       Inr (if depends e = [] \<or> sdisjoint (depends e) tot then sadd p nxt else nxt))) tot []"

text \<open>
  One round of the rehash loop.  \<open>p\<close> is the variable left over from the loop before: the
  test reads the dependencies of \<open>p\<close>, not of \<open>tid\<close>.
\<close>

definition rehash_ready ::
  "rq_env \<Rightarrow> entries \<Rightarrow> tid \<Rightarrow> tid list \<Rightarrow> tid list \<Rightarrow> pyerr + (tid \<times> string) list" where
  "rehash_ready env es p tot current =
     foldE (\<lambda>tid rdy.
       bindE (dget es p) (\<lambda>ep.
       bindE (dget es tid) (\<lambda>e.
         Inr (if depends ep \<noteq> [] \<and> \<not> sdisjoint (depends e) tot then rdy
              else dset tid (get_taskhash env es tid (depends e)) rdy)))) current []"

definition rehash_tid ::
  "(tid, string) dict \<Rightarrow> tid \<times> string \<Rightarrow> tid list \<times> tid list \<times> tid list \<times> rqexe \<Rightarrow>
   pyerr + (tid list \<times> tid list \<times> tid list \<times> rqexe)" where
  "rehash_tid unihashes = (\<lambda>(tid, newhash) (nxt, tot, changed, r).
     bindE (entry r tid) (\<lambda>e.
     bindE (dget unihashes tid) (\<lambda>newuni.
       let remapped = (unihash e = Some newuni \<or> tid \<in> set (scenequeue_covered r) \<or> tid \<in> set (sq_live r));
           r = (if remapped then r
                else r\<lparr>entries := dset tid (e\<lparr>hash := Some newhash, unihash := Some newuni\<rparr>) (entries r)\<rparr>);
           changed = (if remapped then changed else sadd tid changed)
       in if tid \<notin> set tot then Inl KeyError
          else (let tot = sremove tid tot
                in Inr (sinter (sunion nxt (revdeps e)) tot, tot, changed, r)))))"

definition rehash_round ::
  "rq_env \<Rightarrow> tid \<Rightarrow> tid list \<times> tid list \<times> tid list \<times> rqexe \<Rightarrow>
   pyerr + (tid list \<times> tid list \<times> tid list \<times> rqexe)" where
  "rehash_round env p = (\<lambda>(current, tot, changed, r).
     bindE (rehash_ready env (entries r) p tot current) (\<lambda>rdy.
       foldE (rehash_tid (get_unihashes env (entries r) rdy)) rdy ([], tot, changed, r)))"

lemma rehash_tid_total:
  "rehash_tid u x (n, t, ch, r) = Inr (n', t', ch', r') \<Longrightarrow> length t' < length t"
  by (cases x) (auto simp: rehash_tid_def Let_def sremove_def length_filter_less split: if_splits)

lemma rehash_fold_total:
  "foldE (rehash_tid u) rdy (n, t, ch, r) = Inr (n', t', ch', r') \<Longrightarrow>
   (rdy = [] \<and> n' = n \<and> t' = t) \<or> length t' < length t"
proof (induction rdy arbitrary: n t ch r)
  case (Cons x rdy)
  then obtain n1 t1 ch1 r1 where 1: "rehash_tid u x (n, t, ch, r) = Inr (n1, t1, ch1, r1)"
    and 2: "foldE (rehash_tid u) rdy (n1, t1, ch1, r1) = Inr (n', t', ch', r')"
    by auto
  from rehash_tid_total [OF 1] Cons.IH [OF 2] show ?case by auto
qed simp

function rehash_loop ::
  "rq_env \<Rightarrow> tid \<Rightarrow> tid list \<times> tid list \<times> tid list \<times> rqexe \<Rightarrow> pyerr + (tid list \<times> rqexe)" where
  "rehash_loop env p (nxt, tot, changed, r) =
     (if nxt = [] then Inr (changed, r)
      else bindE (rehash_round env p (nxt, tot, changed, r)) (rehash_loop env p))"
  by pat_completeness auto
termination
proof (relation "measure (\<lambda>(env, p, nxt, tot, ch, r). 2 * length tot + (if nxt = [] then 0 else 1))",
    goal_cases)
  case (2 env p nxt tot changed r s)
  obtain n t ch q where s: "s = (n, t, ch, q)" by (cases s) auto
  from 2(2) obtain rdy where
    "foldE (rehash_tid (get_unihashes env (entries r) rdy)) rdy ([], tot, changed, r) = Inr (n, t, ch, q)"
    by (auto simp: s rehash_round_def)
  from rehash_fold_total [OF this] 2(1) show ?case by (auto simp: s)
qed simp

text \<open>
  Tasks whose hash changed go back to the scene queue, unless something they cover runs.
  The first component is the early return when a covered task would have to run again.
\<close>

definition covered_running :: "rqexe \<Rightarrow> tid list \<Rightarrow> bool" where
  "covered_running r ts \<longleftrightarrow> (\<exists>dep \<in> set ts. dep \<in> set (runq_running r) \<and> dep \<notin> set (runq_complete r))"

fun mig_covered :: "tid \<Rightarrow> tid list \<Rightarrow> rqexe \<Rightarrow> bool \<times> rqexe" where
  "mig_covered tid [] r = (False, r)"
| "mig_covered tid (dep # ds) r =
     (if dep \<in> set (runq_complete r) \<and> dep \<notin> set (runq_tasksrun r)
      then (True, r\<lparr>failed_tids := failed_tids r @ [tid], rq_state := runQueueCleanUp\<rparr>)
      else mig_covered tid ds
             (if dep \<notin> set (runq_complete r) \<and> dep \<in> set (tasks_scenequeue_done r) \<and>
                 dep \<notin> set (unskippable (sqd r))
              then r\<lparr>tasks_scenequeue_done := sremove dep (tasks_scenequeue_done r)\<rparr> else r))"

definition mig_reset :: "rq_env \<Rightarrow> tid \<Rightarrow> rqexe \<Rightarrow> pyerr + rqexe" where
  "mig_reset env tid r =
     (let r = r\<lparr>sq_buildable := sremove tid (sq_buildable r), sq_running := sremove tid (sq_running r),
                scenequeue_notcovered := sremove tid (scenequeue_notcovered r),
                scenequeue_covered := sremove tid (scenequeue_covered r),
                scenequeue_notneeded := sremove tid (scenequeue_notneeded r)\<rparr>
      in bindE (split_tid_mcfn tid) (\<lambda>(mc, fn, taskname, taskfn).
           let r = upd_sqd (\<lambda>q. q\<lparr>outrightfail := sremove tid (outrightfail q),
                 sq_stamps := dset tid (stampfile env (entries r) taskname taskfn False) (sq_stamps q)\<rparr>) r
           in Inr (r\<lparr>stampcache := ddel tid (stampcache r), build_stamps := ddel tid (build_stamps r)\<rparr>)))"

definition mig_tid ::
  "rq_env \<Rightarrow> tid \<Rightarrow> bool \<times> tid list \<times> rqexe \<Rightarrow> pyerr + (bool \<times> tid list \<times> rqexe)" where
  "mig_tid env tid = (\<lambda>(stopped, update_tasks, r).
     if stopped then Inr (stopped, update_tasks, r)
     else if tid \<in> set (runq_running r) \<or> tid \<in> set (sq_live r)
     then Inr (False, update_tasks, r\<lparr>pending_migrations := sremove tid (pending_migrations r)\<rparr>)
     else
       bindE (dget (sq_covered_tasks (sqd r)) tid) (\<lambda>cts.
       if covered_running r cts then Inr (False, update_tasks, r)
       else
         (let r = r\<lparr>pending_migrations := sremove tid (pending_migrations r),
                    tasks_scenequeue_done := sremove tid (tasks_scenequeue_done r)\<rparr>
          in case mig_covered tid cts r of (stopped, r) \<Rightarrow>
             if stopped then Inr (True, update_tasks, r)
             else bindE (mig_reset env tid r) (\<lambda>r. Inr (False, update_tasks @ [tid], r)))))"

definition mig_buildable ::
  "tid \<Rightarrow> (tid \<times> bool \<times> bool) list \<times> rqexe \<Rightarrow> pyerr + ((tid \<times> bool \<times> bool) list \<times> rqexe)" where
  "mig_buildable tid = (\<lambda>(upd, r).
     bindE (dget (sq_harddeps_rev (sqd r)) tid) (\<lambda>hd.
     bindE (dget (sq_revdeps (sqd r)) tid) (\<lambda>rd.
       let harddepfail = (\<exists>t \<in> set hd. t \<in> set (scenequeue_notcovered r));
           add = (\<not> harddepfail \<and> ssubset rd (handled r) \<or> rd = []);
           r = (if add then r\<lparr>sq_buildable := sadd tid (sq_buildable r)\<rparr> else r)
       in Inr (upd @ [(tid, harddepfail, tid \<in> set (sq_valid (sqd r)))], r))))"

definition mig_defer :: "rq_env \<Rightarrow> string \<Rightarrow> tid \<Rightarrow> rqexe \<Rightarrow> pyerr + rqexe" where
  "mig_defer env mc tid r =
     (if mc_from_tid tid \<noteq> mc then Inr r
      else bindE (pending_hash_index env tid r) (\<lambda>h.
             case map_of (sq_hashes (sqd r)) h of
               None \<Rightarrow> Inr r
             | Some t \<Rightarrow> Inr (if tid \<noteq> t then r\<lparr>sq_deferred := dset tid t (sq_deferred r)\<rparr> else r)))"

definition mig_update :: "rq_env \<Rightarrow> (tid \<times> bool \<times> bool) list \<Rightarrow> rqexe \<Rightarrow> pyerr + rqexe" where
  "mig_update env upd r =
     (if upd = [] then Inr r
      else
        bindE (foldE (\<lambda>mc. foldE (mig_defer env mc) (sort (map fst upd)))
                 (sort (multiconfigs (sqd r))) (r\<lparr>sqdone := False\<rparr>)) (\<lambda>r.
          update_scenequeue_data env (map fst upd) False r))"

text \<open>The tasks to rehash, in the order the code finds them, and the rehash.\<close>

definition rehash_phase :: "rq_env \<Rightarrow> rqexe \<Rightarrow> pyerr + (tid list \<times> rqexe)" where
  "rehash_phase env r =
     bindE (foldE take_hash (updated_taskhash_queue r) ([], r)) (\<lambda>(toprocess, r).
     bindE (revs_union (entries r) toprocess) (\<lambda>nxt.
     bindE (dependents_loop (entries r) nxt []) (\<lambda>tot.
     bindE (rehash_roots (entries r) tot) (\<lambda>nxt.
       rehash_loop env (if tot = [] then '''' else last tot) (nxt, tot, [], r)))))"

definition process_possible_migrations :: "rq_env \<Rightarrow> rqexe \<Rightarrow> pyerr + rqexe" where
  "process_possible_migrations env r =
     bindE (rehash_phase env r) (\<lambda>(changed, r).
       let r = r\<lparr>pending_migrations :=
                   fold sadd (sinter changed (setscene_tids env)) (pending_migrations r)\<rparr>
       in bindE (foldE (mig_tid env) (pending_migrations r) (False, [], r)) (\<lambda>(stopped, update_tasks, r).
          if stopped then Inr r
          else
            bindE (foldE mig_buildable update_tasks ([], r)) (\<lambda>(upd, r).
            bindE (mig_update env upd r) (\<lambda>r.
            bindE (foldE (\<lambda>(tid, harddepfail, origvalid) r.
                     if harddepfail then sq_task_failoutright env tid r else Inr r) upd r) (\<lambda>r.
              if changed \<noteq> [] \<or> update_tasks \<noteq> [] then
                Inr ((upd_stats (updateCovered (int (length (scenequeue_covered r)))
                                               (int (length (scenequeue_notcovered r)))) r)
                     \<lparr>sq_needed_harddeps := [], sq_harddep_deferred := [], holdoff_need_update := True\<rparr>)
              else Inr r)))))"

section \<open>execute: setscene tasks\<close>

text \<open>How the search for a setscene task ends: the call returns, a task, or none.\<close>

datatype pick = Returned | Picked tid | NoPick

definition pop_deferred :: "tid \<Rightarrow> rqexe \<Rightarrow> rqexe" where
  "pop_deferred tid r = r\<lparr>sq_deferred := ddel tid (sq_deferred r)\<rparr>"

definition sq_eligible :: "tid \<Rightarrow> rqexe \<Rightarrow> pyerr + bool" where
  "sq_eligible t r =
     (if t \<notin> set (sq_buildable r) \<or> t \<in> set (sq_running r) then Inr False
      else bindE (dget (sq_stamps (sqd r)) t) (\<lambda>stamp.
             Inr (\<not> stamp_in_use r stamp \<and> t \<notin> set (sq_harddep_deferred r))))"

definition sq_can_skip :: "rq_env \<Rightarrow> tid \<Rightarrow> rqexe \<Rightarrow> pyerr + bool" where
  "sq_can_skip env t r =
     (if t \<in> set (unskippable (sqd r)) then Inr False
      else bindE (dget (sq_revdeps (sqd r)) t) (\<lambda>rd.
        if rd = [] \<or> t \<in> set (sq_needed_harddeps r) \<or> \<not> ssubset rd (scenequeue_covered r) then Inr False
        else bindE (check_dependencies env t rd r) (\<lambda>b. Inr (b \<and> t \<notin> set (target_tids env)))))"

text \<open>Waiting for hard dependencies: those not asked for before are made buildable.\<close>

definition enable_harddep :: "tid \<Rightarrow> bool \<times> rqexe \<Rightarrow> bool \<times> rqexe" where
  "enable_harddep dep = (\<lambda>(updated, r).
     if dep \<in> set (sq_needed_harddeps r) then (updated, r)
     else (True, r\<lparr>sq_buildable := sadd dep (sq_buildable r),
                   sq_needed_harddeps := sadd dep (sq_needed_harddeps r)\<rparr>))"

definition sq_undeferred :: "rq_env \<Rightarrow> tid \<Rightarrow> rqexe \<Rightarrow> pyerr + (pick \<times> rqexe)" where
  "sq_undeferred env t r =
     (if t \<in> set (outrightfail (sqd r))
      then bindE (sq_task_failoutright env t r) (\<lambda>r. Inr (Returned, r))
      else Inr (Picked t, r))"

text \<open>
  The check on running covered tasks has a \<open>continue\<close> that only continues its own loop, so it
  reads the covered tasks and has no effect.
\<close>

definition sq_pick_ready :: "rq_env \<Rightarrow> tid \<Rightarrow> rqexe \<Rightarrow> pyerr + (pick \<times> rqexe)" where
  "sq_pick_ready env t r =
     bindE (dget (sq_covered_tasks (sqd r)) t) (\<lambda>_.
     if din t (sq_deferred r) then
       (let r = pop_deferred t r
        in bindE (validate_hashes env [t] 0 False False r) (\<lambda>valid.
             if valid = [] then bindE (sq_task_failoutright env t r) (\<lambda>r. Inr (Returned, r))
             else sq_undeferred env t r))
     else sq_undeferred env t r)"

definition pick_one :: "rq_env \<Rightarrow> tid \<Rightarrow> rqexe \<Rightarrow> pyerr + (pick \<times> rqexe)" where
  "pick_one env t r =
     bindE (sq_eligible t r) (\<lambda>ok.
     if \<not> ok then Inr (NoPick, r)
     else if (case map_of (sq_deferred r) t of None \<Rightarrow> False | Some d \<Rightarrow> d \<notin> set (runq_complete r))
     then Inr (NoPick, r)
     else
       bindE (sq_can_skip env t r) (\<lambda>skip.
       if skip then
         bindE (sq_task_skip env t r) (\<lambda>r.
           Inr (Returned, pop_deferred t (r\<lparr>scenequeue_notneeded := sadd t (scenequeue_notneeded r)\<rparr>)))
       else
         (case map_of (sq_harddeps_rev (sqd r)) t of
            Some hds \<Rightarrow>
              if \<not> ssubset hds (handled r) then
                (case fold enable_harddep hds (False, r) of (updated, r) \<Rightarrow>
                   let r = r\<lparr>sq_harddep_deferred := sadd t (sq_harddep_deferred r)\<rparr>
                   in Inr (if updated then Returned else NoPick, r))
              else sq_pick_ready env t r
          | None \<Rightarrow> sq_pick_ready env t r)))"

text \<open>\<open>itertools.cycle\<close>: the list is turned by one at every \<open>next\<close>.\<close>

fun pick_loop :: "nat \<Rightarrow> rq_env \<Rightarrow> rqexe \<Rightarrow> pyerr + (pick \<times> rqexe)" where
  "pick_loop 0 env r = Inr (NoPick, r)"
| "pick_loop (Suc n) env r =
     (case setscene_cycle r of
        [] \<Rightarrow> Inr (NoPick, r)
      | t # ts \<Rightarrow>
          bindE (pick_one env t (r\<lparr>setscene_cycle := ts @ [t]\<rparr>)) (\<lambda>(p, r).
            case p of NoPick \<Rightarrow> pick_loop n env r | _ \<Rightarrow> Inr (p, r)))"

definition pick_setscene :: "rq_env \<Rightarrow> rqexe \<Rightarrow> pyerr + (pick \<times> rqexe)" where
  "pick_setscene env r =
     (if \<not> sqdone r \<and> can_start_task r then pick_loop (length (setscene_tids env)) env r
      else Inr (NoPick, r))"

text \<open>Send a task to a worker, a fakeroot worker if the task is flagged so.\<close>

definition need_fakeworker :: "rq_env \<Rightarrow> string \<Rightarrow> rqexe \<Rightarrow> pyerr + rqexe" where
  "need_fakeworker env mc r =
     (if mc \<in> set (fakeworkers r) then Inr r
      else if fakeworker_starts env mc then Inr (r\<lparr>fakeworkers := sadd mc (fakeworkers r)\<rparr>)
      else Inl OSError)"

definition record_stamp :: "rq_env \<Rightarrow> tid \<Rightarrow> string \<Rightarrow> string \<Rightarrow> rqexe \<Rightarrow> rqexe" where
  "record_stamp env task taskname taskfn r =
     (let s = stampfile env (entries r) taskname taskfn False
      in r\<lparr>build_stamps := dset task s (build_stamps r), build_stamps2 := build_stamps2 r @ [s]\<rparr>)"

definition mark_sq_live :: "tid \<Rightarrow> rqexe \<Rightarrow> rqexe" where
  "mark_sq_live task r =
     (let r = r\<lparr>sq_running := sadd task (sq_running r), sq_live := sadd task (sq_live r)\<rparr>
      in upd_stats (updateActiveSetscene (int (length (sq_live r)))) r)"

definition send_setscene :: "rq_env \<Rightarrow> tid \<Rightarrow> rqexe \<Rightarrow> pyerr + rqexe" where
  "send_setscene env task r =
     bindE (task_flags env task) (\<lambda>(name, taskfn, taskdep).
       let taskname = name @ ''_setscene'';
           r = fire (SQTaskStarted task) r
       in bindE (if flagged taskdep ''fakeroot'' taskname \<and> \<not> cfg_dry_run env
                 then need_fakeworker env (mc_from_tid task) r else Inr r) (\<lambda>r.
            Inr (mark_sq_live task (record_stamp env task taskname taskfn (fire (RunTask task True) r)))))"

text \<open>The first component says that the call returned.\<close>

definition start_setscene :: "rq_env \<Rightarrow> tid \<Rightarrow> rqexe \<Rightarrow> pyerr + (bool \<times> rqexe)" where
  "start_setscene env task r =
     bindE (taskname_from_tid task) (\<lambda>name.
     bindE (check_stamp_task env task name True r) (\<lambda>(cur, r).
     if cur then bindE (sq_task_failoutright env task r) (\<lambda>r. Inr (True, r))
     else if cfg_force env \<and> task \<in> set (target_tids env)
     then bindE (sq_task_failoutright env task r) (\<lambda>r. Inr (True, r))
     else
       bindE (check_stamp_task env task (name @ ''_setscene'') False r) (\<lambda>(cur, r).
       if cur then bindE (sq_task_skip env task r) (\<lambda>r. Inr (True, r))
       else if cfg_skipsetscene env then bindE (sq_task_failoutright env task r) (\<lambda>r. Inr (True, r))
       else bindE (send_setscene env task r) (\<lambda>r. Inr (can_start_task r, r)))))"

section \<open>execute: tasks\<close>

definition check_setscene_ignore_tasks :: "rq_env \<Rightarrow> tid \<Rightarrow> rqexe \<Rightarrow> pyerr + (bool \<times> rqexe)" where
  "check_setscene_ignore_tasks env tid r =
     bindE (split_tid_mcfn tid) (\<lambda>(mc, fn, taskname, taskfn).
     if tid \<in> set (tasks_covered r) then Inr (False, r)
     else
       bindE (check_stamp_task env tid taskname False r) (\<lambda>(cur, r).
       if cur then Inr (False, r)
       else
         bindE (task_flags env tid) (\<lambda>(taskname, taskfn, taskdep).
         if flagged taskdep ''noexec'' taskname then Inr (False, r)
         else bindE (task_pn env tid) (\<lambda>pn.
                Inr (\<not> check_setscene_enforce_ignore_tasks env pn taskname (ignore_tasks env), r)))))"

definition run_noexec :: "rq_env \<Rightarrow> tid \<Rightarrow> string \<Rightarrow> string \<Rightarrow> rqexe \<Rightarrow> pyerr + rqexe" where
  "run_noexec env task taskname taskfn r =
     (let r = fire (TaskStarted task True) r;
          r = upd_stats taskActive (r\<lparr>runq_running := sadd task (runq_running r)\<rparr>);
          r = (if cfg_dry_run env \<or> setscene_enforce env then r else make_stamp_mcfn env taskname taskfn r)
      in task_complete env task r)"

definition mark_running :: "tid \<Rightarrow> rqexe \<Rightarrow> rqexe" where
  "mark_running task r = upd_stats taskActive (r\<lparr>runq_running := sadd task (runq_running r)\<rparr>)"

text \<open>A task goes to a worker.  A fakeroot worker that does not start ends the build.\<close>

definition send_task :: "rq_env \<Rightarrow> tid \<Rightarrow> string \<Rightarrow> string \<Rightarrow> task_deps \<Rightarrow> rqexe \<Rightarrow> bool \<times> rqexe" where
  "send_task env task taskname taskfn taskdep r =
     (let r = fire (TaskStarted task False) r
      in case (if flagged taskdep ''fakeroot'' taskname \<and> \<not> (cfg_dry_run env \<or> setscene_enforce env)
               then need_fakeworker env (mc_from_tid task) r else Inr r) of
           Inl _ \<Rightarrow> (True, upd_stats taskFailed (r\<lparr>rq_state := runQueueFailed\<rparr>))
         | Inr r \<Rightarrow>
             (let r = mark_running task (record_stamp env task taskname taskfn (fire (RunTask task False) r))
              in (can_start_task r, r)))"

definition run_task :: "rq_env \<Rightarrow> tid \<Rightarrow> rqexe \<Rightarrow> pyerr + (bool \<times> rqexe)" where
  "run_task env task r =
     (if task \<in> set (tasks_covered r)
      then bindE (task_skip env task ''covered'' r) (\<lambda>r. Inr (True, r))
      else
        bindE (taskname_from_tid task) (\<lambda>name.
        bindE (check_stamp_task env task name False r) (\<lambda>(cur, r).
        if cur then
          bindE (task_skip env task ''existing'' r) (\<lambda>r.
            Inr (True, r\<lparr>runq_tasksrun := sadd task (runq_tasksrun r)\<rparr>))
        else
          bindE (task_flags env task) (\<lambda>(taskname, taskfn, taskdep).
          if flagged taskdep ''noexec'' taskname
          then bindE (run_noexec env task taskname taskfn r) (\<lambda>r. Inr (True, r))
          else Inr (send_task env task taskname taskfn taskdep r)))))"

definition start_task :: "rq_env \<Rightarrow> tid \<Rightarrow> rqexe \<Rightarrow> pyerr + (bool \<times> rqexe)" where
  "start_task env task r =
     bindE (if ignore_tasks env = None then Inr (False, r) else check_setscene_ignore_tasks env task r) (\<lambda>(ign, r).
       if ign then bindE (task_fail env task r) (\<lambda>r. Inr (True, r)) else run_task env task r)"

section \<open>execute\<close>

text \<open>When the setscene tasks are done: the first component says that the call returned.\<close>

definition sq_finished :: "rq_env \<Rightarrow> rqexe \<Rightarrow> bool \<times> rqexe" where
  "sq_finished env r =
     (if sq_live r = [] \<and> \<not> sqdone r \<and> sq_deferred r = [] \<and> updated_taskhash_queue r = [] \<and>
         holdoff_tasks r = [] then
        (case summarise_scenequeue_errors env r of (err, r) \<Rightarrow>
           if err then (True, r\<lparr>rq_state := runQueueFailed\<rparr>)
           else if cfg_setsceneonly env then (True, r\<lparr>rq_state := runQueueComplete\<rparr>)
           else
             (let r = r\<lparr>sqdone := True\<rparr>
              in if st_total (rq_stats r) = 0 then (True, r\<lparr>rq_state := runQueueComplete\<rparr>) else (False, r)))
      else (False, r))"

definition never_ran :: "rqexe \<Rightarrow> bool" where
  "never_ran r \<longleftrightarrow>
     (\<exists>(task, e) \<in> set (entries r). task \<notin> set (runq_buildable r) \<or> task \<notin> set (runq_running r) \<or>
        task \<notin> set (runq_complete r))"

text \<open>
  The end of the function, when nothing was started.  The result says whether \<open>execute\<close> waits
  for worker messages.
\<close>

definition execute_idle :: "rq_env \<Rightarrow> rqexe \<Rightarrow> bool \<times> rqexe" where
  "execute_idle env r =
     (if st_active (rq_stats r) > 0 \<or> sq_live r \<noteq> [] then (True, r)
      else if sq_deferred r \<noteq> [] then (False, r\<lparr>sq_deferred := tl (sq_deferred r)\<rparr>)
      else if failed_tids r \<noteq> [] then (False, r\<lparr>rq_state := runQueueFailed\<rparr>)
      else
        (case summarise_scenequeue_errors env r of (err, r) \<Rightarrow>
           (False, r\<lparr>rq_state := (if err \<or> never_ran r then runQueueFailed else runQueueComplete)\<rparr>)))"

definition execute_tasks :: "rq_env \<Rightarrow> bool \<Rightarrow> rqexe \<Rightarrow> pyerr + (bool \<times> rqexe)" where
  "execute_tasks env pressure r =
     bindE (update_holdofftasks env r) (\<lambda>r.
     case sq_finished env r of (ret, r) \<Rightarrow>
     if ret then Inr (False, r)
     else
       bindE (if cfg_setsceneonly env then Inr (r, None) else sched_next env pressure r) (\<lambda>(r, task).
       case task of
         None \<Rightarrow> Inr (execute_idle env r)
       | Some t \<Rightarrow>
           bindE (start_task env t r) (\<lambda>(ret, r). if ret then Inr (False, r) else Inr (execute_idle env r))))"

definition execute :: "rq_env \<Rightarrow> bool \<Rightarrow> rqexe \<Rightarrow> pyerr + (bool \<times> rqexe)" where
  "execute env pressure r =
     bindE (if updated_taskhash_queue r \<noteq> [] \<or> pending_migrations r \<noteq> []
            then process_possible_migrations env r else Inr r) (\<lambda>r.
     bindE (pick_setscene env r) (\<lambda>(p, r).
     case p of
       Returned \<Rightarrow> Inr (False, r)
     | NoPick \<Rightarrow> execute_tasks env pressure r
     | Picked t \<Rightarrow>
         bindE (start_setscene env t r) (\<lambda>(ret, r).
           if ret then Inr (False, r) else execute_tasks env pressure r)))"

section \<open>The constructor\<close>

definition sched_init :: "rq_env \<Rightarrow> entries \<Rightarrow> prio_map \<Rightarrow> pyerr + sched" where
  "sched_init env es pm =
     bindE (foldE (\<lambda>tid d. bindE (split_tid_mcfn tid) (\<lambda>(mc, fn, taskname, taskfn).
              Inr (dset tid (stampfile env es taskname taskfn False) d))) (dkeys es) []) (\<lambda>stamps.
       Inr \<lparr>s_prio_map = pm, s_buildable = [], s_skip_maxthread = [], s_stamps = stamps,
            s_rev_prio_map = []\<rparr>)"

definition make_sched :: "rq_env \<Rightarrow> entries \<Rightarrow> string \<Rightarrow> pyerr + sched" where
  "make_sched env es name =
     (if name = ''basic'' then sched_init env es (basic_prio_map es)
      else if name = ''speed'' then sched_init env es (Order (speed_prio_map es))
      else if name = ''completion''
      then bindE (sched_init env es (Order [])) (\<lambda>s.
             bindE (completion_prio_map es) (\<lambda>pm. Inr (s\<lparr>s_prio_map := Order pm\<rparr>)))
      else Inl (Fatal ''Invalid scheduler''))"

definition rqexe_fields :: "rq_env \<Rightarrow> entries \<Rightarrow> int \<Rightarrow> sched \<Rightarrow> (string \<Rightarrow> int option) \<Rightarrow> rqexe" where
  "rqexe_fields env es n sc files =
     \<lparr>entries = es, number_tasks = n, sq_buildable = [], sq_running = [], sq_live = [],
      updated_taskhash_queue = [], pending_migrations = [], runq_buildable = [], runq_running = [],
      runq_complete = [], runq_tasksrun = [], build_stamps = [], build_stamps2 = [], failed_tids = [],
      sq_deferred = [], sq_needed_harddeps = [], sq_harddep_deferred = [], stampcache = [],
      holdoff_tasks = [], holdoff_need_update = True, sqdone = False,
      rq_stats = RunQueueStats (int (length es)) (int (length (setscene_tids env))),
      scenequeue_covered = [], tasks_covered = [], tasks_scenequeue_done = [],
      scenequeue_notcovered = [], tasks_notcovered = [], scenequeue_notneeded = [],
      sched = sc, sqd = SQData, rq_state = runQueueSceneInit, setscene_cycle = setscene_tids env,
      fakeworkers = [], fs = files, events = []\<rparr>"

definition RunQueueExecute ::
  "rq_env \<Rightarrow> getvar \<Rightarrow> entries \<Rightarrow> (string \<Rightarrow> int option) \<Rightarrow> pyerr + rqexe" where
  "RunQueueExecute env d es files =
     (let threads = d ''BB_NUMBER_THREADS''; name = d ''BB_SCHEDULER''
      in bindE (if truthy threads then py_int (the threads) else Inr 1) (\<lambda>n.
         if n \<le> 0 then Inl (Fatal ''Invalid BB_NUMBER_THREADS'')
         else
           bindE (make_sched env es (if truthy name then the name else ''speed'')) (\<lambda>sc.
           bindE (build_scenequeue_data env (rqexe_fields env es n sc files)) (\<lambda>r.
             update_scenequeue_data env (dkeys (sq_revdeps (sqd r))) True r))))"

text \<open>Without setscene tasks the scene queue is left out.\<close>

definition start_running :: "rq_env \<Rightarrow> rqexe \<Rightarrow> rqexe" where
  "start_running env r =
     (let r = (if setscene_tids env \<noteq> [] then r
               else (fold (\<lambda>(tid, e) r.
                       let r = (if depends e = [] then setbuildable tid r else r)
                       in r\<lparr>tasks_notcovered := sadd tid (tasks_notcovered r)\<rparr>) (entries r) r)\<lparr>sqdone := True\<rparr>)
      in r\<lparr>rq_state := runQueueRunning\<rparr>)"

text \<open>One call of the main loop, once the queue is set up.\<close>

definition execute_runqueue :: "rq_env \<Rightarrow> bool \<Rightarrow> rqexe \<Rightarrow> pyerr + (bool \<times> rqexe)" where
  "execute_runqueue env pressure r =
     bindE (if rq_state r = runQueueRunning then execute env pressure r else Inr (False, r)) (\<lambda>(w, r).
       Inr (if rq_state r = runQueueCleanUp then (False, finish r) else (w, r)))"

end
