(* ===== verification/Prepare.thy ===== *)
theory Prepare
  imports RunQueueState
begin

text \<open>
  \<open>RunQueueData.prepare\<close> of \<open>poky/bitbake/lib/bb/runqueue.py\<close>: from the task data to the tasks
  of the build.  Step A collects the dependencies of every task, part B the recursive ones, step B
  marks what the targets need, step C prunes the rest, step D checks and weighs
  the graph (\<open>weigh_tasks\<close>) and computes the hashes.
\<close>

section \<open>State\<close>

record prep_env =
  pe_caches :: "(string, cache) dict"
  pe_targets :: "(string \<times> string \<times> string \<times> string) list"
  pe_runall :: "string list"
  pe_runonly :: "string list"
  pe_force :: bool
  pe_nosetscene :: bool
  pe_invalidate_stamp :: "string option"
  pe_multi_provider_allowed :: "string list"
  pe_get_taskhash :: "entries \<Rightarrow> tid \<Rightarrow> tid list \<Rightarrow> string"
  pe_get_unihashes :: "entries \<Rightarrow> tid list \<Rightarrow> (tid, string) dict"
  pe_limit :: nat
  pe_rounds :: nat

record prep =
  runtaskentries :: entries
  taskData :: "(string, taskdata) dict"
  recursivetasks :: "(tid, string list) dict"
  recursiveitasks :: "(tid, tid list) dict"
  recursivetasksselfref :: "tid list"
  runq_build :: "tid list"
  prep_targets :: "tid list"
  invalidated :: "(string \<times> string) list"
  runq_setscene_tids :: "tid list"

definition prep_init :: "(string, taskdata) dict \<Rightarrow> prep" where
  "prep_init tds =
     \<lparr>runtaskentries = [], taskData = tds, recursivetasks = [], recursiveitasks = [],
      recursivetasksselfref = [], runq_build = [], prep_targets = [], invalidated = [],
      runq_setscene_tids = []\<rparr>"

section \<open>Step A\<close>

text \<open>
  The tasks \<open>names\<close> of the first provider of every name; a name without providers is
  assumed provided.
\<close>

definition provider_tasks ::
  "(tid, task_entry) dict \<Rightarrow> (string, string list) dict \<Rightarrow> string list \<Rightarrow> string list \<Rightarrow> tid list \<Rightarrow> tid list" where
  "provider_tasks tes targets depnames names acc =
     fold (\<lambda>depname acc.
         case dgetd targets depname [] of
           [] \<Rightarrow> acc
         | depdata # _ \<Rightarrow>
             fold (\<lambda>name acc. let t = depdata @ '':'' @ name in if din t tes then sadd t acc else acc)
               names acc)
       depnames acc"

definition add_build_dependencies :: "taskdata \<Rightarrow> string list \<Rightarrow> string list \<Rightarrow> tid list \<Rightarrow> tid list" where
  "add_build_dependencies td = provider_tasks (taskentries td) (build_targets td)"

definition add_runtime_dependencies :: "taskdata \<Rightarrow> string list \<Rightarrow> string list \<Rightarrow> tid list \<Rightarrow> tid list" where
  "add_runtime_dependencies td = provider_tasks (taskentries td) (run_targets td)"

definition add_tdepend :: "tid \<Rightarrow> tid \<Rightarrow> taskdata \<Rightarrow> pyerr + taskdata" where
  "add_tdepend tid newdep td =
     bindE (dget (taskentries td) tid) (\<lambda>te.
       Inr (td\<lparr>taskentries := dset tid (te\<lparr>tdepends := tdepends te @ [newdep]\<rparr>) (taskentries td)\<rparr>))"

text \<open>A multiconfig dependency \<open>mc:from:to:name:task\<close> of any task of the configuration.\<close>

definition add_mc_dependency ::
  "string \<Rightarrow> tid \<Rightarrow> string \<Rightarrow> (string, taskdata) dict \<Rightarrow> pyerr + (string, taskdata) dict" where
  "add_mc_dependency mc tid dep tds =
     (case split_on (CHR '':'') dep of
        [_, frommc, mcdep, pn, deptask] \<Rightarrow>
          if \<not> din mcdep tds then Inl (Fatal ''multiconfig not enabled'')
          else if mc = frommc then
            bindE (dget tds mcdep) (\<lambda>td.
            bindE (dget (build_targets td) pn) (\<lambda>fns.
              case fns of
                [] \<Rightarrow> Inl IndexError
              | fn # _ \<Rightarrow>
                  bindE (dget tds mc) (\<lambda>td.
                  bindE (add_tdepend tid (fn @ '':'' @ deptask) td) (\<lambda>td. Inr (dset mc td tds)))))
          else Inr tds
      | _ \<Rightarrow> Inl IndexError)"

definition add_mc_dependencies :: "string \<Rightarrow> tid \<Rightarrow> (string, taskdata) dict \<Rightarrow> pyerr + (string, taskdata) dict" where
  "add_mc_dependencies mc tid tds =
     bindE (dget tds mc) (\<lambda>td. foldE (add_mc_dependency mc tid) (mcdepends td) tds)"

definition tdepend_tid :: "tid \<Rightarrow> tid list \<Rightarrow> pyerr + tid list" where
  "tdepend_tid t acc =
     bindE (split_tid_mcfn t) (\<lambda>(depmc, depfn, deptaskname, _). Inr (sadd (build_tid depmc depfn deptaskname) acc))"

definition idepend_tid :: "taskdata \<Rightarrow> string \<times> string \<Rightarrow> tid list \<Rightarrow> pyerr + tid list" where
  "idepend_tid td = (\<lambda>(depname, idependtask) acc.
     case dgetd (build_targets td) depname [] of
       [] \<Rightarrow> Inr acc
     | depdata # _ \<Rightarrow>
         if depname \<in> set (failed_deps td) then Inr acc
         else (let t = depdata @ '':'' @ idependtask
               in if din t (taskentries td) then Inr (sadd t acc) else Inl (Fatal ''non-existent task'')))"

definition irdepend_tid :: "taskdata \<Rightarrow> string \<times> string \<Rightarrow> tid list \<Rightarrow> pyerr + tid list" where
  "irdepend_tid td = (\<lambda>(depname, idependtask) acc.
     case dgetd (run_targets td) depname [] of
       [] \<Rightarrow> Inr acc
     | depdata # _ \<Rightarrow>
         (let t = depdata @ '':'' @ idependtask
          in if din t (taskentries td) then Inr (sadd t acc) else Inl (Fatal ''non-existent task'')))"

text \<open>A flag such as \<open>deptask\<close> that names tasks of the recipe's dependencies.\<close>

definition flag_deps ::
  "task_deps \<Rightarrow> string \<Rightarrow> string \<Rightarrow> pyerr + string list \<Rightarrow>
   (string list \<Rightarrow> string list \<Rightarrow> tid list \<Rightarrow> tid list) \<Rightarrow> tid list \<Rightarrow> pyerr + tid list" where
  "flag_deps task_deps flag taskname ids add acc =
     (case flag_value task_deps flag taskname of
        None \<Rightarrow> Inr acc
      | Some v \<Rightarrow> bindE ids (\<lambda>ids. Inr (add ids (words v) acc)))"

definition recrdeptask_a ::
  "task_deps \<Rightarrow> taskdata \<Rightarrow> tid \<Rightarrow> string \<Rightarrow> string \<Rightarrow> string \<Rightarrow> string \<Rightarrow> tid list \<times> prep \<Rightarrow> pyerr + (tid list \<times> prep)" where
  "recrdeptask_a task_deps td tid mc fn taskname taskfn = (\<lambda>(acc, s).
     case flag_value task_deps ''recrdeptask'' taskname of
       None \<Rightarrow> Inr (acc, s)
     | Some v \<Rightarrow>
         bindE (dget (depids td) taskfn) (\<lambda>dids.
         bindE (dget (rdepids td) taskfn) (\<lambda>rids.
           let tasknames = words v;
               acc = add_runtime_dependencies td rids tasknames (add_build_dependencies td dids tasknames acc);
               s = s\<lparr>recursivetasks := dset tid tasknames (recursivetasks s),
                     recursivetasksselfref := (if taskname \<in> set tasknames then sadd tid (recursivetasksselfref s)
                                               else recursivetasksselfref s)\<rparr>
           in case flag_value task_deps ''recideptask'' taskname of
                None \<Rightarrow> Inr (acc, s)
              | Some w \<Rightarrow>
                  Inr (acc, s\<lparr>recursiveitasks := dset tid (map (build_tid mc fn) (words w)) (recursiveitasks s)\<rparr>))))"

definition task_depends ::
  "task_deps \<Rightarrow> taskdata \<Rightarrow> tid \<Rightarrow> string \<Rightarrow> string \<Rightarrow> string \<Rightarrow> string \<Rightarrow> prep \<Rightarrow> pyerr + (tid list \<times> prep)" where
  "task_depends task_deps td tid mc fn taskname taskfn s =
     bindE (dget (taskentries td) tid) (\<lambda>te.
     bindE (foldE tdepend_tid (tdepends te) []) (\<lambda>acc.
     bindE (flag_deps task_deps ''deptask'' taskname (dget (depids td) taskfn) (add_build_dependencies td) acc) (\<lambda>acc.
     bindE (flag_deps task_deps ''rdeptask'' taskname (dget (rdepids td) taskfn) (add_runtime_dependencies td) acc) (\<lambda>acc.
     bindE (foldE (idepend_tid td) (idepends te) acc) (\<lambda>acc.
     bindE (foldE (irdepend_tid td) (irdepends te) acc) (\<lambda>acc.
       recrdeptask_a task_deps td tid mc fn taskname taskfn (acc, s)))))))"

definition step_a_task :: "prep_env \<Rightarrow> tid \<Rightarrow> prep \<Rightarrow> pyerr + prep" where
  "step_a_task env tid s =
     bindE (split_tid_mcfn tid) (\<lambda>(mc, fn, taskname, taskfn).
     bindE (dget (pe_caches env) mc) (\<lambda>c.
     bindE (dget (task_deps_of c) taskfn) (\<lambda>task_deps.
     bindE (dget (taskData s) mc) (\<lambda>td.
       let s = s\<lparr>runtaskentries := dset tid RunTaskEntry (runtaskentries s)\<rparr>
       in if fn \<in> set (failed_fns td) then Inr s
          else
            bindE (if flagged task_deps ''mcdepends'' taskname
                   then add_mc_dependencies mc tid (taskData s) else Inr (taskData s)) (\<lambda>tds.
            bindE (dget tds mc) (\<lambda>td.
            bindE (task_depends task_deps td tid mc fn taskname taskfn (s\<lparr>taskData := tds\<rparr>)) (\<lambda>(ds, s).
              Inr (s\<lparr>runtaskentries :=
                     dset tid (RunTaskEntry\<lparr>depends := sremove tid ds\<rparr>) (runtaskentries s)\<rparr>))))))))"

definition step_a :: "prep_env \<Rightarrow> prep \<Rightarrow> pyerr + prep" where
  "step_a env s =
     foldE (\<lambda>mc s. bindE (dget (taskData s) mc) (\<lambda>td. foldE (step_a_task env) (dkeys (taskentries td)) s))
       (dkeys (taskData s)) s"

section \<open>Part B: recursive dependencies\<close>

text \<open>
  The files below every task.  The first component of the state holds the dependencies not
  handled yet, the second the files.
\<close>

definition reverse_of :: "entries \<Rightarrow> pyerr + (tid, tid list) dict" where
  "reverse_of es =
     foldE (\<lambda>(tid, e) d.
         foldE (\<lambda>dep d. bindE (dget d dep) (\<lambda>ts. Inr (dset dep (sadd tid ts) d))) (depends e) d)
       es (map (\<lambda>(tid, _). (tid, [])) es)"

definition cumulate_dep ::
  "tid \<Rightarrow> tid \<Rightarrow> (tid, tid list) dict \<times> (tid, string list) dict \<times> tid list \<Rightarrow>
   pyerr + ((tid, tid list) dict \<times> (tid, string list) dict \<times> tid list)" where
  "cumulate_dep tid dep = (\<lambda>(ds, cum, nxt).
     bindE (dget cum tid) (\<lambda>below.
     bindE (dget cum dep) (\<lambda>fns.
     bindE (dget ds dep) (\<lambda>left.
       let left = sremove tid left
       in Inr (dset dep left ds, dset dep (sunion (sadd (fn_from_tid tid) fns) below) cum,
               if left = [] then sadd dep nxt else nxt)))))"

definition cumulate_point ::
  "(tid, tid list) dict \<Rightarrow> tid \<Rightarrow> (tid, tid list) dict \<times> (tid, string list) dict \<times> tid list \<Rightarrow>
   pyerr + ((tid, tid list) dict \<times> (tid, string list) dict \<times> tid list)" where
  "cumulate_point revs tid s = bindE (dget revs tid) (\<lambda>rs. foldE (cumulate_dep tid) rs s)"

fun cumulate_loop ::
  "nat \<Rightarrow> (tid, tid list) dict \<Rightarrow> tid list \<Rightarrow> (tid, tid list) dict \<Rightarrow> (tid, string list) dict \<Rightarrow>
   pyerr + (tid, string list) dict" where
  "cumulate_loop 0 revs endpoints ds cum = Inl Diverges"
| "cumulate_loop (Suc n) revs endpoints ds cum =
     (if endpoints = [] then Inr cum
      else bindE (foldE (cumulate_point revs) endpoints (ds, cum, [])) (\<lambda>(ds, cum, nxt).
             cumulate_loop n revs nxt ds cum))"

definition cumulativedeps :: "nat \<Rightarrow> entries \<Rightarrow> pyerr + (tid, string list) dict" where
  "cumulativedeps n es =
     bindE (reverse_of es) (\<lambda>revs.
       cumulate_loop n revs (map fst (filter (\<lambda>(t, e). depends e = []) es))
         (map (\<lambda>(t, e). (t, depends e)) es) (map (\<lambda>(t, e). (t, [])) es))"

text \<open>Add the named tasks of the files below, counting the new dependencies.\<close>

definition add_rec_dep :: "tid \<Rightarrow> tid \<Rightarrow> nat \<times> entries \<Rightarrow> pyerr + (nat \<times> entries)" where
  "add_rec_dep tid newtid = (\<lambda>(extra, es).
     if newtid = tid then Inr (extra, es)
     else bindE (dget es tid) (\<lambda>e.
            if din newtid es \<and> newtid \<notin> set (depends e)
            then Inr (extra + 1, dset tid (e\<lparr>depends := sadd newtid (depends e)\<rparr>) es)
            else Inr (extra, es)))"

definition add_rec_rec_dep :: "tid \<Rightarrow> string list \<Rightarrow> tid \<Rightarrow> nat \<times> entries \<Rightarrow> pyerr + (nat \<times> entries)" where
  "add_rec_rec_dep tid tasknames newtid s =
     foldE (\<lambda>taskname (extra, es).
       if \<not> endswith newtid ('':'' @ taskname) then Inr (extra, es)
       else if \<not> din newtid es then Inr (extra, es)
       else bindE (dget es tid) (\<lambda>e.
              Inr (extra + 1, dset tid (e\<lparr>depends := sadd newtid (depends e)\<rparr>) es))) tasknames s"

definition rec_totaldeps :: "prep \<Rightarrow> tid \<Rightarrow> entries \<Rightarrow> pyerr + tid list" where
  "rec_totaldeps s tid es =
     bindE (dget es tid) (\<lambda>e.
       Inr (case map_of (recursiveitasks s) tid of
              None \<Rightarrow> depends e
            | Some its \<Rightarrow>
                fold (\<lambda>dep acc. sunion acc (deps_of es dep)) its (sunion (depends e) its)))"

definition rec_task ::
  "prep \<Rightarrow> (tid, string list) dict \<Rightarrow> tid \<times> string list \<Rightarrow> nat \<times> entries \<Rightarrow> pyerr + (nat \<times> entries)" where
  "rec_task s cum = (\<lambda>(tid, tasknames) (extra, es).
     bindE (rec_totaldeps s tid es) (\<lambda>totaldeps.
       let fns = fold (\<lambda>dep acc. sunion acc (dgetd cum dep [])) totaldeps []
       in bindE (foldE (\<lambda>t. foldE (\<lambda>taskname. add_rec_dep tid (t @ '':'' @ taskname)) tasknames) fns
                   (extra, es)) (\<lambda>(extra, es).
          bindE (dget es tid) (\<lambda>e.
            let newdeps = fold (\<lambda>dep acc. sunion acc (sdiff (deps_of es dep) (depends e)))
                            (sinter (depends e) (dkeys (recursivetasks s))) []
            in foldE (add_rec_rec_dep tid tasknames) newdeps (extra, es)))))"

fun rec_loop :: "nat \<Rightarrow> prep \<Rightarrow> (tid, string list) dict \<Rightarrow> entries \<Rightarrow> pyerr + entries" where
  "rec_loop 0 s cum es = Inl Diverges"
| "rec_loop (Suc n) s cum es =
     bindE (foldE (rec_task s cum) (recursivetasks s) (0, es)) (\<lambda>(extra, es).
       if extra = 0 then Inr es else rec_loop n s cum es)"

definition drop_selfref :: "tid list \<Rightarrow> tid \<Rightarrow> entries \<Rightarrow> pyerr + entries" where
  "drop_selfref selfref tid es =
     bindE (dget es tid) (\<lambda>e. Inr (dset tid (e\<lparr>depends := sdiff (depends e) selfref\<rparr>) es))"

definition part_b :: "prep_env \<Rightarrow> prep \<Rightarrow> pyerr + prep" where
  "part_b env s =
     bindE (cumulativedeps (pe_rounds env) (runtaskentries s)) (\<lambda>cum.
     bindE (rec_loop (pe_rounds env) s cum (runtaskentries s)) (\<lambda>es.
     bindE (foldE (drop_selfref (recursivetasksselfref s)) (recursivetasksselfref s) es) (\<lambda>es.
       Inr (s\<lparr>runtaskentries := es\<rparr>))))"

section \<open>Step B: active tasks\<close>

fun mark_active :: "nat \<Rightarrow> entries \<Rightarrow> tid \<Rightarrow> tid list \<Rightarrow> pyerr + tid list" where
  "mark_active 0 es tid build = Inl RecursionError"
| "mark_active (Suc n) es tid build =
     (if tid \<in> set build then Inr build
      else bindE (dget es tid) (\<lambda>e. foldE (mark_active n es) (depends e) (build @ [tid])))"

definition mark_tid :: "prep_env \<Rightarrow> tid \<Rightarrow> prep \<Rightarrow> pyerr + prep" where
  "mark_tid env tid s =
     bindE (mark_active (pe_limit env) (runtaskentries s) tid (runq_build s)) (\<lambda>b. Inr (s\<lparr>runq_build := b\<rparr>))"

definition invalidate_task :: "prep_env \<Rightarrow> bool \<Rightarrow> tid \<Rightarrow> prep \<Rightarrow> pyerr + prep" where
  "invalidate_task env error_nostamp tid s =
     bindE (split_tid_mcfn tid) (\<lambda>(mc, fn, taskname, taskfn).
     bindE (dget (pe_caches env) mc) (\<lambda>c.
     bindE (dget (task_deps_of c) taskfn) (\<lambda>taskdep.
     bindE (dget (taskData s) mc) (\<lambda>_.
       if flagged taskdep ''nostamp'' taskname
       then (if error_nostamp then Inl (Fatal ''nostamp task'') else Inr s)
       else Inr (s\<lparr>invalidated := invalidated s @ [(taskname, taskfn)]\<rparr>)))))"

definition mark_target :: "prep_env \<Rightarrow> string \<times> string \<times> string \<times> string \<Rightarrow> prep \<Rightarrow> pyerr + prep" where
  "mark_target env = (\<lambda>(mc, target, task, fn) s.
     bindE (dget (taskData s) mc) (\<lambda>td.
     if dgetd (build_targets td) target [] = [] \<or> target \<in> set (failed_deps td) then Inr s
     else
       (let parents = endswith task ''-''; task = (if parents then butlast task else task)
        in if fn \<in> set (failed_fns td) then Inr s
           else
             (let tid = fn @ '':'' @ task; s = s\<lparr>prep_targets := prep_targets s @ [tid]\<rparr>
              in if \<not> din tid (taskentries td) then Inl (Fatal ''task does not exist'')
                 else if parents
                 then bindE (dget (runtaskentries s) tid) (\<lambda>e. foldE (mark_tid env) (depends e) s)
                 else mark_tid env tid s))))"

definition step_b :: "prep_env \<Rightarrow> prep \<Rightarrow> pyerr + prep" where
  "step_b env s = foldE (mark_target env) (pe_targets env) s"

section \<open>Step C: pruning\<close>

definition prune :: "prep \<Rightarrow> prep" where
  "prune s = s\<lparr>runtaskentries := filter (\<lambda>(t, e). t \<in> set (runq_build s)) (runtaskentries s)\<rparr>"

definition do_name :: "string \<Rightarrow> string" where
  "do_name task = (if startswith task ''do_'' then task else ''do_'' @ task)"

definition mark_forced :: "prep_env \<Rightarrow> bool \<Rightarrow> tid \<Rightarrow> prep \<Rightarrow> pyerr + prep" where
  "mark_forced env is_target tid s =
     bindE (mark_tid env tid s) (\<lambda>s.
       let s = (if is_target then s\<lparr>prep_targets := prep_targets s @ [tid]\<rparr> else s)
       in if pe_force env then invalidate_task env False tid s else Inr s)"

definition runall_task :: "prep_env \<Rightarrow> tid list \<Rightarrow> string \<Rightarrow> tid list \<times> prep \<Rightarrow> pyerr + (tid list \<times> prep)" where
  "runall_task env reduced task = (\<lambda>(tids, s).
     let want = filter (\<lambda>t. din t (runtaskentries s)) (map (\<lambda>tid. fn_from_tid tid @ '':'' @ do_name task) reduced);
         tids = fold sadd want tids
     in bindE (foldE (mark_forced env True) tids s) (\<lambda>s. Inr (tids, s)))"

fun runall_loop :: "nat \<Rightarrow> prep_env \<Rightarrow> tid list \<Rightarrow> prep \<Rightarrow> pyerr + prep" where
  "runall_loop 0 env orig s = Inl Diverges"
| "runall_loop (Suc n) env orig s =
     (let reduced = filter (\<lambda>t. t \<in> set (runq_build s)) (dkeys (runtaskentries s))
      in bindE (foldE (runall_task env reduced) (pe_runall env) ([], s\<lparr>runq_build := []\<rparr>)) (\<lambda>(tids, s).
           if sdiff tids orig = [] then Inr s else runall_loop n env tids s))"

definition runonly_task :: "prep_env \<Rightarrow> string \<Rightarrow> prep \<Rightarrow> pyerr + prep" where
  "runonly_task env task s =
     bindE (mapE (\<lambda>k. bindE (taskname_from_tid k) (\<lambda>n. Inr (k, n))) (dkeys (runtaskentries s))) (\<lambda>names.
       foldE (mark_forced env False) (map fst (filter (\<lambda>(k, n). n = do_name task) names)) s)"

definition step_c :: "prep_env \<Rightarrow> prep \<Rightarrow> pyerr + prep" where
  "step_c env s =
     bindE (if pe_runall env = [] then Inr s else runall_loop (pe_rounds env) env [] s) (\<lambda>s.
       let s = prune s
       in if pe_runall env \<noteq> [] \<and> runtaskentries s = [] then Inl (Fatal ''runall'')
          else if pe_runonly env = [] then Inr s
          else bindE (foldE (runonly_task env) (pe_runonly env) (s\<lparr>runq_build := []\<rparr>)) (\<lambda>s.
                 let s = prune s
                 in if runtaskentries s = [] then Inl (Fatal ''runonly'') else Inr s))"

section \<open>Step D\<close>

text \<open>
  Several files of the build with one provide name, not allowed to have several: fatal when two
  are versions of one recipe.
\<close>

definition prov_files :: "prep_env \<Rightarrow> string \<Rightarrow> tid \<Rightarrow> string list \<times> (string, string list) dict \<Rightarrow>
   pyerr + (string list \<times> (string, string list) dict)" where
  "prov_files env mc tid = (\<lambda>(seen_fn, prov_list).
     bindE (split_tid_mcfn tid) (\<lambda>(tidmc, fn, taskname, taskfn).
     if taskfn \<in> set seen_fn \<or> mc \<noteq> tidmc then Inr (seen_fn, prov_list)
     else
       bindE (dget (pe_caches env) mc) (\<lambda>c.
       bindE (dget (fn_provides c) taskfn) (\<lambda>provs.
         Inr (seen_fn @ [taskfn], fold (\<lambda>prov. dappend_new prov taskfn) provs prov_list)))))"

definition check_prov :: "prep_env \<Rightarrow> cache \<Rightarrow> string \<times> string list \<Rightarrow> unit \<Rightarrow> pyerr + unit" where
  "check_prov env c = (\<lambda>(prov, fns) _.
     if length fns < 2 \<or> prov \<in> set (pe_multi_provider_allowed env) then Inr ()
     else
       bindE (foldE (\<lambda>fn seen_pn. bindE (dget (pkg_fn c) fn) (\<lambda>pn.
                if pn \<in> set seen_pn then Inl (Fatal ''Multiple versions'') else Inr (seen_pn @ [pn]))) fns [])
         (\<lambda>_. Inr ()))"

definition check_providers :: "prep_env \<Rightarrow> entries \<Rightarrow> pyerr + unit" where
  "check_providers env es =
     foldE (\<lambda>(mc, c) _.
       bindE (foldE (prov_files env mc) (dkeys es) ([], [])) (\<lambda>(_, prov_list).
         foldE (check_prov env c) prov_list ())) (pe_caches env) ()"

definition find_setscene :: "prep_env \<Rightarrow> prep \<Rightarrow> pyerr + prep" where
  "find_setscene env s =
     (if pe_nosetscene env then Inr (s\<lparr>runq_setscene_tids := []\<rparr>)
      else
        bindE (foldE (\<lambda>tid acc.
            bindE (split_tid_mcfn tid) (\<lambda>(mc, fn, taskname, _).
            bindE (dget (taskData s) mc) (\<lambda>td.
              Inr (if din (tid @ ''_setscene'') (taskentries td) then sadd tid acc else acc))))
          (dkeys (runtaskentries s)) []) (\<lambda>ss. Inr (s\<lparr>runq_setscene_tids := ss\<rparr>)))"

definition invalidate_targets :: "prep_env \<Rightarrow> prep \<Rightarrow> pyerr + prep" where
  "invalidate_targets env s =
     bindE (if pe_force env then foldE (invalidate_task env False) (prep_targets s) s else Inr s) (\<lambda>s.
       if truthy (pe_invalidate_stamp env) then
         foldE (\<lambda>tid. foldE (\<lambda>st. invalidate_task env True (fn_from_tid tid @ '':'' @ do_name st))
                   (split_on (CHR '','') (the (pe_invalidate_stamp env)))) (prep_targets s) s
       else Inr s)"

text \<open>
  The hashes, in dependency order: a round hashes every task whose dependencies were dealt
  with in the rounds before.
\<close>

definition hash_task :: "prep_env \<Rightarrow> tid list \<Rightarrow> tid \<Rightarrow> tid list \<times> entries \<Rightarrow> pyerr + (tid list \<times> entries)" where
  "hash_task env dealtwith tid = (\<lambda>(rdy, es).
     bindE (dget es tid) (\<lambda>e.
       if ssubset (depends e) dealtwith
       then Inr (sadd tid rdy, dset tid (e\<lparr>hash := Some (pe_get_taskhash env es tid (depends e))\<rparr>) es)
       else Inr (rdy, es)))"

definition unihash_task :: "(tid, string) dict \<Rightarrow> tid \<Rightarrow> entries \<Rightarrow> pyerr + entries" where
  "unihash_task uni tid es =
     bindE (dget es tid) (\<lambda>e. bindE (dget uni tid) (\<lambda>u. Inr (dset tid (e\<lparr>unihash := Some u\<rparr>) es)))"

fun hash_loop :: "nat \<Rightarrow> prep_env \<Rightarrow> tid list \<Rightarrow> tid list \<Rightarrow> entries \<Rightarrow> pyerr + (tid list \<times> entries)" where
  "hash_loop 0 env todeal dealtwith es = Inl Diverges"
| "hash_loop (Suc n) env todeal dealtwith es =
     (if todeal = [] then Inr (dealtwith, es)
      else bindE (foldE (hash_task env dealtwith) todeal ([], es)) (\<lambda>(rdy, es).
           bindE (foldE (unihash_task (pe_get_unihashes env es rdy)) rdy es) (\<lambda>es.
             hash_loop n env (sdiff todeal rdy) (fold sadd rdy dealtwith) es)))"

definition step_d :: "prep_env \<Rightarrow> prep \<Rightarrow> pyerr + prep" where
  "step_d env s =
     (if runtaskentries s = [] then Inl (Fatal ''no tasks'')
      else
        bindE (weigh_tasks (runtaskentries s)) (\<lambda>(es, _).
        bindE (check_providers env es) (\<lambda>_.
        bindE (find_setscene env (s\<lparr>runtaskentries := es\<rparr>)) (\<lambda>s.
        bindE (invalidate_targets env s) (\<lambda>s.
        bindE (hash_loop (pe_rounds env) env (dkeys (runtaskentries s)) [] (runtaskentries s)) (\<lambda>(_, es).
          Inr (s\<lparr>runtaskentries := es\<rparr>)))))))"

definition prepare :: "prep_env \<Rightarrow> (string, taskdata) dict \<Rightarrow> pyerr + (nat \<times> prep)" where
  "prepare env tds =
     (if \<forall>(mc, td) \<in> set tds. taskentries td = [] then Inr (0, prep_init tds)
      else
        bindE (step_a env (prep_init tds)) (\<lambda>s.
        bindE (part_b env s) (\<lambda>s.
        bindE (step_b env s) (\<lambda>s.
        bindE (step_c env s) (\<lambda>s.
        bindE (step_d env s) (\<lambda>s. Inr (length (runtaskentries s), s)))))))"

section \<open>circular_depchains_handler\<close>

text \<open>
  The search for the loops to report, once \<open>calculate_task_weights\<close> has found tasks that
  cannot be ordered.  \<open>TooManyLoops\<close> ends it after eleven; the messages are left out.
\<close>

record chains =
  valid_chains :: "tid list list"
  explored_deps :: "(tid, tid list) dict"

datatype chain_exc = TooManyLoops | ChainError pyerr

type_synonym chains_res = "(chain_exc \<times> chains) + chains"

definition lowest_index :: "tid list \<Rightarrow> nat" where
  "lowest_index chain =
     fold (\<lambda>i lowest. if chain ! i < chain ! lowest then i else lowest) [0 ..< length chain] 0"

definition chain_reorder :: "tid list \<Rightarrow> tid list" where
  "chain_reorder chain = drop (lowest_index chain) chain @ take (lowest_index chain) chain"

definition needs_scan :: "tid \<Rightarrow> tid list \<Rightarrow> chains \<Rightarrow> bool" where
  "needs_scan revdep prev_chain s =
     (case map_of (explored_deps s) revdep of
        None \<Rightarrow> True
      | Some ds \<Rightarrow> revdep \<in> set ds \<or> (\<exists>dep \<in> set prev_chain. dep \<in> set ds))"

definition add_chain :: "tid list \<Rightarrow> chains \<Rightarrow> chains_res" where
  "add_chain chain s =
     (let s = (if chain \<in> set (valid_chains s) then s
               else s\<lparr>valid_chains := valid_chains s @ [chain]\<rparr>)
      in if length (valid_chains s) > 10 then Inl (TooManyLoops, s) else Inr s)"

definition chain_step ::
  "(tid \<Rightarrow> tid list \<Rightarrow> chains \<Rightarrow> chains_res) \<Rightarrow> tid list \<Rightarrow> tid \<Rightarrow> tid list \<times> chains \<Rightarrow>
   (chain_exc \<times> chains) + (tid list \<times> chains)" where
  "chain_step rcall prev_chain revdep = (\<lambda>(total_deps, s).
     case index_of prev_chain revdep of
       Some idx \<Rightarrow> bindE (add_chain (chain_reorder (drop idx prev_chain)) s) (\<lambda>s. Inr (total_deps, s))
     | None \<Rightarrow>
         bindE (if needs_scan revdep prev_chain s then rcall revdep prev_chain s else Inr s) (\<lambda>s.
           case map_of (explored_deps s) revdep of
             None \<Rightarrow> Inl (ChainError KeyError, s)
           | Some ds \<Rightarrow> Inr (fold sadd ds total_deps, s)))"

fun find_chains :: "nat \<Rightarrow> entries \<Rightarrow> tid \<Rightarrow> tid list \<Rightarrow> chains \<Rightarrow> chains_res" where
  "find_chains 0 es tid prev_chain s = Inl (ChainError RecursionError, s)"
| "find_chains (Suc n) es tid prev_chain s =
     (case map_of es tid of
        None \<Rightarrow> Inl (ChainError KeyError, s)
      | Some e \<Rightarrow>
          bindE (foldE (chain_step (find_chains n es) (prev_chain @ [tid])) (revdeps e) (revdeps e, s))
            (\<lambda>(total_deps, s). Inr (s\<lparr>explored_deps := dset tid total_deps (explored_deps s)\<rparr>)))"

definition circular_depchains_handler :: "nat \<Rightarrow> entries \<Rightarrow> tid list \<Rightarrow> pyerr + tid list list" where
  "circular_depchains_handler n es tasks =
     (case foldE (\<lambda>task. find_chains n es task []) tasks \<lparr>valid_chains = [], explored_deps = []\<rparr> of
        Inr s \<Rightarrow> Inr (valid_chains s)
      | Inl (TooManyLoops, s) \<Rightarrow> Inr (valid_chains s)
      | Inl (ChainError e, s) \<Rightarrow> Inl e)"

end
