(* ===== verification/RunInvariants.thy ===== *)
theory RunInvariants
  imports Execute
begin

text \<open>
  Invariants of a running build.  \<open>rq_reach\<close> is the set of states the executor can be in:
  after the constructor, calls of the main loop, worker results, changes of the file system
  and new hashes follow in any order, with any configuration and any answers of the parts
  outside the model.  The scene queue operations leave the tasks proper alone (\<open>core\<close>), so the
  invariants of the tasks are about the few operations that start and complete them.
\<close>

section \<open>What the scene queue leaves alone\<close>

named_theorems core_intros "operations that keep the core"

fun task_event :: "rq_event \<Rightarrow> bool" where
  "task_event (RunTask t s) \<longleftrightarrow> \<not> s"
| "task_event (TaskStarted t b) \<longleftrightarrow> True"
| "task_event (TaskSkipped t s) \<longleftrightarrow> True"
| "task_event (TaskCompleted t) \<longleftrightarrow> True"
| "task_event (TaskFailed t) \<longleftrightarrow> True"
| "task_event e \<longleftrightarrow> False"

text \<open>Tasks sent to a worker that has not answered yet.\<close>

fun flight_step :: "rq_event \<Rightarrow> tid set \<Rightarrow> tid set" where
  "flight_step (RunTask t s) F = (if s then F else insert t F)"
| "flight_step (TaskCompleted t) F = F - {t}"
| "flight_step (TaskFailed t) F = F - {t}"
| "flight_step e F = F"

definition inflight :: "rqexe \<Rightarrow> tid set" where
  "inflight r = fold flight_step (events r) {}"

lemma flight_filter: "fold flight_step (filter task_event es) F = fold flight_step es F"
proof (induction es arbitrary: F)
  case (Cons e es)
  then show ?case by (cases e) auto
qed simp

lemma inflight_cong:
  "filter task_event (events r') = filter task_event (events r) \<Longrightarrow> inflight r' = inflight r"
  unfolding inflight_def by (metis flight_filter)

lemma finite_inflight [simp]: "finite (inflight r)"
proof -
  have "finite F \<Longrightarrow> finite (fold flight_step es F)" for es F
  proof (induction es arbitrary: F)
    case (Cons e es)
    then show ?case by (cases e) auto
  qed simp
  then show ?thesis by (simp add: inflight_def)
qed

lemma inflight_fire [simp]: "inflight (fire e r) = flight_step e (inflight r)"
  by (simp add: inflight_def fire_def)

definition core where
  "core r = (dkeys (entries r), deps_of (entries r), revs_of (entries r), number_tasks r,
     runq_buildable r, runq_running r, runq_complete r, sq_live r, s_buildable (sched r),
     (st_active (rq_stats r), st_completed (rq_stats r), st_failed (rq_stats r), st_total (rq_stats r)),
     filter task_event (events r))"

lemma core_eq:
  "core r' = core r \<longleftrightarrow>
     dkeys (entries r') = dkeys (entries r) \<and> deps_of (entries r') = deps_of (entries r) \<and>
     revs_of (entries r') = revs_of (entries r) \<and> number_tasks r' = number_tasks r \<and>
     runq_buildable r' = runq_buildable r \<and> runq_running r' = runq_running r \<and>
     runq_complete r' = runq_complete r \<and> sq_live r' = sq_live r \<and>
     s_buildable (sched r') = s_buildable (sched r) \<and>
     st_active (rq_stats r') = st_active (rq_stats r) \<and>
     st_completed (rq_stats r') = st_completed (rq_stats r) \<and>
     st_failed (rq_stats r') = st_failed (rq_stats r) \<and>
     st_total (rq_stats r') = st_total (rq_stats r) \<and>
     filter task_event (events r') = filter task_event (events r)"
  by (auto simp: core_def)

lemma foldE_core:
  assumes "foldE f xs r = Inr r'"
    and "\<And>x s t. x \<in> set xs \<Longrightarrow> f x s = Inr t \<Longrightarrow> core t = core s"
  shows "core r' = core r"
  using assms(1)
  by (rule foldE_invariant [where P = "\<lambda>s. core s = core r"]) (use assms(2) in auto)

lemma foldE_core_snd:
  assumes "foldE f xs s = Inr s'"
    and "\<And>x s t. x \<in> set xs \<Longrightarrow> f x s = Inr t \<Longrightarrow> core (snd t) = core (snd s)"
  shows "core (snd s') = core (snd s)"
  using assms(1)
  by (rule foldE_invariant [where P = "\<lambda>t. core (snd t) = core (snd s)"]) (use assms(2) in auto)

lemma check_stamp_task_core [core_intros]:
  "check_stamp_task env tid n b r = Inr (c, r') \<Longrightarrow> core r' = core r"
  by (auto simp: check_stamp_task_def core_def)

lemma check_setscene_stamps_core [core_intros]:
  assumes "check_setscene_stamps env tid r = Inr (a, b, r')"
  shows "core r' = core r"
proof -
  from assms obtain name fn td where "task_flags env tid = Inr (name, fn, td)"
    by (auto simp: check_setscene_stamps_def)
  with assms show ?thesis
    by (auto simp: check_setscene_stamps_def make_stamp_mcfn_def core_def split: if_splits
        dest!: check_stamp_task_core)
qed

lemma core_simps [simp]:
  "core (mark_notcovered t r) = core r"
  "core (mark_sq_running t r) = core r"
  "core (upd_sqd f r) = core r"
  "core (r\<lparr>tasks_scenequeue_done := a1\<rparr>) = core r"
  "core (r\<lparr>scenequeue_covered := a2\<rparr>) = core r"
  "core (r\<lparr>holdoff_need_update := a3\<rparr>) = core r"
  "core (r\<lparr>sq_deferred := a4\<rparr>) = core r"
  "core (r\<lparr>rq_state := a5\<rparr>) = core r"
  "core (r\<lparr>sq_buildable := a6\<rparr>) = core r"
  "core (r\<lparr>sq_harddep_deferred := a7\<rparr>) = core r"
  "core (upd_stats (updateCovered m n) r) = core r"
  "core (upd_stats (updateActiveSetscene m) r) = core r"
  by (simp_all add: core_def mark_notcovered_def mark_sq_running_def upd_sqd_def upd_stats_def
      updateCovered_def updateActiveSetscene_def)

lemma core_fire [simp]: "\<not> task_event e \<Longrightarrow> core (fire e r) = core r"
  by (simp add: core_def fire_def)

lemma updatecounters_body_core:
  assumes run: "updatecounters_body fail env task b r = Inr r'"
    and fail: "\<And>t s s'. fail t s = Inr s' \<Longrightarrow> core s' = core s"
  shows "core r' = core r"
proof -
  from run obtain r1 ds r2 dn r3 where
    1: "(case map_of (sq_harddeps (sqd r)) task of
          Some ds \<Rightarrow> if b then foldE (harddep_step fail env) (sort ds) r else Inr r
        | None \<Rightarrow> Inr r) = Inr r1"
    and 2: "foldE (sq_dep_step (handled r1)) (sort ds) r1 = Inr r2"
    and 3: "(if din task (sq_harddeps (sqd (r2\<lparr>tasks_scenequeue_done := dn\<rparr>)))
             then foldE undefer_step (sq_harddep_deferred (r2\<lparr>tasks_scenequeue_done := dn\<rparr>))
                    (r2\<lparr>tasks_scenequeue_done := dn\<rparr>)
             else Inr (r2\<lparr>tasks_scenequeue_done := dn\<rparr>)) = Inr r3"
    and 4: "core r' = core r3"
    unfolding updatecounters_body_def Let_def by auto
  have "core r1 = core r"
  proof (cases "map_of (sq_harddeps (sqd r)) task")
    case (Some ds)
    show ?thesis
    proof (cases b)
      case True
      with 1 Some have "foldE (harddep_step fail env) (sort ds) r = Inr r1" by simp
      then show ?thesis
      proof (rule foldE_core)
        fix x s t
        assume "harddep_step fail env x s = Inr t"
        then show "core t = core s"
          by (auto simp: harddep_step_def split: if_splits dest!: check_setscene_stamps_core fail)
      qed
    qed (use 1 Some in simp)
  qed (use 1 in simp)
  moreover have "core r2 = core r1"
    using 2 by (rule foldE_core) (auto simp: sq_dep_step_def split: if_splits)
  moreover have "core r3 = core r2"
  proof (cases "din task (sq_harddeps (sqd (r2\<lparr>tasks_scenequeue_done := dn\<rparr>)))")
    case True
    with 3 have "foldE undefer_step (sq_harddep_deferred (r2\<lparr>tasks_scenequeue_done := dn\<rparr>))
        (r2\<lparr>tasks_scenequeue_done := dn\<rparr>) = Inr r3" by simp
    then have "core r3 = core (r2\<lparr>tasks_scenequeue_done := dn\<rparr>)"
      by (rule foldE_core) (auto simp: undefer_step_def split: if_splits)
    then show ?thesis by simp
  qed (use 3 in auto)
  ultimately show ?thesis using 4 by simp
qed

lemma failoutright_core: "failoutright n env task r = Inr r' \<Longrightarrow> core r' = core r"
proof (induction n arbitrary: task r r')
  case (Suc n)
  from Suc.prems updatecounters_body_core [OF _ Suc.IH] show ?case by fastforce
qed simp

lemma sq_task_failoutright_core [core_intros]:
  "sq_task_failoutright env task r = Inr r' \<Longrightarrow> core r' = core r"
  by (simp add: sq_task_failoutright_def failoutright_core)

lemma scenequeue_updatecounters_core [core_intros]:
  "scenequeue_updatecounters env task b r = Inr r' \<Longrightarrow> core r' = core r"
  unfolding scenequeue_updatecounters_def by (erule updatecounters_body_core) (rule core_intros)

lemma sq_task_completeoutright_core [core_intros]:
  "sq_task_completeoutright env task r = Inr r' \<Longrightarrow> core r' = core r"
  unfolding sq_task_completeoutright_def by (auto dest: core_intros)

lemma sq_task_skip_core [core_intros]: "sq_task_skip env task r = Inr r' \<Longrightarrow> core r' = core r"
  unfolding sq_task_skip_def by (auto dest: core_intros)

lemma sq_task_complete_core [core_intros]: "sq_task_complete env task r = Inr r' \<Longrightarrow> core r' = core r"
  unfolding sq_task_complete_def by (auto dest: core_intros)

lemma sq_task_fail_core [core_intros]: "sq_task_fail env task r = Inr r' \<Longrightarrow> core r' = core r"
  unfolding sq_task_fail_def sq_check_taskfail_def Let_def
  by (auto split: if_splits dest!: core_intros)

lemma update_tid_core: "update_tid env t s = Inr s' \<Longrightarrow> core (snd s') = core (snd s)"
  by (cases s) (auto simp: update_tid_def split: if_splits dest!: core_intros)

lemma outright_tid_core [simp]: "core (outright_tid t r) = core r"
  by (simp add: outright_tid_def)

lemma fold_outright_core [simp]: "core (fold outright_tid ts r) = core r"
  by (induction ts arbitrary: r) auto

lemma update_scenequeue_data_core [core_intros]:
  assumes "update_scenequeue_data env ts b r = Inr r'"
  shows "core r' = core r"
proof -
  from assms obtain c r1 where f: "foldE (update_tid env) (sort ts) ([], r) = Inr (c, r1)"
    and "core r' = core r1"
    by (auto simp: update_scenequeue_data_def)
  with foldE_core_snd [OF f] update_tid_core show ?thesis by fastforce
qed

section \<open>The invariant of the tasks\<close>

definition rq_inv :: "rqexe \<Rightarrow> bool" where
  "rq_inv r \<longleftrightarrow>
     (\<forall>t \<in> set (runq_buildable r). set (deps_of (entries r) t) \<subseteq> set (runq_complete r)) \<and>
     set (s_buildable (sched r)) \<subseteq> set (runq_buildable r) \<and>
     set (runq_running r) \<subseteq> set (runq_buildable r) \<and>
     set (runq_complete r) \<subseteq> set (runq_running r) \<and>
     inflight r \<subseteq> set (runq_running r) - set (runq_complete r)"

lemma rq_inv_core: "core r' = core r \<Longrightarrow> rq_inv r' = rq_inv r"
  unfolding core_eq by (simp add: rq_inv_def inflight_cong [of r' r])

lemma entry_deps: "entry r t = Inr e \<Longrightarrow> deps_of (entries r) t = depends e"
  by (auto simp: entry_def dget_Inr_iff deps_of_def)

lemma setbuildable_fields [simp]:
  "runq_running (setbuildable t r) = runq_running r" "runq_complete (setbuildable t r) = runq_complete r"
  "set (runq_buildable (setbuildable t r)) = insert t (set (runq_buildable r))"
  "set (s_buildable (sched (setbuildable t r))) = insert t (set (s_buildable (sched r)))"
  "inflight (setbuildable t r) = inflight r" "rq_stats (setbuildable t r) = rq_stats r"
  "sq_live (setbuildable t r) = sq_live r" "number_tasks (setbuildable t r) = number_tasks r"
  "events (setbuildable t r) = events r"
  by (simp_all add: setbuildable_def newbuildable_def upd_sched_def inflight_def)

lemma setbuildable_inv:
  "rq_inv r \<Longrightarrow> set (deps_of (entries r) t) \<subseteq> set (runq_complete r) \<Longrightarrow> rq_inv (setbuildable t r)"
  by (auto simp: rq_inv_def)

text \<open>The part of the state that completing a task keeps.\<close>

definition kept where
  "kept r = (dkeys (entries r), deps_of (entries r), revs_of (entries r), number_tasks r,
     runq_running r, sq_live r,
     (st_active (rq_stats r), st_completed (rq_stats r), st_failed (rq_stats r), st_total (rq_stats r)),
     filter task_event (events r))"

lemma kept_core: "core r' = core r \<Longrightarrow> kept r' = kept r \<and> runq_complete r' = runq_complete r"
  by (simp add: core_eq kept_def)

lemma kept_setbuildable [simp]: "kept (setbuildable t r) = kept r"
  by (simp add: kept_def)

lemma kept_complete [simp]: "kept (r\<lparr>runq_complete := c\<rparr>) = kept r"
  by (simp add: kept_def)

lemma undefer_core: "undefer env task t s = Inr s' \<Longrightarrow> core (snd s') = core (snd s)"
  by (cases s) (auto simp: undefer_def split: if_splits dest!: update_scenequeue_data_core)

lemma ready_revdep_inv:
  assumes "ready_revdep t r = Inr r'" and "rq_inv r"
  shows "rq_inv r' \<and> kept r' = kept r \<and> runq_complete r' = runq_complete r"
  using assms by (auto simp: ready_revdep_def entry_deps subset_iff ssubset_def split: if_splits intro!: setbuildable_inv)

lemma task_completeoutright_inv:
  assumes run: "task_completeoutright env task r = Inr r'" and inv: "rq_inv r"
    and t: "task \<in> set (runq_running r)" "task \<notin> inflight r"
  shows "rq_inv r' \<and> kept r' = kept r \<and> set (runq_complete r') = insert task (set (runq_complete r))"
proof -
  let ?r = "r\<lparr>runq_complete := sadd task (runq_complete r)\<rparr>"
  from run obtain e :: run_task_entry and r1 f where
    1: "foldE ready_revdep (revdeps e) ?r = Inr r1"
    and 2: "foldE (undefer env task) (sort (dkeys (sq_deferred r1))) (None, r1) = Inr (f, r')"
    by (auto simp: task_completeoutright_def Let_def)
  have i: "inflight ?r = inflight r" by (simp add: inflight_def)
  have "rq_inv ?r" using inv t by (auto simp: rq_inv_def i)
  then have "rq_inv r1 \<and> kept r1 = kept r \<and> runq_complete r1 = sadd task (runq_complete r)"
    by (intro foldE_invariant [OF 1, where P = "\<lambda>s. rq_inv s \<and> kept s = kept r \<and>
          runq_complete s = sadd task (runq_complete r)"]) (auto dest!: ready_revdep_inv)
  moreover have "core (snd (f, r')) = core (snd (None :: string option, r1))"
    using 2 by (rule foldE_core_snd) (rule undefer_core)
  then have "core r' = core r1" by simp
  ultimately show ?thesis using rq_inv_core [of r' r1] kept_core [of r' r1] by simp
qed

section \<open>Starting and ending tasks\<close>

text \<open>
  The counters: \<open>capacity\<close> is what bounds the number of workers in use, and \<open>counted\<close> says that
  the number of active tasks is what it should be.
\<close>

definition capacity :: "rqexe \<Rightarrow> bool" where
  "capacity r \<longleftrightarrow> 0 < number_tasks r \<and> st_active (rq_stats r) + int (length (sq_live r)) \<le> number_tasks r"

definition counted :: "rqexe \<Rightarrow> bool" where
  "counted r \<longleftrightarrow> st_active (rq_stats r) = int (card (inflight r))"

lemma capacity_core: "core r' = core r \<Longrightarrow> capacity r' = capacity r"
  unfolding core_eq by (simp add: capacity_def)

lemma counted_core: "core r' = core r \<Longrightarrow> counted r' = counted r"
  unfolding core_eq by (simp add: counted_def inflight_cong [of r' r])

lemma capacity_kept: "kept r' = kept r \<Longrightarrow> capacity r' = capacity r"
  by (simp add: kept_def capacity_def)

lemma inflight_kept: "kept r' = kept r \<Longrightarrow> inflight r' = inflight r"
  by (rule inflight_cong) (simp add: kept_def)

lemma rq_inv_upd_stats [simp]: "rq_inv (upd_stats f r) = rq_inv r"
  by (simp add: rq_inv_def upd_stats_def inflight_def)

lemma inflight_upd [simp]:
  "inflight (upd_stats f r) = inflight r"
  "inflight (r\<lparr>runq_running := a1\<rparr>) = inflight r"
  "inflight (r\<lparr>runq_tasksrun := a2\<rparr>) = inflight r"
  "inflight (r\<lparr>failed_tids := a3\<rparr>) = inflight r"
  "inflight (r\<lparr>rq_state := a4\<rparr>) = inflight r"
  "inflight (r\<lparr>sq_live := a5\<rparr>) = inflight r"
  "inflight (r\<lparr>fakeworkers := a6\<rparr>) = inflight r"
  "inflight (r\<lparr>fs := a7\<rparr>) = inflight r"
  by (simp_all add: inflight_def upd_stats_def)

lemma rq_inv_upd [simp]:
  "rq_inv (r\<lparr>runq_tasksrun := a2\<rparr>) = rq_inv r"
  "rq_inv (r\<lparr>failed_tids := a3\<rparr>) = rq_inv r"
  "rq_inv (r\<lparr>rq_state := a4\<rparr>) = rq_inv r"
  "rq_inv (r\<lparr>sq_live := a5\<rparr>) = rq_inv r"
  "rq_inv (r\<lparr>fakeworkers := a6\<rparr>) = rq_inv r"
  "rq_inv (r\<lparr>fs := a7\<rparr>) = rq_inv r"
  by (simp_all add: rq_inv_def)

lemma fire_fields [simp]:
  "runq_running (fire e r) = runq_running r" "runq_complete (fire e r) = runq_complete r"
  "rq_stats (fire e r) = rq_stats r" "sq_live (fire e r) = sq_live r"
  "number_tasks (fire e r) = number_tasks r" "entries (fire e r) = entries r"
  "runq_buildable (fire e r) = runq_buildable r" "sched (fire e r) = sched r"
  by (simp_all add: fire_def)

lemma rq_inv_fire: "rq_inv r \<Longrightarrow> flight_step e (inflight r) \<subseteq> set (runq_running r) - set (runq_complete r) \<Longrightarrow>
  rq_inv (fire e r)"
  by (auto simp: rq_inv_def)

lemma upd_stats_fields [simp]:
  "runq_running (upd_stats f r) = runq_running r" "runq_complete (upd_stats f r) = runq_complete r"
  "rq_stats (upd_stats f r) = f (rq_stats r)" "sq_live (upd_stats f r) = sq_live r"
  "number_tasks (upd_stats f r) = number_tasks r" "entries (upd_stats f r) = entries r"
  "runq_buildable (upd_stats f r) = runq_buildable r" "sched (upd_stats f r) = sched r"
  by (simp_all add: upd_stats_def)

lemma kept_fields:
  "kept r' = kept r \<Longrightarrow> runq_running r' = runq_running r"
  "kept r' = kept r \<Longrightarrow> sq_live r' = sq_live r"
  "kept r' = kept r \<Longrightarrow> number_tasks r' = number_tasks r"
  "kept r' = kept r \<Longrightarrow> st_active (rq_stats r') = st_active (rq_stats r)"
  by (simp_all add: kept_def)

text \<open>What completing a task that runs does.\<close>

lemma task_complete_inv:
  assumes run: "task_complete env t r = Inr r'" and inv: "rq_inv r" and t: "t \<in> set (runq_running r)"
  shows "rq_inv r'" and "sq_live r' = sq_live r" and "number_tasks r' = number_tasks r"
    and "st_active (rq_stats r') = st_active (rq_stats r) - 1" and "inflight r' = inflight r - {t}"
proof -
  let ?r = "fire (TaskCompleted t) (upd_stats taskCompleted r)"
  from run obtain r1 where 1: "task_completeoutright env t ?r = Inr r1"
    and r': "r' = r1\<lparr>runq_tasksrun := sadd t (runq_tasksrun r1)\<rparr>"
    by (auto simp: task_complete_def)
  have "rq_inv ?r" using inv by (intro rq_inv_fire) (auto simp: rq_inv_def)
  from task_completeoutright_inv [OF 1 this] t have
    2: "rq_inv r1" "kept r1 = kept ?r" by auto
  show "rq_inv r'" "sq_live r' = sq_live r" "number_tasks r' = number_tasks r"
    "st_active (rq_stats r') = st_active (rq_stats r) - 1" "inflight r' = inflight r - {t}"
    using 2(1) kept_fields [OF 2(2)] inflight_kept [OF 2(2)] by (simp_all add: r' taskCompleted_def)
qed

lemma task_skip_inv:
  assumes run: "task_skip env t reason r = Inr r'" and inv: "rq_inv r"
    and t: "t \<in> set (runq_buildable r)" "t \<notin> set (runq_running r)"
  shows "rq_inv r'" and "sq_live r' = sq_live r" and "number_tasks r' = number_tasks r"
    and "st_active (rq_stats r') = st_active (rq_stats r)" and "inflight r' = inflight r"
proof -
  let ?s = "setbuildable t (r\<lparr>runq_running := sadd t (runq_running r)\<rparr>)"
  let ?r = "fire (TaskSkipped t reason) ?s"
  from run obtain r1 where 1: "task_completeoutright env t ?r = Inr r1"
    and r': "r' = upd_stats taskCompleted (upd_stats taskSkipped r1)"
    by (auto simp: task_skip_def Let_def)
  have "rq_inv ?s" using inv t by (auto simp: rq_inv_def)
  then have "rq_inv ?r" by (intro rq_inv_fire) (auto simp: rq_inv_def)
  moreover have "t \<notin> inflight ?r" using inv t by (auto simp: rq_inv_def)
  ultimately have 2: "rq_inv r1" "kept r1 = kept ?r"
    using task_completeoutright_inv [OF 1] by auto
  show "rq_inv r'" "sq_live r' = sq_live r" "number_tasks r' = number_tasks r"
    "st_active (rq_stats r') = st_active (rq_stats r)" "inflight r' = inflight r"
    using 2(1) kept_fields [OF 2(2)] inflight_kept [OF 2(2)]
    by (simp_all add: r' taskCompleted_def taskSkipped_def)
qed

lemma mark_running_inv:
  assumes inv: "rq_inv r" and t: "t \<in> set (runq_buildable r)" "t \<notin> set (runq_running r)"
  shows "rq_inv (mark_running t r)" and "inflight (mark_running t r) = inflight r"
  using inv t by (auto simp: mark_running_def rq_inv_def)

lemma task_fail_inv:
  assumes run: "task_fail env t r = Inr r'" and inv: "rq_inv r"
  shows "rq_inv r'" and "sq_live r' = sq_live r" and "number_tasks r' = number_tasks r"
    and "st_active (rq_stats r') = st_active (rq_stats r) - 1" and "inflight r' = inflight r - {t}"
proof -
  let ?u = "upd_stats taskFailed r"
  let ?r = "fire (TaskFailed t) (?u\<lparr>failed_tids := failed_tids ?u @ [t]\<rparr>)"
  from run have r': "r' = ?r \<or> r' = ?r\<lparr>rq_state := runQueueCleanUp\<rparr>"
    unfolding task_fail_def Let_def by (cases "dget (taskdatas env) []") (simp_all split: if_splits)
  have "rq_inv ?r" using inv by (intro rq_inv_fire) (auto simp: rq_inv_def)
  then show "rq_inv r'" using r' by auto
  show "sq_live r' = sq_live r" "number_tasks r' = number_tasks r"
    "st_active (rq_stats r') = st_active (rq_stats r) - 1" "inflight r' = inflight r - {t}"
    using r' by (auto simp: taskFailed_def)
qed

section \<open>No task is forgotten\<close>

text \<open>
  The converse of the invariant: a task whose dependencies are all complete is buildable, and
  a buildable task that does not run is in the hands of the scheduler.  Tasks without
  dependencies are left out, they wait for the scene queue.  The reverse dependencies must be
  those of the dependencies.
\<close>

definition static where
  "static r = (dkeys (entries r), deps_of (entries r), revs_of (entries r), number_tasks r,
     st_total (rq_stats r))"

definition rev_ok :: "rqexe \<Rightarrow> bool" where
  "rev_ok r \<longleftrightarrow> (\<forall>t \<in> set (dkeys (entries r)). \<forall>d \<in> set (deps_of (entries r) t). t \<in> set (revs_of (entries r) d))"

definition woken :: "rqexe \<Rightarrow> bool" where
  "woken r \<longleftrightarrow>
     (\<forall>t \<in> set (dkeys (entries r)). deps_of (entries r) t \<noteq> [] \<longrightarrow>
        set (deps_of (entries r) t) \<subseteq> set (runq_complete r) \<longrightarrow> t \<in> set (runq_buildable r)) \<and>
     set (runq_buildable r) - set (runq_running r) \<subseteq> set (s_buildable (sched r))"

lemma static_kept: "kept r' = kept r \<Longrightarrow> static r' = static r"
  by (simp add: kept_def static_def)

lemma rev_ok_static: "static r' = static r \<Longrightarrow> rev_ok r' = rev_ok r"
  by (simp add: static_def rev_ok_def)

lemma woken_core: "core r' = core r \<Longrightarrow> woken r' = woken r"
  by (simp add: core_eq woken_def)

lemma setbuildable_woken: "woken r \<Longrightarrow> woken (setbuildable t r)"
  by (auto simp: woken_def)

lemma woken_upd [simp]:
  "woken (r\<lparr>runq_tasksrun := a2\<rparr>) = woken r" "woken (r\<lparr>failed_tids := a3\<rparr>) = woken r"
  "woken (r\<lparr>rq_state := a4\<rparr>) = woken r" "woken (r\<lparr>sq_live := a5\<rparr>) = woken r"
  "woken (upd_stats f r) = woken r" "woken (fire e r) = woken r"
  by (simp_all add: woken_def)

lemma static_upd [simp]:
  "static (r\<lparr>runq_tasksrun := a2\<rparr>) = static r" "static (r\<lparr>failed_tids := a3\<rparr>) = static r"
  "static (r\<lparr>rq_state := a4\<rparr>) = static r" "static (r\<lparr>sq_live := a5\<rparr>) = static r"
  "static (fire e r) = static r" "static (setbuildable t r) = static r"
  "static (r\<lparr>runq_running := a6\<rparr>) = static r"
  "static (upd_stats taskCompleted r) = static r" "static (upd_stats taskFailed r) = static r"
  "static (upd_stats taskSkipped r) = static r" "static (upd_stats taskActive r) = static r"
  "static (upd_stats (updateActiveSetscene n) r) = static r"
  by (simp_all add: static_def taskCompleted_def taskFailed_def taskSkipped_def taskActive_def
      updateActiveSetscene_def)

lemma ready_revdep_keeps:
  assumes "ready_revdep t r = Inr r'"
  shows "kept r' = kept r" and "runq_complete r' = runq_complete r"
    and "set (runq_buildable r) \<subseteq> set (runq_buildable r')"
    and "set (runq_buildable r') \<subseteq> insert t (set (runq_buildable r))"
    and "set (s_buildable (sched r)) \<union> (set (runq_buildable r') - set (runq_buildable r)) \<subseteq> set (s_buildable (sched r'))"
    and "set (deps_of (entries r) t) \<subseteq> set (runq_complete r) \<Longrightarrow> t \<in> set (runq_running r) \<union> set (runq_buildable r')"
  using assms by (auto simp: ready_revdep_def entry_deps split: if_splits)

text \<open>What the loop over the reverse dependencies does.\<close>

lemma ready_revdeps_keeps:
  assumes "foldE ready_revdep ts r = Inr r'"
  shows "kept r' = kept r \<and> runq_complete r' = runq_complete r \<and>
    set (runq_buildable r) \<subseteq> set (runq_buildable r') \<and>
    set (s_buildable (sched r)) \<union> (set (runq_buildable r') - set (runq_buildable r)) \<subseteq> set (s_buildable (sched r')) \<and>
    (\<forall>t \<in> set ts. set (deps_of (entries r) t) \<subseteq> set (runq_complete r) \<longrightarrow>
       t \<in> set (runq_running r) \<union> set (runq_buildable r'))"
proof -
  let ?P = "\<lambda>ys q. kept q = kept r \<and> runq_complete q = runq_complete r \<and>
    set (runq_buildable r) \<subseteq> set (runq_buildable q) \<and>
    set (s_buildable (sched r)) \<union> (set (runq_buildable q) - set (runq_buildable r)) \<subseteq> set (s_buildable (sched q)) \<and>
    (\<forall>t \<in> set ys. set (deps_of (entries r) t) \<subseteq> set (runq_complete r) \<longrightarrow>
       t \<in> set (runq_running r) \<union> set (runq_buildable q))"
  show ?thesis
  proof (rule foldE_prefix_inv [OF assms, where P = ?P])
    fix ys x zs s t
    assume P: "?P ys s" and run: "ready_revdep x s = Inr t"
    note k = ready_revdep_keeps [OF run]
    from P have d: "deps_of (entries s) = deps_of (entries r)" "runq_running s = runq_running r"
      by (auto simp: kept_def)
    have "kept t = kept r" "runq_complete t = runq_complete r" using P k(1,2) by auto
    moreover have "set (runq_buildable r) \<subseteq> set (runq_buildable t)" using P k(3) by blast
    moreover have "set (s_buildable (sched r)) \<union> (set (runq_buildable t) - set (runq_buildable r)) \<subseteq>
        set (s_buildable (sched t))"
      using P k(5) by blast
    moreover have "\<forall>u \<in> set (ys @ [x]). set (deps_of (entries r) u) \<subseteq> set (runq_complete r) \<longrightarrow>
        u \<in> set (runq_running r) \<union> set (runq_buildable t)"
    proof (intro ballI impI)
      fix u
      assume u: "u \<in> set (ys @ [x])" and ds: "set (deps_of (entries r) u) \<subseteq> set (runq_complete r)"
      show "u \<in> set (runq_running r) \<union> set (runq_buildable t)"
      proof (cases "u = x")
        case True
        have "runq_complete s = runq_complete r" using P by blast
        with k(6) ds d True show ?thesis by auto
      next
        case False
        with u have "u \<in> set ys" by simp
        with P ds have "u \<in> set (runq_running r) \<union> set (runq_buildable s)" by blast
        with k(3) show ?thesis by blast
      qed
    qed
    ultimately show "?P (ys @ [x]) t" by blast
  qed simp
qed

text \<open>\<open>wake\<close>: a step that forgets no task.\<close>

definition wake :: "rqexe \<Rightarrow> rqexe \<Rightarrow> bool" where
  "wake r r' \<longleftrightarrow> static r' = static r \<and> (woken r \<longrightarrow> rev_ok r \<longrightarrow> woken r')"

lemma wake_refl [simp]: "wake r r"
  by (simp add: wake_def)

lemma wake_trans [trans]: "wake r s \<Longrightarrow> wake s t \<Longrightarrow> wake r t"
  using rev_ok_static [of s r] by (simp add: wake_def)

lemma wake_upd: "static r' = static r \<Longrightarrow> woken r' = woken r \<Longrightarrow> wake r r'"
  by (simp add: wake_def)

lemma task_completeoutright_wake:
  assumes run: "task_completeoutright env task r = Inr r'" and inv: "rq_inv r"
  shows "wake r r'"
proof -
  let ?r = "r\<lparr>runq_complete := sadd task (runq_complete r)\<rparr>"
  from run obtain e :: run_task_entry and r1 f where e: "entry ?r task = Inr e"
    and 1: "foldE ready_revdep (revdeps e) ?r = Inr r1"
    and 2: "foldE (undefer env task) (sort (dkeys (sq_deferred r1))) (None, r1) = Inr (f, r')"
    by (auto simp: task_completeoutright_def Let_def)
  have rev: "revs_of (entries r) task = revdeps e"
    using e by (auto simp: entry_def dget_Inr_iff revs_of_def)
  note k = ready_revdeps_keeps [OF 1]
  have d: "deps_of (entries r1) = deps_of (entries r)" "dkeys (entries r1) = dkeys (entries r)"
    "runq_running r1 = runq_running r" "runq_complete r1 = sadd task (runq_complete r)"
    using k by (auto simp: kept_def)
  have b: "set (runq_buildable r) \<subseteq> set (runq_buildable r1)"
    "set (s_buildable (sched r)) \<union> (set (runq_buildable r1) - set (runq_buildable r)) \<subseteq> set (s_buildable (sched r1))"
    "\<forall>t \<in> set (revdeps e). set (deps_of (entries r) t) \<subseteq> insert task (set (runq_complete r)) \<longrightarrow>
       t \<in> set (runq_running r) \<union> set (runq_buildable r1)"
    using k by auto
  have w1: "woken r1" if w: "woken r" "rev_ok r"
  proof -
    have "t \<in> set (runq_buildable r1)"
      if t: "t \<in> set (dkeys (entries r))" "deps_of (entries r) t \<noteq> []"
        "set (deps_of (entries r) t) \<subseteq> insert task (set (runq_complete r))" for t
    proof (cases "task \<in> set (deps_of (entries r) t)")
      case True
      with w(2) t(1) rev have "t \<in> set (revdeps e)" unfolding rev_ok_def by metis
      with b t(3) have "t \<in> set (runq_running r) \<union> set (runq_buildable r1)" by blast
      then show ?thesis using inv b(1) unfolding rq_inv_def by blast
    next
      case False
      with t w(1) have "t \<in> set (runq_buildable r)" unfolding woken_def by blast
      then show ?thesis using b(1) by blast
    qed
    moreover have "set (runq_buildable r1) - set (runq_running r) \<subseteq> set (s_buildable (sched r1))"
      using w(1) b(2) unfolding woken_def by blast
    ultimately show "woken r1" unfolding woken_def d by simp
  qed
  have "core (snd (f, r')) = core (snd (None :: string option, r1))"
    using 2 by (rule foldE_core_snd) (rule undefer_core)
  then have c: "core r' = core r1" by simp
  have "static r1 = static ?r" using k by (auto intro: static_kept)
  moreover have "static r' = static r1" using kept_core [OF c] by (auto intro: static_kept)
  ultimately have "static r' = static r" by (simp add: static_def)
  then show ?thesis using woken_core [OF c] w1 by (simp add: wake_def)
qed

lemma task_complete_wake:
  assumes "task_complete env t r = Inr r'" and "rq_inv r" "t \<in> set (runq_running r)"
  shows "wake r r'"
proof -
  let ?r = "fire (TaskCompleted t) (upd_stats taskCompleted r)"
  from assms(1) obtain r1 where 1: "task_completeoutright env t ?r = Inr r1"
    and r': "r' = r1\<lparr>runq_tasksrun := sadd t (runq_tasksrun r1)\<rparr>"
    by (auto simp: task_complete_def)
  have "rq_inv ?r" using assms(2) by (intro rq_inv_fire) (auto simp: rq_inv_def)
  have "wake r ?r" by (rule wake_upd) simp_all
  also have "wake ?r r1" using task_completeoutright_wake [OF 1 \<open>rq_inv ?r\<close>] .
  also have "wake r1 r'" by (rule wake_upd) (simp_all add: r')
  finally show ?thesis .
qed

lemma task_skip_wake:
  assumes run: "task_skip env t reason r = Inr r'" and inv: "rq_inv r"
    and t: "t \<in> set (runq_buildable r)" "t \<notin> set (runq_running r)"
  shows "wake r r'"
proof -
  let ?s = "setbuildable t (r\<lparr>runq_running := sadd t (runq_running r)\<rparr>)"
  let ?r = "fire (TaskSkipped t reason) ?s"
  from run obtain r1 where 1: "task_completeoutright env t ?r = Inr r1"
    and r': "r' = upd_stats taskCompleted (upd_stats taskSkipped r1)"
    by (auto simp: task_skip_def Let_def)
  have "rq_inv ?s" using inv t by (auto simp: rq_inv_def)
  then have "rq_inv ?r" by (intro rq_inv_fire) (auto simp: rq_inv_def)
  have "woken r \<Longrightarrow> woken ?s" using t by (auto simp: woken_def)
  then have "wake r ?r" by (simp add: wake_def)
  also have "wake ?r r1" using task_completeoutright_wake [OF 1 \<open>rq_inv ?r\<close>] .
  also have "wake r1 r'" by (rule wake_upd) (simp_all add: r')
  finally show ?thesis .
qed

lemma task_fail_wake:
  assumes "task_fail env t r = Inr r'"
  shows "wake r r'"
proof -
  let ?u = "upd_stats taskFailed r"
  let ?r = "fire (TaskFailed t) (?u\<lparr>failed_tids := failed_tids ?u @ [t]\<rparr>)"
  from assms have "r' = ?r \<or> r' = ?r\<lparr>rq_state := runQueueCleanUp\<rparr>"
    unfolding task_fail_def Let_def by (cases "dget (taskdatas env) []") (simp_all split: if_splits)
  then show ?thesis by (intro wake_upd) auto
qed

lemma wake_mark_running: "wake r (mark_running t r)"
  by (auto simp: wake_def mark_running_def woken_def)

end
