(* ===== verification/RunSteps.thy ===== *)
theory RunSteps
  imports RunInvariants
begin

text \<open>
  What one call of the main loop does to the tasks: the parts of \<open>execute\<close> of
  \<open>poky/bitbake/lib/bb/runqueue.py\<close> in turn.  Changes of hashes and all but one of the scene queue
  steps keep the core; the scheduler enters through the contract \<open>scheduler\<close>.
\<close>

section \<open>Changes of hashes\<close>

declare rehash_loop.simps [simp del] dependents_loop.simps [simp del]

lemma dkeys_dset_same: "map_of d k = Some v \<Longrightarrow> dkeys (dset k w d) = dkeys d"
  by (simp add: dkeys_dset din_iff)

lemma core_entries:
  assumes "map_of (entries r) t = Some e" and "depends e' = depends e" "revdeps e' = revdeps e"
  shows "core (r\<lparr>entries := dset t e' (entries r)\<rparr>) = core r"
  using assms by (auto simp: core_eq dkeys_dset_same deps_of_def revs_of_def fun_eq_iff)

lemma core_upd [simp]:
  "core (r\<lparr>updated_taskhash_queue := a1\<rparr>) = core r"
  "core (r\<lparr>pending_migrations := a2\<rparr>) = core r"
  "core (r\<lparr>failed_tids := a3\<rparr>) = core r"
  "core (r\<lparr>sq_running := a4\<rparr>) = core r"
  "core (r\<lparr>scenequeue_notcovered := a5\<rparr>) = core r"
  "core (r\<lparr>scenequeue_notneeded := a6\<rparr>) = core r"
  "core (r\<lparr>stampcache := a7\<rparr>) = core r"
  "core (r\<lparr>build_stamps := a8\<rparr>) = core r"
  "core (r\<lparr>build_stamps2 := a9\<rparr>) = core r"
  "core (r\<lparr>sqdone := b1\<rparr>) = core r"
  "core (r\<lparr>sq_needed_harddeps := b2\<rparr>) = core r"
  "core (r\<lparr>setscene_cycle := b3\<rparr>) = core r"
  "core (r\<lparr>fakeworkers := b4\<rparr>) = core r"
  "core (r\<lparr>fs := b5\<rparr>) = core r"
  "core (r\<lparr>tasks_covered := b6\<rparr>) = core r"
  "core (r\<lparr>tasks_notcovered := b7\<rparr>) = core r"
  "core (r\<lparr>holdoff_tasks := b8\<rparr>) = core r"
  by (simp_all add: core_def)

lemma set_entry_unihash_core: "set_entry_unihash h t r = Inr r' \<Longrightarrow> core r' = core r"
  by (auto simp: set_entry_unihash_def entry_def dget_Inr_iff intro: core_entries)

lemma take_hash_core:
  assumes "take_hash x s = Inr s'"
  shows "core (snd s') = core (snd s)"
proof -
  obtain t h ts r where x: "x = (t, h)" "s = (ts, r)" by fastforce
  let ?q = "r\<lparr>updated_taskhash_queue := remove1 (t, h) (updated_taskhash_queue r)\<rparr>"
  have f: "foldE (set_entry_unihash h) us q = Inr q' \<Longrightarrow> core q' = core q" for us q q'
    by (erule foldE_core) (rule set_entry_unihash_core)
  from assms show ?thesis
    unfolding x take_hash_def
    by (auto simp: Let_def split: if_splits dest!: f set_entry_unihash_core)
qed

lemma rehash_tid_core:
  assumes "rehash_tid u x (nxt, tot, ch, r) = Inr (nxt', tot', ch', r')"
  shows "core r' = core r"
proof -
  obtain t h where x: "x = (t, h)" by fastforce
  from assms obtain e where e: "entry r t = Inr e"
    by (auto simp: x rehash_tid_def Let_def)
  have c: "core (r\<lparr>entries := dset t (e\<lparr>hash := a, unihash := b\<rparr>) (entries r)\<rparr>) = core r" for a b
    using e by (intro core_entries) (auto simp: entry_def dget_Inr_iff)
  from assms e show ?thesis
    by (auto simp: x rehash_tid_def Let_def c split: if_splits)
qed

lemma rehash_round_core:
  assumes "rehash_round env p (cur, tot, ch, r) = Inr (nxt', tot', ch', r')"
  shows "core r' = core r"
proof -
  from assms obtain rdy where
    "foldE (rehash_tid (get_unihashes env (entries r) rdy)) rdy ([], tot, ch, r) = Inr (nxt', tot', ch', r')"
    by (auto simp: rehash_round_def)
  from foldE_invariant [OF this, where P = "\<lambda>(n, t, c, s). core s = core r"] rehash_tid_core
  show ?thesis by fastforce
qed

lemma rehash_loop_core:
  "rehash_loop env p s = Inr (ch', r') \<Longrightarrow> core r' = core (snd (snd (snd s)))"
proof (induction env p s rule: rehash_loop.induct)
  case (1 env p nxt tot ch r)
  show ?case
  proof (cases "nxt = []")
    case True
    with 1(2) have "rehash_loop env p ([], tot, ch, r) = Inr (ch', r')" by simp
    then show ?thesis by (simp add: rehash_loop.simps [of env p "[]"])
  next
    case False
    then obtain n t c q where "rehash_round env p (nxt, tot, ch, r) = Inr (n, t, c, q)"
      and "rehash_loop env p (n, t, c, q) = Inr (ch', r')"
      using 1(2) by (auto simp: rehash_loop.simps [of env p nxt])
    with 1(1) [OF False, of "(n, t, c, q)"] rehash_round_core show ?thesis by fastforce
  qed
qed

lemma rehash_phase_core: "rehash_phase env r = Inr (ch, r') \<Longrightarrow> core r' = core r"
  unfolding rehash_phase_def
  by (auto dest!: rehash_loop_core foldE_core_snd [where f = take_hash, OF _ take_hash_core])

lemma mig_covered_core: "core (snd (mig_covered t ds r)) = core r"
  by (induction t ds r rule: mig_covered.induct) auto

lemma mig_reset_core: "mig_reset env t r = Inr r' \<Longrightarrow> core r' = core r"
  by (auto simp: mig_reset_def Let_def)

lemma mig_tid_core:
  assumes "mig_tid env t (b, us, r) = Inr (b', us', r')"
  shows "core r' = core r"
  using assms by (auto simp: mig_tid_def Let_def split: if_splits prod.splits dest!: mig_reset_core)
    (metis core_simps(4) core_upd(2) mig_covered_core snd_conv)+

lemma mig_buildable_core: "mig_buildable t s = Inr s' \<Longrightarrow> core (snd s') = core (snd s)"
  by (cases s) (auto simp: mig_buildable_def Let_def)

lemma mig_defer_core: "mig_defer env mc t r = Inr r' \<Longrightarrow> core r' = core r"
  by (auto simp: mig_defer_def split: if_splits option.splits)

lemma mig_update_core:
  assumes "mig_update env upd r = Inr r'"
  shows "core r' = core r"
proof (cases "upd = []")
  case False
  with assms obtain r1 where
    1: "foldE (\<lambda>mc. foldE (mig_defer env mc) (sort (map fst upd))) (sort (multiconfigs (sqd r)))
      (r\<lparr>sqdone := False\<rparr>) = Inr r1"
    and 2: "update_scenequeue_data env (map fst upd) False r1 = Inr r'"
    by (auto simp: mig_update_def)
  have "core r1 = core (r\<lparr>sqdone := False\<rparr>)"
    using 1 by (rule foldE_core) (erule foldE_core, erule mig_defer_core)
  with update_scenequeue_data_core [OF 2] show ?thesis by simp
qed (use assms in \<open>simp add: mig_update_def\<close>)

lemma process_possible_migrations_core:
  assumes "process_possible_migrations env r = Inr r'"
  shows "core r' = core r"
proof -
  from assms obtain ch r1 st us r2 where
    1: "rehash_phase env r = Inr (ch, r1)"
    and 2: "foldE (mig_tid env) (fold sadd (sinter ch (setscene_tids env)) (pending_migrations r1)) (False, [],
      r1\<lparr>pending_migrations := fold sadd (sinter ch (setscene_tids env)) (pending_migrations r1)\<rparr>) =
      Inr (st, us, r2)"
    and 3: "(if st then Inr r2 else bindE (foldE mig_buildable us ([], r2)) (\<lambda>(upd, r).
            bindE (mig_update env upd r) (\<lambda>r.
            bindE (foldE (\<lambda>(tid, harddepfail, origvalid) r.
                     if harddepfail then sq_task_failoutright env tid r else Inr r) upd r) (\<lambda>r.
              if ch \<noteq> [] \<or> us \<noteq> [] then
                Inr ((upd_stats (updateCovered (int (length (scenequeue_covered r)))
                                               (int (length (scenequeue_notcovered r)))) r)
                     \<lparr>sq_needed_harddeps := [], sq_harddep_deferred := [], holdoff_need_update := True\<rparr>)
              else Inr r)))) = Inr r'"
    by (auto simp: process_possible_migrations_def Let_def)
  have c2: "core r2 = core r1"
    using foldE_invariant [OF 2, where P = "\<lambda>(b, u, s). core s = core r1"] mig_tid_core by fastforce
  have "core r' = core r2"
  proof (cases st)
    case False
    with 3 obtain upd r3 r4 r5 where
      b: "foldE mig_buildable us ([], r2) = Inr (upd, r3)"
      and u: "mig_update env upd r3 = Inr r4"
      and f: "foldE (\<lambda>(tid, harddepfail, origvalid) r.
                if harddepfail then sq_task_failoutright env tid r else Inr r) upd r4 = Inr r5"
      and r': "core r' = core r5"
      by (auto split: if_splits)
    have "core r5 = core r4"
      using f by (rule foldE_core) (auto split: if_splits dest: sq_task_failoutright_core)
    with mig_update_core [OF u] foldE_core_snd [OF b mig_buildable_core] r' show ?thesis by simp
  qed (use 3 in simp)
  with c2 rehash_phase_core [OF 1] show ?thesis by simp
qed

section \<open>Operations that start nothing\<close>

text \<open>
  A calm operation may make tasks buildable whose dependencies are complete, and leaves the rest
  of the tasks alone.
\<close>

definition calm :: "rqexe \<Rightarrow> rqexe \<Rightarrow> bool" where
  "calm r r' \<longleftrightarrow> kept r' = kept r \<and> runq_complete r' = runq_complete r \<and> (rq_inv r \<longrightarrow> rq_inv r') \<and>
     (woken r \<longrightarrow> woken r')"

lemma calm_refl [simp]: "calm r r"
  by (simp add: calm_def)

lemma calm_trans [trans]: "calm r s \<Longrightarrow> calm s t \<Longrightarrow> calm r t"
  by (auto simp: calm_def)

lemma calm_core: "core r' = core r \<Longrightarrow> calm r r'"
  using kept_core [of r' r] rq_inv_core [of r' r] woken_core [of r' r] by (simp add: calm_def)

lemma calm_setbuildable:
  "set (deps_of (entries r) t) \<subseteq> set (runq_complete r) \<Longrightarrow> calm r (setbuildable t r)"
  using setbuildable_inv [of r t] setbuildable_woken [of r t] by (simp add: calm_def)

lemma foldE_calm:
  assumes "foldE f xs r = Inr r'" and "\<And>x s t. x \<in> set xs \<Longrightarrow> f x s = Inr t \<Longrightarrow> calm s t"
  shows "calm r r'"
proof (rule foldE_invariant [OF assms(1), where P = "calm r"])
  fix x s t
  assume "x \<in> set xs" "calm r s" "f x s = Inr t"
  then show "calm r t" using assms(2) calm_trans by blast
qed simp

lemma update_holdofftasks_calm:
  assumes "update_holdofftasks env r = Inr r'"
  shows "calm r r'"
proof (cases "holdoff_need_update r")
  case True
  with assms obtain ts r1 c n h where f: "foldE holdoff_buildable ts r = Inr r1"
    and r': "r' = r1\<lparr>tasks_covered := c, tasks_notcovered := n, holdoff_tasks := h, holdoff_need_update := False\<rparr>"
    by (auto simp: update_holdofftasks_def Let_def)
  have "calm r r1"
    using f by (rule foldE_calm)
      (auto simp: holdoff_buildable_def entry_deps subset_iff split: if_splits intro!: calm_setbuildable)
  also have "calm r1 r'" by (rule calm_core) (simp add: r')
  finally show ?thesis .
qed (use assms in \<open>simp add: update_holdofftasks_def\<close>)

lemma enable_harddep_core: "core (snd (fold enable_harddep hds (b, r))) = core r"
proof (induction hds arbitrary: b r)
  case (Cons h hds)
  obtain b' r' where e: "enable_harddep h (b, r) = (b', r')" by fastforce
  then have "core r' = core r" by (auto simp: enable_harddep_def split: if_splits)
  with Cons.IH [of b' r'] e show ?case by simp
qed simp

lemma sq_undeferred_core: "sq_undeferred env t r = Inr (p, r') \<Longrightarrow> core r' = core r"
  by (auto simp: sq_undeferred_def split: if_splits dest!: sq_task_failoutright_core)

lemma sq_pick_ready_core: "sq_pick_ready env t r = Inr (p, r') \<Longrightarrow> core r' = core r"
  by (auto simp: sq_pick_ready_def Let_def pop_deferred_def split: if_splits
      dest!: sq_task_failoutright_core sq_undeferred_core)

lemma pick_one_core:
  assumes "pick_one env t r = Inr (p, r')"
  shows "core r' = core r"
proof -
  from assms obtain ok where ok: "sq_eligible t r = Inr ok" by (auto simp: pick_one_def)
  note step = assms [unfolded pick_one_def ok bindE_simps]
  show ?thesis
  proof (cases "\<not> ok \<or> (case map_of (sq_deferred r) t of None \<Rightarrow> False | Some d \<Rightarrow> d \<notin> set (runq_complete r))")
    case False
    with step obtain skip where skip: "sq_can_skip env t r = Inr skip" by (auto split: if_splits)
    note step = step [unfolded skip bindE_simps]
    show ?thesis
    proof (cases skip)
      case True
      with step False show ?thesis
        by (auto simp: pop_deferred_def split: if_splits option.splits dest!: sq_task_skip_core)
    next
      case ns: False
      show ?thesis
      proof (cases "map_of (sq_harddeps_rev (sqd r)) t")
        case None
        with step False ns show ?thesis
          by (auto split: if_splits option.splits dest!: sq_pick_ready_core)
      next
        case (Some hds)
        show ?thesis
        proof (cases "set hds \<subseteq> set (handled r)")
          case True
          with step False ns Some show ?thesis
            by (auto split: if_splits option.splits dest!: sq_pick_ready_core)
        next
          case d: False
          obtain b r1 where e: "fold enable_harddep hds (False, r) = (b, r1)" by fastforce
          have "core r1 = core r" using enable_harddep_core [of hds False r] e by simp
          with step False ns Some d e show ?thesis
            by (auto simp: Let_def split: if_splits option.splits)
        qed
      qed
    qed
  qed (use step in \<open>auto split: if_splits\<close>)
qed

lemma pick_loop_core: "pick_loop n env r = Inr (p, r') \<Longrightarrow> core r' = core r"
proof (induction n env r rule: pick_loop.induct)
  case (2 n env r)
  show ?case
  proof (cases "setscene_cycle r")
    case (Cons t ts)
    let ?r = "r\<lparr>setscene_cycle := ts @ [t]\<rparr>"
    from Cons 2(2) obtain q r1 where 1: "pick_one env t ?r = Inr (q, r1)"
      and c: "(case q of NoPick \<Rightarrow> pick_loop n env r1 | _ \<Rightarrow> Inr (q, r1)) = Inr (p, r')"
      by auto
    have r1: "core r1 = core r" using pick_one_core [OF 1] by simp
    show ?thesis
    proof (cases q)
      case NoPick
      with 2(1) [OF Cons 1 refl NoPick] c r1 show ?thesis by simp
    qed (use c r1 in auto)
  qed (use 2 in simp)
qed simp

lemma pick_setscene_core: "pick_setscene env r = Inr (p, r') \<Longrightarrow> core r' = core r"
  by (auto simp: pick_setscene_def split: if_splits dest!: pick_loop_core)

lemma pick_setscene_can_start:
  assumes "pick_setscene env r = Inr (Picked t, r')"
  shows "can_start_task r'"
proof -
  have "can_start_task r" using assms by (auto simp: pick_setscene_def split: if_splits)
  with pick_setscene_core [OF assms] show ?thesis by (simp add: can_start_task_def core_eq)
qed

section \<open>The event log\<close>

text \<open>
  What the log of events says of the order of the tasks: every event of a task comes after its
  dependencies completed or were skipped, a task is sent to a worker at most once, and a task sent or skipped is
  marked as running.
\<close>

fun task_of :: "rq_event \<Rightarrow> tid option" where
  "task_of (TaskStarted t b) = Some t"
| "task_of (RunTask t s) = (if s then None else Some t)"
| "task_of (TaskCompleted t) = Some t"
| "task_of (TaskSkipped t s) = Some t"
| "task_of (TaskFailed t) = Some t"
| "task_of e = None"

fun done_of :: "rq_event \<Rightarrow> tid set" where
  "done_of (TaskCompleted t) = {t}"
| "done_of (TaskSkipped t s) = {t}"
| "done_of e = {}"

definition finished :: "rq_event list \<Rightarrow> tid set" where
  "finished es = (\<Union>e \<in> set es. done_of e)"

fun log_ok :: "(tid \<Rightarrow> tid list) \<Rightarrow> tid set \<Rightarrow> rq_event list \<Rightarrow> bool" where
  "log_ok dep F [] \<longleftrightarrow> True"
| "log_ok dep F (e # es) \<longleftrightarrow>
     (case task_of e of None \<Rightarrow> True | Some t \<Rightarrow> set (dep t) \<subseteq> F) \<and> log_ok dep (F \<union> done_of e) es"

fun sent_of :: "rq_event \<Rightarrow> tid list" where
  "sent_of (RunTask t s) = (if s then [] else [t])"
| "sent_of (TaskSkipped t s) = [t]"
| "sent_of e = []"

text \<open>Tasks sent to a worker or skipped.\<close>

definition sent :: "rq_event list \<Rightarrow> tid list" where
  "sent es = concat (map sent_of es)"

lemma finished_simps [simp]:
  "finished [] = {}" "finished (e # es) = done_of e \<union> finished es"
  "finished (xs @ ys) = finished xs \<union> finished ys"
  by (auto simp: finished_def)

lemma log_ok_append [simp]:
  "log_ok dep F (xs @ ys) \<longleftrightarrow> log_ok dep F xs \<and> log_ok dep (F \<union> finished xs) ys"
  by (induction xs arbitrary: F) (auto simp: Un_assoc)

lemma log_ok_before:
  "log_ok dep F (xs @ e # ys) \<Longrightarrow> task_of e = Some t \<Longrightarrow> set (dep t) \<subseteq> F \<union> finished xs"
  by simp

lemma task_event_cases: "\<not> task_event e \<Longrightarrow> task_of e = None \<and> done_of e = {} \<and> sent_of e = []"
  by (cases e) auto

lemma log_ok_filter: "log_ok dep F (filter task_event es) = log_ok dep F es"
proof (induction es arbitrary: F)
  case (Cons e es)
  then show ?case using task_event_cases [of e] by (cases "task_event e") simp_all
qed simp

lemma finished_filter: "finished (filter task_event es) = finished es"
proof (induction es)
  case (Cons e es)
  then show ?case using task_event_cases [of e] by (cases "task_event e") simp_all
qed simp

lemma sent_simps [simp]: "sent [] = []" "sent (e # es) = sent_of e @ sent es" "sent (xs @ ys) = sent xs @ sent ys"
  by (simp_all add: sent_def)

lemma sent_filter: "sent (filter task_event es) = sent es"
proof (induction es)
  case (Cons e es)
  then show ?case using task_event_cases [of e] by (cases "task_event e") simp_all
qed simp

definition log_inv :: "rqexe \<Rightarrow> bool" where
  "log_inv r \<longleftrightarrow> log_ok (deps_of (entries r)) {} (events r) \<and> set (runq_complete r) \<subseteq> finished (events r) \<and>
     set (sent (events r)) \<subseteq> set (runq_running r) \<and> distinct (sent (events r))"

lemma log_inv_cong:
  assumes "filter task_event (events r') = filter task_event (events r)"
    and "deps_of (entries r') = deps_of (entries r)"
    and "runq_complete r' = runq_complete r" "runq_running r' = runq_running r"
  shows "log_inv r' = log_inv r"
proof -
  have "log_ok d {} (events r') = log_ok d {} (events r)" for d
    by (metis assms(1) log_ok_filter)
  moreover have "finished (events r') = finished (events r)"
    by (metis assms(1) finished_filter)
  moreover have "sent (events r') = sent (events r)"
    by (metis assms(1) sent_filter)
  ultimately show ?thesis by (simp add: log_inv_def assms(2-4))
qed

text \<open>The invariant of a running build.\<close>

definition run_inv :: "rqexe \<Rightarrow> bool" where
  "run_inv r \<longleftrightarrow> rq_inv r \<and> log_inv r \<and> capacity r"

lemma calm_run_inv:
  assumes "calm r r'" and "run_inv r"
  shows "run_inv r'"
proof -
  from assms(1) have k: "kept r' = kept r" and c: "runq_complete r' = runq_complete r"
    by (auto simp: calm_def)
  then have "log_inv r' = log_inv r" by (intro log_inv_cong) (auto simp: kept_def)
  with assms capacity_kept [OF k] show ?thesis by (auto simp: run_inv_def calm_def)
qed

lemma calm_counted: "calm r r' \<Longrightarrow> counted r' = counted r"
  by (simp add: calm_def counted_def inflight_kept [of r' r] kept_fields(4) [of r' r])

lemma run_inv_core: "core r' = core r \<Longrightarrow> run_inv r \<Longrightarrow> run_inv r'"
  using calm_run_inv [OF calm_core] .

lemma events_upd [simp]: "events (upd_stats f r) = events r" "events (fire e r) = events r @ [e]"
  by (simp_all add: upd_stats_def fire_def)

section \<open>The contract of a scheduler\<close>

text \<open>
  What \<open>execute\<close> needs of a scheduler: it changes only its own fields, its buildable tasks do not
  grow, of them it drops only tasks that run, and the task it picks was buildable, does not run and fits the number of threads.
\<close>

locale scheduler =
  fixes next_task :: "rqexe \<Rightarrow> pyerr + (rqexe \<times> tid option)"
  assumes own_fields: "next_task r = Inr (r', ot) \<Longrightarrow>
      \<exists>sc. r' = r\<lparr>sched := sc\<rparr> \<and> set (s_buildable sc) \<subseteq> set (s_buildable (sched r)) \<and>
        set (s_buildable (sched r)) - set (runq_running r) \<subseteq> set (s_buildable sc)"
    and picks: "next_task r = Inr (r', Some t) \<Longrightarrow> can_start_task r \<and>
      t \<in> set (s_buildable (sched r)) \<and> t \<notin> set (runq_running r) \<and> t \<notin> set (holdoff_tasks r) \<and>
      t \<in> set (tasks_covered r) \<union> set (tasks_notcovered r)"
begin

lemma next_calm:
  assumes "next_task r = Inr (r', ot)"
  shows "calm r r'"
proof -
  from own_fields [OF assms] obtain sc where r': "r' = r\<lparr>sched := sc\<rparr>"
    and "set (s_buildable sc) \<subseteq> set (s_buildable (sched r))"
      "set (s_buildable (sched r)) - set (runq_running r) \<subseteq> set (s_buildable sc)" by blast
  then show ?thesis by (auto simp: calm_def kept_def rq_inv_def inflight_def woken_def)
qed

lemma next_ready:
  assumes "next_task r = Inr (r', Some t)" and "rq_inv r"
  shows "set (deps_of (entries r') t) \<subseteq> set (runq_complete r')" and "t \<in> set (runq_buildable r')"
    and "t \<notin> set (runq_running r')" and "can_start_task r'"
proof -
  from own_fields [OF assms(1)] obtain sc where r': "r' = r\<lparr>sched := sc\<rparr>" by blast
  from picks [OF assms(1)] have p: "can_start_task r" "t \<in> set (s_buildable (sched r))"
    "t \<notin> set (runq_running r)" by auto
  with assms(2) have "t \<in> set (runq_buildable r)" by (auto simp: rq_inv_def)
  with assms(2) p show "set (deps_of (entries r') t) \<subseteq> set (runq_complete r')"
    "t \<in> set (runq_buildable r')" "t \<notin> set (runq_running r')" "can_start_task r'"
    by (simp_all add: r' rq_inv_def can_start_task_def)
qed

end

lemma consider_fold_pick: "foldE (consider_task r mt sk rp) ts best = Inr (Some (t, p)) \<Longrightarrow>
  t \<in> set ts \<or> best = Some (t, p)"
proof (induction ts arbitrary: best)
  case (Cons x ts)
  then obtain b where b: "consider_task r mt sk rp x best = Inr b"
    and r: "foldE (consider_task r mt sk rp) ts b = Inr (Some (t, p))" by auto
  from b have "b = best \<or> (\<exists>q. b = Some (x, q))"
    by (auto simp: consider_task_def split: if_splits)
  with Cons.IH [OF r] show ?case by auto
qed simp

lemma best_task_pick:
  assumes "best_task r mt sk ts = Inr (r', ot)"
  shows "r' = r\<lparr>sched := sched r'\<rparr> \<and> s_buildable (sched r') = s_buildable (sched r) \<and>
    (\<forall>t. ot = Some t \<longrightarrow> t \<in> set ts)"
proof -
  from assms obtain rp best where f: "foldE (consider_task r mt sk rp) ts None = Inr best"
    and "r' = upd_sched (\<lambda>s. s\<lparr>s_rev_prio_map := rp\<rparr>) r" "ot = map_option fst best"
    by (auto simp: best_task_def)
  then show ?thesis using consider_fold_pick [of r mt sk rp ts None]
    by (cases best) (auto simp: upd_sched_def)
qed

lemma next_buildable_task_pick:
  assumes "next_buildable_task env pressure r = Inr (r', ot)"
  shows "(\<exists>sc. r' = r\<lparr>sched := sc\<rparr> \<and> s_buildable sc = sdiff (s_buildable (sched r)) (runq_running r)) \<and>
    (\<forall>t. ot = Some t \<longrightarrow> t \<in> set (candidates r))"
proof -
  let ?r = "upd_sched (\<lambda>s. s\<lparr>s_buildable := sdiff (s_buildable s) (runq_running r)\<rparr>) r"
  have ex: "\<exists>sc. ?r = r\<lparr>sched := sc\<rparr> \<and> s_buildable sc = sdiff (s_buildable (sched r)) (runq_running r)"
    by (rule exI [of _ "(sched r)\<lparr>s_buildable := sdiff (s_buildable (sched r)) (runq_running r)\<rparr>"])
      (simp add: upd_sched_def)
  note step = assms [unfolded next_buildable_task_def Let_def]
  show ?thesis
  proof (cases "candidates r = [] \<or> st_active (rq_stats ?r) \<noteq> 0 \<and> pressure")
    case True
    then have "r' = ?r" "ot = None" using step by (auto split: if_splits)
    then show ?thesis using ex by blast
  next
    case False
    then obtain mt sk where c: "(case candidates r of
                [tid] \<Rightarrow>
                  bindE (taskname_from_tid tid) (\<lambda>name.
                  bindE (at_limit mt sk name) (\<lambda>lim.
                  if lim then Inr (upd_sched (\<lambda>s. s\<lparr>s_skip_maxthread := mt\<rparr>) ?r, None)
                  else bindE (dget (s_stamps (sched (upd_sched (\<lambda>s. s\<lparr>s_skip_maxthread := mt\<rparr>) ?r))) tid) (\<lambda>stamp.
                       if \<not> stamp_in_use (upd_sched (\<lambda>s. s\<lparr>s_skip_maxthread := mt\<rparr>) ?r) stamp
                       then Inr (upd_sched (\<lambda>s. s\<lparr>s_skip_maxthread := mt\<rparr>) ?r, Some tid)
                       else best_task (upd_sched (\<lambda>s. s\<lparr>s_skip_maxthread := mt\<rparr>) ?r) mt sk [])))
              | _ \<Rightarrow> best_task (upd_sched (\<lambda>s. s\<lparr>s_skip_maxthread := mt\<rparr>) ?r) mt sk (candidates r)) = Inr (r', ot)"
      using step by (auto simp del: upd_sched_simps split: if_splits)
    let ?q = "upd_sched (\<lambda>s. s\<lparr>s_skip_maxthread := mt\<rparr>) ?r"
    have q: "?q = ?q\<lparr>sched := sched ?q\<rparr>" by simp
    have "r' = ?q\<lparr>sched := sched r'\<rparr> \<and> s_buildable (sched r') = s_buildable (sched ?q) \<and>
        (\<forall>t. ot = Some t \<longrightarrow> t \<in> set (candidates r))"
    proof (cases "\<exists>tid. candidates r = [tid]")
      case True
      then obtain tid where t: "candidates r = [tid]" by blast
      from c [unfolded t list.case] have "r' = ?q \<and> (ot = None \<or> ot = Some tid) \<or>
          best_task ?q mt sk [] = Inr (r', ot)"
        by (auto split: if_splits)
      then show ?thesis
      proof
        assume "best_task ?q mt sk [] = Inr (r', ot)"
        from best_task_pick [OF this] show ?thesis unfolding t by (cases ot) simp_all
      qed (use q t in auto)
    next
      case F: False
      then have "best_task ?q mt sk (candidates r) = Inr (r', ot)"
        using c by (auto split: list.splits)
      from best_task_pick [OF this] show ?thesis by blast
    qed
    then show ?thesis by (intro conjI exI [of _ "sched r'"]) (simp_all add: upd_sched_def)
  qed
qed

interpretation sn: scheduler "sched_next env pressure" for env pressure
proof
  fix r r' ot
  assume "sched_next env pressure r = Inr (r', ot)"
  then consider "r' = r" | "next_buildable_task env pressure r = Inr (r', ot)"
    by (auto simp: sched_next_def split: if_splits)
  then show "\<exists>sc. r' = r\<lparr>sched := sc\<rparr> \<and> set (s_buildable sc) \<subseteq> set (s_buildable (sched r)) \<and>
      set (s_buildable (sched r)) - set (runq_running r) \<subseteq> set (s_buildable sc)"
  proof cases
    case 1
    then show ?thesis by (intro exI [of _ "sched r"]) simp
  next
    case 2
    from next_buildable_task_pick [OF this] show ?thesis by auto
  qed
next
  fix r r' t
  assume "sched_next env pressure r = Inr (r', Some t)"
  then have "can_start_task r" and n: "next_buildable_task env pressure r = Inr (r', Some t)"
    by (auto simp: sched_next_def split: if_splits)
  with next_buildable_task_pick [OF n] show "can_start_task r \<and> t \<in> set (s_buildable (sched r)) \<and>
      t \<notin> set (runq_running r) \<and> t \<notin> set (holdoff_tasks r) \<and>
      t \<in> set (tasks_covered r) \<union> set (tasks_notcovered r)"
    by (auto simp: set_candidates)
qed

end
