(* ===== verification/RunReach.thy ===== *)
theory RunReach
  imports RunSteps
begin

text \<open>
  The reachable states of \<open>RunQueueExecute\<close> of \<open>poky/bitbake/lib/bb/runqueue.py\<close>, and what
  holds in all of them: the order in which tasks start, the number of workers, and what a build
  that ends as complete has done.
\<close>

section \<open>Running tasks keeps the invariant\<close>

lemma log_inv_upd [simp]:
  "log_inv (r\<lparr>runq_tasksrun := a2\<rparr>) = log_inv r"
  "log_inv (r\<lparr>failed_tids := a3\<rparr>) = log_inv r"
  "log_inv (r\<lparr>rq_state := a4\<rparr>) = log_inv r"
  "log_inv (r\<lparr>sq_live := a5\<rparr>) = log_inv r"
  "log_inv (upd_stats f r) = log_inv r"
  by (simp_all add: log_inv_def)

lemma log_inv_fire:
  assumes "log_inv r" and "sent_of e = []"
    and "\<And>t. task_of e = Some t \<Longrightarrow> set (deps_of (entries r) t) \<subseteq> finished (events r)"
  shows "log_inv (fire e r)"
  using assms by (auto simp: log_inv_def split: option.split)

lemma buildable_deps:
  "rq_inv r \<Longrightarrow> log_inv r \<Longrightarrow> t \<in> set (runq_buildable r) \<Longrightarrow> set (deps_of (entries r) t) \<subseteq> finished (events r)"
  unfolding rq_inv_def log_inv_def by blast

lemma running_deps:
  "rq_inv r \<Longrightarrow> log_inv r \<Longrightarrow> t \<in> set (runq_running r) \<Longrightarrow> set (deps_of (entries r) t) \<subseteq> finished (events r)"
  using buildable_deps unfolding rq_inv_def by blast

lemma kept_events: "kept r' = kept r \<Longrightarrow> filter task_event (events r') = filter task_event (events r)"
  by (simp add: kept_def)

lemma finished_kept: "kept r' = kept r \<Longrightarrow> finished (events r') = finished (events r)"
  by (metis kept_events finished_filter)

lemma sent_kept: "kept r' = kept r \<Longrightarrow> sent (events r') = sent (events r)"
  by (metis kept_events sent_filter)

lemma log_ok_kept: "kept r' = kept r \<Longrightarrow> log_ok d {} (events r') = log_ok d {} (events r)"
  by (metis kept_events log_ok_filter)

lemma log_inv_kept_complete:
  assumes k: "kept r' = kept r" and c: "set (runq_complete r') = insert t (set (runq_complete r))"
    and l: "log_inv r" and t: "t \<in> finished (events r)"
  shows "log_inv r'"
proof -
  have "deps_of (entries r') = deps_of (entries r)" "runq_running r' = runq_running r"
    using k by (simp_all add: kept_def)
  then show ?thesis
    using l t c by (simp add: log_inv_def finished_kept [OF k] sent_kept [OF k] log_ok_kept [OF k])
qed

lemma task_complete_log:
  assumes run: "task_complete env t r = Inr r'" and inv: "rq_inv r" "log_inv r"
    and t: "t \<in> set (runq_running r)"
  shows "log_inv r'"
proof -
  let ?r = "fire (TaskCompleted t) (upd_stats taskCompleted r)"
  from run obtain r1 where 1: "task_completeoutright env t ?r = Inr r1"
    and r': "r' = r1\<lparr>runq_tasksrun := sadd t (runq_tasksrun r1)\<rparr>"
    by (auto simp: task_complete_def)
  have "rq_inv ?r" using inv by (intro rq_inv_fire) (auto simp: rq_inv_def)
  from task_completeoutright_inv [OF 1 this] t
  have "kept r1 = kept ?r" "set (runq_complete r1) = insert t (set (runq_complete ?r))" by auto
  moreover have "log_inv ?r" using inv running_deps [OF inv t] by (intro log_inv_fire) auto
  ultimately have "log_inv r1" by (rule log_inv_kept_complete) simp
  then show ?thesis by (simp add: r')
qed

lemma task_skip_log:
  assumes run: "task_skip env t reason r = Inr r'" and inv: "rq_inv r" "log_inv r"
    and t: "t \<in> set (runq_buildable r)" "t \<notin> set (runq_running r)"
  shows "log_inv r'"
proof -
  let ?s = "setbuildable t (r\<lparr>runq_running := sadd t (runq_running r)\<rparr>)"
  let ?r = "fire (TaskSkipped t reason) ?s"
  from run obtain r1 where 1: "task_completeoutright env t ?r = Inr r1"
    and r': "r' = upd_stats taskCompleted (upd_stats taskSkipped r1)"
    by (auto simp: task_skip_def Let_def)
  have "rq_inv ?s" using inv t by (auto simp: rq_inv_def)
  then have "rq_inv ?r" by (intro rq_inv_fire) (auto simp: rq_inv_def)
  moreover have "t \<notin> inflight ?r" using inv t by (auto simp: rq_inv_def)
  ultimately have "kept r1 = kept ?r" "set (runq_complete r1) = insert t (set (runq_complete ?r))"
    using task_completeoutright_inv [OF 1] by auto
  moreover have "log_inv ?r" using inv(2) t buildable_deps [OF inv t(1)] by (auto simp: log_inv_def)
  ultimately have "log_inv r1" by (rule log_inv_kept_complete) simp
  then show ?thesis by (simp add: r')
qed

lemma task_fail_log:
  assumes run: "task_fail env t r = Inr r'" and inv: "rq_inv r" "log_inv r"
    and t: "t \<in> set (runq_buildable r)"
  shows "log_inv r'"
proof -
  let ?u = "upd_stats taskFailed r"
  let ?r = "fire (TaskFailed t) (?u\<lparr>failed_tids := failed_tids ?u @ [t]\<rparr>)"
  have "log_inv ?r" using inv buildable_deps [OF inv t] by (intro log_inv_fire) auto
  moreover from run have "r' = ?r \<or> r' = ?r\<lparr>rq_state := runQueueCleanUp\<rparr>"
    unfolding task_fail_def Let_def by (cases "dget (taskdatas env) []") (simp_all split: if_splits)
  ultimately show ?thesis by auto
qed

lemma wake_calm: "calm r r' \<Longrightarrow> wake r r'"
  using static_kept [of r' r] by (simp add: wake_def calm_def)

lemma wake_core: "core r' = core r \<Longrightarrow> wake r r'"
  by (intro wake_calm calm_core)

text \<open>What is known before a task is started.\<close>

definition may_start :: "tid \<Rightarrow> rqexe \<Rightarrow> bool" where
  "may_start t r \<longleftrightarrow> run_inv r \<and> can_start_task r \<and> t \<in> set (runq_buildable r) \<and> t \<notin> set (runq_running r)"

lemma may_start_core: "core r' = core r \<Longrightarrow> may_start t r \<Longrightarrow> may_start t r'"
  using run_inv_core [of r' r] by (simp add: may_start_def core_eq can_start_task_def)

lemma may_start_deps:
  "may_start t r \<Longrightarrow> set (deps_of (entries r) t) \<subseteq> finished (events r)"
  using buildable_deps by (auto simp: may_start_def run_inv_def)

lemma capacityI:
  assumes "capacity r" "sq_live r' = sq_live r" "number_tasks r' = number_tasks r"
    and "st_active (rq_stats r') \<le> st_active (rq_stats r)"
  shows "capacity r'"
  using assms by (simp add: capacity_def)

lemma task_fail_run:
  assumes "task_fail env t r = Inr r'" and "run_inv r" and "t \<in> set (runq_buildable r)"
  shows "run_inv r'"
  using assms task_fail_inv [OF assms(1)] task_fail_log [OF assms(1)]
  by (auto simp: run_inv_def intro: capacityI)

lemma task_complete_run:
  assumes "task_complete env t r = Inr r'" and "run_inv r" and "t \<in> set (runq_running r)"
  shows "run_inv r'"
  using assms task_complete_inv [OF assms(1)] task_complete_log [OF assms(1)]
  by (auto simp: run_inv_def intro: capacityI)

lemma task_skip_run:
  assumes "task_skip env t reason r = Inr r'" and "may_start t r"
  shows "run_inv r'"
  using assms task_skip_inv [OF assms(1)] task_skip_log [OF assms(1)]
  by (auto simp: may_start_def run_inv_def intro: capacityI)

lemma task_skip_counted:
  assumes "task_skip env t reason r = Inr r'" and "may_start t r" and "counted r"
  shows "counted r'"
  using assms task_skip_inv [OF assms(1)] by (simp add: may_start_def run_inv_def counted_def)

text \<open>Starting a task that has nothing to run.\<close>

lemma mark_running_fields [simp]:
  "entries (mark_running t r) = entries r" "events (mark_running t r) = events r"
  "runq_complete (mark_running t r) = runq_complete r"
  "runq_running (mark_running t r) = sadd t (runq_running r)"
  "number_tasks (mark_running t r) = number_tasks r" "sq_live (mark_running t r) = sq_live r"
  "st_active (rq_stats (mark_running t r)) = st_active (rq_stats r) + 1"
  by (simp_all add: mark_running_def taskActive_def)

lemma started_inv:
  assumes "may_start t r"
  shows "rq_inv (fire (TaskStarted t b) r)" and "log_inv (fire (TaskStarted t b) r)"
    and "inflight (fire (TaskStarted t b) r) = inflight r"
  using assms may_start_deps [OF assms] by (auto simp: may_start_def run_inv_def log_inv_def intro!: rq_inv_fire)
    (auto simp: rq_inv_def)

lemma run_noexec_run:
  assumes "run_noexec env t taskname taskfn r = Inr r'" and "may_start t r"
  shows "run_inv r'" and "counted r \<Longrightarrow> counted r'" and "wake r r'"
proof -
  let ?s = "mark_running t (fire (TaskStarted t True) r)"
  from assms(1) obtain q where run: "task_complete env t q = Inr r'" and q: "core q = core ?s"
    by (auto simp: run_noexec_def Let_def mark_running_def make_stamp_mcfn_def split: if_splits)
  have s: "rq_inv ?s" "inflight ?s = inflight r"
    using mark_running_inv [of "fire (TaskStarted t True) r" t] started_inv [OF assms(2)] assms(2)
    by (auto simp: may_start_def)
  have t: "t \<in> set (runq_running q)" "t \<notin> inflight r"
    using assms(2) q by (auto simp: core_eq may_start_def run_inv_def rq_inv_def)
  have "log_inv ?s" using started_inv(2) [OF assms(2), of True] by (auto simp: log_inv_def)
  moreover have "capacity ?s" using assms(2) by (simp add: may_start_def run_inv_def capacity_def can_start_task_def)
  ultimately have "run_inv ?s" using s(1) by (simp add: run_inv_def)
  then have "run_inv q" using run_inv_core [OF q] by blast
  then show "run_inv r'" using task_complete_run [OF run] t(1) by blast
  have "rq_inv q" using \<open>run_inv q\<close> by (simp add: run_inv_def)
  have "wake r (fire (TaskStarted t True) r)" by (rule wake_upd) simp_all
  also have "wake (fire (TaskStarted t True) r) ?s" by (rule wake_mark_running)
  also have "wake ?s q" using wake_core [OF q] .
  also have "wake q r'" using task_complete_wake [OF run \<open>rq_inv q\<close> t(1)] .
  finally show "wake r r'" .
  assume c: "counted r"
  note i = task_complete_inv [OF run \<open>rq_inv q\<close> t(1)]
  have "inflight q = inflight ?s" using q by (intro inflight_cong) (simp add: core_eq)
  then have iq: "inflight q = inflight r" using s(2) by simp
  have "st_active (rq_stats q) = st_active (rq_stats r) + 1" using q by (simp add: core_eq)
  with i c t(2) show "counted r'" by (simp add: counted_def iq)
qed

lemma record_stamp_fields [simp]:
  "core (record_stamp env t taskname taskfn r) = core r"
  "inflight (record_stamp env t taskname taskfn r) = inflight r"
  "rq_inv (record_stamp env t taskname taskfn r) = rq_inv r"
  by (simp_all add: record_stamp_def Let_def core_def inflight_def rq_inv_def)

lemma need_fakeworker_core: "need_fakeworker env mc r = Inr r' \<Longrightarrow> core r' = core r"
  by (auto simp: need_fakeworker_def split: if_splits)

text \<open>A task that is sent: the events come first, then it is marked.\<close>

lemma sent_task_run:
  assumes "may_start t r" and q: "core q = core (fire (TaskStarted t False) r)"
  shows "run_inv (mark_running t (fire (RunTask t False) q))"
    and "inflight (mark_running t (fire (RunTask t False) q)) = insert t (inflight r)"
proof -
  let ?s = "fire (TaskStarted t False) r" and ?m = "mark_running t (fire (RunTask t False) q)"
  have s: "rq_inv ?s" "log_inv ?s" "inflight ?s = inflight r" using started_inv [OF assms(1)] .
  then have "rq_inv q" using rq_inv_core [OF q] by simp
  have iq: "inflight q = inflight r"
    using q inflight_cong [of q ?s] s(3) by (simp add: core_eq)
  then show i: "inflight ?m = insert t (inflight r)" by (simp add: mark_running_def)
  have f: "runq_buildable q = runq_buildable r" "runq_running q = runq_running r"
    "runq_complete q = runq_complete r" "deps_of (entries q) = deps_of (entries r)"
    "st_active (rq_stats q) = st_active (rq_stats r)" "sq_live q = sq_live r" "number_tasks q = number_tasks r"
    using q by (simp_all add: core_eq)
  have fr: "t \<in> set (runq_buildable r)" "t \<notin> set (runq_running r)" "can_start_task r" "rq_inv r"
    "set (runq_complete r) \<subseteq> set (runq_running r)" "log_inv r" "capacity r"
    using assms(1) by (auto simp: may_start_def run_inv_def rq_inv_def)
  have "rq_inv (mark_running t q)" using mark_running_inv(1) [OF \<open>rq_inv q\<close>] f fr by simp
  then have r: "rq_inv ?m"
    using i fr by (auto simp: rq_inv_def mark_running_def f)
  have "log_inv q"
  proof -
    have "log_inv q = log_inv ?s"
      using q by (intro log_inv_cong) (simp_all add: core_eq)
    with s show ?thesis by simp
  qed
  moreover have "finished (events q) = finished (events r)"
    using q finished_filter [of "events q"] finished_filter [of "events ?s"] by (simp add: core_eq)
  then have "set (deps_of (entries r) t) \<subseteq> finished (events q)" using may_start_deps [OF assms(1)] by simp
  ultimately have "log_inv ?m" using fr f by (auto simp: log_inv_def)
  moreover have "capacity ?m" using fr f by (simp add: capacity_def can_start_task_def)
  ultimately show "run_inv ?m" using r by (simp add: run_inv_def)
qed

lemma counted_sent:
  assumes "may_start t r" and "counted r"
    and "inflight r' = insert t (inflight r)" and "st_active (rq_stats r') = st_active (rq_stats r) + 1"
  shows "counted r'"
proof -
  have "t \<notin> inflight r" using assms(1) by (auto simp: may_start_def run_inv_def rq_inv_def)
  with assms show ?thesis by (simp add: counted_def)
qed

lemma send_task_run:
  assumes run: "send_task env t taskname taskfn td r = (b, r')" and r: "may_start t r"
  shows "run_inv r'" and "wake r r'" and "counted r \<Longrightarrow> \<forall>mc. fakeworker_starts env mc \<Longrightarrow> counted r'"
proof -
  let ?s = "fire (TaskStarted t False) r"
  define w where "w = (if flagged td ''fakeroot'' taskname \<and> \<not> (cfg_dry_run env \<or> setscene_enforce env)
               then need_fakeworker env (mc_from_tid t) ?s else Inr ?s)"
  have s: "run_inv ?s" using started_inv [OF r] r by (simp add: may_start_def run_inv_def capacity_def)
  note step = run [unfolded send_task_def Let_def, folded w_def]
  have ws: "wake r ?s" by (rule wake_upd) simp_all
  have "run_inv r' \<and> wake r r' \<and> (counted r \<longrightarrow> (\<forall>mc. fakeworker_starts env mc) \<longrightarrow> counted r')"
  proof (cases w)
    case (Inl e)
    with step have r': "r' = upd_stats taskFailed (?s\<lparr>rq_state := runQueueFailed\<rparr>)" by simp
    have "run_inv r'"
      using s by (simp add: r' run_inv_def taskFailed_def capacity_def)
    moreover have "\<not> (\<forall>mc. fakeworker_starts env mc)"
      using Inl by (auto simp: w_def need_fakeworker_def split: if_splits)
    moreover have "wake ?s r'" by (rule wake_upd) (simp_all add: r')
    ultimately show ?thesis using wake_trans [OF ws] by blast
  next
    case (Inr q)
    then have q: "core q = core ?s"
      by (auto simp: w_def split: if_splits dest!: need_fakeworker_core)
    let ?q = "record_stamp env t taskname taskfn (fire (RunTask t False) q)"
    from Inr step have r': "r' = mark_running t ?q" by simp
    let ?p = "record_stamp env t taskname taskfn q"
    have p: "?q = fire (RunTask t False) (?p\<lparr>build_stamps := build_stamps ?q, build_stamps2 := build_stamps2 ?q\<rparr>)"
      by (simp add: record_stamp_def fire_def Let_def)
    have "core (?p\<lparr>build_stamps := build_stamps ?q, build_stamps2 := build_stamps2 ?q\<rparr>) = core ?s"
      using q by simp
    from sent_task_run [OF r this] have "run_inv r'" "inflight r' = insert t (inflight r)"
      unfolding r' by (simp_all only: p [symmetric])
    moreover have "st_active (rq_stats r') = st_active (rq_stats r) + 1"
      using q by (simp add: r' record_stamp_def Let_def core_eq)
    moreover have "wake r r'"
    proof -
      note ws
      also have "wake ?s q" using wake_core [OF q] .
      also have "wake q ?q" by (rule wake_upd) (simp_all add: record_stamp_def Let_def static_def woken_def)
      also have "wake ?q r'" unfolding r' by (rule wake_mark_running)
      finally show ?thesis .
    qed
    ultimately show ?thesis using counted_sent [OF r] by blast
  qed
  then show "run_inv r'" "wake r r'" "counted r \<Longrightarrow> \<forall>mc. fakeworker_starts env mc \<Longrightarrow> counted r'" by auto
qed

lemma run_task_run:
  assumes run: "run_task env t r = Inr (b, r')" and r: "may_start t r"
  shows "run_inv r'" and "wake r r'" and "counted r \<Longrightarrow> \<forall>mc. fakeworker_starts env mc \<Longrightarrow> counted r'"
proof -
  have inv: "rq_inv r" "t \<in> set (runq_buildable r)" "t \<notin> set (runq_running r)"
    using r by (simp_all add: may_start_def run_inv_def)
  let ?P = "\<lambda>q. run_inv q \<and> wake r q \<and> (counted r \<longrightarrow> (\<forall>mc. fakeworker_starts env mc) \<longrightarrow> counted q)"
  have "?P r'"
  proof (cases "t \<in> set (tasks_covered r)")
    case True
    with run have "task_skip env t ''covered'' r = Inr r'" by (auto simp: run_task_def)
    with r inv show ?thesis by (blast intro: task_skip_run task_skip_counted task_skip_wake)
  next
    case False
    with run obtain name cur q where c: "check_stamp_task env t name False r = Inr (cur, q)"
      and step: "(if cur then
          bindE (task_skip env t ''existing'' q) (\<lambda>r.
            Inr (True, r\<lparr>runq_tasksrun := sadd t (runq_tasksrun r)\<rparr>))
        else
          bindE (task_flags env t) (\<lambda>(taskname, taskfn, taskdep).
          if flagged taskdep ''noexec'' taskname
          then bindE (run_noexec env t taskname taskfn q) (\<lambda>r. Inr (True, r))
          else Inr (send_task env t taskname taskfn taskdep q))) = Inr (b, r')"
      by (auto simp: run_task_def)
    have cq: "core q = core r" using check_stamp_task_core [OF c] .
    have rq: "may_start t q" using may_start_core [OF cq r] .
    have eq: "counted q = counted r" using counted_core [OF cq] .
    have wq: "wake r q" using wake_core [OF cq] .
    have invq: "rq_inv q" "t \<in> set (runq_buildable q)" "t \<notin> set (runq_running q)"
      using rq by (simp_all add: may_start_def run_inv_def)
    show ?thesis
    proof (cases cur)
      case True
      with step obtain s where s: "task_skip env t ''existing'' q = Inr s"
        and r': "r' = s\<lparr>runq_tasksrun := sadd t (runq_tasksrun s)\<rparr>" by auto
      have "core r' = core s" by (simp add: r' core_def)
      with task_skip_run [OF s rq] task_skip_counted [OF s rq] eq counted_core [of r' s] show ?thesis
        using run_inv_core wake_trans [OF wake_trans [OF wq task_skip_wake [OF s invq]] wake_core] by blast
    next
      case n: False
      then obtain name fn td where td: "task_flags env t = Inr (name, fn, td)"
        using step by auto
      show ?thesis
      proof (cases "flagged td ''noexec'' name")
        case True
        with step n td have "run_noexec env t name fn q = Inr r'" by auto
        from run_noexec_run [OF this rq] eq wake_trans [OF wq] show ?thesis by blast
      next
        case F: False
        with step n td have "send_task env t name fn td q = (b, r')" by auto
        from send_task_run [OF this rq] eq wake_trans [OF wq] show ?thesis by blast
      qed
    qed
  qed
  then show "run_inv r'" "wake r r'" "counted r \<Longrightarrow> \<forall>mc. fakeworker_starts env mc \<Longrightarrow> counted r'" by auto
qed

lemma check_setscene_ignore_tasks_core:
  "check_setscene_ignore_tasks env t r = Inr (b, r') \<Longrightarrow> core r' = core r"
  by (auto simp: check_setscene_ignore_tasks_def split: if_splits dest!: check_stamp_task_core)

lemma start_task_run:
  assumes run: "start_task env t r = Inr (b, r')" and r: "may_start t r"
  shows "run_inv r'" and "wake r r'"
    and "counted r \<Longrightarrow> \<forall>mc. fakeworker_starts env mc \<Longrightarrow> ignore_tasks env = None \<Longrightarrow> counted r'"
proof -
  from run obtain ign q where
    q: "(if ignore_tasks env = None then Inr (False, r) else check_setscene_ignore_tasks env t r) = Inr (ign, q)"
    and step: "(if ign then bindE (task_fail env t q) (\<lambda>r. Inr (True, r)) else run_task env t q) = Inr (b, r')"
    by (auto simp: start_task_def)
  have cq: "core q = core r" using q by (auto split: if_splits dest: check_setscene_ignore_tasks_core)
  have rq: "may_start t q" using may_start_core [OF cq r] .
  show "run_inv r'"
    using step task_fail_run [of env t q r'] run_task_run(1) [of env t q b r'] rq
    by (auto simp: may_start_def split: if_splits)
  have "wake q r'"
    using step task_fail_wake [of env t q r'] run_task_run(2) [of env t q b r'] rq
    by (auto simp: may_start_def split: if_splits)
  with wake_core [OF cq] show "wake r r'" by (rule wake_trans)
  assume "counted r" "\<forall>mc. fakeworker_starts env mc" and ig: "ignore_tasks env = None"
  then have "counted q" "\<not> ign" using counted_core [OF cq] q by auto
  with step run_task_run(3) [of env t q b r'] rq \<open>\<forall>mc. fakeworker_starts env mc\<close> show "counted r'" by simp
qed

section \<open>The main loop and the workers\<close>

lemma mark_sq_live_run:
  assumes "can_start_task r" and "run_inv r"
  shows "run_inv (mark_sq_live t r)" and "counted (mark_sq_live t r) = counted r"
    and "wake r (mark_sq_live t r)"
proof -
  have f: "entries (mark_sq_live t r) = entries r" "events (mark_sq_live t r) = events r"
    "runq_complete (mark_sq_live t r) = runq_complete r" "runq_running (mark_sq_live t r) = runq_running r"
    "runq_buildable (mark_sq_live t r) = runq_buildable r" "sched (mark_sq_live t r) = sched r"
    "number_tasks (mark_sq_live t r) = number_tasks r" "sq_live (mark_sq_live t r) = sadd t (sq_live r)"
    "st_active (rq_stats (mark_sq_live t r)) = st_active (rq_stats r)"
    by (simp_all add: mark_sq_live_def Let_def updateActiveSetscene_def)
  then have i: "inflight (mark_sq_live t r) = inflight r" by (simp add: inflight_def)
  then show "counted (mark_sq_live t r) = counted r" by (simp add: counted_def f)
  show "wake r (mark_sq_live t r)"
    by (rule wake_upd) (simp_all add: mark_sq_live_def Let_def static_def woken_def updateActiveSetscene_def)
  have "length (sadd t (sq_live r)) \<le> Suc (length (sq_live r))" by (simp add: sadd_def)
  with assms show "run_inv (mark_sq_live t r)"
    by (simp add: run_inv_def rq_inv_def log_inv_def capacity_def can_start_task_def f i)
qed

lemma can_start_core: "core r' = core r \<Longrightarrow> can_start_task r' = can_start_task r"
  by (simp add: core_eq can_start_task_def)

lemma send_setscene_run:
  assumes run: "send_setscene env t r = Inr r'" and c: "can_start_task r" and inv: "run_inv r"
  shows "run_inv r'" and "counted r' = counted r" and "wake r r'"
proof -
  from run obtain q n m where r': "r' = mark_sq_live t (record_stamp env t n m (fire (RunTask t True) q))"
    and q: "core q = core r"
    by (auto simp: send_setscene_def Let_def split: if_splits dest!: need_fakeworker_core)
  have eq: "core (record_stamp env t n m (fire (RunTask t True) q)) = core r" using q by simp
  show "run_inv r'" unfolding r'
    using mark_sq_live_run(1) can_start_core [OF eq] c run_inv_core [OF eq inv] by blast
  show "counted r' = counted r" unfolding r'
    using mark_sq_live_run(2) can_start_core [OF eq] c run_inv_core [OF eq inv] counted_core [OF eq] by simp
  show "wake r r'" unfolding r'
    using mark_sq_live_run(3) can_start_core [OF eq] c run_inv_core [OF eq inv] wake_trans [OF wake_core [OF eq]]
    by blast
qed

lemma start_setscene_run:
  assumes run: "start_setscene env t r = Inr (b, r')" and c: "can_start_task r" and inv: "run_inv r"
  shows "run_inv r'" and "counted r' = counted r" and "wake r r'"
proof -
  from run obtain name cur q where 1: "check_stamp_task env t name True r = Inr (cur, q)"
    and s1: "(if cur then bindE (sq_task_failoutright env t q) (\<lambda>r. Inr (True, r))
     else if cfg_force env \<and> t \<in> set (target_tids env)
     then bindE (sq_task_failoutright env t q) (\<lambda>r. Inr (True, r))
     else
       bindE (check_stamp_task env t (name @ ''_setscene'') False q) (\<lambda>(cur, r).
       if cur then bindE (sq_task_skip env t r) (\<lambda>r. Inr (True, r))
       else if cfg_skipsetscene env then bindE (sq_task_failoutright env t r) (\<lambda>r. Inr (True, r))
       else bindE (send_setscene env t r) (\<lambda>r. Inr (can_start_task r, r)))) = Inr (b, r')"
    by (auto simp: start_setscene_def)
  have q: "core q = core r" using check_stamp_task_core [OF 1] .
  have "core r' = core r \<or> (\<exists>s. core s = core r \<and> send_setscene env t s = Inr r')"
  proof (cases "cur \<or> cfg_force env \<and> t \<in> set (target_tids env)")
    case True
    with s1 have "sq_task_failoutright env t q = Inr r'" by (auto split: if_splits)
    with q sq_task_failoutright_core show ?thesis by simp
  next
    case False
    with s1 obtain cur2 s where 2: "check_stamp_task env t (name @ ''_setscene'') False q = Inr (cur2, s)"
      and s2: "(if cur2 then bindE (sq_task_skip env t s) (\<lambda>r. Inr (True, r))
       else if cfg_skipsetscene env then bindE (sq_task_failoutright env t s) (\<lambda>r. Inr (True, r))
       else bindE (send_setscene env t s) (\<lambda>r. Inr (can_start_task r, r))) = Inr (b, r')"
      by (auto split: if_splits)
    have s: "core s = core r" using check_stamp_task_core [OF 2] q by simp
    show ?thesis
    proof (cases "cur2 \<or> cfg_skipsetscene env")
      case True
      with s2 have "core r' = core s"
        by (auto split: if_splits dest: sq_task_skip_core sq_task_failoutright_core)
      with s show ?thesis by simp
    next
      case False
      with s2 have "send_setscene env t s = Inr r'" by auto
      with s show ?thesis by blast
    qed
  qed
  then have "run_inv r' \<and> counted r' = counted r \<and> wake r r'"
  proof
    assume "core r' = core r"
    with run_inv_core [OF this inv] counted_core [OF this] wake_core [OF this] show ?thesis by simp
  next
    assume "\<exists>s. core s = core r \<and> send_setscene env t s = Inr r'"
    then obtain s where s: "core s = core r" "send_setscene env t s = Inr r'" by blast
    with send_setscene_run [OF s(2)] can_start_core [OF s(1)] c run_inv_core [OF s(1) inv]
      counted_core [OF s(1)] wake_trans [OF wake_core [OF s(1)]] show ?thesis by simp
  qed
  then show "run_inv r'" "counted r' = counted r" "wake r r'" by auto
qed

lemma summarise_core: "summarise_scenequeue_errors env r = (b, r') \<Longrightarrow> core r' = core r"
  by (auto simp: summarise_scenequeue_errors_def Let_def)

lemma sq_finished_core: "sq_finished env r = (b, r') \<Longrightarrow> core r' = core r"
  by (auto simp: sq_finished_def Let_def split: if_splits prod.splits dest!: summarise_core)

lemma execute_idle_core: "execute_idle env r = (b, r') \<Longrightarrow> core r' = core r"
  by (auto simp: execute_idle_def split: if_splits prod.splits dest!: summarise_core)

text \<open>A step keeps the invariant, and the count under the hypothesis on the environment.\<close>

definition plain :: "rq_env \<Rightarrow> bool" where
  "plain env \<longleftrightarrow> ignore_tasks env = None \<and> (\<forall>mc. fakeworker_starts env mc)"

definition good_step :: "rq_env \<Rightarrow> rqexe \<Rightarrow> rqexe \<Rightarrow> bool" where
  "good_step env r r' \<longleftrightarrow> run_inv r \<longrightarrow> run_inv r' \<and> (plain env \<longrightarrow> counted r \<longrightarrow> counted r') \<and>
     wake r r'"

lemma good_calm: "calm r r' \<Longrightarrow> good_step env r r'"
  using calm_run_inv [of r r'] calm_counted [of r r'] wake_calm [of r r'] by (auto simp: good_step_def)

lemma good_core: "core r' = core r \<Longrightarrow> good_step env r r'"
  by (intro good_calm calm_core)

lemma good_trans [trans]: "good_step env r s \<Longrightarrow> good_step env s t \<Longrightarrow> good_step env r t"
  using wake_trans [of r s t] by (auto simp: good_step_def)

lemma start_task_good:
  "start_task env t r = Inr (b, r') \<Longrightarrow> run_inv r \<Longrightarrow> may_start t r \<Longrightarrow> good_step env r r'"
  using start_task_run by (auto simp: good_step_def plain_def)

lemma sched_next_ready:
  assumes "sched_next env pressure r = Inr (r', Some t)" and "run_inv r"
  shows "may_start t r'"
  using sn.next_ready [OF assms(1)] calm_run_inv [OF sn.next_calm [OF assms(1)] assms(2)] assms(2)
  by (simp add: may_start_def run_inv_def)

lemma execute_tasks_good:
  assumes "execute_tasks env pressure r = Inr (w, r')" and "run_inv r"
  shows "good_step env r r'"
proof -
  from assms(1) obtain r1 where 1: "update_holdofftasks env r = Inr r1"
    and step: "(case sq_finished env r1 of (ret, r) \<Rightarrow>
     if ret then Inr (False, r)
     else
       bindE (if cfg_setsceneonly env then Inr (r, None) else sched_next env pressure r) (\<lambda>(r, task).
       case task of
         None \<Rightarrow> Inr (execute_idle env r)
       | Some t \<Rightarrow>
           bindE (start_task env t r) (\<lambda>(ret, r). if ret then Inr (False, r) else Inr (execute_idle env r)))) =
      Inr (w, r')"
    by (auto simp: execute_tasks_def)
  obtain ret r2 where 2: "sq_finished env r1 = (ret, r2)" by fastforce
  have g1: "good_step env r r1" using good_calm [OF update_holdofftasks_calm [OF 1]] .
  have g2: "good_step env r1 r2" using good_core [OF sq_finished_core [OF 2]] .
  have inv2: "run_inv r2" using good_trans [OF g1 g2] assms(2) by (simp add: good_step_def)
  note step = step [unfolded 2 prod.case]
  have "good_step env r2 r'"
  proof (cases ret)
    case True
    with step show ?thesis by (auto simp: good_step_def)
  next
    case False
    then obtain r3 ot where
      3: "(if cfg_setsceneonly env then Inr (r2, None) else sched_next env pressure r2) = Inr (r3, ot)"
      and s3: "(case ot of
         None \<Rightarrow> Inr (execute_idle env r3)
       | Some t \<Rightarrow>
           bindE (start_task env t r3) (\<lambda>(ret, r). if ret then Inr (False, r) else Inr (execute_idle env r))) =
         Inr (w, r')"
      using step by auto
    have g3: "good_step env r2 r3"
      using 3 by (auto split: if_splits intro: good_calm sn.next_calm)
    show ?thesis
    proof (cases ot)
      case None
      with s3 have "execute_idle env r3 = (w, r')" by simp
      from good_trans [OF g3 good_core [OF execute_idle_core [OF this]]] show ?thesis .
    next
      case (Some t)
      with s3 obtain b r4 where 4: "start_task env t r3 = Inr (b, r4)"
        and s4: "(if b then Inr (False, r4) else Inr (execute_idle env r4)) = (Inr (w, r') :: pyerr + _)" by auto
      have "may_start t r3" using 3 Some sched_next_ready inv2 by (auto split: if_splits)
      then have g4: "good_step env r3 r4" using start_task_good [OF 4] by (simp add: may_start_def)
      have "core r' = core r4" using s4 by (auto split: if_splits intro: execute_idle_core)
      with good_trans [OF good_trans [OF g3 g4] good_core] show ?thesis .
    qed
  qed
  with good_trans [OF good_trans [OF g1 g2]] show ?thesis .
qed

lemma execute_good:
  assumes "execute env pressure r = Inr (w, r')" and "run_inv r"
  shows "good_step env r r'"
proof -
  from assms(1) obtain r1 p r2 where
    1: "(if updated_taskhash_queue r \<noteq> [] \<or> pending_migrations r \<noteq> []
            then process_possible_migrations env r else Inr r) = Inr r1"
    and 2: "pick_setscene env r1 = Inr (p, r2)"
    and step: "(case p of
       Returned \<Rightarrow> Inr (False, r2)
     | NoPick \<Rightarrow> execute_tasks env pressure r2
     | Picked t \<Rightarrow>
         bindE (start_setscene env t r2) (\<lambda>(ret, r).
           if ret then Inr (False, r) else execute_tasks env pressure r)) = Inr (w, r')"
    by (auto simp: execute_def)
  have c: "core r2 = core r"
    using 1 pick_setscene_core [OF 2] by (auto split: if_splits dest: process_possible_migrations_core)
  have inv2: "run_inv r2" using run_inv_core [OF c assms(2)] .
  have "good_step env r2 r'"
  proof (cases p)
    case Returned
    with step show ?thesis by (simp add: good_step_def)
  next
    case NoPick
    with step inv2 show ?thesis by (auto intro: execute_tasks_good)
  next
    case (Picked t)
    with step obtain b r3 where 3: "start_setscene env t r2 = Inr (b, r3)"
      and s3: "(if b then Inr (False, r3) else execute_tasks env pressure r3) = Inr (w, r')" by auto
    have "can_start_task r2" using pick_setscene_can_start 2 Picked by simp
    from start_setscene_run [OF 3 this inv2] have i: "run_inv r3" "counted r3 = counted r2" "wake r2 r3" .
    then have g: "good_step env r2 r3" by (simp add: good_step_def)
    have "good_step env r3 r'"
      using s3 i execute_tasks_good by (auto simp: good_step_def split: if_splits)
    with g show ?thesis by (rule good_trans)
  qed
  with good_core [OF c] show ?thesis by (rule good_trans)
qed

lemma finish_core: "core (finish r) = core r" "core (finish_now r) = core r"
  by (simp_all add: finish_def finish_now_def Let_def)

lemma execute_runqueue_good:
  assumes "execute_runqueue env pressure r = Inr (w, r')" and "run_inv r"
  shows "good_step env r r'"
proof -
  from assms(1) obtain w1 r1 where
    1: "(if rq_state r = runQueueRunning then execute env pressure r else Inr (False, r)) = Inr (w1, r1)"
    and r': "core r' = core r1"
    by (auto simp: execute_runqueue_def finish_core split: if_splits)
  have "good_step env r r1"
    using 1 assms(2) execute_good by (auto simp: good_step_def split: if_splits)
  with good_core [OF r'] show ?thesis by (rule good_trans [rotated])
qed

lemma drop_stamp_core: "drop_stamp t r = Inr r' \<Longrightarrow> core r' = core r"
  by (auto simp: drop_stamp_def split: option.splits if_splits)

lemma waitpid_good:
  assumes run: "runqueue_process_waitpid env t status r = Inr r'" and inv: "run_inv r"
    and t: "t \<in> set (sq_live r) \<union> inflight r"
  shows "good_step env r r'"
proof -
  from run obtain r1 where 1: "drop_stamp t r = Inr r1"
    and step: "(if t \<in> set (sq_live r1) then
       bindE (if status \<noteq> 0 then sq_task_fail env t r1 else sq_task_complete env t r1) (\<lambda>r.
         if t \<in> set (sq_live r) then
           (let r = r\<lparr>sq_live := sremove t (sq_live r)\<rparr>
            in Inr (upd_stats (updateActiveSetscene (int (length (sq_live r)))) r))
         else Inl KeyError)
     else if status \<noteq> 0 then task_fail env t r1 else task_complete env t r1) = Inr r'"
    by (auto simp: runqueue_process_waitpid_def)
  have c: "core r1 = core r" using drop_stamp_core [OF 1] .
  have inv1: "run_inv r1" using run_inv_core [OF c inv] .
  have "good_step env r1 r'"
  proof (cases "t \<in> set (sq_live r1)")
    case True
    with step obtain r2 where
      2: "(if status \<noteq> 0 then sq_task_fail env t r1 else sq_task_complete env t r1) = Inr r2"
      and r': "core r' = core (r2\<lparr>sq_live := sremove t (sq_live r2)\<rparr>)"
      by (auto simp: Let_def split: if_splits)
    let ?r = "r2\<lparr>sq_live := sremove t (sq_live r2)\<rparr>"
    have c2: "core r2 = core r1"
      using 2 by (auto split: if_splits dest: sq_task_fail_core sq_task_complete_core)
    have "run_inv r2" using run_inv_core [OF c2 inv1] .
    moreover have "length (sremove t (sq_live r2)) \<le> length (sq_live r2)" by (simp add: sremove_def)
    ultimately have "run_inv ?r" by (simp add: run_inv_def capacity_def)
    moreover have "counted ?r = counted r2" by (simp add: counted_def)
    moreover have "wake r1 r2" using wake_core [OF c2] .
    moreover have "wake r2 ?r" by (rule wake_upd) simp_all
    ultimately have "good_step env r1 ?r" using counted_core [OF c2] wake_trans [of r1 r2 ?r]
      by (simp add: good_step_def)
    with good_core [OF r'] show ?thesis by (rule good_trans [rotated])
  next
    case False
    then have "t \<in> inflight r1"
      using t c inflight_cong [of r1 r] by (auto simp: core_eq)
    then have tr: "t \<in> set (runq_running r1)" "t \<in> set (runq_buildable r1)" and i: "rq_inv r1"
      using inv1 by (auto simp: run_inv_def rq_inv_def)
    note inv2 = i
    have card: "int (card (inflight r1 - {t})) = int (card (inflight r1)) - 1"
      using \<open>t \<in> inflight r1\<close> card_gt_0_iff [of "inflight r1"] by (auto simp: of_nat_diff)
    show ?thesis
    proof (cases "status = 0")
      case True
      with step False have 2: "task_complete env t r1 = Inr r'" by simp
      note i = task_complete_inv [OF 2 i tr(1)]
      show ?thesis using task_complete_run [OF 2 inv1 tr(1)] i card task_complete_wake [OF 2 inv2 tr(1)] by (simp add: good_step_def counted_def)
    next
      case n: False
      with step False have 2: "task_fail env t r1 = Inr r'" by simp
      note i = task_fail_inv [OF 2 i]
      show ?thesis using task_fail_run [OF 2 inv1 tr(2)] i card task_fail_wake [OF 2] by (simp add: good_step_def counted_def)
    qed
  qed
  with good_core [OF c] show ?thesis by (rule good_trans)
qed

section \<open>The first state\<close>

lemma unskip_step_calm: "unskip_step ss t (u, r) = Inr (u', r') \<Longrightarrow> calm r r'"
  by (auto simp: unskip_step_def entry_deps split: if_splits intro!: calm_setbuildable)

lemma unskip_round_calm:
  assumes "unskip_round ss un r = Inr (un', r')"
  shows "calm r r'"
proof -
  have "(\<lambda>(u, q). calm r q) (un', r')"
    using assms unfolding unskip_round_def
    by (rule foldE_invariant [where P = "\<lambda>(u, q). calm r q"])
      (auto dest: unskip_step_calm intro: calm_trans)
  then show ?thesis by simp
qed

lemma unskip_loop_calm: "unskip_loop ss un r = Inr (un', r') \<Longrightarrow> calm r r'"
proof (induction ss un r rule: unskip_loop.induct)
  case (1 ss un r)
  from 1(2) obtain u q where 2: "unskip_round ss un r = Inr (u, q)"
    and 3: "(if set u = set un then Inr (u, q) else unskip_loop ss u q) = Inr (un', r')"
    by (subst (asm) unskip_loop.simps) auto
  have "calm q r'"
  proof (cases "set u = set un")
    case False
    with 3 1(1) [OF 2 refl False] show ?thesis by simp
  qed (use 3 in simp)
  with unskip_round_calm [OF 2] show ?case by (rule calm_trans)
qed

lemma hash_tids_core: "hash_tids env r = Inr r' \<Longrightarrow> core r' = core r"
proof -
  assume "hash_tids env r = Inr r'"
  then have "foldE (\<lambda>mc. foldE (hash_step env mc) (sort (dkeys (sq_revdeps (sqd r)))))
       (sort (multiconfigs (sqd r)))
       (upd_sqd (\<lambda>q. q\<lparr>sq_noexec := [], stamppresent := [], sq_valid := [], sq_hashes := []\<rparr>) r\<lparr>sq_deferred := []\<rparr>)
       = Inr r'"
    by (simp add: hash_tids_def)
  then have "core r' = core (upd_sqd (\<lambda>q. q\<lparr>sq_noexec := [], stamppresent := [], sq_valid := [], sq_hashes := []\<rparr>) r\<lparr>sq_deferred := []\<rparr>)"
  proof (rule foldE_core)
    fix mc s t
    assume "foldE (hash_step env mc) (sort (dkeys (sq_revdeps (sqd r)))) s = Inr t"
    then show "core t = core s"
      by (rule foldE_core) (auto simp: hash_step_def split: if_splits option.splits)
  qed
  then show ?thesis by simp
qed

lemma find_unskippable_calm:
  assumes "find_unskippable env r = Inr r'"
  shows "calm r r'"
proof -
  from assms obtain un u q where 1: "unskip_loop (setscene_tids env) un r = Inr (u, q)"
    and r': "r' = (upd_sqd (\<lambda>q. q\<lparr>unskippable := u\<rparr>) q)
        \<lparr>tasks_scenequeue_done := sunion (tasks_scenequeue_done q) (sdiff u (setscene_tids env))\<rparr>"
    unfolding find_unskippable_def Let_def by (auto simp del: unskip_loop.simps simp: upd_sqd_def)
  from r' have "core r' = core q" by simp
  with unskip_loop_calm [OF 1] show ?thesis by (blast intro: calm_trans calm_core)
qed

lemma build_scenequeue_data_calm:
  assumes "build_scenequeue_data env r = Inr r'"
  shows "calm r r'"
proof -
  let ?r = "upd_sqd (\<lambda>q. q\<lparr>cantskip := sinter (sdiff (target_tids env) (setscene_tids env)) (dkeys (entries r))\<rparr>) r"
  from assms obtain r1 q b where 1: "find_unskippable env ?r = Inr r1"
    and 2: "hash_tids env (r1\<lparr>sqd := q, sq_buildable := b\<rparr>) = Inr r'"
    unfolding build_scenequeue_data_def Let_def by auto
  have "calm r ?r" by (intro calm_core) simp
  also have "calm ?r r1" using find_unskippable_calm [OF 1] .
  also have "calm r1 r'"
    using hash_tids_core [OF 2] by (intro calm_core) (simp add: core_def)
  finally show ?thesis .
qed

lemma make_sched_buildable: "make_sched env es name = Inr sc \<Longrightarrow> s_buildable sc = []"
  by (auto simp: make_sched_def sched_init_def split: if_splits)

lemma rqexe_fields_run:
  assumes "s_buildable sc = []" and "0 < n"
  shows "run_inv (rqexe_fields env es n sc files)" and "counted (rqexe_fields env es n sc files)"
    and "woken (rqexe_fields env es n sc files)"
  using assms by (simp_all add: run_inv_def rq_inv_def log_inv_def capacity_def counted_def inflight_def
      woken_def rqexe_fields_def RunQueueStats_def)

lemma RunQueueExecute_run:
  assumes "RunQueueExecute env d es files = Inr r"
  shows "run_inv r" and "counted r" and "deps_of (entries r) = deps_of es" and "dkeys (entries r) = dkeys es"
    and "revs_of (entries r) = revs_of es" and "st_total (rq_stats r) = int (length es)" and "woken r"
proof -
  define name where "name = (if truthy (d ''BB_SCHEDULER'') then the (d ''BB_SCHEDULER'') else ''speed'')"
  from assms [unfolded RunQueueExecute_def Let_def, folded name_def] obtain n where
    "(if n \<le> 0 then Inl (Fatal ''Invalid BB_NUMBER_THREADS'')
      else bindE (make_sched env es name) (\<lambda>sc.
           bindE (build_scenequeue_data env (rqexe_fields env es n sc files)) (\<lambda>r.
             update_scenequeue_data env (dkeys (sq_revdeps (sqd r))) True r))) = Inr r"
    by (rule bindE_InrE)
  then have n: "0 < n" and step: "bindE (make_sched env es name) (\<lambda>sc.
           bindE (build_scenequeue_data env (rqexe_fields env es n sc files)) (\<lambda>r.
             update_scenequeue_data env (dkeys (sq_revdeps (sqd r))) True r)) = Inr r"
    by (cases "n \<le> 0"; simp)+
  from step obtain sc r1 where sc: "make_sched env es name = Inr sc"
    and 1: "build_scenequeue_data env (rqexe_fields env es n sc files) = Inr r1"
    and 2: "update_scenequeue_data env (dkeys (sq_revdeps (sqd r1))) True r1 = Inr r"
    by blast
  let ?r = "rqexe_fields env es n sc files"
  have c: "calm ?r r"
    using build_scenequeue_data_calm [OF 1] calm_core [OF update_scenequeue_data_core [OF 2]]
    by (rule calm_trans)
  note i = rqexe_fields_run [OF make_sched_buildable [OF sc] n, of env es files]
  show "run_inv r" "counted r" using calm_run_inv [OF c i(1)] calm_counted [OF c] i(2) by auto
  show "woken r" using c i(3) by (simp add: calm_def)
  show "deps_of (entries r) = deps_of es" "dkeys (entries r) = dkeys es" "revs_of (entries r) = revs_of es"
    "st_total (rq_stats r) = int (length es)"
    using c by (auto simp: calm_def kept_def rqexe_fields_def RunQueueStats_def)
qed

lemma map_of_entry: "distinct (dkeys d) \<Longrightarrow> (t, e) \<in> set d \<Longrightarrow> map_of d t = Some e"
  by simp

lemma start_running_calm:
  assumes "distinct (dkeys (entries r))"
  shows "calm r (start_running env r)"
proof -
  let ?f = "\<lambda>(tid, e) r. let r = (if depends e = [] then setbuildable tid r else r)
                       in r\<lparr>tasks_notcovered := sadd tid (tasks_notcovered r)\<rparr>"
  have f: "\<forall>(t, e) \<in> set xs. deps_of (entries q) t = depends e \<Longrightarrow> calm q (fold ?f xs q)" for xs q
  proof (induction xs arbitrary: q)
    case (Cons x xs)
    obtain t e where x: "x = (t, e)" by fastforce
    have c: "calm q (?f x q)"
    proof -
      have "calm q (if depends e = [] then setbuildable t q else q)"
        using Cons.prems by (auto simp: x intro: calm_setbuildable)
      also have "calm \<dots> (?f x q)" by (intro calm_core) (simp add: x Let_def)
      finally show ?thesis .
    qed
    then have "deps_of (entries (?f x q)) = deps_of (entries q)" by (simp add: calm_def kept_def)
    with Cons.prems have "\<forall>(t, e) \<in> set xs. deps_of (entries (?f x q)) t = depends e" by simp
    from calm_trans [OF c Cons.IH [OF this]] show ?case by simp
  qed simp
  have "\<forall>(t, e) \<in> set (entries r). deps_of (entries r) t = depends e"
    using map_of_entry [OF assms] by (auto simp: deps_of_def)
  note f = f [OF this]
  show ?thesis
  proof (cases "setscene_tids env = []")
    case True
    have "calm r (fold ?f (entries r) r)" using f .
    also have "calm \<dots> (start_running env r)"
      using True by (intro calm_core) (simp add: start_running_def)
    finally show ?thesis .
  next
    case False
    then show ?thesis by (intro calm_core) (simp add: start_running_def)
  qed
qed

section \<open>Reachable states\<close>

text \<open>
  \<open>rq_reach P es r\<close>: \<open>r\<close> is reachable in a build of the tasks \<open>es\<close> with environments that satisfy
  \<open>P\<close>; the environment (the answers of everything outside the model) may be another one in
  every step.  A step is a call of the main loop, the result of a worker for a task in its
  hands, a hash from the hash equivalence server, a change of the file system, or the end of
  the build by the user.
\<close>

inductive rq_reach :: "(rq_env \<Rightarrow> bool) \<Rightarrow> entries \<Rightarrow> rqexe \<Rightarrow> bool" for P es where
  init: "rq_reach P es (start_running env r)"
    if "P env" "distinct (dkeys es)" "RunQueueExecute env d es files = Inr r"
| loop: "rq_reach P es r'"
    if "rq_reach P es r" "P env" "execute_runqueue env pressure r = Inr (w, r')"
| result: "rq_reach P es r'"
    if "rq_reach P es r" "P env" "t \<in> set (sq_live r) \<union> inflight r"
      "runqueue_process_waitpid env t status r = Inr r'"
| hashes: "rq_reach P es (r\<lparr>updated_taskhash_queue := q\<rparr>)" if "rq_reach P es r"
| files: "rq_reach P es (r\<lparr>fs := f\<rparr>)" if "rq_reach P es r"
| stop: "rq_reach P es (finish r)" if "rq_reach P es r"
| stop_now: "rq_reach P es (finish_now r)" if "rq_reach P es r"

lemma rq_reach_run_inv: "rq_reach P es r \<Longrightarrow> run_inv r"
proof (induction rule: rq_reach.induct)
  case (init env d files r)
  note x = RunQueueExecute_run [OF init(3)]
  have "calm r (start_running env r)" using init(2) x(4) by (intro start_running_calm) simp
  from calm_run_inv [OF this x(1)] show ?case .
next
  case (loop r env pressure w r')
  from execute_runqueue_good [OF loop(3) loop.IH] loop.IH show ?case by (simp add: good_step_def)
next
  case (result r env t status r')
  from waitpid_good [OF result(4) result.IH result(3)] result.IH show ?case by (simp add: good_step_def)
qed (auto intro: run_inv_core simp: finish_core)

lemma counted_step: "core r' = core r \<Longrightarrow> counted r \<Longrightarrow> counted r'"
  using counted_core by blast

lemma rq_reach_counted:
  assumes "rq_reach P es r" and P: "\<And>env. P env \<Longrightarrow> plain env"
  shows "counted r"
  using assms(1)
proof (induction rule: rq_reach.induct)
  case (init env d files r)
  note x = RunQueueExecute_run [OF init(3)]
  have "calm r (start_running env r)" using init(2) x(4) by (intro start_running_calm) simp
  from calm_counted [OF this] x(2) show ?case by simp
next
  case (loop r env pressure w r')
  with execute_runqueue_good [OF loop(3) rq_reach_run_inv [OF loop(1)]] rq_reach_run_inv [OF loop(1)] P
  show ?case by (simp add: good_step_def)
next
  case (result r env t status r')
  with waitpid_good [OF result(4) rq_reach_run_inv [OF result(1)] result(3)] rq_reach_run_inv [OF result(1)] P
  show ?case by (simp add: good_step_def)
qed (auto intro: counted_step simp: finish_core)

lemma rq_reach_static:
  assumes "rq_reach P es r"
  shows "dkeys (entries r) = dkeys es \<and> deps_of (entries r) = deps_of es \<and>
    revs_of (entries r) = revs_of es \<and> st_total (rq_stats r) = int (length es)"
  using assms
proof (induction rule: rq_reach.induct)
  case (init env d files r)
  note x = RunQueueExecute_run [OF init(3)]
  have "calm r (start_running env r)" using init(2) x(4) by (intro start_running_calm) simp
  then have "static (start_running env r) = static r" using wake_calm by (simp add: wake_def)
  with x show ?case by (simp add: static_def)
next
  case (loop r env pressure w r')
  with execute_runqueue_good [OF loop(3) rq_reach_run_inv [OF loop(1)]] rq_reach_run_inv [OF loop(1)]
  have "static r' = static r" by (simp add: good_step_def wake_def)
  with loop show ?case by (simp add: static_def)
next
  case (result r env t status r')
  with waitpid_good [OF result(4) rq_reach_run_inv [OF result(1)] result(3)] rq_reach_run_inv [OF result(1)]
  have "static r' = static r" by (simp add: good_step_def wake_def)
  with result show ?case by (simp add: static_def)
next
  case (stop r)
  from wake_core [OF finish_core(1) [of r]] have "static (finish r) = static r" by (simp add: wake_def)
  with stop show ?case by (simp add: static_def)
qed (simp_all add: finish_now_def)

lemma rq_reach_woken:
  assumes "rq_reach P es r"
    and "\<And>t d. t \<in> set (dkeys es) \<Longrightarrow> d \<in> set (deps_of es t) \<Longrightarrow> t \<in> set (revs_of es d)"
  shows "woken r"
  using assms(1)
proof (induction rule: rq_reach.induct)
  case (init env d files r)
  note x = RunQueueExecute_run [OF init(3)]
  have "calm r (start_running env r)" using init(2) x(4) by (intro start_running_calm) simp
  with x show ?case by (simp add: calm_def)
next
  case (loop r env pressure w r')
  have "rev_ok r" using assms(2) rq_reach_static [OF loop(1)] by (simp add: rev_ok_def)
  with loop execute_runqueue_good [OF loop(3) rq_reach_run_inv [OF loop(1)]] rq_reach_run_inv [OF loop(1)]
  show ?case by (simp add: good_step_def wake_def)
next
  case (result r env t status r')
  have "rev_ok r" using assms(2) rq_reach_static [OF result(1)] by (simp add: rev_ok_def)
  with result waitpid_good [OF result(4) rq_reach_run_inv [OF result(1)] result(3)]
    rq_reach_run_inv [OF result(1)]
  show ?case by (simp add: good_step_def wake_def)
next
  case (hashes r q)
  then show ?case using woken_core [of "r\<lparr>updated_taskhash_queue := q\<rparr>" r] by simp
next
  case (files r f)
  then show ?case using woken_core [of "r\<lparr>fs := f\<rparr>" r] by simp
next
  case (stop r)
  then show ?case using woken_core [OF finish_core(1)] by simp
next
  case (stop_now r)
  then show ?case using woken_core [OF finish_core(2)] by simp
qed

end
