(* ===== verification/DemoBuild.thy ===== *)
theory DemoBuild
  imports RunReach
begin

text \<open>
  A build of three tasks, \<open>a:fetch\<close>, \<open>a:package\<close> and \<open>a:build\<close>, each after the one before, on
  which the properties of the run queue are evaluated: without setscene tasks, and with
  \<open>a:package\<close> as a setscene task, which covers \<open>a:fetch\<close>.
\<close>

definition build_entries :: entries where
  "build_entries =
     [(''a:fetch'', RunTaskEntry\<lparr>revdeps := [''a:package''], weight := 12, hash := Some ''1'', unihash := Some ''1''\<rparr>),
      (''a:package'', RunTaskEntry\<lparr>depends := [''a:fetch''], revdeps := [''a:build''], weight := 11,
        hash := Some ''2'', unihash := Some ''2''\<rparr>),
      (''a:build'', RunTaskEntry\<lparr>depends := [''a:package''], weight := 10, hash := Some ''3'',
        unihash := Some ''3''\<rparr>)]"

definition demo_cache :: cache where
  "demo_cache = cache_init\<lparr>task_deps_of := [(''a'', \<lparr>td_tasks = [''fetch'', ''package'', ''build''], td_parents = [], td_flags = []\<rparr>)],
     pkg_fn := [(''a'', ''a'')], hashfn := [(''a'', ''h'')]\<rparr>"

definition demo_env :: "tid list \<Rightarrow> rq_env" where
  "demo_env setscene =
     \<lparr>caches = [('''', demo_cache)],
      taskdatas = [('''', (TaskData True [] False)
        \<lparr>taskentries := [(''a:package_setscene'', TaskEntry)]\<rparr>)],
      setscene_tids = setscene, target_tids = [''a:build''], setscene_enforce = False,
      ignore_tasks = None, cfg_force = False, cfg_skipsetscene = False, cfg_setsceneonly = False,
      cfg_dry_run = False,
      stampfile = (\<lambda>es taskname taskfn extra. taskfn @ ''.'' @ taskname),
      make_stamp = (\<lambda>taskname taskfn files. files((taskfn @ ''.'' @ taskname) \<mapsto> 1)),
      hashvalidate = True, validate_hash = (\<lambda>data n siginfo summary. map fst data),
      depvalidate = None, glob_match = (=), number_threads = (\<lambda>_. None),
      fakeworker_starts = (\<lambda>_. True), get_taskhash = (\<lambda>es tid ds. tid),
      get_unihashes = (\<lambda>es ts. ts), rec_limit = 5\<rparr>"

definition demo_var :: getvar where
  "demo_var = (\<lambda>_. None)"

definition demo_files :: "string \<Rightarrow> int option" where
  "demo_files = (\<lambda>_. None)"

definition the_state :: "pyerr + rqexe \<Rightarrow> rqexe" where
  "the_state m = (case m of Inr r \<Rightarrow> r | Inl e \<Rightarrow> rqexe_fields (demo_env []) [] 0
     \<lparr>s_prio_map = Order [], s_buildable = [], s_skip_maxthread = [], s_stamps = [], s_rev_prio_map = []\<rparr>
     demo_files)"

definition ran :: "pyerr + 'a \<Rightarrow> bool" where
  "ran m = (case m of Inl e \<Rightarrow> False | Inr x \<Rightarrow> True)"

text \<open>Steps of a build, with the same environment in each, and the states they lead to.\<close>

datatype demo_step = Loop | Result tid int

fun do_step :: "rq_env \<Rightarrow> demo_step \<Rightarrow> rqexe \<Rightarrow> pyerr + rqexe" where
  "do_step env Loop r = bindE (execute_runqueue env False r) (\<lambda>(w, r). Inr r)"
| "do_step env (Result t status) r =
     (if t \<in> set (sq_live r) \<or> t \<in> inflight r then runqueue_process_waitpid env t status r else Inr r)"

definition run_build :: "rq_env \<Rightarrow> getvar \<Rightarrow> entries \<Rightarrow> demo_step list \<Rightarrow> pyerr + rqexe" where
  "run_build env d es steps =
     bindE (RunQueueExecute env d es demo_files) (\<lambda>r.
       foldE (do_step env) steps (start_running env r))"

definition demo_run :: "tid list \<Rightarrow> demo_step list \<Rightarrow> pyerr + rqexe" where
  "demo_run setscene steps = run_build (demo_env setscene) demo_var build_entries steps"

definition demo_state :: "tid list \<Rightarrow> demo_step list \<Rightarrow> rqexe" where
  "demo_state setscene steps = the_state (demo_run setscene steps)"

lemma do_step_reach:
  assumes "rq_reach P es r" and "P env" and "do_step env s r = Inr r'"
  shows "rq_reach P es r'"
proof (cases s)
  case Loop
  with assms show ?thesis by (auto intro: rq_reach.loop)
next
  case (Result t status)
  show ?thesis
  proof (cases "t \<in> set (sq_live r) \<or> t \<in> inflight r")
    case True
    then show ?thesis using assms Result rq_reach.result [OF assms(1,2), of t status r'] by auto
  next
    case False
    with assms Result show ?thesis by simp
  qed
qed

lemma run_build_reach:
  assumes "ran (run_build env d es steps)" and "P env" and "distinct (dkeys es)"
  shows "rq_reach P es (the_state (run_build env d es steps))"
proof -
  from assms(1) obtain r where run: "run_build env d es steps = Inr r" by (auto simp: ran_def split: sum.splits)
  then obtain r0 where "RunQueueExecute env d es demo_files = Inr r0"
    and f: "foldE (do_step env) steps (start_running env r0) = Inr r"
    by (auto simp: run_build_def)
  then have "rq_reach P es (start_running env r0)" using assms(2,3) rq_reach.init by blast
  then have "rq_reach P es r"
    by (intro foldE_invariant [OF f, where P = "rq_reach P es"])
      (use do_step_reach [where P = P and env = env] assms(2) in auto)
  then show ?thesis by (simp add: the_state_def run)
qed

lemma demo_reach:
  assumes "ran (demo_run setscene steps)" and "P (demo_env setscene)"
  shows "rq_reach P build_entries (demo_state setscene steps)"
proof -
  have d: "distinct (dkeys build_entries)" by code_simp
  from run_build_reach [OF assms(1) [unfolded demo_run_def], where P = P, OF assms(2) d]
  show ?thesis by (simp add: demo_state_def demo_run_def)
qed

text \<open>The whole build without setscene tasks.\<close>

definition demo_steps :: "demo_step list" where
  "demo_steps = [Loop, Result ''a:fetch'' 0, Loop, Result ''a:package'' 0, Loop, Result ''a:build'' 0, Loop]"

lemma demo_ran: "ran (demo_run [] demo_steps)"
  by code_simp

end
