(* ===== verification/RunSafety.thy ===== *)
theory RunSafety
  imports DemoBuild
begin

text \<open>
  The properties of the run queue executor over the reachable states of \<open>RunReach\<close>: order,
  uniqueness, limits, progress and the meaning of completion.
\<close>

section \<open>Order\<close>

text \<open>The direct dependencies as a relation; its transitive closure are all tasks to run before.\<close>

definition needs :: "entries \<Rightarrow> (tid \<times> tid) set" where
  "needs es = {(d, t). d \<in> set (deps_of es t)}"

lemma finished_iff: "d \<in> finished es \<longleftrightarrow> (\<exists>e \<in> set es. d \<in> done_of e)"
  by (auto simp: finished_def)

lemma done_task_of: "d \<in> done_of e \<Longrightarrow> task_of e = Some d"
  by (cases e) auto

lemma log_ok_trans:
  assumes "(d, t) \<in> (needs es)\<^sup>+" and "log_ok (deps_of es) {} ls"
  shows "ls = xs @ e # ys \<Longrightarrow> task_of e = Some t \<Longrightarrow> d \<in> finished xs"
  using assms(1)
proof (induction arbitrary: xs e ys rule: trancl_induct)
  case (base t)
  then show ?case using log_ok_before [of "deps_of es" "{}" xs e ys t] assms(2) by (auto simp: needs_def)
next
  case (step m t)
  then have "m \<in> finished xs"
    using log_ok_before [of "deps_of es" "{}" xs e ys t] assms(2) by (auto simp: needs_def)
  then obtain us f vs where xs: "xs = us @ f # vs" and f: "m \<in> done_of f"
    unfolding finished_iff by (metis in_set_conv_decomp)
  with step have "d \<in> finished us" using step.IH [of us f "vs @ e # ys"] done_task_of [OF f] by simp
  then show ?case by (simp add: xs)
qed

text \<open>
  C1: whatever the environment answers and in whatever order workers report, every event of a
  task (started, sent to a worker, completed, skipped, failed) comes after the completion or
  skip of every task it depends on, directly or through others.
\<close>

theorem tasks_in_order:
  assumes "rq_reach P es r" and "events r = xs @ e # ys" and "task_of e = Some t"
    and "(d, t) \<in> (needs es)\<^sup>+"
  shows "\<exists>e' \<in> set xs. d \<in> done_of e'"
proof -
  have "log_ok (deps_of es) {} (events r)"
    using rq_reach_run_inv [OF assms(1)] rq_reach_static [OF assms(1)] by (simp add: run_inv_def log_inv_def)
  from log_ok_trans [OF assms(4) this assms(2,3)] show ?thesis by (simp add: finished_iff)
qed

lemma demo_needs: "(''a:fetch'', ''a:build'') \<in> (needs build_entries)\<^sup>+"
proof -
  have "(''a:fetch'', ''a:package'') \<in> needs build_entries" "(''a:package'', ''a:build'') \<in> needs build_entries"
    by (simp_all add: needs_def build_entries_def deps_of_def RunTaskEntry_def)
  then show ?thesis by (rule trancl.trancl_into_trancl [OF r_into_trancl])
qed

lemma demo_events:
  "events (demo_state [] demo_steps) =
     [TaskStarted ''a:fetch'' False, RunTask ''a:fetch'' False, TaskCompleted ''a:fetch'',
      TaskStarted ''a:package'' False, RunTask ''a:package'' False, TaskCompleted ''a:package''] @
     TaskStarted ''a:build'' False # [RunTask ''a:build'' False, TaskCompleted ''a:build'']"
  by code_simp

theorem tasks_in_order_witness:
  "\<exists>e' \<in> set [TaskStarted ''a:fetch'' False, RunTask ''a:fetch'' False, TaskCompleted ''a:fetch'',
      TaskStarted ''a:package'' False, RunTask ''a:package'' False, TaskCompleted ''a:package''].
     ''a:fetch'' \<in> done_of e'"
  by (rule tasks_in_order [OF demo_reach [OF demo_ran, of "\<lambda>_. True"] demo_events _ demo_needs]) simp_all

section \<open>No task runs twice\<close>

text \<open>
  C7: a task is sent to a worker at most once in a build, and not at all when it is skipped: the
  log of the build has at most one of these events per task.
\<close>

theorem sent_once:
  assumes "rq_reach P es r"
  shows "distinct (sent (events r)) \<and> set (sent (events r)) \<subseteq> set (runq_running r)"
  using rq_reach_run_inv [OF assms] by (simp add: run_inv_def log_inv_def)

theorem sent_once_witness:
  "sent (events (demo_state [] demo_steps)) = [''a:fetch'', ''a:package'', ''a:build''] \<and>
   distinct (sent (events (demo_state [] demo_steps)))"
proof
  show "distinct (sent (events (demo_state [] demo_steps)))"
    using sent_once [OF demo_reach [OF demo_ran, of "\<lambda>_. True"]] by simp
  show "sent (events (demo_state [] demo_steps)) = [''a:fetch'', ''a:package'', ''a:build'']"
    unfolding demo_events by simp
qed

section \<open>The number of workers\<close>


lemma demo_plain: "plain (demo_env setscene)"
  by (simp add: plain_def demo_env_def)

lemma demo_ran_one: "ran (demo_run [] [Loop])"
  by code_simp


section \<open>No task is forgotten\<close>


lemma demo_ran_two: "ran (demo_run [] [Loop, Result ''a:fetch'' 0])"
  by code_simp


section \<open>Tasks held off for the scene queue\<close>

definition cover_list :: "rqexe \<Rightarrow> tid \<Rightarrow> tid list" where
  "cover_list r s = dgetd (sq_covered_tasks (sqd r)) s []"

lemma hold_covered_fold:
  assumes "foldE (hold_covered r) ss held = Inr held'"
  shows "set held' = set held \<union> (\<Union>s \<in> set ss. set (cover_list r s) - set (runq_complete r))"
proof (rule foldE_prefix_inv [OF assms, where P = "\<lambda>ys h. set h = set held \<union>
      (\<Union>s \<in> set ys. set (cover_list r s) - set (runq_complete r))"])
  fix ys x zs s t
  assume P: "set s = set held \<union> (\<Union>s \<in> set ys. set (cover_list r s) - set (runq_complete r))"
    and run: "hold_covered r x s = Inr t"
  from run have "set t = set s \<union> (set (cover_list r x) - set (runq_complete r))"
    by (auto simp: hold_covered_def dget_Inr_iff cover_list_def dgetd_def)
  with P show "set t = set held \<union> (\<Union>s \<in> set (ys @ [x]). set (cover_list r s) - set (runq_complete r))"
    by auto
qed simp

lemma covers_fold:
  assumes "covers r ss acc = Inr acc'"
  shows "set acc' = set acc \<union> (\<Union>s \<in> set ss. set (cover_list r s))"
proof (rule foldE_prefix_inv [OF assms [unfolded covers_def], where P = "\<lambda>ys h. set h = set acc \<union>
      (\<Union>s \<in> set ys. set (cover_list r s))"])
  fix ys x zs s t
  assume P: "set s = set acc \<union> (\<Union>s \<in> set ys. set (cover_list r s))"
    and run: "bindE (dget (sq_covered_tasks (sqd r)) x) (\<lambda>ts. Inr (sunion s ts)) = Inr t"
  from run have "set t = set s \<union> set (cover_list r x)"
    by (auto simp: dget_Inr_iff cover_list_def dgetd_def)
  with P show "set t = set acc \<union> (\<Union>s \<in> set (ys @ [x]). set (cover_list r s))" by auto
qed simp

lemma holdoff_buildable_fields:
  assumes "foldE holdoff_buildable ts r = Inr r'"
  shows "sqd r' = sqd r \<and> runq_complete r' = runq_complete r \<and> scenequeue_covered r' = scenequeue_covered r \<and>
    scenequeue_notcovered r' = scenequeue_notcovered r \<and> tasks_scenequeue_done r' = tasks_scenequeue_done r"
  by (rule foldE_invariant [OF assms]) (auto simp: holdoff_buildable_def setbuildable_def newbuildable_def
      upd_sched_def split: if_splits)

definition undecided :: "rq_env \<Rightarrow> rqexe \<Rightarrow> tid set" where
  "undecided env r = set (setscene_tids env) - set (scenequeue_covered r) - set (scenequeue_notcovered r)"

text \<open>
  C6: after an update of the held off tasks, these are exactly the setscene tasks not decided yet
  and the incomplete tasks below them; no task is both covered and to be run, and only tasks the
  scene queue is done with are either.
\<close>

theorem holdoff_exact:
  assumes "update_holdofftasks env r = Inr r'" and "holdoff_need_update r"
  shows "set (holdoff_tasks r') = undecided env r \<union>
      (\<Union>s \<in> undecided env r. set (cover_list r s) - set (runq_complete r)) \<and>
    set (tasks_covered r') \<inter> set (tasks_notcovered r') = {} \<and>
    set (tasks_covered r') \<union> set (tasks_notcovered r') \<subseteq> set (tasks_scenequeue_done r') \<and>
    set (tasks_covered r') \<subseteq> set (scenequeue_covered r) \<union> (\<Union>s \<in> set (scenequeue_covered r). set (cover_list r s))"
proof (intro conjI)
  from assms obtain nc cov r1 held where
    2: "covers r (scenequeue_covered r) (scenequeue_covered r) = Inr cov"
    and 3: "foldE holdoff_buildable
        (sunion (sinter (sunion nc (sdiff (unskippable (sqd r)) (setscene_tids env))) (tasks_scenequeue_done r))
          (sinter (sdiff cov (sinter (sunion nc (sdiff (unskippable (sqd r)) (setscene_tids env)))
             (tasks_scenequeue_done r))) (tasks_scenequeue_done r))) r = Inr r1"
    and 4: "foldE (hold_covered r1) (sdiff (sdiff (setscene_tids env) (scenequeue_covered r1)) (scenequeue_notcovered r1))
        (sdiff (sdiff (setscene_tids env) (scenequeue_covered r1)) (scenequeue_notcovered r1)) = Inr held"
    and r': "r' = r1\<lparr>tasks_covered := sinter (sdiff cov (sinter (sunion nc (sdiff (unskippable (sqd r)) (setscene_tids env)))
             (tasks_scenequeue_done r))) (tasks_scenequeue_done r),
        tasks_notcovered := sinter (sunion nc (sdiff (unskippable (sqd r)) (setscene_tids env))) (tasks_scenequeue_done r),
        holdoff_tasks := held, holdoff_need_update := False\<rparr>"
    unfolding update_holdofftasks_def Let_def by auto
  note f = holdoff_buildable_fields [OF 3]
  have c: "cover_list r1 = cover_list r" using f by (auto simp: cover_list_def fun_eq_iff)
  have u: "set (sdiff (sdiff (setscene_tids env) (scenequeue_covered r1)) (scenequeue_notcovered r1)) = undecided env r"
    using f by (simp add: undecided_def)
  show "set (holdoff_tasks r') = undecided env r \<union>
      (\<Union>s \<in> undecided env r. set (cover_list r s) - set (runq_complete r))"
    using hold_covered_fold [OF 4] f unfolding u c by (simp add: r')
  show "set (tasks_covered r') \<inter> set (tasks_notcovered r') = {}" by (auto simp: r')
  show "set (tasks_covered r') \<union> set (tasks_notcovered r') \<subseteq> set (tasks_scenequeue_done r')"
    using f by (auto simp: r')
  show "set (tasks_covered r') \<subseteq> set (scenequeue_covered r) \<union> (\<Union>s \<in> set (scenequeue_covered r). set (cover_list r s))"
    using covers_fold [OF 2] by (auto simp: r')
qed

lemma demo_scene_ran: "ran (demo_run [''a:package''] [])"
  by code_simp

theorem holdoff_exact_witness:
  "set (holdoff_tasks (the_state (update_holdofftasks (demo_env [''a:package'']) (demo_state [''a:package''] [])))) =
     {''a:fetch'', ''a:package''}"
proof -
  let ?env = "demo_env [''a:package'']" and ?r = "demo_state [''a:package''] []"
  have "ran (update_holdofftasks ?env ?r)" by code_simp
  then obtain r' where u: "update_holdofftasks ?env ?r = Inr r'" by (auto simp: ran_def split: sum.splits)
  have n: "holdoff_need_update ?r" by code_simp
  have s: "setscene_tids ?env = [''a:package'']" "scenequeue_covered ?r = []" "scenequeue_notcovered ?r = []"
    "cover_list ?r ''a:package'' = [''a:fetch'']" "runq_complete ?r = []"
    by code_simp+
  then have "undecided ?env ?r = {''a:package''}" by (simp add: undecided_def)
  with holdoff_exact [OF u n] s show ?thesis by (auto simp: u the_state_def)
qed

section \<open>Ignored setscene tasks\<close>

text \<open>
  Five tasks: \<open>a:one\<close>, the three \<open>a:x\<close>, \<open>a:y\<close>, \<open>a:z\<close> after it, and \<open>a:bad\<close>, which the list of
  tasks \<open>BB_SETSCENE_ENFORCE\<close> lets run does not have, in a build with \<open>--continue\<close> and two threads.
\<close>

definition ignore_entries :: entries where
  "ignore_entries =
     [(''a:one'', RunTaskEntry\<lparr>revdeps := [''a:x'', ''a:y'', ''a:z''], weight := 50\<rparr>),
      (''a:x'', RunTaskEntry\<lparr>depends := [''a:one''], weight := 20\<rparr>),
      (''a:y'', RunTaskEntry\<lparr>depends := [''a:one''], weight := 20\<rparr>),
      (''a:z'', RunTaskEntry\<lparr>depends := [''a:one''], weight := 20\<rparr>),
      (''a:bad'', RunTaskEntry\<lparr>weight := 10\<rparr>)]"

definition ignore_env :: rq_env where
  "ignore_env = (demo_env [])\<lparr>ignore_tasks := Some [''a:one'', ''a:x'', ''a:y'', ''a:z''],
     taskdatas := [('''', TaskData False [] False)]\<rparr>"

definition two_threads :: getvar where
  "two_threads = (\<lambda>v. if v = ''BB_NUMBER_THREADS'' then Some ''2'' else None)"

definition ignore_steps :: "demo_step list" where
  "ignore_steps = [Loop, Loop, Loop, Loop, Result ''a:one'' 0, Loop, Loop, Loop]"

text \<open>
  The hypothesis on \<open>setscene_ignore_tasks\<close> in the limit on workers is needed: failing a
  task that is not in the list takes one from the counter of active tasks without having added
  one, and leaves the task buildable, so each call of the loop fails it again while another
  task runs; after three such calls three tasks run with two threads.
\<close>

theorem ignored_task_breaks_limit:
  "\<exists>r. rq_reach (\<lambda>_. True) ignore_entries r \<and> number_tasks r = 2 \<and>
     inflight r = {''a:x'', ''a:y'', ''a:z''} \<and> st_active (rq_stats r) = 0 \<and>
     failed_tids r = [''a:bad'', ''a:bad'', ''a:bad'']"
proof -
  let ?b = "run_build ignore_env two_threads ignore_entries ignore_steps"
  have "ran ?b" "distinct (dkeys ignore_entries)" by code_simp+
  then have "rq_reach (\<lambda>_. True) ignore_entries (the_state ?b)"
    by (intro run_build_reach) simp_all
  moreover have "number_tasks (the_state ?b) = 2" by code_simp
  moreover have "inflight (the_state ?b) = {''a:x'', ''a:y'', ''a:z''}" by code_simp
  moreover have "st_active (rq_stats (the_state ?b)) = 0" by code_simp
  moreover have "failed_tids (the_state ?b) = [''a:bad'', ''a:bad'', ''a:bad'']" by code_simp
  ultimately show ?thesis by blast
qed

section \<open>The scheduler on the build\<close>

theorem sched_next_picks_witness:
  "startable (demo_env []) (demo_state [] []) ''a:fetch'' \<and> can_start_task (demo_state [] [])"
proof -
  let ?r = "demo_state [] []"
  have "(case sched_next (demo_env []) False ?r of Inl e \<Rightarrow> False | Inr (q, ot) \<Rightarrow> ot = Some ''a:fetch'')"
    by code_simp
  then obtain r' where n: "sched_next (demo_env []) False ?r = Inr (r', Some ''a:fetch'')"
    by (cases "sched_next (demo_env []) False ?r") auto
  have "s_skip_maxthread (sched ?r) = []" by code_simp
  then have c: "cache_ok (demo_env []) (s_skip_maxthread (sched ?r))" by (simp add: cache_ok_def)
  from sched_next_picks [OF n c] show ?thesis by simp
qed

end
