(* ===== verification/PrepareProps.thy ===== *)
theory PrepareProps
  imports Prepare
begin

text \<open>
  Properties of \<open>RunQueueData.prepare\<close>: what step B marks is what the targets need, the pruned
  graph has the dependencies of its tasks, the hashes are computed in dependency order, and the
  loops reported for a circular graph are loops of it.
\<close>

section \<open>Marking active tasks\<close>

definition reach_from :: "entries \<Rightarrow> tid \<Rightarrow> tid set" where
  "reach_from es t = {d. (t, d) \<in> {(s, d). d \<in> set (deps_of es s)}\<^sup>*}"

lemma reach_refl [simp]: "t \<in> reach_from es t"
  by (simp add: reach_from_def)

lemma reach_dep: "d \<in> set (deps_of es t) \<Longrightarrow> reach_from es d \<subseteq> reach_from es t"
  by (auto simp: reach_from_def intro: converse_rtrancl_into_rtrancl)

lemma reach_closed:
  assumes "t \<in> B" and "\<And>s. s \<in> B \<Longrightarrow> set (deps_of es s) \<subseteq> B"
  shows "reach_from es t \<subseteq> B"
proof
  fix d
  assume "d \<in> reach_from es t"
  then have "(t, d) \<in> {(s, d). d \<in> set (deps_of es s)}\<^sup>*" by (simp add: reach_from_def)
  then show "d \<in> B" by (induction rule: rtrancl_induct) (use assms in auto)
qed

text \<open>One call adds the task, and what it adds is closed except for tasks marked before.\<close>

definition marks :: "entries \<Rightarrow> tid list \<Rightarrow> tid set \<Rightarrow> tid list \<Rightarrow> bool" where
  "marks es B T B' \<longleftrightarrow> set B \<union> T \<subseteq> set B' \<and> set B' \<subseteq> set B \<union> (\<Union>t \<in> T. reach_from es t) \<and>
     (\<forall>s \<in> set B' - set B. set (deps_of es s) \<subseteq> set B') \<and> (distinct B \<longrightarrow> distinct B')"

lemma marks_fold:
  assumes "foldE f ts B = Inr B'" and "\<And>t B B'. t \<in> set ts \<Longrightarrow> f t B = Inr B' \<Longrightarrow> marks es B {t} B'"
  shows "marks es B (set ts) B'"
proof (rule foldE_prefix_inv [OF assms(1), where P = "\<lambda>ys C. marks es B (set ys) C"])
  fix ys x zs s t
  assume ts: "ts = ys @ x # zs" and P: "marks es B (set ys) s" and run: "f x s = Inr t"
  have "marks es s {x} t" using assms(2) [OF _ run] ts by simp
  with P show "marks es B (set (ys @ [x])) t" unfolding marks_def by (auto; blast)
qed (simp add: marks_def)

lemma mark_active_marks: "mark_active n es t B = Inr B' \<Longrightarrow> marks es B {t} B'"
proof (induction n arbitrary: t B B')
  case (Suc n)
  show ?case
  proof (cases "t \<in> set B")
    case True
    with Suc.prems show ?thesis by (auto simp: marks_def)
  next
    case False
    with Suc.prems obtain e where e: "map_of es t = Some e"
      and f: "foldE (mark_active n es) (depends e) (B @ [t]) = Inr B'"
      by (auto simp: dget_Inr_iff)
    have d: "deps_of es t = depends e" using e by (simp add: deps_of_def)
    have m: "marks es (B @ [t]) (set (depends e)) B'"
      using f by (rule marks_fold) (rule Suc.IH)
    have r: "(\<Union>x \<in> set (depends e). reach_from es x) \<subseteq> reach_from es t" "t \<in> reach_from es t"
      using reach_dep [of _ es t] d by auto
    have b: "set B \<subseteq> set B'" "t \<in> set B'" "set (depends e) \<subseteq> set B'"
      "set B' \<subseteq> insert t (set B) \<union> (\<Union>x \<in> set (depends e). reach_from es x)"
      "\<forall>s \<in> set B' - insert t (set B). set (deps_of es s) \<subseteq> set B'"
      "distinct (B @ [t]) \<longrightarrow> distinct B'"
      using m unfolding marks_def by auto
    have "set B' \<subseteq> set B \<union> reach_from es t" using b(4) r by blast
    moreover have "\<forall>s \<in> set B' - set B. set (deps_of es s) \<subseteq> set B'"
    proof
      fix s
      assume "s \<in> set B' - set B"
      then show "set (deps_of es s) \<subseteq> set B'" using b(3,5) d by (cases "s = t") auto
    qed
    ultimately show ?thesis using b(1,2,6) False by (simp add: marks_def)
  qed
qed simp

lemma mark_active_total:
  assumes closed: "\<And>s. s \<in> set (dkeys es) \<Longrightarrow> set (deps_of es s) \<subseteq> set (dkeys es)"
  shows "t \<in> set (dkeys es) \<Longrightarrow> card (set (dkeys es) - set B) < n \<Longrightarrow> \<exists>B'. mark_active n es t B = Inr B'"
proof (induction n arbitrary: t B)
  case (Suc n)
  show ?case
  proof (cases "t \<in> set B")
    case False
    from Suc.prems(1) obtain e where e: "dget es t = Inr e" "deps_of es t = depends e"
      by (auto simp: din_iff dget_Inr_iff deps_of_def)
    have "set (dkeys es) - set (B @ [t]) \<subset> set (dkeys es) - set B" using False Suc.prems(1) by auto
    then have lt: "card (set (dkeys es) - set (B @ [t])) < card (set (dkeys es) - set B)"
      by (intro psubset_card_mono) auto
    have "\<exists>B'. foldE (mark_active n es) ds C = Inr B'"
      if "set ds \<subseteq> set (dkeys es)" "card (set (dkeys es) - set C) < n" for ds C
      using that
    proof (induction ds arbitrary: C)
      case (Cons d ds)
      from Cons.prems Suc.IH [of d C] obtain C' where C': "mark_active n es d C = Inr C'" by auto
      have "set C \<subseteq> set C'" using mark_active_marks [OF C'] by (simp add: marks_def)
      then have "card (set (dkeys es) - set C') \<le> card (set (dkeys es) - set C)"
        by (intro card_mono) auto
      with Cons.prems have "card (set (dkeys es) - set C') < n" by simp
      with Cons.IH [of C'] Cons.prems(1) C' show ?case by auto
    qed simp
    with closed [OF Suc.prems(1)] e(2) lt Suc.prems(2) False e(1) show ?thesis by simp
  qed simp
qed simp

text \<open>
  In a graph that has all its dependencies, \<open>mark_active\<close> marks exactly the tasks the given
  one needs, directly or through others, each once, and never deeper than there are tasks: with
  a recursion limit above their number it returns, cyclic or not.
\<close>

theorem mark_active_reaches:
  assumes closed: "\<And>s. s \<in> set (dkeys es) \<Longrightarrow> set (deps_of es s) \<subseteq> set (dkeys es)"
    and t: "t \<in> set (dkeys es)" and n: "length es < n"
  shows "\<exists>B. mark_active n es t [] = Inr B \<and> distinct B \<and> set B = reach_from es t"
proof -
  have "card (set (dkeys es) - set []) \<le> length es" using card_length [of "dkeys es"] by simp
  with n mark_active_total [OF closed t, of "[]" n] obtain B where B: "mark_active n es t [] = Inr B"
    by fastforce
  have m: "marks es [] {t} B" using mark_active_marks [OF B] .
  then have "reach_from es t \<subseteq> set B" by (intro reach_closed) (auto simp: marks_def)
  with m B show ?thesis by (auto simp: marks_def)
qed

definition loop_entries :: entries where
  "loop_entries =
     [(''a:fetch'', RunTaskEntry), (''a:build'', RunTaskEntry\<lparr>depends := [''a:fetch'', ''b:build'']\<rparr>),
      (''b:build'', RunTaskEntry\<lparr>depends := [''a:build'']\<rparr>), (''c:build'', RunTaskEntry)]"

theorem mark_active_reaches_witness:
  "reach_from loop_entries ''a:build'' = {''a:build'', ''a:fetch'', ''b:build''}"
proof -
  have c: "\<forall>s \<in> set (dkeys loop_entries). set (deps_of loop_entries s) \<subseteq> set (dkeys loop_entries)"
    by code_simp
  have t: "''a:build'' \<in> set (dkeys loop_entries)" by code_simp
  have n: "length loop_entries < 5" by code_simp
  have r: "mark_active 5 loop_entries ''a:build'' [] = Inr [''a:build'', ''a:fetch'', ''b:build'']"
    by code_simp
  from mark_active_reaches [OF c [rule_format] t n] r show ?thesis by simp
qed

section \<open>Step B and pruning\<close>

definition dep_closed :: "entries \<Rightarrow> tid set \<Rightarrow> bool" where
  "dep_closed es B \<longleftrightarrow> (\<forall>s \<in> B. s \<in> set (dkeys es) \<and> set (deps_of es s) \<subseteq> B)"

lemma mark_active_keys: "mark_active n es t B = Inr B' \<Longrightarrow> set B' - set B \<subseteq> set (dkeys es)"
proof (induction n arbitrary: t B B')
  case (Suc n)
  show ?case
  proof (cases "t \<in> set B")
    case False
    with Suc.prems obtain e where e: "map_of es t = Some e"
      and f: "foldE (mark_active n es) (depends e) (B @ [t]) = Inr B'"
      by (auto simp: dget_Inr_iff)
    have "set B' - set (B @ [t]) \<subseteq> set (dkeys es)"
    proof (rule foldE_invariant [OF f, where P = "\<lambda>C. set C - set (B @ [t]) \<subseteq> set (dkeys es)"])
      fix x C C'
      assume "set C - set (B @ [t]) \<subseteq> set (dkeys es)" and "mark_active n es x C = Inr C'"
      with Suc.IH [of x C C'] show "set C' - set (B @ [t]) \<subseteq> set (dkeys es)" by blast
    qed simp
    moreover have "t \<in> set (dkeys es)" using e by (simp add: din_iff)
    ultimately show ?thesis by auto
  qed (use Suc.prems in simp)
qed simp

lemma mark_tid_closed:
  assumes "mark_tid env t s = Inr s'" and "dep_closed (runtaskentries s) (set (runq_build s))"
  shows "runtaskentries s' = runtaskentries s" and "dep_closed (runtaskentries s') (set (runq_build s'))"
    and "set (runq_build s') = set (runq_build s) \<union> reach_from (runtaskentries s) t"
proof -
  from assms(1) obtain B where m: "mark_active (pe_limit env) (runtaskentries s) t (runq_build s) = Inr B"
    and s': "s' = s\<lparr>runq_build := B\<rparr>" by (auto simp: mark_tid_def)
  note k = mark_active_marks [OF m] mark_active_keys [OF m]
  show "runtaskentries s' = runtaskentries s" by (simp add: s')
  have kB: "set (runq_build s) \<subseteq> set B" "t \<in> set B"
    "\<forall>x \<in> set B - set (runq_build s). set (deps_of (runtaskentries s) x) \<subseteq> set B"
    using k(1) by (auto simp: marks_def)
  have "x \<in> set (dkeys (runtaskentries s)) \<and> set (deps_of (runtaskentries s) x) \<subseteq> set B"
    if "x \<in> set B" for x
  proof (cases "x \<in> set (runq_build s)")
    case True
    then have "x \<in> set (dkeys (runtaskentries s))" "set (deps_of (runtaskentries s) x) \<subseteq> set (runq_build s)"
      using assms(2) unfolding dep_closed_def by blast+
    with kB(1) show ?thesis by blast
  next
    case False
    with that k(2) kB(3) show ?thesis by blast
  qed
  then show c: "dep_closed (runtaskentries s') (set (runq_build s'))"
    unfolding s' dep_closed_def by simp
  have "reach_from (runtaskentries s) t \<subseteq> set B"
    using kB(2) c by (intro reach_closed) (simp_all add: s' dep_closed_def)
  moreover have "set B \<subseteq> set (runq_build s) \<union> reach_from (runtaskentries s) t"
    using k(1) by (simp add: marks_def)
  ultimately show "set (runq_build s') = set (runq_build s) \<union> reach_from (runtaskentries s) t"
    using kB(1) unfolding s' by (simp; blast)
qed

lemma mark_target_closed:
  assumes "mark_target env x s = Inr s'" and "dep_closed (runtaskentries s) (set (runq_build s))"
  shows "runtaskentries s' = runtaskentries s \<and> dep_closed (runtaskentries s') (set (runq_build s')) \<and>
    set (runq_build s) \<subseteq> set (runq_build s')"
proof -
  obtain mc target task fn where x: "x = (mc, target, task, fn)" using prod_cases4 by blast
  from assms(1) obtain td where td: "dget (taskData s) mc = Inr td"
    and step: "(if dgetd (build_targets td) target [] = [] \<or> target \<in> set (failed_deps td) then Inr s
     else
       (let parents = endswith task ''-''; task = (if parents then butlast task else task)
        in if fn \<in> set (failed_fns td) then Inr s
           else
             (let tid = fn @ '':'' @ task; s = s\<lparr>prep_targets := prep_targets s @ [tid]\<rparr>
              in if \<not> din tid (taskentries td) then Inl (Fatal ''task does not exist'')
                 else if parents
                 then bindE (dget (runtaskentries s) tid) (\<lambda>e. foldE (mark_tid env) (depends e) s)
                 else mark_tid env tid s))) = Inr s'"
    by (auto simp: x mark_target_def)
  have "s' = s \<or> (\<exists>ts q. foldE (mark_tid env) ts q = Inr s' \<and>
      runtaskentries q = runtaskentries s \<and> runq_build q = runq_build s) \<or>
    (\<exists>t q. mark_tid env t q = Inr s' \<and> runtaskentries q = runtaskentries s \<and> runq_build q = runq_build s)"
    (is "_ \<or> ?F \<or> ?G")
  proof (cases "dgetd (build_targets td) target [] = [] \<or> target \<in> set (failed_deps td) \<or> fn \<in> set (failed_fns td)")
    case True
    with step show ?thesis by (auto simp: Let_def split: if_split_asm)
  next
    case False
    define tid where "tid = fn @ '':'' @ (if endswith task ''-'' then butlast task else task)"
    let ?q = "s\<lparr>prep_targets := prep_targets s @ [tid]\<rparr>"
    have "(if \<not> din tid (taskentries td) then Inl (Fatal ''task does not exist'')
           else if endswith task ''-''
           then bindE (dget (runtaskentries s) tid) (\<lambda>e. foldE (mark_tid env) (depends e) ?q)
           else mark_tid env tid ?q) = Inr s'"
      by (cases "endswith task ''-''") (use step False in \<open>auto simp: Let_def tid_def split: if_split_asm\<close>)
    then have "(\<exists>ts. foldE (mark_tid env) ts ?q = Inr s') \<or> mark_tid env tid ?q = Inr s'"
      by (auto split: if_split_asm)
    moreover have "runtaskentries ?q = runtaskentries s" "runq_build ?q = runq_build s" by simp_all
    ultimately show ?thesis by metis
  qed
  then consider "s' = s" | ts q where "foldE (mark_tid env) ts q = Inr s'"
      "runtaskentries q = runtaskentries s" "runq_build q = runq_build s"
    | t q where "mark_tid env t q = Inr s'" "runtaskentries q = runtaskentries s" "runq_build q = runq_build s"
    by blast
  then show ?thesis
  proof cases
    case 1
    with assms(2) show ?thesis by simp
  next
    case (2 ts q)
    have "runtaskentries s' = runtaskentries q \<and> dep_closed (runtaskentries s') (set (runq_build s')) \<and>
      set (runq_build q) \<subseteq> set (runq_build s')"
    proof (rule foldE_invariant [OF 2(1), where P = "\<lambda>p. runtaskentries p = runtaskentries q \<and>
        dep_closed (runtaskentries p) (set (runq_build p)) \<and> set (runq_build q) \<subseteq> set (runq_build p)"])
      fix t p p'
      assume P: "runtaskentries p = runtaskentries q \<and> dep_closed (runtaskentries p) (set (runq_build p)) \<and>
        set (runq_build q) \<subseteq> set (runq_build p)" and "mark_tid env t p = Inr p'"
      with mark_tid_closed [of env t p p'] show "runtaskentries p' = runtaskentries q \<and>
          dep_closed (runtaskentries p') (set (runq_build p')) \<and> set (runq_build q) \<subseteq> set (runq_build p')"
        by (metis Un_upper1 order_trans)
    qed (use assms(2) 2 in simp)
    then show ?thesis unfolding 2(2,3) .
  next
    case (3 t q)
    with mark_tid_closed [OF 3(1)] assms(2) show ?thesis by simp
  qed
qed

text \<open>
  What step B keeps: after it, pruning leaves tasks of the graph only, with the dependencies
  they had, and every dependency of a task left is left, so the later steps look up no
  task that was pruned.
\<close>

theorem step_b_prune_closed:
  assumes "step_b env s = Inr s'" and "runq_build s = []"
  shows "\<forall>(t, e) \<in> set (runtaskentries (prune s')). (t, e) \<in> set (runtaskentries s) \<and>
    (distinct (dkeys (runtaskentries s)) \<longrightarrow> set (depends e) \<subseteq> set (dkeys (runtaskentries (prune s'))))"
proof -
  have i: "runtaskentries s' = runtaskentries s \<and> dep_closed (runtaskentries s') (set (runq_build s'))"
    using assms(1) unfolding step_b_def
    by (rule foldE_invariant [where P = "\<lambda>p. runtaskentries p = runtaskentries s \<and>
          dep_closed (runtaskentries p) (set (runq_build p))"])
      (use assms(2) mark_target_closed in \<open>fastforce simp: dep_closed_def\<close>)+
  show ?thesis
  proof (intro ballI, clarify)
    fix t e
    assume m: "(t, e) \<in> set (runtaskentries (prune s'))"
    then have te: "(t, e) \<in> set (runtaskentries s)" and b: "t \<in> set (runq_build s')"
      using i by (auto simp: prune_def)
    show "(t, e) \<in> set (runtaskentries s) \<and> (distinct (dkeys (runtaskentries s)) \<longrightarrow>
        set (depends e) \<subseteq> set (dkeys (runtaskentries (prune s'))))"
    proof (intro conjI te impI)
      assume d: "distinct (dkeys (runtaskentries s))"
      then have "map_of (runtaskentries s) t = Some e" using te by simp
      then have "deps_of (runtaskentries s) t = depends e" by (simp add: deps_of_def)
      with i b have ds: "set (depends e) \<subseteq> set (runq_build s')"
        unfolding dep_closed_def by metis
      have "set (runq_build s') \<subseteq> set (dkeys (runtaskentries s'))"
        using i unfolding dep_closed_def by blast
      with ds show "set (depends e) \<subseteq> set (dkeys (runtaskentries (prune s')))"
        by (force simp: prune_def)
    qed
  qed
qed

definition pruned_prep :: prep where
  "pruned_prep = (prep_init [('''', (TaskData True [] False)
      \<lparr>build_targets := [(''a'', [''a''])], taskentries := [(''a:build'', TaskEntry)]\<rparr>)])
     \<lparr>runtaskentries := loop_entries\<rparr>"

definition prune_env :: prep_env where
  "prune_env = \<lparr>pe_caches = [], pe_targets = [('''', ''a'', ''build'', ''a'')], pe_runall = [], pe_runonly = [],
     pe_force = False, pe_nosetscene = True, pe_invalidate_stamp = None, pe_multi_provider_allowed = [],
     pe_get_taskhash = (\<lambda>es t ds. t), pe_get_unihashes = (\<lambda>es ts. map (\<lambda>t. (t, t)) ts),
     pe_limit = 5, pe_rounds = 5\<rparr>"

theorem step_b_prune_closed_witness:
  "\<exists>s e. step_b prune_env pruned_prep = Inr s \<and> map_of (runtaskentries (prune s)) ''a:build'' = Some e \<and>
     dkeys (runtaskentries (prune s)) = [''a:fetch'', ''a:build'', ''b:build''] \<and>
     set (depends e) \<subseteq> {''a:fetch'', ''a:build'', ''b:build''}"
proof -
  have "case step_b prune_env pruned_prep of Inl e \<Rightarrow> False
   | Inr s \<Rightarrow> dkeys (runtaskentries (prune s)) = [''a:fetch'', ''a:build'', ''b:build'']"
    by code_simp
  then obtain s where s: "step_b prune_env pruned_prep = Inr s"
    and k: "dkeys (runtaskentries (prune s)) = [''a:fetch'', ''a:build'', ''b:build'']"
    by (cases "step_b prune_env pruned_prep") auto
  then have "din ''a:build'' (runtaskentries (prune s))" unfolding din_def by simp
  then obtain e where e: "map_of (runtaskentries (prune s)) ''a:build'' = Some e" by (auto simp: din_iff)
  have "runq_build pruned_prep = []" "distinct (dkeys (runtaskentries pruned_prep))" by code_simp+
  with step_b_prune_closed [OF s] map_of_SomeD [OF e]
  have "set (depends e) \<subseteq> set (dkeys (runtaskentries (prune s)))" by blast
  with s k e show ?thesis by simp
qed

section \<open>Circular dependencies\<close>

text \<open>A loop: each task is a reverse dependency of the one before, the first of the last.\<close>

definition is_loop :: "entries \<Rightarrow> tid list \<Rightarrow> bool" where
  "is_loop es c \<longleftrightarrow> c \<noteq> [] \<and>
     (\<forall>i < length c. c ! (Suc i mod length c) \<in> set (revs_of es (c ! i)))"

lemma is_loop_rotate1:
  assumes "is_loop es c"
  shows "is_loop es (rotate1 c)"
proof -
  let ?n = "length c"
  have n: "0 < ?n" using assms by (simp add: is_loop_def)
  have "rotate1 c ! (Suc i mod ?n) \<in> set (revs_of es (rotate1 c ! i))" if "i < ?n" for i
  proof -
    have i: "rotate1 c ! i = c ! (Suc i mod ?n)" using that by (simp add: nth_rotate1)
    have "rotate1 c ! (Suc i mod ?n) = c ! (Suc (Suc i mod ?n) mod ?n)"
      using n by (simp add: nth_rotate1)
    then show ?thesis using assms n unfolding i is_loop_def by simp
  qed
  then show ?thesis using n by (simp add: is_loop_def)
qed

lemma is_loop_rotate: "is_loop es c \<Longrightarrow> is_loop es (rotate k c)"
  by (induction k) (auto simp: is_loop_rotate1)

lemma fold_lowest:
  fixes c :: "tid list"
  shows "(\<forall>i \<in> set is. i < length c) \<Longrightarrow> l < length c \<Longrightarrow>
   (let l' = fold (\<lambda>i lowest. if c ! i < c ! lowest then i else lowest) is l
    in l' < length c \<and> c ! l' \<le> c ! l \<and> (\<forall>i \<in> set is. c ! l' \<le> c ! i))"
proof (induction "is" arbitrary: l)
  case (Cons i js)
  let ?l = "if c ! i < c ! l then i else l"
  have "?l < length c" using Cons.prems by auto
  with Cons have IH: "let l' = fold (\<lambda>i lowest. if c ! i < c ! lowest then i else lowest) js ?l
    in l' < length c \<and> c ! l' \<le> c ! ?l \<and> (\<forall>i \<in> set js. c ! l' \<le> c ! i)" by simp
  have "c ! ?l \<le> c ! i" "c ! ?l \<le> c ! l" by auto
  with IH show ?case unfolding Let_def fold_Cons o_def by (auto intro: order_trans)
qed simp

lemma lowest_index_least:
  assumes "c \<noteq> []"
  shows "lowest_index c < length c" and "\<forall>t \<in> set c. c ! lowest_index c \<le> t"
proof -
  have "let l' = lowest_index c in l' < length c \<and> c ! l' \<le> c ! 0 \<and> (\<forall>i \<in> set [0 ..< length c]. c ! l' \<le> c ! i)"
    unfolding lowest_index_def using assms by (intro fold_lowest) auto
  then show "lowest_index c < length c" "\<forall>t \<in> set c. c ! lowest_index c \<le> t"
    by (auto simp: Let_def in_set_conv_nth)
qed

lemma chain_reorder_rotate: "c \<noteq> [] \<Longrightarrow> chain_reorder c = rotate (lowest_index c) c"
  using lowest_index_least(1) [of c] by (simp add: chain_reorder_def rotate_drop_take)

lemma chain_reorder_loop:
  assumes "is_loop es c"
  shows "is_loop es (chain_reorder c)" and "chain_reorder c \<noteq> []" and "\<forall>t \<in> set c. hd (chain_reorder c) \<le> t"
proof -
  have c: "c \<noteq> []" using assms by (simp add: is_loop_def)
  note r = chain_reorder_rotate [OF c]
  show "is_loop es (chain_reorder c)" unfolding r using assms by (rule is_loop_rotate)
  show "chain_reorder c \<noteq> []" unfolding r using c by simp
  have "hd (chain_reorder c) = c ! lowest_index c"
    using lowest_index_least(1) [OF c] by (simp add: chain_reorder_def hd_drop_conv_nth hd_append)
  with lowest_index_least(2) [OF c] show "\<forall>t \<in> set c. hd (chain_reorder c) \<le> t" by simp
qed

text \<open>The chain of the tasks on the way, each a reverse dependency of the one before.\<close>

definition is_chain :: "entries \<Rightarrow> tid list \<Rightarrow> bool" where
  "is_chain es c \<longleftrightarrow> (\<forall>i. Suc i < length c \<longrightarrow> c ! Suc i \<in> set (revs_of es (c ! i)))"

lemma is_chain_snoc:
  assumes "is_chain es (c @ [t])" and "s \<in> set (revs_of es t)"
  shows "is_chain es ((c @ [t]) @ [s])"
  unfolding is_chain_def
proof (intro allI impI)
  fix i
  assume "Suc i < length ((c @ [t]) @ [s])"
  then consider "Suc i < length (c @ [t])" | "i = length c" by fastforce
  then show "((c @ [t]) @ [s]) ! Suc i \<in> set (revs_of es (((c @ [t]) @ [s]) ! i))"
  proof cases
    case 1
    have "(c @ [t]) ! Suc i \<in> set (revs_of es ((c @ [t]) ! i))" using assms(1) 1 unfolding is_chain_def by blast
    with 1 show ?thesis by (simp only: nth_append_left Suc_lessD)
  next
    case 2
    with assms(2) show ?thesis by (simp add: nth_append)
  qed
qed

lemma is_loop_drop:
  assumes c: "is_chain es c" and i: "i < length c" and s: "c ! i \<in> set (revs_of es (last c))"
  shows "is_loop es (drop i c)"
  unfolding is_loop_def
proof (intro conjI allI impI)
  show "drop i c \<noteq> []" using i by simp
  fix j
  assume j: "j < length (drop i c)"
  show "drop i c ! (Suc j mod length (drop i c)) \<in> set (revs_of es (drop i c ! j))"
  proof (cases "Suc j = length (drop i c)")
    case True
    then have "i + j = length c - 1" using i by simp
    moreover have "c \<noteq> []" using i by auto
    ultimately have "drop i c ! j = last c" using i by (simp add: last_conv_nth)
    with s True i show ?thesis by simp
  next
    case False
    with j have "Suc j < length (drop i c)" by simp
    with c i show ?thesis by (simp add: is_chain_def)
  qed
qed

definition loops_only :: "entries \<Rightarrow> chains \<Rightarrow> bool" where
  "loops_only es s \<longleftrightarrow> (\<forall>c \<in> set (valid_chains s). is_loop es c \<and> (\<forall>t \<in> set c. hd c \<le> t))"

lemma loops_only_explored [simp]: "loops_only es (s\<lparr>explored_deps := d\<rparr>) = loops_only es s"
  by (simp add: loops_only_def)

fun chains_of :: "(chain_exc \<times> chains) + ('a \<times> chains) \<Rightarrow> chains" where
  "chains_of (Inl (x, s)) = s"
| "chains_of (Inr (ds, s)) = s"

fun chains_out :: "chains_res \<Rightarrow> chains" where
  "chains_out (Inl (x, s)) = s"
| "chains_out (Inr s) = s"

lemma add_chain_loops:
  assumes "loops_only es s" and "is_loop es c" "\<forall>t \<in> set c. hd c \<le> t"
  shows "loops_only es (chains_out (add_chain c s))"
  using assms by (auto simp: add_chain_def Let_def loops_only_def)

lemma chain_step_loops:
  assumes rec: "\<And>t p s. is_chain es (p @ [t]) \<Longrightarrow> loops_only es s \<Longrightarrow> loops_only es (chains_out (f t p s))"
    and c: "is_chain es (prev @ [tid])" and s: "loops_only es s" and rd: "revdep \<in> set (revs_of es tid)"
  shows "loops_only es (chains_of (chain_step f (prev @ [tid]) revdep (ds, s)))"
proof (cases "index_of (prev @ [tid]) revdep")
  case (Some i)
  from index_of_nth [OF Some] have i: "i < length (prev @ [tid])" "(prev @ [tid]) ! i = revdep" by auto
  then have "is_loop es (drop i (prev @ [tid]))" using c rd by (intro is_loop_drop) auto
  from chain_reorder_loop [OF this]
  have l: "is_loop es (chain_reorder (drop i (prev @ [tid])))"
    and least: "\<forall>t \<in> set (drop i (prev @ [tid])). hd (chain_reorder (drop i (prev @ [tid]))) \<le> t" by auto
  have "set (chain_reorder x) = set x" for x
    by (metis chain_reorder_def append_take_drop_id set_append sup_commute)
  with least have "\<forall>t \<in> set (chain_reorder (drop i (prev @ [tid]))).
      hd (chain_reorder (drop i (prev @ [tid]))) \<le> t" by simp
  from add_chain_loops [OF s l this] show ?thesis
    by (cases "add_chain (chain_reorder (drop i (prev @ [tid]))) s") (auto simp: chain_step_def Some)
next
  case None
  let ?r = "if needs_scan revdep (prev @ [tid]) s then f revdep (prev @ [tid]) s else Inr s"
  have "is_chain es ((prev @ [tid]) @ [revdep])" using c rd by (rule is_chain_snoc)
  with rec s have r: "loops_only es (chains_out ?r)" by simp
  show ?thesis
  proof (cases ?r)
    case (Inl x)
    with r None show ?thesis by (cases x) (auto simp: chain_step_def)
  next
    case (Inr q)
    with r None show ?thesis by (auto simp: chain_step_def split: option.split)
  qed
qed

lemma find_chains_loops:
  "is_chain es (prev @ [tid]) \<Longrightarrow> loops_only es s \<Longrightarrow> loops_only es (chains_out (find_chains n es tid prev s))"
proof (induction n arbitrary: tid prev s)
  case (Suc n)
  show ?case
  proof (cases "map_of es tid")
    case (Some e)
    have rv: "revs_of es tid = revdeps e" by (simp add: revs_of_def Some)
    have f: "loops_only es q \<Longrightarrow> set rs \<subseteq> set (revs_of es tid) \<Longrightarrow>
        loops_only es (chains_of (foldE (chain_step (find_chains n es) (prev @ [tid])) rs (ds, q)))" for rs ds q
    proof (induction rs arbitrary: ds q)
      case (Cons x rs)
      have g: "loops_only es (chains_of (chain_step (find_chains n es) (prev @ [tid]) x (ds, q)))"
        using chain_step_loops [OF Suc.IH Suc.prems(1) Cons.prems(1)] Cons.prems(2) by simp
      show ?case
      proof (cases "chain_step (find_chains n es) (prev @ [tid]) x (ds, q)")
        case (Inl y)
        with g show ?thesis by simp
      next
        case (Inr y)
        with g Cons show ?thesis by (cases y) simp
      qed
    qed simp
    have "loops_only es (chains_of (foldE (chain_step (find_chains n es) (prev @ [tid])) (revdeps e) (revdeps e, s)))"
      using f Suc.prems(2) rv by simp
    then show ?thesis
      by (cases "foldE (chain_step (find_chains n es) (prev @ [tid])) (revdeps e) (revdeps e, s)")
        (auto simp: Some)
  qed (use Suc.prems in simp)
qed simp

text \<open>
  Every chain that is reported for a circular graph is a loop of it: following reverse
  dependencies leads from each task to the next and from the last to the first.  It starts with its
  least task, so a loop found from several tasks has one form.
\<close>

theorem reported_chains_are_loops:
  assumes "circular_depchains_handler n es tasks = Inr cs" and "c \<in> set cs"
  shows "is_loop es c \<and> (\<forall>t \<in> set c. hd c \<le> t)"
proof -
  let ?s = "\<lparr>valid_chains = [], explored_deps = []\<rparr> :: chains"
  have f: "loops_only es q \<Longrightarrow> loops_only es (chains_out (foldE (\<lambda>task. find_chains n es task []) ts q))" for ts q
  proof (induction ts arbitrary: q)
    case (Cons t ts)
    have "is_chain es ([] @ [t])" by (simp add: is_chain_def)
    from find_chains_loops [OF this Cons.prems, of n] Cons.IH show ?case
      by (cases "find_chains n es t [] q") auto
  qed simp
  have "loops_only es (chains_out (foldE (\<lambda>task. find_chains n es task []) tasks ?s))"
    by (rule f) (simp add: loops_only_def)
  then have "\<forall>c \<in> set cs. is_loop es c \<and> (\<forall>t \<in> set c. hd c \<le> t)"
    using assms(1) by (auto simp: circular_depchains_handler_def loops_only_def
        split: sum.splits prod.splits chain_exc.splits)
  with assms(2) show ?thesis by blast
qed

definition circle_entries :: entries where
  "circle_entries =
     [(''b:x'', RunTaskEntry\<lparr>revdeps := [''c:x'']\<rparr>), (''c:x'', RunTaskEntry\<lparr>revdeps := [''a:x'', ''d:x'']\<rparr>),
      (''a:x'', RunTaskEntry\<lparr>revdeps := [''b:x'']\<rparr>), (''d:x'', RunTaskEntry)]"

theorem reported_chains_are_loops_witness:
  "circular_depchains_handler 5 circle_entries [''b:x'', ''c:x'', ''a:x''] = Inr [[''a:x'', ''b:x'', ''c:x'']] \<and>
   is_loop circle_entries [''a:x'', ''b:x'', ''c:x'']"
proof -
  have h: "circular_depchains_handler 5 circle_entries [''b:x'', ''c:x'', ''a:x''] = Inr [[''a:x'', ''b:x'', ''c:x'']]"
    by code_simp
  with reported_chains_are_loops [OF h] show ?thesis by simp
qed

section \<open>The order of the hashes\<close>

definition same_deps :: "entries \<Rightarrow> entries \<Rightarrow> bool" where
  "same_deps es es' \<longleftrightarrow> dkeys es' = dkeys es \<and> deps_of es' = deps_of es"

definition hash_of :: "entries \<Rightarrow> tid \<Rightarrow> string option" where
  "hash_of es t = (case map_of es t of None \<Rightarrow> None | Some e \<Rightarrow> hash e)"

definition unihash_of :: "entries \<Rightarrow> tid \<Rightarrow> string option" where
  "unihash_of es t = (case map_of es t of None \<Rightarrow> None | Some e \<Rightarrow> unihash e)"

lemma same_deps_dset:
  assumes "map_of es t = Some e" and "depends e' = depends e"
  shows "same_deps es (dset t e' es)"
  using assms by (auto simp: same_deps_def dkeys_dset din_iff deps_of_def fun_eq_iff)

lemma same_deps_trans: "same_deps a b \<Longrightarrow> same_deps b c \<Longrightarrow> same_deps a c"
  by (simp add: same_deps_def)

lemma unihash_of_dset: "map_of q x = Some e \<Longrightarrow> unihash_of (dset x (e\<lparr>hash := h\<rparr>) q) = unihash_of q"
  by (auto simp: unihash_of_def fun_eq_iff)

lemma hash_of_dset: "map_of q x = Some e \<Longrightarrow> hash_of (dset x (e\<lparr>unihash := h\<rparr>) q) = hash_of q"
  by (auto simp: hash_of_def fun_eq_iff)

text \<open>One round hashes the tasks whose dependencies were dealt with, and keeps the other hashes.\<close>

lemma hash_tasks_round:
  assumes "set ts \<subseteq> set (dkeys es)" and "distinct ts"
  shows "\<exists>es'. foldE (hash_task env dw) ts ([], es) =
      Inr (filter (\<lambda>t. set (deps_of es t) \<subseteq> set dw) ts, es') \<and> same_deps es es' \<and>
    (\<forall>t \<in> set ts. set (deps_of es t) \<subseteq> set dw \<longrightarrow> hash_of es' t \<noteq> None) \<and>
    (\<forall>t. hash_of es t \<noteq> None \<longrightarrow> hash_of es' t \<noteq> None) \<and> unihash_of es' = unihash_of es"
proof -
  let ?r = "\<lambda>ys. filter (\<lambda>t. set (deps_of es t) \<subseteq> set dw) ys"
  let ?P = "\<lambda>ys (r, q). r = ?r ys \<and> same_deps es q \<and> (\<forall>t \<in> set (?r ys). hash_of q t \<noteq> None) \<and>
    (\<forall>t. hash_of es t \<noteq> None \<longrightarrow> hash_of q t \<noteq> None) \<and> unihash_of q = unihash_of es"
  have "\<exists>t. foldE (hash_task env dw) ts ([], es) = Inr t \<and> ?P ts t"
  proof (rule foldE_prefix)
    fix ys x zs s
    assume ts: "ts = ys @ x # zs" and P: "?P ys s"
    obtain r q where s: "s = (r, q)" by fastforce
    have "x \<in> set (dkeys q)" using assms(1) ts P by (auto simp: s same_deps_def)
    then obtain e where e: "map_of q x = Some e" by (auto simp: din_iff)
    have d: "deps_of es x = depends e"
    proof -
      have "deps_of q x = depends e" using e by (simp add: deps_of_def)
      then show ?thesis using P by (simp add: s same_deps_def)
    qed
    have x: "x \<notin> set ys" using assms(2) ts by auto
    let ?q = "dset x (e\<lparr>hash := Some (pe_get_taskhash env q x (depends e))\<rparr>) q"
    show "\<exists>t. hash_task env dw x s = Inr t \<and> ?P (ys @ [x]) t"
    proof (cases "set (depends e) \<subseteq> set dw")
      case True
      then have run: "hash_task env dw x s = Inr (sadd x r, ?q)"
        using e by (simp add: s hash_task_def dget_def)
      have "same_deps es ?q" using P same_deps_trans same_deps_dset [OF e, of "e\<lparr>hash := _\<rparr>"]
        by (fastforce simp: s)
      moreover have "sadd x r = ?r (ys @ [x])" using P True d x by (auto simp: s sadd_def)
      moreover have "\<forall>t \<in> set (?r (ys @ [x])). hash_of ?q t \<noteq> None" using P by (auto simp: s hash_of_def)
      moreover have "\<forall>t. hash_of es t \<noteq> None \<longrightarrow> hash_of ?q t \<noteq> None" using P by (auto simp: s hash_of_def)
      moreover have "unihash_of ?q = unihash_of es"
        using P by (simp add: s unihash_of_dset [OF e])
      ultimately show ?thesis using run by simp
    next
      case False
      then have "hash_task env dw x s = Inr (r, q)" using e by (simp add: s hash_task_def dget_def)
      then show ?thesis using P False d by (simp add: s)
    qed
  qed (simp add: same_deps_def)
  then show ?thesis by auto
qed

lemma unihash_tasks_round:
  assumes "set ts \<subseteq> set (dkeys es)" and "set ts \<subseteq> set (dkeys uni)"
  shows "\<exists>es'. foldE (unihash_task uni) ts es = Inr es' \<and> same_deps es es' \<and> hash_of es' = hash_of es \<and>
    (\<forall>t \<in> set ts. unihash_of es' t \<noteq> None) \<and> (\<forall>t. unihash_of es t \<noteq> None \<longrightarrow> unihash_of es' t \<noteq> None)"
proof -
  let ?P = "\<lambda>ys q. same_deps es q \<and> hash_of q = hash_of es \<and>
    (\<forall>t \<in> set ys. unihash_of q t \<noteq> None) \<and> (\<forall>t. unihash_of es t \<noteq> None \<longrightarrow> unihash_of q t \<noteq> None)"
  show ?thesis
  proof (rule foldE_prefix [where P = ?P])
    fix ys x zs q
    assume ts: "ts = ys @ x # zs" and P: "?P ys q"
    have "x \<in> set (dkeys q)" "x \<in> set (dkeys uni)" using assms ts P by (auto simp: same_deps_def)
    then obtain e u where e: "map_of q x = Some e" and u: "map_of uni x = Some u" by (auto simp: din_iff)
    let ?q = "dset x (e\<lparr>unihash := Some u\<rparr>) q"
    have run: "unihash_task uni x q = Inr ?q" using e u by (simp add: unihash_task_def dget_def)
    have "same_deps es ?q" using P same_deps_trans same_deps_dset [OF e, of "e\<lparr>unihash := Some u\<rparr>"]
      by fastforce
    moreover have "hash_of ?q = hash_of es" using P by (simp add: hash_of_dset [OF e])
    moreover have "\<forall>t \<in> set (ys @ [x]). unihash_of ?q t \<noteq> None"
      "\<forall>t. unihash_of es t \<noteq> None \<longrightarrow> unihash_of ?q t \<noteq> None"
      using P by (auto simp: unihash_of_def)
    ultimately show "\<exists>t. unihash_task uni x q = Inr t \<and> ?P (ys @ [x]) t" using run by blast
  qed (simp add: same_deps_def)
qed

definition in_order :: "(tid \<Rightarrow> tid list) \<Rightarrow> tid list \<Rightarrow> bool" where
  "in_order dep ts \<longleftrightarrow> (\<forall>xs t ys. ts = xs @ t # ys \<longrightarrow> set (dep t) \<subseteq> set xs)"

lemma in_order_append:
  assumes "in_order dep xs" and "\<forall>t \<in> set ys. set (dep t) \<subseteq> set xs"
  shows "in_order dep (xs @ ys)"
  unfolding in_order_def
proof (intro allI impI)
  fix us t vs
  assume "xs @ ys = us @ t # vs"
  then consider ws where "xs = us @ t # ws" | ws where "us = xs @ ws" "t \<in> set ys"
    by (auto simp: append_eq_append_conv2 Cons_eq_append_conv append_eq_Cons_conv)
  then show "set (dep t) \<subseteq> set us" using assms by cases (auto simp: in_order_def)
qed

lemma fold_sadd_append: "distinct xs \<Longrightarrow> set xs \<inter> set s = {} \<Longrightarrow> fold sadd xs s = s @ xs"
  by (induction xs arbitrary: s) (auto simp: sadd_def)

lemma hash_loop_run:
  assumes rank: "\<And>s d. s \<in> set (dkeys es) \<Longrightarrow> d \<in> set (deps_of es s) \<Longrightarrow>
      d \<in> set (dkeys es) \<and> (rank s :: int) < rank d"
    and uni: "\<And>q rdy. set rdy \<subseteq> set (dkeys (pe_get_unihashes env q rdy))"
  shows "length todeal < n \<Longrightarrow> distinct (dw @ todeal) \<Longrightarrow> set dw \<union> set todeal = set (dkeys es) \<Longrightarrow>
    same_deps es q \<Longrightarrow> in_order (deps_of es) dw \<Longrightarrow>
    \<forall>t \<in> set dw. hash_of q t \<noteq> None \<and> unihash_of q t \<noteq> None \<Longrightarrow>
    \<exists>dw' q'. hash_loop n env todeal dw q = Inr (dw', q') \<and> distinct dw' \<and> set dw' = set (dkeys es) \<and>
      same_deps es q' \<and> in_order (deps_of es) dw' \<and>
      (\<forall>t \<in> set dw'. hash_of q' t \<noteq> None \<and> unihash_of q' t \<noteq> None)"
proof (induction n arbitrary: todeal dw q)
  case (Suc n)
  note pr = Suc.prems
  show ?case
  proof (cases "todeal = []")
    case True
    with pr show ?thesis by auto
  next
    case False
    have dq: "deps_of q = deps_of es" "dkeys q = dkeys es" using pr(4) by (auto simp: same_deps_def)
    let ?rdy = "filter (\<lambda>t. set (deps_of es t) \<subseteq> set dw) todeal"
    obtain q1 where q1: "foldE (hash_task env dw) todeal ([], q) = Inr (?rdy, q1)" "same_deps q q1"
      "\<forall>t \<in> set todeal. set (deps_of es t) \<subseteq> set dw \<longrightarrow> hash_of q1 t \<noteq> None"
      "\<forall>t. hash_of q t \<noteq> None \<longrightarrow> hash_of q1 t \<noteq> None" "unihash_of q1 = unihash_of q"
    proof -
      have "set todeal \<subseteq> set (dkeys q)" "distinct todeal" using pr(2,3) unfolding dq by auto
      from hash_tasks_round [OF this, of env dw] that show ?thesis unfolding dq by blast
    qed
    have "set ?rdy \<subseteq> set (dkeys q1)" using q1(2) dq pr(3) unfolding same_deps_def by auto
    then obtain q2 where q2: "foldE (unihash_task (pe_get_unihashes env q1 ?rdy)) ?rdy q1 = Inr q2" "same_deps q1 q2"
      "hash_of q2 = hash_of q1" "\<forall>t \<in> set ?rdy. unihash_of q2 t \<noteq> None"
      "\<forall>t. unihash_of q1 t \<noteq> None \<longrightarrow> unihash_of q2 t \<noteq> None"
      using unihash_tasks_round [of ?rdy q1 "pe_get_unihashes env q1 ?rdy"] uni by blast
    have step: "hash_loop (Suc n) env todeal dw q = hash_loop n env (sdiff todeal ?rdy) (fold sadd ?rdy dw) q2"
      using False q1(1) q2(1) by simp
    obtain m where m: "m \<in> set todeal" "\<forall>t \<in> set todeal. rank t \<le> rank m"
    proof -
      have "finite (rank ` set todeal)" "rank ` set todeal \<noteq> {}" using False by auto
      then have "Max (rank ` set todeal) \<in> rank ` set todeal" by (rule Max_in)
      then obtain m where "m \<in> set todeal" "rank m = Max (rank ` set todeal)" by auto
      then show ?thesis using that by (metis List.finite_set Max_ge finite_imageI imageI)
    qed
    have "m \<in> set ?rdy"
    proof -
      have "d \<in> set dw" if d: "d \<in> set (deps_of es m)" for d
      proof -
        have "m \<in> set (dkeys es)" using m(1) pr(3) by blast
        from rank [OF this d] have "d \<in> set (dkeys es)" "rank m < rank d" by blast+
        then have "d \<notin> set todeal" using m(2) by force
        with \<open>d \<in> set (dkeys es)\<close> show ?thesis using pr(3) by blast
      qed
      with m(1) show ?thesis by auto
    qed
    then have "length (sdiff todeal ?rdy) < length todeal"
      unfolding sdiff_def using m(1) by (intro length_filter_less [of m]) auto
    then have l: "length (sdiff todeal ?rdy) < n" using pr(1) by simp
    have f: "fold sadd ?rdy dw = dw @ ?rdy" using pr(2) by (intro fold_sadd_append) auto
    have "distinct ((dw @ ?rdy) @ sdiff todeal ?rdy)" using pr(2) by (auto simp: sdiff_def)
    moreover have "set (dw @ ?rdy) \<union> set (sdiff todeal ?rdy) = set (dkeys es)" using pr(3) by auto
    moreover have "same_deps es q2" using pr(4) q1(2) q2(2) same_deps_trans by blast
    moreover have "in_order (deps_of es) (dw @ ?rdy)" using pr(5) by (intro in_order_append) auto
    moreover have "\<forall>t \<in> set (dw @ ?rdy). hash_of q2 t \<noteq> None \<and> unihash_of q2 t \<noteq> None"
      using pr(6) q1(3-5) q2(3-5) by auto
    ultimately show ?thesis using Suc.IH [OF l, of "dw @ ?rdy" q2] unfolding step f by blast
  qed
qed simp

text \<open>
  C39: on the weighed graph the hashing loop of step D returns after at most as many rounds as there
  are tasks, and it has dealt with every task once, in an order in which the dependencies of a task
  come before it; every task then has a hash and a unihash.  The signature generator has to
  return a unihash for every task it is asked for.
\<close>

theorem hashes_in_order:
  assumes fresh: "fresh_entries es" and w: "weigh_tasks es = Inr (es', ws)" and n: "length es < n"
    and uni: "\<And>q rdy. set rdy \<subseteq> set (dkeys (pe_get_unihashes env q rdy))"
  shows "\<exists>dealt es''. hash_loop n env (dkeys es') [] es' = Inr (dealt, es'') \<and>
    distinct dealt \<and> set dealt = set (dkeys es) \<and>
    (\<forall>xs t ys. dealt = xs @ t # ys \<longrightarrow> set (deps_of es t) \<subseteq> set xs) \<and>
    (\<forall>t \<in> set (dkeys es). hash_of es'' t \<noteq> None \<and> unihash_of es'' t \<noteq> None)"
proof -
  note k = weigh_tasks_keys [OF fresh w]
  have d: "distinct (dkeys es')" using k(3) by (simp add: graph_ok_def)
  have rank: "d \<in> set (dkeys es') \<and> the (map_of ws s) < the (map_of ws d)"
    if "s \<in> set (dkeys es')" "d \<in> set (deps_of es' s)" for s d
  proof
    show "d \<in> set (dkeys es')" using tg.deps_closed [OF k(3) that(1)] that(2) by blast
    show "the (map_of ws s) < the (map_of ws d)"
      using weigh_tasks_decrease [OF fresh w, of s d] that unfolding k by blast
  qed
  have len: "length (dkeys es') < n" using n k(1) by (metis length_map)
  have "same_deps es' es'" "in_order (deps_of es') []" by (simp_all add: same_deps_def in_order_def)
  with hash_loop_run [where es = es' and rank = "\<lambda>s. the (map_of ws s)" and env = env, OF rank uni len, of "[]" es'] d
  show ?thesis unfolding in_order_def k(1,2) by auto
qed

theorem hashes_in_order_witness:
  "\<exists>es' ws dealt es''. weigh_tasks demo_entries = Inr (es', ws) \<and>
     hash_loop 4 prune_env (dkeys es') [] es' = Inr (dealt, es'') \<and> set dealt = set (dkeys demo_entries) \<and>
     hash_of es'' ''b:compile'' \<noteq> None"
proof -
  have f: "fresh_entries demo_entries" by (rule demo_fresh)
  have "case weigh_tasks demo_entries of Inl e \<Rightarrow> False | Inr x \<Rightarrow> True" by code_simp
  then obtain es' ws where w: "weigh_tasks demo_entries = Inr (es', ws)"
    by (cases "weigh_tasks demo_entries") auto
  have n: "length demo_entries < 4" and t: "''b:compile'' \<in> set (dkeys demo_entries)" by code_simp+
  have u: "set rdy \<subseteq> set (dkeys (pe_get_unihashes prune_env q rdy))" for q rdy
    by (simp add: prune_env_def comp_def)
  from hashes_in_order [OF f w n u] w t show ?thesis by blast
qed

end
