(* ===== verification/SceneProps.thy ===== *)
theory SceneProps
  imports DemoBuild
begin

text \<open>
  Properties of the loops over the task graph in the scene queue and in the rehashing of tasks of
  \<open>poky/bitbake/lib/bb/runqueue.py\<close>: each computes a closure, whatever the order it visits tasks in.
\<close>

section \<open>Closures\<close>

text \<open>
  The contract these loops share: the result contains the tasks started from, is closed
  under a relation, and has only what the relation reaches from them.
\<close>

locale closure_loop =
  fixes edge :: "tid \<Rightarrow> tid \<Rightarrow> bool"
begin

definition reached :: "tid set \<Rightarrow> tid set" where
  "reached S = {d. \<exists>s \<in> S. edge\<^sup>*\<^sup>* s d}"

lemma reached_start: "S \<subseteq> reached S"
  by (auto simp: reached_def)

lemma reached_step: "s \<in> reached S \<Longrightarrow> edge s d \<Longrightarrow> d \<in> reached S"
  by (auto simp: reached_def intro: rtranclp.rtrancl_into_rtrancl)

lemma reached_least:
  assumes "S \<subseteq> C" and "\<And>s d. s \<in> C \<Longrightarrow> edge s d \<Longrightarrow> d \<in> C"
  shows "reached S \<subseteq> C"
proof
  fix d
  assume "d \<in> reached S"
  then obtain s where "s \<in> S" "edge\<^sup>*\<^sup>* s d" by (auto simp: reached_def)
  from this(2) show "d \<in> C" by (induction rule: rtranclp_induct) (use assms \<open>s \<in> S\<close> in auto)
qed

lemma reached_eq:
  assumes "S \<subseteq> C" and "\<And>s d. s \<in> C \<Longrightarrow> edge s d \<Longrightarrow> d \<in> C" and "C \<subseteq> reached S"
  shows "C = reached S"
proof (rule equalityI [OF assms(3)])
  show "reached S \<subseteq> C" by (rule reached_least [OF assms(1)]) (rule assms(2))
qed

end

section \<open>The tasks to rehash\<close>

definition rev_edge :: "entries \<Rightarrow> tid \<Rightarrow> tid \<Rightarrow> bool" where
  "rev_edge es s d \<longleftrightarrow> d \<in> set (revs_of es s)"

interpretation rehash: closure_loop "rev_edge es" for es .

lemma revs_union_set:
  assumes "revs_union es ts = Inr us"
  shows "set us = (\<Union>t \<in> set ts. set (revs_of es t))"
  using assms unfolding revs_union_def
proof (rule foldE_prefix_inv [where P = "\<lambda>ys us. set us = (\<Union>t \<in> set ys. set (revs_of es t))"])
  fix ys x zs s t
  assume P: "set s = (\<Union>t \<in> set ys. set (revs_of es t))"
    and run: "bindE (dget es x) (\<lambda>e. Inr (sunion s (revdeps e))) = Inr t"
  from run have "set t = set s \<union> set (revs_of es x)" by (auto simp: dget_Inr_iff revs_of_def)
  with P show "set t = (\<Union>t \<in> set (ys @ [x]). set (revs_of es t))" by auto
qed simp

lemma dependents_loop_set:
  "dependents_loop es nxt tot = Inr out \<Longrightarrow> set nxt \<union> set tot \<subseteq> rehash.reached es S \<Longrightarrow>
   (\<forall>s \<in> set tot. set (revs_of es s) \<subseteq> set tot \<union> set nxt) \<Longrightarrow>
   set nxt \<union> set tot \<subseteq> set out \<and> set out \<subseteq> rehash.reached es S \<and>
   (\<forall>s \<in> set out. set (revs_of es s) \<subseteq> set out)"
proof (induction es nxt tot rule: dependents_loop.induct)
  case (1 es nxt tot)
  show ?case
  proof (cases "nxt = []")
    case True
    with 1(2) have "out = tot" by (subst (asm) dependents_loop.simps) simp
    with True 1(3,4) show ?thesis by auto
  next
    case False
    with 1(2) obtain us where us: "revs_union es nxt = Inr us"
      and r: "dependents_loop es (sdiff us (sunion tot nxt)) (sunion tot nxt) = Inr out"
      by (subst (asm) dependents_loop.simps) auto
    have "set us \<subseteq> rehash.reached es S"
    proof
      fix x
      assume "x \<in> set us"
      then obtain t where t: "t \<in> set nxt" "rev_edge es t x" by (auto simp: revs_union_set [OF us] rev_edge_def)
      from t(1) 1(3) have "t \<in> rehash.reached es S" by blast
      from rehash.reached_step [OF this t(2)] show "x \<in> rehash.reached es S" .
    qed
    then have a: "set (sdiff us (sunion tot nxt)) \<union> set (sunion tot nxt) \<subseteq> rehash.reached es S"
      using 1(3) by auto
    have b: "\<forall>s \<in> set (sunion tot nxt).
        set (revs_of es s) \<subseteq> set (sunion tot nxt) \<union> set (sdiff us (sunion tot nxt))"
      using 1(4) by (auto simp: revs_union_set [OF us])
    from 1(1) [OF False us r a b] show ?thesis by auto
  qed
qed

text \<open>
  The tasks the rehash of changed tasks goes through are exactly the tasks that depend on
  them, directly or through others: \<open>dependents_loop\<close> computes the closure under reverse
  dependencies, in a graph with cycles too.
\<close>

theorem dependents_loop_closure:
  assumes "dependents_loop es nxt [] = Inr tot"
  shows "set tot = {d. \<exists>s \<in> set nxt. (rev_edge es)\<^sup>*\<^sup>* s d}"
proof -
  have "set nxt \<union> set [] \<subseteq> rehash.reached es (set nxt)" using rehash.reached_start by simp
  from dependents_loop_set [OF assms this]
  have "set tot = rehash.reached es (set nxt)"
    by (intro rehash.reached_eq) (auto simp: rev_edge_def)
  then show ?thesis unfolding rehash.reached_def .
qed

theorem dependents_loop_closure_witness:
  "(rev_edge build_entries)\<^sup>*\<^sup>* ''a:package'' ''a:build'' \<and> \<not> (rev_edge build_entries)\<^sup>*\<^sup>* ''a:package'' ''a:fetch''"
proof -
  have "dependents_loop build_entries [''a:package''] [] = Inr [''a:package'', ''a:build'']" by code_simp
  from dependents_loop_closure [OF this]
  have "d \<in> {''a:package'', ''a:build''} \<longleftrightarrow> (rev_edge build_entries)\<^sup>*\<^sup>* ''a:package'' d" for d
    by (simp add: set_eq_iff)
  from this [of "''a:build''"] this [of "''a:fetch''"] show ?thesis by simp
qed

section \<open>The tasks that cannot be skipped\<close>

definition skip_edge :: "entries \<Rightarrow> tid list \<Rightarrow> tid \<Rightarrow> tid \<Rightarrow> bool" where
  "skip_edge es ss s d \<longleftrightarrow> s \<notin> set ss \<and> d \<in> set (deps_of es s)"

interpretation unskip: closure_loop "skip_edge es ss" for es ss .

lemma unskip_round_set:
  assumes "unskip_round ss un r = Inr (un', r')"
  shows "set un' = set un \<union> {d. \<exists>s \<in> set un. skip_edge (entries r) ss s d}"
proof -
  let ?E = "\<lambda>ys. {d. \<exists>s \<in> set ys. skip_edge (entries r) ss s d}"
  let ?P = "\<lambda>ys (u, q). entries q = entries r \<and> set u = set un \<union> ?E ys"
  have "?P (rev (sort un)) (un', r')"
    using assms unfolding unskip_round_def
  proof (rule foldE_prefix_inv [where P = ?P])
    fix ys x zs s t
    assume P: "?P ys s" and run: "unskip_step ss x s = Inr t"
    obtain u q where s: "s = (u, q)" by fastforce
    show "?P (ys @ [x]) t"
    proof (cases "x \<in> set ss")
      case True
      with run P show ?thesis by (auto simp: s unskip_step_def skip_edge_def)
    next
      case False
      with run obtain e where e: "entry q x = Inr e"
        and t: "t = (sunion u (depends e), if depends e = [] then setbuildable x q else q)"
        by (auto simp: s unskip_step_def)
      have "deps_of (entries r) x = depends e" using P entry_deps [OF e] by (simp add: s)
      then have "?E (ys @ [x]) = ?E ys \<union> set (depends e)" using False by (auto simp: skip_edge_def)
      with P show ?thesis by (auto simp: s t)
    qed
  qed (simp add: skip_edge_def)
  then show ?thesis by simp
qed

lemma unskip_loop_set:
  "unskip_loop ss un r = Inr (un', r') \<Longrightarrow> set un \<subseteq> unskip.reached (entries r) ss S \<Longrightarrow>
   set un \<subseteq> set un' \<and> set un' \<subseteq> unskip.reached (entries r) ss S \<and>
   (\<forall>s \<in> set un'. \<forall>d. skip_edge (entries r) ss s d \<longrightarrow> d \<in> set un')"
proof (induction ss un r rule: unskip_loop.induct)
  case (1 ss un r)
  from 1(2) obtain u q where 2: "unskip_round ss un r = Inr (u, q)"
    and 3: "(if set u = set un then Inr (u, q) else unskip_loop ss u q) = Inr (un', r')"
    by (subst (asm) unskip_loop.simps) auto
  have u: "set u = set un \<union> {d. \<exists>s \<in> set un. skip_edge (entries r) ss s d}"
    using unskip_round_set [OF 2] .
  have sub: "set u \<subseteq> unskip.reached (entries r) ss S"
    unfolding u using 1(3) unskip.reached_step [of _ "entries r" ss S] by auto
  show ?case
  proof (cases "set u = set un")
    case True
    with 3 have "un' = u" by simp
    with True sub u show ?thesis by auto
  next
    case False
    with 3 have r: "unskip_loop ss u q = Inr (un', r')" by simp
    have "entries q = entries r" using unskip_round_result(1) [OF 2] .
    with 1(1) [OF 2 refl False r] sub u show ?thesis by auto
  qed
qed

text \<open>
  C40: the tasks that cannot be skipped are the least set with the tasks nothing depends on and
  the targets that are no setscene tasks, and with the dependencies of each of its tasks that is
  no setscene task: the build goes down to the first setscene task on every path and no further.
\<close>

theorem unskippable_closure:
  assumes "find_unskippable env r = Inr r'"
  shows "set (unskippable (sqd r')) =
     {d. \<exists>s \<in> {t. \<exists>e. (t, e) \<in> set (entries r) \<and> revdeps e = []} \<union> set (unskippable (sqd r)) \<union> set (cantskip (sqd r)).
        (skip_edge (entries r) (setscene_tids env))\<^sup>*\<^sup>* s d}"
proof -
  let ?un = "sunion (fold sadd (map fst (filter (\<lambda>(t, e). revdeps e = []) (entries r))) (unskippable (sqd r)))
     (cantskip (sqd r))"
  let ?S = "{t. \<exists>e. (t, e) \<in> set (entries r) \<and> revdeps e = []} \<union> set (unskippable (sqd r)) \<union> set (cantskip (sqd r))"
  from assms obtain u q where 1: "unskip_loop (setscene_tids env) ?un r = Inr (u, q)"
    and r': "unskippable (sqd r') = u"
    unfolding find_unskippable_def Let_def by (auto simp del: unskip_loop.simps simp: upd_sqd_def)
  have S: "set ?un = ?S" by force
  have "set ?un \<subseteq> unskip.reached (entries r) (setscene_tids env) ?S"
    unfolding S using unskip.reached_start .
  from unskip_loop_set [OF 1 this]
  have "set u = unskip.reached (entries r) (setscene_tids env) ?S"
    unfolding S by (intro unskip.reached_eq) blast+
  then show ?thesis unfolding r' unskip.reached_def .
qed

theorem unskippable_closure_witness:
  "(skip_edge build_entries [''a:package''])\<^sup>*\<^sup>* ''a:build'' ''a:package'' \<and>
   \<not> (skip_edge build_entries [''a:package''])\<^sup>*\<^sup>* ''a:build'' ''a:fetch''"
proof -
  let ?r = "rqexe_fields (demo_env [''a:package'']) build_entries 1
     \<lparr>s_prio_map = Order [], s_buildable = [], s_skip_maxthread = [], s_stamps = [], s_rev_prio_map = []\<rparr> demo_files"
  let ?f = "find_unskippable (demo_env [''a:package'']) ?r"
  have "case ?f of Inl e \<Rightarrow> False | Inr r' \<Rightarrow> set (unskippable (sqd r')) = {''a:build'', ''a:package''}"
    by code_simp
  then obtain r' where f: "?f = Inr r'" and u: "set (unskippable (sqd r')) = {''a:build'', ''a:package''}"
    by (cases ?f) auto
  have e: "entries ?r = build_entries" "unskippable (sqd ?r) = []" "cantskip (sqd ?r) = []"
    "setscene_tids (demo_env [''a:package'']) = [''a:package'']"
    by (simp_all add: rqexe_fields_def SQData_def demo_env_def)
  have "set (map fst (filter (\<lambda>(t, e). revdeps e = []) build_entries)) = {''a:build''}" by code_simp
  moreover have "{t. \<exists>e. (t, e) \<in> set xs \<and> revdeps e = []} = set (map fst (filter (\<lambda>(t, e). revdeps e = []) xs))"
    for xs :: entries by force
  ultimately have "{t. \<exists>e. (t, e) \<in> set build_entries \<and> revdeps e = []} = {''a:build''}" by (simp only:)
  with unskippable_closure [OF f] u e
  have "d \<in> {''a:build'', ''a:package''} \<longleftrightarrow> (skip_edge build_entries [''a:package''])\<^sup>*\<^sup>* ''a:build'' d" for d
    by (simp add: set_eq_iff)
  from this [of "''a:package''"] this [of "''a:fetch''"] show ?thesis by simp
qed

section \<open>The graph of setscene tasks\<close>

lemma reverse_deps_inner:
  assumes "foldE (\<lambda>dep d. bindE (dget d dep) (\<lambda>ts. Inr (dset dep (sadd tid ts) d))) ds d = Inr d'"
  shows "\<forall>t s. s \<in> set (dgetd d' t []) \<longleftrightarrow> s \<in> set (dgetd d t []) \<or> s = tid \<and> t \<in> set ds"
proof (rule foldE_prefix_inv [OF assms, where P = "\<lambda>ys q. \<forall>t s. s \<in> set (dgetd q t []) \<longleftrightarrow>
      s \<in> set (dgetd d t []) \<or> s = tid \<and> t \<in> set ys"])
  fix ys x zs s t
  assume P: "\<forall>u v. v \<in> set (dgetd s u []) \<longleftrightarrow> v \<in> set (dgetd d u []) \<or> v = tid \<and> u \<in> set ys"
    and run: "bindE (dget s x) (\<lambda>ts. Inr (dset x (sadd tid ts) s)) = Inr t"
  from run obtain ts where ts: "map_of s x = Some ts" and t: "t = dset x (sadd tid ts) s"
    by (auto simp: dget_Inr_iff)
  show "\<forall>u v. v \<in> set (dgetd t u []) \<longleftrightarrow> v \<in> set (dgetd d u []) \<or> v = tid \<and> u \<in> set (ys @ [x])"
  proof (intro allI)
    fix u v
    show "v \<in> set (dgetd t u []) \<longleftrightarrow> v \<in> set (dgetd d u []) \<or> v = tid \<and> u \<in> set (ys @ [x])"
      using P [rule_format, of v u] ts by (cases "u = x") (auto simp: t dgetd_def)
  qed
qed simp

text \<open>
  the dependencies of the setscene tasks are the reverse of their reverse dependencies: the
  two graphs the scene queue walks have the same edges.
\<close>

theorem reverse_deps_reverse:
  assumes "reverse_deps rd = Inr d" and "distinct (dkeys rd)"
  shows "s \<in> set (dgetd d t []) \<longleftrightarrow> t \<in> set (dgetd rd s [])"
proof -
  let ?d0 = "map (\<lambda>(tid, _). (tid, [])) rd :: (tid, tid list) dict"
  have z: "dgetd ?d0 t [] = []" for t
    by (auto simp: dgetd_def split: option.splits dest!: map_of_SomeD)
  have "\<forall>t s. s \<in> set (dgetd d t []) \<longleftrightarrow> (\<exists>ds. (s, ds) \<in> set rd \<and> t \<in> set ds)"
    using assms(1) unfolding reverse_deps_def
  proof (rule foldE_prefix_inv [where P = "\<lambda>ys q. \<forall>t s. s \<in> set (dgetd q t []) \<longleftrightarrow>
        (\<exists>ds. (s, ds) \<in> set ys \<and> t \<in> set ds)"])
    fix ys x zs p q
    assume P: "\<forall>t s. s \<in> set (dgetd p t []) \<longleftrightarrow> (\<exists>ds. (s, ds) \<in> set ys \<and> t \<in> set ds)"
      and run: "(case x of (tid, ds) \<Rightarrow> \<lambda>d. foldE (\<lambda>dep d. bindE (dget d dep)
        (\<lambda>ts. Inr (dset dep (sadd tid ts) d))) ds d) p = Inr q"
    obtain tid ds where x: "x = (tid, ds)" by fastforce
    from run have "foldE (\<lambda>dep d. bindE (dget d dep) (\<lambda>ts. Inr (dset dep (sadd tid ts) d))) ds p = Inr q"
      by (simp add: x)
    from reverse_deps_inner [OF this] P
    show "\<forall>t s. s \<in> set (dgetd q t []) \<longleftrightarrow> (\<exists>ds. (s, ds) \<in> set (ys @ [x]) \<and> t \<in> set ds)"
      by (auto simp: x)
  qed (simp add: z)
  moreover have "(\<exists>ds. (s, ds) \<in> set rd \<and> t \<in> set ds) \<longleftrightarrow> t \<in> set (dgetd rd s [])"
    using assms(2) by (auto simp: dgetd_def split: option.splits dest: map_of_SomeD)
  ultimately show ?thesis by blast
qed

theorem reverse_deps_reverse_witness:
  "\<exists>d. reverse_deps [(''a:x'', [''b:x'', ''c:x'']), (''b:x'', [''c:x'']), (''c:x'', [])] = Inr d \<and>
     (''b:x'' \<in> set (dgetd d ''c:x'' []))"
proof -
  let ?rd = "[(''a:x'', [''b:x'', ''c:x'']), (''b:x'', [''c:x'']), (''c:x'', [])] :: (tid, tid list) dict"
  have d: "distinct (dkeys ?rd)" by code_simp
  have "case reverse_deps ?rd of Inl e \<Rightarrow> False | Inr d \<Rightarrow> True" by code_simp
  then obtain d where r: "reverse_deps ?rd = Inr d" by (cases "reverse_deps ?rd") auto
  from reverse_deps_reverse [OF r d, of "''b:x''" "''c:x''"] r show ?thesis by (simp add: dgetd_def)
qed

end
