(* ===== verification/TaskDataProps.thy ===== *)
theory TaskDataProps
  imports TaskData
begin

text \<open>
  Properties of the task data of \<open>poky/bitbake/lib/bb/taskdata.py\<close>: how the failure of a file
  spreads over the targets it provided and the files that depend on them.
\<close>

section \<open>What the failure of a file changes\<close>

definition blist :: "taskdata \<Rightarrow> string \<Rightarrow> string list" where
  "blist t x = dgetd (build_targets t) x []"

definition rlist :: "taskdata \<Rightarrow> string \<Rightarrow> string list" where
  "rlist t x = dgetd (run_targets t) x []"

text \<open>Every file with the failed target among its dependencies, or those of one of its tasks, failed.\<close>

definition hit_by :: "taskdata \<Rightarrow> string list \<Rightarrow> (task_entry \<Rightarrow> (string \<times> string) list) \<Rightarrow> string \<Rightarrow> bool" where
  "hit_by t dependees sel x \<longleftrightarrow> set dependees \<subseteq> set (failed_fns t) \<and>
     (\<forall>tid e. map_of (taskentries t) tid = Some e \<longrightarrow> x \<in> fst ` set (sel e) \<longrightarrow> fn_from_tid tid \<in> set (failed_fns t))"

definition hit :: "taskdata \<Rightarrow> string \<Rightarrow> bool" where
  "hit t x \<longleftrightarrow> hit_by t (get_dependees t x) idepends x"

definition rhit :: "taskdata \<Rightarrow> string \<Rightarrow> bool" where
  "rhit t x \<longleftrightarrow> hit_by t (get_rdependees t x) irdepends x"

definition clean :: "taskdata \<Rightarrow> string \<Rightarrow> bool" where
  "clean t f \<longleftrightarrow> (\<forall>x. f \<notin> set (blist t x) \<and> f \<notin> set (rlist t x))"

definition dist :: "taskdata \<Rightarrow> bool" where
  "dist t \<longleftrightarrow> (\<forall>x. distinct (blist t x) \<and> distinct (rlist t x))"

text \<open>
  \<open>fails t t'\<close>: going from \<open>t\<close> to \<open>t'\<close> only adds failures and takes providers away, a file that
  failed on the way provides nothing any more (where no target lists a file twice), and a target
  that failed on the way has hit everything that needs it; a target that lost its last file failed.
\<close>

definition fails :: "taskdata \<Rightarrow> taskdata \<Rightarrow> bool" where
  "fails t t' \<longleftrightarrow>
     depids t' = depids t \<and> rdepids t' = rdepids t \<and> taskentries t' = taskentries t \<and>
     dkeys (build_targets t') = dkeys (build_targets t) \<and> dkeys (run_targets t') = dkeys (run_targets t) \<and>
     set (failed_fns t) \<subseteq> set (failed_fns t') \<and>
     (\<forall>x. set (blist t' x) \<subseteq> set (blist t x) \<and> set (rlist t' x) \<subseteq> set (rlist t x)) \<and>
     (dist t \<longrightarrow> dist t') \<and>
     (dist t \<longrightarrow> (\<forall>f \<in> set (failed_fns t') - set (failed_fns t). clean t' f)) \<and>
     (\<forall>x \<in> set (failed_deps t') - set (failed_deps t). hit t' x) \<and>
     (\<forall>x \<in> set (failed_rdeps t') - set (failed_rdeps t). rhit t' x) \<and>
     set (failed_deps t) \<subseteq> set (failed_deps t') \<and> set (failed_rdeps t) \<subseteq> set (failed_rdeps t') \<and>
     (\<forall>x. blist t x \<noteq> [] \<longrightarrow> blist t' x = [] \<longrightarrow> x \<in> set (failed_deps t')) \<and>
     (\<forall>x. rlist t x \<noteq> [] \<longrightarrow> rlist t' x = [] \<longrightarrow> x \<in> set (failed_rdeps t'))"

lemma fails_refl [simp]: "fails t t"
  by (simp add: fails_def)

lemma failsD:
  assumes "fails t t'"
  shows "depids t' = depids t" "rdepids t' = rdepids t" "taskentries t' = taskentries t"
    "dkeys (build_targets t') = dkeys (build_targets t)" "dkeys (run_targets t') = dkeys (run_targets t)"
    "set (failed_fns t) \<subseteq> set (failed_fns t')"
    "\<And>x. set (blist t' x) \<subseteq> set (blist t x)" "\<And>x. set (rlist t' x) \<subseteq> set (rlist t x)"
    "dist t \<Longrightarrow> dist t'"
    "\<And>f. dist t \<Longrightarrow> f \<in> set (failed_fns t') \<Longrightarrow> f \<notin> set (failed_fns t) \<Longrightarrow> clean t' f"
    "\<And>x. x \<in> set (failed_deps t') \<Longrightarrow> x \<notin> set (failed_deps t) \<Longrightarrow> hit t' x"
    "\<And>x. x \<in> set (failed_rdeps t') \<Longrightarrow> x \<notin> set (failed_rdeps t) \<Longrightarrow> rhit t' x"
    "set (failed_deps t) \<subseteq> set (failed_deps t')" "set (failed_rdeps t) \<subseteq> set (failed_rdeps t')"
    "\<And>x. blist t x \<noteq> [] \<Longrightarrow> blist t' x = [] \<Longrightarrow> x \<in> set (failed_deps t')"
    "\<And>x. rlist t x \<noteq> [] \<Longrightarrow> rlist t' x = [] \<Longrightarrow> x \<in> set (failed_rdeps t')"
  using assms unfolding fails_def by blast+

lemma fails_clean: "fails t t' \<Longrightarrow> clean t f \<Longrightarrow> clean t' f"
  using failsD(7) failsD(8) unfolding clean_def by (metis subsetD)

lemma fails_hit_by: "fails t t' \<Longrightarrow> hit_by t ds sel x \<Longrightarrow> hit_by t' ds sel x"
  using failsD(3) [of t t'] failsD(6) [of t t'] by (auto simp: hit_by_def)

lemma fails_hit:
  assumes "fails t t'"
  shows "hit t x \<Longrightarrow> hit t' x" and "rhit t x \<Longrightarrow> rhit t' x"
proof -
  have "get_dependees t' x = get_dependees t x" "get_rdependees t' x = get_rdependees t x"
    using failsD(1,2) [OF assms] by (simp_all add: get_dependees_def get_rdependees_def)
  then show "hit t x \<Longrightarrow> hit t' x" "rhit t x \<Longrightarrow> rhit t' x"
    using fails_hit_by [OF assms] by (simp_all add: hit_def rhit_def)
qed

lemma fails_trans:
  assumes a: "fails t s" and b: "fails s u"
  shows "fails t u"
  unfolding fails_def
proof (intro conjI allI ballI)
  show "depids u = depids t" "rdepids u = rdepids t" "taskentries u = taskentries t"
    "dkeys (build_targets u) = dkeys (build_targets t)" "dkeys (run_targets u) = dkeys (run_targets t)"
    using failsD(1-5) [OF a] failsD(1-5) [OF b] by simp_all
  show "set (failed_fns t) \<subseteq> set (failed_fns u)" using failsD(6) [OF a] failsD(6) [OF b] by blast
  show "set (failed_deps t) \<subseteq> set (failed_deps u)" using failsD(13) [OF a] failsD(13) [OF b] by blast
  show "set (failed_rdeps t) \<subseteq> set (failed_rdeps u)" using failsD(14) [OF a] failsD(14) [OF b] by blast
  show "dist t \<longrightarrow> dist u" using failsD(9) [OF a] failsD(9) [OF b] by blast
  show "blist t x \<noteq> [] \<longrightarrow> blist u x = [] \<longrightarrow> x \<in> set (failed_deps u)" for x
    using failsD(15) [OF a, of x] failsD(15) [OF b, of x] failsD(13) [OF b] by blast
  show "rlist t x \<noteq> [] \<longrightarrow> rlist u x = [] \<longrightarrow> x \<in> set (failed_rdeps u)" for x
    using failsD(16) [OF a, of x] failsD(16) [OF b, of x] failsD(14) [OF b] by blast
  fix x
  show "set (blist u x) \<subseteq> set (blist t x)" using failsD(7) [OF a] failsD(7) [OF b] by blast
  show "set (rlist u x) \<subseteq> set (rlist t x)" using failsD(8) [OF a] failsD(8) [OF b] by blast
next
  show "dist t \<longrightarrow> (\<forall>f \<in> set (failed_fns u) - set (failed_fns t). clean u f)"
    using failsD(10) [OF a] failsD(10) [OF b] failsD(9) [OF a] fails_clean [OF b] by blast
next
  fix x
  assume "x \<in> set (failed_deps u) - set (failed_deps t)"
  then show "hit u x" using failsD(11) [OF a] failsD(11) [OF b] fails_hit(1) [OF b] by blast
next
  fix x
  assume "x \<in> set (failed_rdeps u) - set (failed_rdeps t)"
  then show "rhit u x" using failsD(12) [OF a] failsD(12) [OF b] fails_hit(2) [OF b] by blast
qed

section \<open>The loops\<close>

lemma dkeys_dset_din: "din x d \<Longrightarrow> dkeys (dset x v d) = dkeys d"
  by (simp add: dkeys_dset)

lemma din_dgetd: "a \<in> set (dgetd d x []) \<Longrightarrow> din x d"
  by (cases "map_of d x") (simp_all add: dgetd_def din_iff)

lemma drop_build_frame:
  "depids (drop_build fn x t) = depids t" "rdepids (drop_build fn x t) = rdepids t"
  "taskentries (drop_build fn x t) = taskentries t" "failed_fns (drop_build fn x t) = failed_fns t"
  "failed_deps (drop_build fn x t) = failed_deps t" "failed_rdeps (drop_build fn x t) = failed_rdeps t"
  "run_targets (drop_build fn x t) = run_targets t" "rlist (drop_build fn x t) = rlist t"
  by (simp_all add: fun_eq_iff drop_build_def rlist_def)

lemma blist_drop:
  "blist (drop_build fn x t) y = (if y = x then remove1 fn (blist t x) else blist t y)"
  by (simp add: blist_def drop_build_def dgetd_def)

lemma fails_drop:
  assumes fn: "fn \<in> set (blist t x)" and f: "fails (drop_build fn x t) u"
    and lost: "blist (drop_build fn x t) x = [] \<longrightarrow> x \<in> set (failed_deps u)"
  shows "fails t u"
  unfolding fails_def
proof (intro conjI)
  note fD = failsD [OF f, unfolded drop_build_frame]
  have "din x (build_targets t)" using fn by (intro din_dgetd) (simp add: blist_def)
  then have "dkeys (build_targets (drop_build fn x t)) = dkeys (build_targets t)"
    unfolding drop_build_def by (simp add: dkeys_dset_din del: map_map)
  with fD(1-5) show "depids u = depids t" "rdepids u = rdepids t" "taskentries u = taskentries t"
    "dkeys (build_targets u) = dkeys (build_targets t)" "dkeys (run_targets u) = dkeys (run_targets t)"
    by simp_all
  have sub: "set (blist (drop_build fn x t) y) \<subseteq> set (blist t y)" for y
    using set_remove1_subset [of fn "blist t x"] by (simp add: blist_drop)
  then show "\<forall>y. set (blist u y) \<subseteq> set (blist t y) \<and> set (rlist u y) \<subseteq> set (rlist t y)"
    using fD(7) fD(8) by blast
  have d: "dist t \<Longrightarrow> dist (drop_build fn x t)"
    by (simp add: dist_def blist_drop drop_build_frame)
  then show "dist t \<longrightarrow> dist u" "dist t \<longrightarrow> (\<forall>f \<in> set (failed_fns u) - set (failed_fns t). clean u f)"
    using fD(9) fD(10) by blast+
  show "set (failed_fns t) \<subseteq> set (failed_fns u)"
    "set (failed_deps t) \<subseteq> set (failed_deps u)" "set (failed_rdeps t) \<subseteq> set (failed_rdeps u)"
    "\<forall>x \<in> set (failed_deps u) - set (failed_deps t). hit u x"
    "\<forall>x \<in> set (failed_rdeps u) - set (failed_rdeps t). rhit u x"
    "\<forall>x. rlist t x \<noteq> [] \<longrightarrow> rlist u x = [] \<longrightarrow> x \<in> set (failed_rdeps u)"
    using fD(6) fD(13) fD(14) fD(11) fD(12) fD(16) by blast+
  have "y \<in> set (failed_deps u)" if "blist t y \<noteq> []" "blist u y = []" for y
    using that lost fD(15) [of y] by (cases "y = x") (auto simp: blist_drop)
  then show "\<forall>x. blist t x \<noteq> [] \<longrightarrow> blist u x = [] \<longrightarrow> x \<in> set (failed_deps u)" by blast
qed

lemma drop_run_frame:
  "depids (drop_run fn x t) = depids t" "rdepids (drop_run fn x t) = rdepids t"
  "taskentries (drop_run fn x t) = taskentries t" "failed_fns (drop_run fn x t) = failed_fns t"
  "failed_deps (drop_run fn x t) = failed_deps t" "failed_rdeps (drop_run fn x t) = failed_rdeps t"
  "build_targets (drop_run fn x t) = build_targets t" "blist (drop_run fn x t) = blist t"
  by (simp_all add: fun_eq_iff drop_run_def blist_def)

lemma rlist_drop:
  "rlist (drop_run fn x t) y = (if y = x then remove1 fn (rlist t x) else rlist t y)"
  by (simp add: rlist_def drop_run_def dgetd_def)

lemma fails_drop_run:
  assumes fn: "fn \<in> set (rlist t x)" and f: "fails (drop_run fn x t) u"
    and lost: "rlist (drop_run fn x t) x = [] \<longrightarrow> x \<in> set (failed_rdeps u)"
  shows "fails t u"
  unfolding fails_def
proof (intro conjI)
  note fD = failsD [OF f, unfolded drop_run_frame]
  have "din x (run_targets t)" using fn by (intro din_dgetd) (simp add: rlist_def)
  then have "dkeys (run_targets (drop_run fn x t)) = dkeys (run_targets t)"
    unfolding drop_run_def by (simp add: dkeys_dset_din del: map_map)
  with fD(1-5) show "depids u = depids t" "rdepids u = rdepids t" "taskentries u = taskentries t"
    "dkeys (build_targets u) = dkeys (build_targets t)" "dkeys (run_targets u) = dkeys (run_targets t)"
    by simp_all
  have sub: "set (rlist (drop_run fn x t) y) \<subseteq> set (rlist t y)" for y
    using set_remove1_subset [of fn "rlist t x"] by (simp add: rlist_drop)
  then show "\<forall>y. set (blist u y) \<subseteq> set (blist t y) \<and> set (rlist u y) \<subseteq> set (rlist t y)"
    using fD(7) fD(8) by blast
  have d: "dist t \<Longrightarrow> dist (drop_run fn x t)"
    by (simp add: dist_def rlist_drop drop_run_frame)
  then show "dist t \<longrightarrow> dist u" "dist t \<longrightarrow> (\<forall>f \<in> set (failed_fns u) - set (failed_fns t). clean u f)"
    using fD(9) fD(10) by blast+
  show "set (failed_fns t) \<subseteq> set (failed_fns u)"
    "set (failed_deps t) \<subseteq> set (failed_deps u)" "set (failed_rdeps t) \<subseteq> set (failed_rdeps u)"
    "\<forall>x \<in> set (failed_deps u) - set (failed_deps t). hit u x"
    "\<forall>x \<in> set (failed_rdeps u) - set (failed_rdeps t). rhit u x"
    "\<forall>x. blist t x \<noteq> [] \<longrightarrow> blist u x = [] \<longrightarrow> x \<in> set (failed_deps u)"
    using fD(6) fD(13) fD(14) fD(11) fD(12) fD(15) by blast+
  have "y \<in> set (failed_rdeps u)" if "rlist t y \<noteq> []" "rlist u y = []" for y
    using that lost fD(16) [of y] by (cases "y = x") (auto simp: rlist_drop)
  then show "\<forall>x. rlist t x \<noteq> [] \<longrightarrow> rlist u x = [] \<longrightarrow> x \<in> set (failed_rdeps u)" by blast
qed

text \<open>What is known of the recursive call.\<close>

definition fails_fn :: "(string \<Rightarrow> taskdata \<Rightarrow> (pyerr \<times> taskdata) + taskdata) \<Rightarrow> bool" where
  "fails_fn fail \<longleftrightarrow> (\<forall>f t t'. fail f t = Inr t' \<longrightarrow> fails t t' \<and> f \<in> set (failed_fns t'))"

lemma fails_fold:
  assumes "foldE fail fs t = Inr t'" and "fails_fn fail"
  shows "fails t t' \<and> set fs \<subseteq> set (failed_fns t')"
proof (rule foldE_prefix_inv [OF assms(1), where P = "\<lambda>ys s. fails t s \<and> set ys \<subseteq> set (failed_fns s)"])
  fix ys x zs s u
  assume P: "fails t s \<and> set ys \<subseteq> set (failed_fns s)" and run: "fail x s = Inr u"
  with assms(2) have u: "fails s u" "x \<in> set (failed_fns u)" unfolding fails_fn_def by blast+
  with P fails_trans failsD(6) [OF u(1)] show "fails t u \<and> set (ys @ [x]) \<subseteq> set (failed_fns u)" by auto
qed simp

lemma fails_fold_entry:
  assumes "fail_deps_of fail sel x tid t = Inr t'" and "fails_fn fail"
  shows "fails t t' \<and>
    (\<forall>e. map_of (taskentries t') tid = Some e \<longrightarrow> x \<in> fst ` set (sel e) \<longrightarrow> fn_from_tid tid \<in> set (failed_fns t'))"
proof (cases "map_of (taskentries t) tid")
  case None
  with assms show ?thesis by (simp add: fail_deps_of_def)
next
  case (Some e)
  with assms(1) have f: "foldE (\<lambda>(idepend, idependtask) t.
      if idepend = x then fail (fn_from_tid tid) t else Inr t) (sel e) t = Inr t'"
    by (simp add: fail_deps_of_def)
  have "fails t t' \<and> (x \<in> fst ` set (sel e) \<longrightarrow> fn_from_tid tid \<in> set (failed_fns t'))"
  proof (rule foldE_prefix_inv [OF f, where P = "\<lambda>ys s. fails t s \<and>
      (x \<in> fst ` set (ys :: (string \<times> string) list) \<longrightarrow> fn_from_tid tid \<in> set (failed_fns s))"])
    fix ys zs :: "(string \<times> string) list" and y :: "string \<times> string" and s u
    assume P: "fails t s \<and> (x \<in> fst ` set ys \<longrightarrow> fn_from_tid tid \<in> set (failed_fns s))"
      and run: "(case y of (idepend, idependtask) \<Rightarrow>
        \<lambda>t. if idepend = x then fail (fn_from_tid tid) t else Inr t) s = Inr u"
    show "fails t u \<and> (x \<in> fst ` set (ys @ [y]) \<longrightarrow> fn_from_tid tid \<in> set (failed_fns u))"
    proof (cases "fst y = x")
      case True
      with run have "fail (fn_from_tid tid) s = Inr u" by (auto split: prod.splits)
      with assms(2) have "fails s u" "fn_from_tid tid \<in> set (failed_fns u)" unfolding fails_fn_def by blast+
      with P fails_trans show ?thesis by blast
    next
      case False
      with run have "u = s" by (auto split: prod.splits)
      with P False show ?thesis by auto
    qed
  qed simp
  moreover from this have "map_of (taskentries t') tid = Some e" using Some failsD(3) by metis
  ultimately show ?thesis by simp
qed

lemma fails_fold_entries:
  assumes "foldE (fail_deps_of fail sel x) tids t = Inr t'" and "fails_fn fail"
  shows "fails t t' \<and> (\<forall>tid \<in> set tids. \<forall>e. map_of (taskentries t') tid = Some e \<longrightarrow>
      x \<in> fst ` set (sel e) \<longrightarrow> fn_from_tid tid \<in> set (failed_fns t'))"
proof (rule foldE_prefix_inv [OF assms(1), where P = "\<lambda>ys s. fails t s \<and>
    (\<forall>tid \<in> set ys. \<forall>e. map_of (taskentries s) tid = Some e \<longrightarrow>
      x \<in> fst ` set (sel e) \<longrightarrow> fn_from_tid tid \<in> set (failed_fns s))"])
  fix ys tid zs s u
  assume P: "fails t s \<and> (\<forall>tid \<in> set ys. \<forall>e. map_of (taskentries s) tid = Some e \<longrightarrow>
      x \<in> fst ` set (sel e) \<longrightarrow> fn_from_tid tid \<in> set (failed_fns s))"
    and run: "fail_deps_of fail sel x tid s = Inr u"
  note u = fails_fold_entry [OF run assms(2)]
  then have "fails s u" by blast
  with P u fails_trans [of t s u] failsD(3,6) [OF \<open>fails s u\<close>]
  show "fails t u \<and> (\<forall>tid \<in> set (ys @ [tid]). \<forall>e. map_of (taskentries u) tid = Some e \<longrightarrow>
      x \<in> fst ` set (sel e) \<longrightarrow> fn_from_tid tid \<in> set (failed_fns u))"
    by (auto dest: subsetD)
qed simp

lemma map_of_in_keys: "map_of d k = Some v \<Longrightarrow> k \<in> set (dkeys d)"
  by (simp add: din_iff)

lemma remove_buildtarget_fails:
  assumes "remove_buildtarget_body fail x t = Inr t'" and "fails_fn fail"
  shows "fails t t' \<and> x \<in> set (failed_deps t')"
proof -
  let ?t = "t\<lparr>failed_deps := failed_deps t @ [x]\<rparr>"
  from assms(1) obtain t1 where 1: "foldE fail (get_dependees ?t x) ?t = Inr t1"
    and 2: "foldE (fail_deps_of fail idepends x) (dkeys (taskentries t1)) t1 = Inr t'"
    by (auto simp: remove_buildtarget_body_def Let_def split: if_splits)
  note f1 = fails_fold [OF 1 assms(2)]
  note f2 = fails_fold_entries [OF 2 assms(2)]
  have f: "fails ?t t'" using f1 f2 fails_trans by blast
  have te: "taskentries t' = taskentries t1" using f2 failsD(3) by blast
  have dd: "get_dependees t' x = get_dependees ?t x"
    using failsD(1) [OF f] by (simp add: get_dependees_def)
  have "hit t' x"
    unfolding hit_def hit_by_def
  proof (intro conjI allI impI)
    show "set (get_dependees t' x) \<subseteq> set (failed_fns t')"
      unfolding dd using f1 f2 failsD(6) [of t1 t'] by blast
    fix tid e
    assume e: "map_of (taskentries t') tid = Some e" and x: "x \<in> fst ` set (idepends e)"
    then have "tid \<in> set (dkeys (taskentries t1))" using map_of_in_keys te by metis
    with f2 e x show "fn_from_tid tid \<in> set (failed_fns t')" by blast
  qed
  moreover have "x \<in> set (failed_deps t')" using failsD(13) [OF f] by auto
  moreover have "fails t t'"
  proof -
    have "\<forall>y \<in> set (failed_deps t') - set (failed_deps t). hit t' y"
    proof
      fix y
      assume "y \<in> set (failed_deps t') - set (failed_deps t)"
      then show "hit t' y" using failsD(11) [OF f, of y] \<open>hit t' x\<close> by (cases "y = x") auto
    qed
    with f show ?thesis by (auto simp: fails_def blist_def rlist_def dist_def)
  qed
  ultimately show ?thesis by blast
qed

lemma remove_runtarget_fails:
  assumes "remove_runtarget_body fail x t = Inr t'" and "fails_fn fail"
  shows "fails t t' \<and> x \<in> set (failed_rdeps t')"
proof -
  let ?t = "t\<lparr>failed_rdeps := failed_rdeps t @ [x]\<rparr>"
  from assms(1) obtain t1 where 1: "foldE fail (get_rdependees ?t x) ?t = Inr t1"
    and 2: "foldE (fail_deps_of fail irdepends x) (dkeys (taskentries t1)) t1 = Inr t'"
    by (auto simp: remove_runtarget_body_def Let_def)
  note f1 = fails_fold [OF 1 assms(2)]
  note f2 = fails_fold_entries [OF 2 assms(2)]
  have f: "fails ?t t'" using f1 f2 fails_trans by blast
  have te: "taskentries t' = taskentries t1" using f2 failsD(3) by blast
  have dd: "get_rdependees t' x = get_rdependees ?t x"
    using failsD(2) [OF f] by (simp add: get_rdependees_def)
  have "rhit t' x"
    unfolding rhit_def hit_by_def
  proof (intro conjI allI impI)
    show "set (get_rdependees t' x) \<subseteq> set (failed_fns t')"
      unfolding dd using f1 f2 failsD(6) [of t1 t'] by blast
    fix tid e
    assume e: "map_of (taskentries t') tid = Some e" and x: "x \<in> fst ` set (irdepends e)"
    then have "tid \<in> set (dkeys (taskentries t1))" using map_of_in_keys te by metis
    with f2 e x show "fn_from_tid tid \<in> set (failed_fns t')" by blast
  qed
  moreover have "x \<in> set (failed_rdeps t')" using failsD(14) [OF f] by auto
  moreover have "fails t t'"
  proof -
    have "\<forall>y \<in> set (failed_rdeps t') - set (failed_rdeps t). rhit t' y"
    proof
      fix y
      assume "y \<in> set (failed_rdeps t') - set (failed_rdeps t)"
      then show "rhit t' y" using failsD(12) [OF f, of y] \<open>rhit t' x\<close> by (cases "y = x") auto
    qed
    with f show ?thesis by (auto simp: fails_def blist_def rlist_def dist_def)
  qed
  ultimately show ?thesis by blast
qed

section \<open>fail_fn\<close>

text \<open>The bodies of the two loops of \<open>fail_fn\<close>.\<close>

definition fail_build :: "(string \<Rightarrow> taskdata \<Rightarrow> (pyerr \<times> taskdata) + taskdata) \<Rightarrow>
    string \<Rightarrow> string \<Rightarrow> taskdata \<Rightarrow> (pyerr \<times> taskdata) + taskdata" where
  "fail_build fail fn = (\<lambda>target t.
     if fn \<in> set (dgetd (build_targets t) target []) then
       (let t = drop_build fn target t
        in if dgetd (build_targets t) target [] = [] then remove_buildtarget_body fail target t else Inr t)
     else Inr t)"

definition fail_run :: "(string \<Rightarrow> taskdata \<Rightarrow> (pyerr \<times> taskdata) + taskdata) \<Rightarrow>
    string \<Rightarrow> string \<Rightarrow> taskdata \<Rightarrow> (pyerr \<times> taskdata) + taskdata" where
  "fail_run fail fn = (\<lambda>target t.
     if fn \<in> set (dgetd (run_targets t) target []) then
       (let t = drop_run fn target t
        in if dgetd (run_targets t) target [] = [] then remove_runtarget_body fail target t else Inr t)
     else Inr t)"

lemma fail_fn_Suc:
  "fail_fn (Suc n) fn t =
     (if fn \<in> set (failed_fns t) then Inr t
      else bindE (foldE (fail_build (fail_fn n) fn) (dkeys (build_targets t)) (t\<lparr>failed_fns := failed_fns t @ [fn]\<rparr>))
             (\<lambda>t. foldE (fail_run (fail_fn n) fn) (dkeys (run_targets t)) t))"
  by (simp add: fail_build_def fail_run_def Let_def)

lemma not_in_remove1: "distinct xs \<Longrightarrow> x \<notin> set (remove1 x xs)"
  by simp

lemma fail_build_fails:
  assumes "fail_build fail fn x s = Inr u" and "fails_fn fail"
  shows "fails s u \<and> (dist s \<longrightarrow> fn \<notin> set (blist u x))"
proof (cases "fn \<in> set (blist s x)")
  case False
  with assms(1) have "u = s" by (simp add: fail_build_def blist_def)
  with False show ?thesis by simp
next
  case True
  let ?s = "drop_build fn x s"
  have run: "(if dgetd (build_targets ?s) x [] = [] then remove_buildtarget_body fail x ?s else Inr ?s) = Inr u"
    using assms(1) True by (simp add: fail_build_def blist_def Let_def)
  have u: "fails ?s u \<and> (blist ?s x = [] \<longrightarrow> x \<in> set (failed_deps u))"
    using run remove_buildtarget_fails [OF _ assms(2), of x ?s u] by (auto simp: blist_def split: if_split_asm)
  have "dist s \<longrightarrow> fn \<notin> set (blist ?s x)"
    by (simp add: blist_drop dist_def)
  with u failsD(7) [of ?s u x] fails_drop [OF True] show ?thesis by blast
qed

lemma fail_run_fails:
  assumes "fail_run fail fn x s = Inr u" and "fails_fn fail"
  shows "fails s u \<and> (dist s \<longrightarrow> fn \<notin> set (rlist u x))"
proof (cases "fn \<in> set (rlist s x)")
  case False
  with assms(1) have "u = s" by (simp add: fail_run_def rlist_def)
  with False show ?thesis by simp
next
  case True
  let ?s = "drop_run fn x s"
  have run: "(if dgetd (run_targets ?s) x [] = [] then remove_runtarget_body fail x ?s else Inr ?s) = Inr u"
    using assms(1) True by (simp add: fail_run_def rlist_def Let_def)
  have u: "fails ?s u \<and> (rlist ?s x = [] \<longrightarrow> x \<in> set (failed_rdeps u))"
    using run remove_runtarget_fails [OF _ assms(2), of x ?s u] by (auto simp: rlist_def split: if_split_asm)
  have "dist s \<longrightarrow> fn \<notin> set (rlist ?s x)"
    by (simp add: rlist_drop dist_def)
  with u failsD(8) [of ?s u x] fails_drop_run [OF True] show ?thesis by blast
qed

text \<open>A loop over all the keys leaves the file in none of the lists.\<close>

lemma fails_loop:
  assumes run: "foldE body (dkeys d) t = Inr t'"
    and step: "\<And>x s u. body x s = Inr u \<Longrightarrow> fails s u \<and> (dist s \<longrightarrow> fn \<notin> set (lst u x))"
    and mono: "\<And>s u x. fails s u \<Longrightarrow> set (lst u x) \<subseteq> set (lst s x)"
    and out: "\<And>x. \<not> din x d \<Longrightarrow> lst t x = []"
  shows "fails t t' \<and> (dist t \<longrightarrow> (\<forall>x. fn \<notin> set (lst t' x)))"
proof -
  have "fails t t' \<and> (dist t \<longrightarrow> (\<forall>x \<in> set (dkeys d). fn \<notin> set (lst t' x)))"
  proof (rule foldE_prefix_inv [OF run, where P = "\<lambda>ys s. fails t s \<and>
      (dist t \<longrightarrow> (\<forall>x \<in> set ys. fn \<notin> set (lst s x)))"])
    fix ys x zs s u
    assume P: "fails t s \<and> (dist t \<longrightarrow> (\<forall>x \<in> set ys. fn \<notin> set (lst s x)))" and b: "body x s = Inr u"
    from step [OF b] have su: "fails s u" and x: "dist s \<longrightarrow> fn \<notin> set (lst u x)" by auto
    show "fails t u \<and> (dist t \<longrightarrow> (\<forall>x \<in> set (ys @ [x]). fn \<notin> set (lst u x)))"
      using P su x fails_trans [of t s u] failsD(9) [of t s] mono [OF su] by auto
  qed simp
  then have f: "fails t t'" and all: "dist t \<Longrightarrow> \<forall>x \<in> set (dkeys d). fn \<notin> set (lst t' x)" by auto
  have "fn \<notin> set (lst t' x)" if "dist t" for x
  proof (cases "din x d")
    case True with all [OF that] show ?thesis unfolding din_def by blast
  next
    case False with out mono [OF f, of x] show ?thesis by auto
  qed
  with f show ?thesis by blast
qed

lemma fail_fn_fails: "fails_fn (fail_fn n)"
proof (induction n)
  case 0
  then show ?case by (simp add: fails_fn_def)
next
  case (Suc n)
  show ?case
    unfolding fails_fn_def
  proof (intro allI impI)
    fix fn t t'
    assume run: "fail_fn (Suc n) fn t = Inr t'"
    show "fails t t' \<and> fn \<in> set (failed_fns t')"
    proof (cases "fn \<in> set (failed_fns t)")
      case True
      with run show ?thesis by simp
    next
      case False
      let ?t = "t\<lparr>failed_fns := failed_fns t @ [fn]\<rparr>"
      from run False obtain t1 where 1: "foldE (fail_build (fail_fn n) fn) (dkeys (build_targets t)) ?t = Inr t1"
        and 2: "foldE (fail_run (fail_fn n) fn) (dkeys (run_targets t1)) t1 = Inr t'"
        unfolding fail_fn_Suc by auto
      have f1: "fails ?t t1 \<and> (dist ?t \<longrightarrow> (\<forall>x. fn \<notin> set (blist t1 x)))"
        by (rule fails_loop [OF 1 fail_build_fails [OF _ Suc.IH] failsD(7)])
          (auto simp: blist_def dgetd_def din_iff split: option.splits)
      have f2: "fails t1 t' \<and> (dist t1 \<longrightarrow> (\<forall>x. fn \<notin> set (rlist t' x)))"
        by (rule fails_loop [OF 2 fail_run_fails [OF _ Suc.IH] failsD(8)])
          (auto simp: rlist_def dgetd_def din_iff split: option.splits)
      have f: "fails ?t t'" using f1 f2 fails_trans by blast
      have d: "dist ?t = dist t" by (simp add: dist_def blist_def rlist_def)
      have c: "clean t' fn" if "dist t"
        using f1 f2 that d failsD(9) [of ?t t1] failsD(7) [of t1 t'] unfolding clean_def by blast
      have "dist t \<longrightarrow> (\<forall>f \<in> set (failed_fns t') - set (failed_fns t). clean t' f)"
      proof (intro impI ballI)
        fix g
        assume "dist t" "g \<in> set (failed_fns t') - set (failed_fns t)"
        then show "clean t' g" using c d failsD(10) [OF f, of g] by (cases "g = fn") auto
      qed
      moreover have "fn \<in> set (failed_fns t')" using failsD(6) [OF f] by auto
      moreover have "blist ?t = blist t" "rlist ?t = rlist t"
        by (simp_all add: fun_eq_iff blist_def rlist_def)
      ultimately show ?thesis
        using f unfolding fails_def d by simp
    qed
  qed
qed

text \<open>
  A state is consistent when a failed file provides nothing, everything that needs a failed
  target failed, and no target lists a file twice.
\<close>

definition consistent :: "taskdata \<Rightarrow> bool" where
  "consistent t \<longleftrightarrow> dist t \<and> (\<forall>f \<in> set (failed_fns t). clean t f) \<and>
     (\<forall>x \<in> set (failed_deps t). hit t x) \<and> (\<forall>x \<in> set (failed_rdeps t). rhit t x)"

lemma fails_consistent:
  assumes f: "fails t t'" and c: "consistent t"
  shows "consistent t'"
proof -
  have d: "dist t" using c by (simp add: consistent_def)
  have "clean t' g" if "g \<in> set (failed_fns t')" for g
    using that c failsD(10) [OF f d] fails_clean [OF f] unfolding consistent_def by blast
  moreover have "hit t' x" if "x \<in> set (failed_deps t')" for x
    using that c failsD(11) [OF f] fails_hit(1) [OF f] unfolding consistent_def by blast
  moreover have "rhit t' x" if "x \<in> set (failed_rdeps t')" for x
    using that c failsD(12) [OF f] fails_hit(2) [OF f] unfolding consistent_def by blast
  ultimately show ?thesis
    using failsD(9) [OF f d] by (simp add: consistent_def)
qed

section \<open>The recursion limit\<close>

text \<open>The files a failure can reach.\<close>

definition needing :: "taskdata \<Rightarrow> string set" where
  "needing t = set (dkeys (depids t)) \<union> set (dkeys (rdepids t)) \<union> fn_from_tid ` set (dkeys (taskentries t))"

lemma fails_needing: "fails t t' \<Longrightarrow> needing t' = needing t"
  by (simp only: needing_def failsD)

lemma dependees_needing:
  "set (get_dependees t x) \<subseteq> needing t" "set (get_rdependees t x) \<subseteq> needing t"
  unfolding get_dependees_def get_rdependees_def needing_def by auto

text \<open>Enough of the recursion limit is left for the files of \<open>U\<close> that have not failed yet.\<close>

definition room :: "string set \<Rightarrow> nat \<Rightarrow> taskdata \<Rightarrow> bool" where
  "room U n t \<longleftrightarrow> finite U \<and> needing t \<subseteq> U \<and> card (U - set (failed_fns t)) < n"

definition no_limit :: "(pyerr \<times> taskdata) + taskdata \<Rightarrow> bool" where
  "no_limit m \<longleftrightarrow> (\<forall>t. m \<noteq> Inl (RecursionError, t))"

lemma no_limit_Inr [simp]: "no_limit (Inr t)"
  by (simp add: no_limit_def)

lemma no_limit_bindE:
  assumes "no_limit m" and "\<And>u. m = Inr u \<Longrightarrow> no_limit (f u)"
  shows "no_limit (bindE m f)"
  using assms by (cases m) (simp_all add: no_limit_def)

lemma room_fails:
  assumes r: "room U n t" and f: "fails t t'"
  shows "room U n t'"
proof -
  have "card (U - set (failed_fns t')) \<le> card (U - set (failed_fns t))"
    using r failsD(6) [OF f] by (intro card_mono) (auto simp: room_def)
  with r show ?thesis by (simp add: room_def fails_needing [OF f])
qed

definition shallow :: "string set \<Rightarrow> nat \<Rightarrow> (string \<Rightarrow> taskdata \<Rightarrow> (pyerr \<times> taskdata) + taskdata) \<Rightarrow> bool" where
  "shallow U n fail \<longleftrightarrow> fails_fn fail \<and> (\<forall>f t. f \<in> U \<longrightarrow> room U n t \<longrightarrow> no_limit (fail f t))"

lemma no_limit_fold:
  assumes "\<And>x s. x \<in> set xs \<Longrightarrow> room U n s \<Longrightarrow> no_limit (f x s)"
    and "\<And>x s u. f x s = Inr u \<Longrightarrow> fails s u" and "room U n s"
  shows "no_limit (foldE f xs s)"
  using assms(1,3)
proof (induction xs arbitrary: s)
  case Nil
  then show ?case by simp
next
  case (Cons x xs)
  show ?case
  proof (cases "f x s")
    case (Inl e)
    then show ?thesis using Cons.prems(1) [of x s] Cons.prems(2) by simp
  next
    case (Inr u)
    then have "room U n u" using room_fails [OF Cons.prems(2)] assms(2) by blast
    with Inr Cons.IH [of u] Cons.prems(1) show ?thesis by simp
  qed
qed

lemma shallow_deps_of:
  assumes sh: "shallow U n fail" and r: "room U n t"
  shows "no_limit (fail_deps_of fail sel x tid t)"
proof (cases "map_of (taskentries t) tid")
  case None
  then show ?thesis by (simp add: fail_deps_of_def)
next
  case (Some e)
  have "tid \<in> set (dkeys (taskentries t))" by (rule map_of_in_keys [OF Some])
  then have U: "fn_from_tid tid \<in> U" using r unfolding room_def needing_def by blast
  have "no_limit (foldE (\<lambda>(idepend, idependtask) t.
      if idepend = x then fail (fn_from_tid tid) t else Inr t) (sel e) t)"
    by (rule no_limit_fold [where U = U and n = n])
      (use sh U r in \<open>auto simp: shallow_def fails_fn_def split: if_split_asm\<close>)
  with Some show ?thesis by (simp add: fail_deps_of_def)
qed

text \<open>The two loops that a lost target starts.\<close>

lemma shallow_body:
  assumes sh: "shallow U n fail" and r: "room U n t" and ds: "set ds \<subseteq> U"
    and rest: "\<And>u. no_limit (f u)"
  shows "no_limit (bindE (foldE fail ds t) (\<lambda>t.
      bindE (foldE (fail_deps_of fail sel x) (dkeys (taskentries t)) t) f))"
proof (rule no_limit_bindE)
  have fn: "fails_fn fail" using sh by (simp add: shallow_def)
  show "no_limit (foldE fail ds t)"
    by (rule no_limit_fold [where U = U and n = n])
      (use sh r ds fn in \<open>auto simp: shallow_def fails_fn_def\<close>)
  fix u
  assume "foldE fail ds t = Inr u"
  then have "fails t u" using fails_fold [OF _ fn] by blast
  then have u: "room U n u" by (rule room_fails [OF r])
  have "no_limit (foldE (fail_deps_of fail sel x) (dkeys (taskentries u)) u)"
    by (rule no_limit_fold [where U = U and n = n, OF shallow_deps_of [OF sh] _ u])
      (use fails_fold_entry [OF _ fn] in blast)+
  then show "no_limit (bindE (foldE (fail_deps_of fail sel x) (dkeys (taskentries u)) u) f)"
    by (rule no_limit_bindE) (rule rest)
qed

lemma shallow_remove_build:
  assumes sh: "shallow U n fail" and r: "room U n t"
  shows "no_limit (remove_buildtarget_body fail x t)"
proof -
  let ?t = "t\<lparr>failed_deps := failed_deps t @ [x]\<rparr>"
  have r': "room U n ?t" using r by (simp add: room_def needing_def)
  then have ds: "set (get_dependees ?t x) \<subseteq> U"
    using dependees_needing(1) [of ?t x] unfolding room_def by blast
  show ?thesis
    unfolding remove_buildtarget_body_def Let_def
    by (rule shallow_body [OF sh r' ds]) (simp add: no_limit_def)
qed

lemma shallow_remove_run:
  assumes sh: "shallow U n fail" and r: "room U n t"
  shows "no_limit (remove_runtarget_body fail x t)"
proof -
  let ?t = "t\<lparr>failed_rdeps := failed_rdeps t @ [x]\<rparr>"
  have r': "room U n ?t" using r by (simp add: room_def needing_def)
  then have ds: "set (get_rdependees ?t x) \<subseteq> U"
    using dependees_needing(2) [of ?t x] unfolding room_def by blast
  have "no_limit (bindE (foldE fail (get_rdependees ?t x) ?t) (\<lambda>t.
      bindE (foldE (fail_deps_of fail irdepends x) (dkeys (taskentries t)) t) Inr))"
    by (rule shallow_body [OF sh r' ds]) simp
  moreover have "bindE m Inr = m" for m :: "(pyerr \<times> taskdata) + taskdata" by (cases m) simp_all
  ultimately show ?thesis
    unfolding remove_runtarget_body_def Let_def by simp
qed

lemma room_drop:
  "room U n (drop_build fn x t) = room U n t" "room U n (drop_run fn x t) = room U n t"
  by (simp_all add: room_def needing_def drop_build_frame drop_run_frame)

lemma shallow_fail_fn: "shallow U n (fail_fn n)"
proof (induction n)
  case 0
  then show ?case by (simp add: shallow_def room_def fail_fn_fails del: fail_fn.simps)
next
  case (Suc n)
  have "no_limit (fail_fn (Suc n) fn t)" if fn: "fn \<in> U" and r: "room U (Suc n) t" for fn t
  proof (cases "fn \<in> set (failed_fns t)")
    case True
    then show ?thesis by simp
  next
    case False
    let ?t = "t\<lparr>failed_fns := failed_fns t @ [fn]\<rparr>"
    have "U - set (failed_fns ?t) \<subset> U - set (failed_fns t)" using fn False by auto
    then have "card (U - set (failed_fns ?t)) < card (U - set (failed_fns t))"
      using r by (intro psubset_card_mono) (auto simp: room_def)
    then have r': "room U n ?t" using r by (simp add: room_def needing_def)
    have "no_limit (foldE (fail_build (fail_fn n) fn) ks s)" if "room U n s" for ks s
      by (rule no_limit_fold [where U = U and n = n])
        (use that fail_build_fails [OF _ fail_fn_fails] shallow_remove_build [OF Suc.IH] in
          \<open>auto simp: fail_build_def Let_def room_drop\<close>)
    moreover have "no_limit (foldE (fail_run (fail_fn n) fn) ks s)" if "room U n s" for ks s
      by (rule no_limit_fold [where U = U and n = n])
        (use that fail_run_fails [OF _ fail_fn_fails] shallow_remove_run [OF Suc.IH] in
          \<open>auto simp: fail_run_def Let_def room_drop\<close>)
    moreover have "fails ?t u" if "foldE (fail_build (fail_fn n) fn) (dkeys (build_targets t)) ?t = Inr u" for u
      using fails_loop [where lst = blist, OF that fail_build_fails [OF _ fail_fn_fails] failsD(7)] 
      by (auto simp: blist_def dgetd_def din_iff split: option.splits)
    ultimately show ?thesis
      using False r' room_fails [OF r'] unfolding fail_fn_Suc by (auto intro: no_limit_bindE)
  qed
  then show ?case unfolding shallow_def using fail_fn_fails [of "Suc n"] by blast
qed

section \<open>The properties\<close>

text \<open>
  A library, an application that depends on it, and an image with a task that depends on the
  application.
\<close>

definition demo_td :: taskdata where
  "demo_td = (TaskData False [] False)\<lparr>
     build_targets := [(''zlib'', [''z.bb'']), (''app'', [''a.bb'']), (''tool'', [''a.bb'', ''t.bb'']), (''image'', [''i.bb''])],
     run_targets := [(''zlib'', [''z.bb''])],
     depids := [(''a.bb'', [''zlib'']), (''t.bb'', []), (''i.bb'', [''tool''])],
     rdepids := [(''a.bb'', []), (''z.bb'', [])],
     taskentries := [(''i.bb:do_rootfs'', \<lparr>tdepends = [], idepends = [(''app'', ''do_build'')], irdepends = []\<rparr>)]\<rparr>"

lemma demo_td_consistent: "consistent demo_td"
proof -
  have "distinct (blist demo_td x) \<and> distinct (rlist demo_td x)" for x
    by (simp add: blist_def rlist_def demo_td_def dgetd_def)
  then show ?thesis by (simp add: consistent_def dist_def) (simp add: demo_td_def TaskData_def)
qed



text \<open>
  The mutual recursion of fail_fn, remove_buildtarget and remove_runtarget ends: it never goes
  deeper than the number of files that need something, so it never reaches a recursion limit above
  that, cyclic dependencies included.
\<close>

theorem fail_fn_within_limit:
  assumes "Suc (length (depids t) + length (rdepids t) + length (taskentries t)) < n"
  shows "fail_fn n fn t \<noteq> Inl (RecursionError, t')"
proof -
  let ?U = "insert fn (needing t)"
  let ?l = "fn # dkeys (depids t) @ dkeys (rdepids t) @ map fn_from_tid (dkeys (taskentries t))"
  have "?U = set ?l" unfolding needing_def by auto
  then have "card ?U \<le> length ?l" by (metis card_length)
  moreover have fin: "finite ?U" by (simp add: needing_def)
  then have "card (?U - set (failed_fns t)) \<le> card ?U" by (intro card_mono) auto
  ultimately have "card (?U - set (failed_fns t)) < n" using assms by simp
  then have "room ?U n t" using fin by (simp add: room_def subset_insertI)
  with shallow_fail_fn [of ?U n] show ?thesis by (simp add: shallow_def no_limit_def)
qed

theorem fail_fn_within_limit_witness:
  "\<forall>t'. fail_fn 8 ''z.bb'' demo_td \<noteq> Inl (RecursionError, t') \<and> fail_fn 1 ''z.bb'' demo_td \<noteq> Inr t'"
proof -
  have "isl (fail_fn 1 ''z.bb'' demo_td)" by code_simp
  then have "fail_fn 1 ''z.bb'' demo_td \<noteq> Inr t'" for t' by auto
  with fail_fn_within_limit [of demo_td 8] show ?thesis by (simp add: demo_td_def)
qed

end
