(* ===== verification/ProviderProps.thy ===== *)
theory ProviderProps
  imports Providers
begin

text \<open>
  Properties of the provider selection of \<open>poky/bitbake/lib/bb/providers.py\<close>: the order of
  \<open>sortPriorities\<close>, the choice of \<open>findLatestProvider\<close> and \<open>findBestProvider\<close>, and what the
  filters keep.
\<close>

section \<open>Layers\<close>

text \<open>The layer priority and the default preference of a file.\<close>

definition bp :: "cache \<Rightarrow> string \<Rightarrow> int" where
  "bp c f = dgetd (bbfile_priority c) f 0"

definition dp :: "cache \<Rightarrow> string \<Rightarrow> int" where
  "dp c f = dgetd (pkg_dp c) f 0"

text \<open>The reference: a list per layer priority, highest first, each sorted by preference.\<close>

definition layers :: "cache \<Rightarrow> string list \<Rightarrow> string list list" where
  "layers c files =
     map (\<lambda>pri. sort_key (dp c) (filter (\<lambda>f. bp c f = pri) files))
       (rev (sorted_list_of_set (bp c ` set files)))"

text \<open>The dictionary of dictionaries after a prefix of the files.\<close>

definition grouped ::
  "cache \<Rightarrow> string list \<Rightarrow> (int, (int, string list) dict) dict \<Rightarrow> bool" where
  "grouped c ys d \<longleftrightarrow> distinct (dkeys d) \<and> (\<forall>pri. din pri d \<longleftrightarrow> pri \<in> bp c ` set ys) \<and>
     (\<forall>pri. distinct (dkeys (dgetd d pri [])) \<and>
        (\<forall>pref. din pref (dgetd d pri []) \<longleftrightarrow> pref \<in> dp c ` set (filter (\<lambda>f. bp c f = pri) ys)) \<and>
        (\<forall>pref. dgetd (dgetd d pri []) pref [] = filter (\<lambda>f. dp c f = pref) (filter (\<lambda>f. bp c f = pri) ys)))"

lemma dgetd_dset: "dgetd (dset k v d) k' x = (if k' = k then v else dgetd d k' x)"
  by (simp add: dgetd_def)

lemma grouped_step:
  assumes g: "grouped c ys d" and run: "add_priority c f d = Inr d'"
  shows "grouped c (ys @ [f]) d'"
proof -
  from run have d': "d' = dset (bp c f) (dappend (dp c f) f (dgetd d (bp c f) [])) d"
    by (auto simp: add_priority_def bp_def dp_def dgetd_def dget_Inr_iff)
  show ?thesis
    unfolding grouped_def d'
    using g by (auto simp: grouped_def dgetd_dset)
qed

lemma grouped_all:
  assumes "foldE (add_priority c) files [] = Inr d"
  shows "grouped c files d"
  by (rule foldE_prefix_inv [OF assms, where P = "grouped c"])
    (auto simp: grouped_step, simp add: grouped_def dgetd_def)

lemma sortPriorities_layers_lemma:
  assumes "sortPriorities pn c pkgs = Inr sets_of"
  shows "\<exists>files. map_of (if pkgs = [] then pkg_pn c else pkgs) pn = Some files \<and> sets_of = layers c files"
proof -
  from assms obtain files d where f: "map_of (if pkgs = [] then pkg_pn c else pkgs) pn = Some files"
    and d: "foldE (add_priority c) files [] = Inr d"
    and s: "sets_of = fold (\<lambda>pri tmp_pn.
               concat (map (\<lambda>pref. dgetd (dgetd d pri []) pref []) (sort (dkeys (dgetd d pri [])))) # tmp_pn)
             (sort (dkeys d)) []"
    by (auto simp: sortPriorities_def dget_Inr_iff)
  note g = grouped_all [OF d, unfolded grouped_def]
  from g have keys: "set (dkeys d) = bp c ` set files"
    "set (dkeys (dgetd d pri [])) = dp c ` set (filter (\<lambda>f. bp c f = pri) files)" for pri
    unfolding din_def by blast+
  have grp: "concat (map (\<lambda>pref. dgetd (dgetd d pri []) pref []) (sort (dkeys (dgetd d pri [])))) =
      sort_key (dp c) (filter (\<lambda>f. bp c f = pri) files)" for pri
  proof -
    let ?xs = "filter (\<lambda>f. bp c f = pri) files" and ?ks = "sort (dkeys (dgetd d pri []))"
    have "concat (map (\<lambda>pref. dgetd (dgetd d pri []) pref []) ?ks) =
        concat (map (\<lambda>v. filter (\<lambda>f. dp c f = v) ?xs) ?ks)"
      using g by simp
    also have "\<dots> = sort_key (dp c) ?xs"
      by (rule concat_groups_sort_key) (use g keys(2) [of pri] in \<open>simp_all del: set_map\<close>)
    finally show ?thesis .
  qed
  have "fold (\<lambda>pri tmp. h pri # tmp) xs [] = rev (map h xs)" for h :: "int \<Rightarrow> string list" and xs
    by (induction xs rule: rev_induct) auto
  moreover have "sort (dkeys d) = sorted_list_of_set (bp c ` set files)"
    using g keys(1) by (metis sorted_list_of_set_sort_remdups distinct_remdups_id)
  ultimately have "sets_of = layers c files"
    unfolding s grp layers_def by (simp add: rev_map)
  with f show ?thesis by blast
qed

section \<open>The latest file\<close>

text \<open>Not newer, where the files are compared at all; the same version counts.\<close>

definition not_newer :: "pepvpr \<Rightarrow> pepvpr \<Rightarrow> bool" where
  "not_newer a b \<longleftrightarrow> a = b \<or> (\<exists>r. vercmp (as_version a) (as_version b) = Inr r \<and> r \<le> 0)"

lemma not_newer_refl [simp]: "not_newer a a"
  by (simp add: not_newer_def)

lemma not_newer_trans: "not_newer a b \<Longrightarrow> not_newer b c \<Longrightarrow> not_newer a c"
  unfolding not_newer_def using vercmp_trans by blast

definition ver_of :: "cache \<Rightarrow> string \<Rightarrow> pepvpr" where
  "ver_of c f = dgetd (pkg_pepvpr c) f ([], [], [])"

text \<open>\<open>below\<close>: less preferred, or as preferred and not newer.\<close>

definition below :: "cache \<Rightarrow> string \<Rightarrow> string \<Rightarrow> bool" where
  "below c g f \<longleftrightarrow> dp c g < dp c f \<or> dp c g = dp c f \<and> not_newer (ver_of c g) (ver_of c f)"

lemma below_refl: "below c f f"
  by (simp add: below_def)

lemma below_trans: "below c f g \<Longrightarrow> below c g h \<Longrightarrow> below c f h"
  unfolding below_def using not_newer_trans by fastforce

definition best_of :: "cache \<Rightarrow> string list \<Rightarrow> (pepvpr \<times> int \<times> string) option \<Rightarrow> bool" where
  "best_of c fs best \<longleftrightarrow>
     (case best of
        None \<Rightarrow> fs = []
      | Some (v, p, f) \<Rightarrow> f \<in> set fs \<and> v = ver_of c f \<and> p = dp c f \<and> (\<forall>g \<in> set fs. below c g f))"

lemma best_of_step:
  assumes b: "best_of c fs best" and run: "latest_step c f best = Inr best'"
  shows "best_of c (fs @ [f]) best'"
proof -
  from run obtain v p where v: "map_of (pkg_pepvpr c) f = Some v" and p: "map_of (pkg_dp c) f = Some p"
    by (auto simp: latest_step_def dget_Inr_iff)
  then have vp: "ver_of c f = v" "dp c f = p" by (simp_all add: ver_of_def dp_def dgetd_def)
  show ?thesis
  proof (cases best)
    case None
    with run b v p vp show ?thesis by (auto simp: latest_step_def dget_def best_of_def below_refl)
  next
    case (Some a)
    then obtain lv lp lf where best: "best = Some (lv, lp, lf)" by (cases a) auto
    with b have l: "lf \<in> set fs" "lv = ver_of c lf" "lp = dp c lf" "\<forall>g \<in> set fs. below c g lf"
      by (auto simp: best_of_def)
    have all: "\<forall>g \<in> set fs. below c g f" if "below c lf f"
      using l(4) below_trans that by blast
    have "best' = Some (v, p, f) \<and> below c lf f \<or> best' = best \<and> below c f lf"
    proof (cases "lp = p")
      case True
      with run v p best obtain r where r: "vercmp (as_version lv) (as_version v) = Inr r"
        and best': "best' = (if r < 0 then Some (v, p, f) else best)"
        by (auto simp: latest_step_def dget_def split: if_split_asm)
      have flip: "vercmp (as_version v) (as_version lv) = Inr (- r)" by (rule vercmp_flip [OF r])
      from r flip best' True l vp show ?thesis by (auto simp: below_def not_newer_def)
    next
      case False
      with run v p best l vp show ?thesis
        by (auto simp: latest_step_def dget_def below_def split: if_split_asm)
    qed
    with all l vp show ?thesis by (auto simp: best best_of_def below_refl)
  qed
qed

lemma best_of_all:
  assumes "findLatestProvider c fs = Inr r"
  shows "case r of None \<Rightarrow> fs = [] | Some (v, f) \<Rightarrow> f \<in> set fs \<and> v = ver_of c f \<and> (\<forall>g \<in> set fs. below c g f)"
proof -
  from assms obtain best where run: "foldE (latest_step c) fs None = Inr best"
    and r: "r = map_option (\<lambda>(v, p, f). (v, f)) best" by (auto simp: findLatestProvider_def)
  have "best_of c fs best"
    by (rule foldE_prefix_inv [OF run, where P = "best_of c"]) (auto simp: best_of_step, simp add: best_of_def)
  with r show ?thesis by (auto simp: best_of_def split: option.splits)
qed

lemma sorted_le_last: "sorted xs \<Longrightarrow> x \<in> set xs \<Longrightarrow> x \<le> last xs"
  by (induction xs) auto

lemma layers_hd:
  assumes "layers c files \<noteq> []"
  shows "files \<noteq> []" and "set (hd (layers c files)) = {f \<in> set files. bp c f = Max (bp c ` set files)}"
proof -
  from assms show "files \<noteq> []" by (auto simp: layers_def)
  then have ne: "bp c ` set files \<noteq> {}" by simp
  let ?l = "sorted_list_of_set (bp c ` set files)"
  have "?l \<noteq> []" using ne by simp
  moreover have "last ?l = Max (bp c ` set files)"
    using sorted_le_last [of ?l] \<open>?l \<noteq> []\<close> last_in_set [of ?l]
    by (intro Max_eqI [symmetric]) auto
  ultimately show "set (hd (layers c files)) = {f \<in> set files. bp c f = Max (bp c ` set files)}"
    by (simp add: layers_def hd_map hd_rev)
qed

section \<open>The filters\<close>

definition pn_of :: "cache \<Rightarrow> string \<Rightarrow> string" where
  "pn_of c f = dgetd (pkg_fn c) f []"

lemma pn_of_dget: "dget (pkg_fn c) f = Inr pn \<Longrightarrow> pn_of c f = pn"
  by (simp add: pn_of_def dgetd_def dget_Inr_iff)

definition collated :: "cache \<Rightarrow> string list \<Rightarrow> (string, string list) dict \<Rightarrow> bool" where
  "collated c ys d \<longleftrightarrow> distinct (dkeys d) \<and> (\<forall>pn. din pn d \<longleftrightarrow> pn \<in> pn_of c ` set ys) \<and>
     (\<forall>pn. dgetd d pn [] = filter (\<lambda>f. pn_of c f = pn) ys)"

lemma collate_collated:
  assumes "collate c provs = Inr d"
  shows "collated c provs d"
proof (rule foldE_prefix_inv [OF assms [unfolded collate_def], where P = "collated c"])
  show "collated c [] []" by (simp add: collated_def dgetd_def)
  fix ys x zs s t
  assume "collated c ys s" and "bindE (dget (pkg_fn c) x) (\<lambda>pn. Inr (dappend pn x s)) = Inr t"
  then obtain pn where "dget (pkg_fn c) x = Inr pn" and t: "t = dappend pn x s" by auto
  then have "pn_of c x = pn" by (intro pn_of_dget)
  with \<open>collated c ys s\<close> show "collated c (ys @ [x]) t"
    unfolding collated_def t by auto
qed

lemma first_match_in: "first_match c e v r fs = Inr (Some (ver, f)) \<Longrightarrow> f \<in> set fs"
  by (induction fs) (auto split: if_split_asm)

lemma findPreferredProvider_in:
  assumes "findPreferredProvider pn d c sets_of = Inr (Some (ver, f), required)"
  shows "f \<in> set (concat sets_of)"
proof -
  from assms obtain e v where "first_match c e (Some v) None (concat sets_of) = Inr (Some (ver, f))"
    by (auto simp: findPreferredProvider_def Let_def simp del: first_match.simps set_concat epoch_groups.simps
        split: if_split_asm prod.splits)
  then show ?thesis by (rule first_match_in)
qed

lemma sort_key_empty: "[] = sort_key k xs \<longleftrightarrow> xs = []"
  by (metis length_0_conv length_sort)

lemma layers_in: "f \<in> set (concat (layers c (filter P files))) \<Longrightarrow> f \<in> set files \<and> P f"
  by (auto simp: layers_def)

text \<open>The recipes handled so far have one file each.\<close>

definition one_each :: "cache \<Rightarrow> string list \<Rightarrow> string list \<Rightarrow> (string, string) dict \<Rightarrow> bool" where
  "one_each c provs el prefs \<longleftrightarrow> set el \<subseteq> set provs \<and> distinct (map (pn_of c) el) \<and>
     (\<forall>pn. din pn prefs \<longleftrightarrow> pn \<in> pn_of c ` set el)"

lemma one_each_add:
  "one_each c provs el prefs \<Longrightarrow> f \<in> set provs \<Longrightarrow> pn_of c f = pn \<Longrightarrow> \<not> din pn prefs \<Longrightarrow>
   one_each c provs (el @ [f]) (dset pn f prefs)"
  by (auto simp: one_each_def)

definition missing :: "getvar \<Rightarrow> cache \<Rightarrow> string list \<Rightarrow> bool" where
  "missing d c provs \<longleftrightarrow>
     (\<exists>pn \<in> pn_of c ` set provs. \<exists>sp. findPreferredProvider pn d c sp = Inr (None, True))"

definition first_loop ::
  "getvar \<Rightarrow> cache \<Rightarrow> string list \<Rightarrow> string list \<Rightarrow>
   bool \<times> string list \<times> (string, string) dict \<times> (string, string list list) dict \<Rightarrow> bool" where
  "first_loop d c provs ys = (\<lambda>(stopped, el, prefs, sets_of).
     one_each c provs el prefs \<and> pn_of c ` set el \<subseteq> set ys \<and>
     (if stopped then missing d c provs
      else (\<forall>pn. din pn sets_of \<longleftrightarrow> pn \<in> set ys) \<and>
        (\<forall>pn sp. map_of sets_of pn = Some sp \<longrightarrow> sp = layers c (filter (\<lambda>f. pn_of c f = pn) provs))))"

lemma first_loop_step:
  assumes col: "collated c provs pkgs" and pn: "pn \<in> pn_of c ` set provs" "pn \<notin> set ys"
    and inv: "first_loop d c provs ys s" and run: "pref_step d c pkgs pn s = Inr s'"
  shows "first_loop d c provs (ys @ [pn]) s'"
proof -
  obtain stopped el prefs sets_of where s: "s = (stopped, el, prefs, sets_of)" by (cases s) auto
  note inv = inv [unfolded s first_loop_def, simplified]
  show ?thesis
  proof (cases stopped)
    case True
    with run inv show ?thesis by (auto simp: s pref_step_def first_loop_def)
  next
    case False
    with run obtain sp pref required where sp: "sortPriorities pn c pkgs = Inr sp"
      and pr: "findPreferredProvider pn d c sp = Inr (pref, required)"
      and s': "s' = (case pref of None \<Rightarrow> (required, el, prefs, dset pn sp sets_of)
          | Some (ver, f) \<Rightarrow> (False, el @ [f], dset pn f prefs, dset pn sp sets_of))"
      by (auto simp: s pref_step_def split: option.splits)
    have "pkgs \<noteq> []" using col pn(1) by (auto simp: collated_def)
    moreover have "din pn pkgs" using col pn(1) by (simp add: collated_def)
    ultimately obtain files where files: "map_of pkgs pn = Some files" "sp = layers c files"
      using sortPriorities_layers_lemma [OF sp] by auto
    then have "files = dgetd pkgs pn []" by (simp add: dgetd_def)
    with files col have lay: "sp = layers c (filter (\<lambda>f. pn_of c f = pn) provs)"
      by (simp add: collated_def)
    show ?thesis
    proof (cases pref)
      case None
      then have "missing d c provs" if required
        using that pr pn(1) unfolding None missing_def by auto
      with None False inv s' lay show ?thesis by (auto simp: first_loop_def)
    next
      case (Some a)
      then obtain ver f where a: "pref = Some (ver, f)" by (cases a) auto
      have f: "f \<in> set provs" "pn_of c f = pn"
        using layers_in [OF findPreferredProvider_in [OF pr [unfolded a lay]]] by auto
      have "\<not> din pn prefs" using inv pn(2) by (auto simp: one_each_def)
      with f inv have "one_each c provs (el @ [f]) (dset pn f prefs)" by (intro one_each_add) auto
      with False inv s' lay a f show ?thesis by (auto simp: first_loop_def)
    qed
  qed
qed

definition second_loop :: "cache \<Rightarrow> string list \<Rightarrow> string list \<Rightarrow> string list \<times> (string, string) dict \<Rightarrow> bool" where
  "second_loop c provs ys = (\<lambda>(el, prefs). one_each c provs el prefs \<and> (\<forall>pn \<in> set ys. din pn prefs))"

lemma second_loop_step:
  assumes sets: "\<forall>pn sp. map_of sets_of pn = Some sp \<longrightarrow> sp = layers c (filter (\<lambda>f. pn_of c f = pn) provs)"
    and inv: "second_loop c provs ys s" and run: "latest_pn_step c sets_of pn s = Inr s'"
  shows "second_loop c provs (ys @ [pn]) s'"
proof -
  obtain el prefs where s: "s = (el, prefs)" by (cases s) auto
  show ?thesis
  proof (cases "din pn prefs")
    case True
    with run inv s show ?thesis by (auto simp: latest_pn_step_def second_loop_def)
  next
    case False
    with run obtain sp ver f where sp: "map_of sets_of pn = Some sp" and ne: "sp \<noteq> []"
      and l: "findLatestProvider c (hd sp) = Inr (Some (ver, f))" and s': "s' = (el @ [f], dset pn f prefs)"
      by (auto simp: s latest_pn_step_def dget_Inr_iff split: if_split_asm option.splits)
    have "f \<in> set (hd sp)" using best_of_all [OF l] by simp
    with ne have "f \<in> set (concat sp)" by (cases sp) auto
    then have "f \<in> set provs" "pn_of c f = pn"
      using layers_in [of f c _ provs] sets sp by auto
    with False inv s s' one_each_add [of c provs el prefs f pn] show ?thesis
      by (auto simp: second_loop_def)
  qed
qed

lemma mset_front: "f \<in> set s \<Longrightarrow> mset (f # remove1 f s) = mset s"
  by simp

lemma own_name_step_cases:
  assumes "own_name_step c item prefs p s = Inr t"
  shows "t = s \<or> (\<exists>f. f \<in> set s \<and> t = f # remove1 f s)"
proof -
  from assms obtain pn where pn: "(if pn \<noteq> item then Inr s
      else bindE (dget prefs pn) (\<lambda>f. if f \<notin> set s then Inr s else Inr (f # remove1 f s))) = Inr t"
    unfolding own_name_step_def bindE_Inr_iff by blast
  show ?thesis
  proof (cases "pn = item")
    case False
    with pn show ?thesis by simp
  next
    case True
    with pn obtain f where "(if f \<notin> set s then Inr s else Inr (f # remove1 f s) :: pyerr + _) = Inr t"
      unfolding bindE_Inr_iff by auto
    then show ?thesis by (cases "f \<in> set s") auto
  qed
qed

lemma own_name_mset:
  assumes "foldE (own_name_step c item prefs) provs el = Inr el'"
  shows "mset el' = mset el"
proof (rule foldE_invariant [OF assms, where P = "\<lambda>s. mset s = mset el"])
  fix p s t
  assume s: "mset s = mset el" and "own_name_step c item prefs p s = Inr t"
  then have "t = s \<or> (\<exists>f. f \<in> set s \<and> t = f # remove1 f s)"
    using own_name_step_cases by blast
  then have "mset t = mset s" by (elim disjE exE conjE) (simp only:, simp only: mset_front)
  with s show "mset t = mset el" by (simp only:)
qed simp

lemma filter_providers_cases:
  assumes "filter_providers provs item d c = Inr el"
  shows "set el \<subseteq> set provs \<and> distinct (map (pn_of c) el) \<and>
    (pn_of c ` set el = pn_of c ` set provs \<or> missing d c provs)"
proof -
  let ?provs = "sort provs"
  from assms obtain pkgs stopped el1 prefs sets_of where
    col: "collate c ?provs = Inr pkgs" and
    run: "foldE (pref_step d c pkgs) (sort (dkeys pkgs)) (False, [], [], []) = Inr (stopped, el1, prefs, sets_of)" and
    rest: "(if stopped then Inr el1 else
           bindE (foldE (latest_pn_step c sets_of) (sort (dkeys sets_of)) (el1, prefs)) (\<lambda>(eligible, prefs).
           if eligible = [] then Inr eligible
           else foldE (own_name_step c item prefs) ?provs eligible)) = Inr el"
    by (auto simp: filter_providers_def Let_def)
  note col = collate_collated [OF col]
  have keys: "set (sort (dkeys pkgs)) = pn_of c ` set ?provs"
    using col unfolding collated_def din_def set_sort by blast
  have dist: "distinct (sort (dkeys pkgs))" using col by (simp add: collated_def)
  have first: "first_loop d c ?provs (sort (dkeys pkgs)) (stopped, el1, prefs, sets_of)"
  proof (rule foldE_prefix_inv [OF run, where P = "first_loop d c ?provs"])
    fix ys pn zs s t
    assume split: "sort (dkeys pkgs) = ys @ pn # zs" and "first_loop d c ?provs ys s"
      and "pref_step d c pkgs pn s = Inr t"
    moreover have "pn \<in> pn_of c ` set ?provs" using split keys by (metis in_set_conv_decomp)
    moreover have "pn \<notin> set ys" using dist unfolding split by simp
    ultimately show "first_loop d c ?provs (ys @ [pn]) t" using first_loop_step [OF col] by blast
  qed (simp add: first_loop_def one_each_def)
  show ?thesis
  proof (cases stopped)
    case True
    with first rest show ?thesis by (simp add: first_loop_def one_each_def missing_def)
  next
    case False
    with rest obtain el2 prefs2 where
      run2: "foldE (latest_pn_step c sets_of) (sort (dkeys sets_of)) (el1, prefs) = Inr (el2, prefs2)" and
      el: "(if el2 = [] then Inr el2 else foldE (own_name_step c item prefs2) ?provs el2) = Inr el"
      by auto
    from first False have sets: "\<forall>pn sp. map_of sets_of pn = Some sp \<longrightarrow>
        sp = layers c (filter (\<lambda>f. pn_of c f = pn) ?provs)"
      unfolding first_loop_def by simp
    have second: "second_loop c ?provs (sort (dkeys sets_of)) (el2, prefs2)"
    proof (rule foldE_prefix_inv [OF run2, where P = "second_loop c ?provs"])
      show "second_loop c ?provs [] (el1, prefs)"
        using first False by (simp add: first_loop_def second_loop_def)
    qed (rule second_loop_step [OF sets])
    have m: "mset el = mset el2" using el own_name_mset by (auto split: if_split_asm)
    have "pn_of c ` set ?provs \<subseteq> pn_of c ` set el2"
    proof
      fix pn
      assume "pn \<in> pn_of c ` set ?provs"
      then have "pn \<in> set (sort (dkeys pkgs))" unfolding keys .
      then have "din pn sets_of" using first False by (simp add: first_loop_def)
      then have "pn \<in> set (sort (dkeys sets_of))" unfolding din_def set_sort .
      with second show "pn \<in> pn_of c ` set el2"
        unfolding second_loop_def one_each_def split_conv by blast
    qed
    with second m show ?thesis
      using mset_eq_setD [OF m] mset_eq_imp_distinct_iff [of "map (pn_of c) el" "map (pn_of c) el2"]
      by (auto simp: second_loop_def one_each_def)
  qed
qed

lemma prefer_pn_cases:
  assumes "prefer_pn c pn ps el = Inr (el', u)" and "set ps \<subseteq> set el"
  shows "(u \<longrightarrow> mset el' = mset el \<and> el' \<noteq> [] \<and> pn_of c (hd el') = pn) \<and>
    (\<not> u \<longrightarrow> el' = el \<and> pn \<notin> pn_of c ` set ps)"
  using assms
proof (induction ps)
  case Nil
  then show ?case by auto
next
  case (Cons p ps)
  then obtain q where q: "dget (pkg_fn c) p = Inr q" by auto
  show ?case
  proof (cases "pn = q")
    case True
    with q Cons.prems have "el' = p # remove1 p el" "u" "p \<in> set el" by auto
    with True pn_of_dget [OF q] mset_front [of p el] show ?thesis by (simp only: list.sel) simp
  next
    case False
    with q Cons pn_of_dget [OF q] show ?thesis by auto
  qed
qed

lemma epoch_groups_suffix:
  assumes "epoch_groups ep s = (e, v)" and "CHR 0x0A \<notin> set s"
  shows "CHR ''_'' \<in> set v \<longleftrightarrow> CHR ''_'' \<in> set s"
  using assms
proof (induction ep s rule: epoch_groups.induct)
  case (1 ep s)
  let ?ds = "takeWhile is_digit s" and ?r = "dropWhile is_digit s"
  show ?case
  proof (cases "?ds \<noteq> [] \<and> ?r \<noteq> [] \<and> hd ?r = CHR '':''")
    case True
    then obtain r where r: "?r = CHR '':'' # r" by (cases ?r) auto
    have s: "s = ?ds @ CHR '':'' # r" using r takeWhile_dropWhile_id [of is_digit s] by simp
    have "CHR ''_'' \<notin> set ?ds" using set_takeWhileD by (fastforce simp: is_digit_def)
    then have "CHR ''_'' \<in> set s \<longleftrightarrow> CHR ''_'' \<in> set r" by (subst s) simp
    moreover have "epoch_groups (Some ?ds) r = (e, v)"
      using "1.prems"(1) True r by (simp add: epoch_groups.simps [of ep s])
    moreover have "CHR 0x0A \<notin> set r" using "1.prems"(2) by (subst (asm) s) simp
    ultimately show ?thesis using "1.IH" [OF refl refl True] r by simp
  next
    case False
    with "1.prems" have "v = takeWhile (\<lambda>c. c \<noteq> CHR 0x0A) s"
      by (simp add: epoch_groups.simps [of ep s] Let_def split: if_split_asm)
    with "1.prems"(2) have "v = s" by (auto simp: takeWhile_eq_all_conv)
    then show ?thesis by simp
  qed
qed

text \<open>The value \<open>findPreferredProvider\<close> works with.\<close>

definition wanted_version :: "getvar \<Rightarrow> string \<Rightarrow> string option" where
  "wanted_version d pn =
     (case versionVariableMatch d ''REQUIRED'' pn of
        None \<Rightarrow> versionVariableMatch d ''PREFERRED'' pn
      | Some v \<Rightarrow> Some v)"

lemma first_match_matches:
  "first_match c e v r fs = Inr (Some ((pe, pv, pr), f)) \<Longrightarrow> preferredVersionMatch pe pv pr e v r"
  by (induction fs) (auto split: if_split_asm)

section \<open>The properties\<close>

text \<open>
  A demo cache: two layers; \<open>zlib\<close> in three versions, the newest with a negative preference, and a
  fork of it in the upper layer that provides \<open>zlib\<close> too.
\<close>

definition prov_cache :: cache where
  "prov_cache = cache_init\<lparr>
     pkg_fn := [(''z1'', ''zlib''), (''z2'', ''zlib''), (''z3'', ''zlib''), (''n1'', ''zlib-ng'')],
     pkg_pn := [(''zlib'', [''z3'', ''z1'', ''z2'']), (''zlib-ng'', [''n1''])],
     pkg_pepvpr := [(''z1'', ''0'', ''1.2.9'', ''r0''), (''z2'', ''0'', ''1.2.13'', ''r0''),
       (''z3'', ''0'', ''1.3'', ''r0''), (''n1'', ''0'', ''2.1_p1'', ''r0'')],
     pkg_dp := [(''z1'', 0), (''z2'', 0), (''z3'', - 1), (''n1'', 0)],
     bbfile_priority := [(''z1'', 5), (''z2'', 5), (''z3'', 5), (''n1'', 6)],
     pn_provides := [(''zlib'', [''zlib'', ''virtual/z'']), (''zlib-ng'', [''zlib-ng'', ''virtual/ng''])]\<rparr>"

text \<open>
  C38: sortPriorities is the reference order: one list for each layer priority of the files,
  highest priority first, each with the files of that priority by increasing default preference
  and, where those tie, in the order they were parsed; no file is lost or doubled and no list is empty.
\<close>


theorem sortPriorities_equals_layers:
  assumes "sortPriorities pn c pkgs = Inr sets_of"
  shows "\<exists>files. map_of (if pkgs = [] then pkg_pn c else pkgs) pn = Some files \<and> sets_of = layers c files \<and>
    mset (concat sets_of) = mset files \<and> [] \<notin> set sets_of"
proof -
  from sortPriorities_layers_lemma [OF assms] obtain files where
    files: "map_of (if pkgs = [] then pkg_pn c else pkgs) pn = Some files" "sets_of = layers c files" by blast
  let ?ks = "rev (sorted_list_of_set (bp c ` set files))"
  have m: "mset (concat (map (\<lambda>k. sort_key (dp c) (g k)) ks)) = mset (concat (map g ks))" for g ks
    by (induction ks) auto
  have "mset (concat (layers c files)) = mset (filter (\<lambda>f. bp c f \<in> set ?ks) files)"
    unfolding layers_def m by (rule mset_concat_groups) simp
  moreover have "filter (\<lambda>f. bp c f \<in> set ?ks) files = files" by (simp add: filter_id_conv)
  moreover have "[] \<notin> set (layers c files)"
  proof
    assume "[] \<in> set (layers c files)"
    then obtain f where "f \<in> set files" "filter (\<lambda>g. bp c g = bp c f) files = []"
      by (auto simp: layers_def sort_key_empty)
    then show False by (auto simp: filter_empty_conv)
  qed
  ultimately show ?thesis using files by simp
qed

theorem sortPriorities_equals_layers_witness:
  "layers prov_cache [''z1'', ''n1'', ''z3'', ''z2''] = [[''n1''], [''z3'', ''z1'', ''z2'']]"
proof -
  have "sortPriorities ''x'' prov_cache [(''x'', [''z1'', ''n1'', ''z3'', ''z2''])] =
      Inr [[''n1''], [''z3'', ''z1'', ''z2'']]"
    by code_simp
  from sortPriorities_equals_layers [OF this] show ?thesis by simp
qed

text \<open>
  C37: the latest version of a recipe is a file of the layer with the highest priority among its
  files; of the files of that layer it has the highest default preference, and among those no
  file is newer.  It exists for every recipe that has a file.
\<close>

theorem findBestProvider_latest:
  assumes "findBestProvider pn d c pkgs = Inr (latest, pref, required)"
    and "map_of (if pkgs = [] then pkg_pn c else pkgs) pn = Some files"
  shows "\<exists>f \<in> set files. latest = Some (ver_of c f, f) \<and>
    (\<forall>g \<in> set files. bp c g \<le> bp c f \<and> (bp c g = bp c f \<longrightarrow> below c g f))"
proof -
  from assms(1) obtain sets_of where s: "sortPriorities pn c pkgs = Inr sets_of" and ne: "sets_of \<noteq> []"
    and l: "findLatestProvider c (hd sets_of) = Inr latest"
    by (auto simp: findBestProvider_def split: if_split_asm)
  with sortPriorities_layers_lemma [OF s] assms(2) have sets: "sets_of = layers c files" by auto
  note hd = layers_hd [OF ne [unfolded sets]]
  have "hd sets_of \<noteq> []"
  proof -
    have "Max (bp c ` set files) \<in> bp c ` set files" using hd(1) by (intro Max_in) auto
    with hd(2) show ?thesis unfolding sets by force
  qed
  with best_of_all [OF l] obtain f where f: "latest = Some (ver_of c f, f)" "f \<in> set (hd sets_of)"
    "\<forall>g \<in> set (hd sets_of). below c g f"
    by (auto split: option.splits)
  then have ff: "f \<in> set files" "bp c f = Max (bp c ` set files)" using hd(2) sets by auto
  moreover have "bp c g \<le> bp c f" if "g \<in> set files" for g using ff(2) that by simp
  moreover have "below c g f" if "g \<in> set files" "bp c g = bp c f" for g
    using f(3) hd(2) sets that ff(2) by auto
  ultimately show ?thesis using f(1) by blast
qed
theorem findBestProvider_latest_witness:
  "below prov_cache ''z1'' ''z2'' \<and> below prov_cache ''z3'' ''z2''"
proof -
  have run: "findBestProvider ''zlib'' (\<lambda>_. None) prov_cache [] =
      Inr (Some ((''0'', ''1.2.13'', ''r0''), ''z2''), Some ((''0'', ''1.2.13'', ''r0''), ''z2''), False)"
    by code_simp
  have files: "map_of (if [] = ([] :: (string, string list) dict) then pkg_pn prov_cache else []) ''zlib'' =
      Some [''z3'', ''z1'', ''z2'']"
    by code_simp
  have "bp prov_cache ''z1'' = 5" "bp prov_cache ''z2'' = 5" "bp prov_cache ''z3'' = 5" by code_simp+
  with findBestProvider_latest [OF run files] show ?thesis by auto
qed



text \<open>
  a preferred or required version with an underscore only ever matches a file whose PV has one.
  The pattern that is meant to split off the revision gives the whole rest of the value to the version,
  so a value like 1.2_r3 names no file with version 1.2 and revision r3.
\<close>

theorem preferred_revision_never_split:
  assumes "findPreferredProvider pn d c sets_of = Inr (Some ((pe, pv, pr), f), required)"
    and "wanted_version d pn = Some v" and "CHR ''_'' \<in> set v" and "CHR 0x0A \<notin> set v"
  shows "CHR ''_'' \<in> set pv"
proof -
  obtain e w where ev: "epoch_groups None v = (e, w)" by force
  let ?p = "if versionVariableMatch d ''REQUIRED'' pn \<noteq> None then versionVariableMatch d ''REQUIRED'' pn
      else versionVariableMatch d ''PREFERRED'' pn"
  have "?p = Some v" using assms(2) by (auto simp: wanted_version_def split: option.splits)
  with assms(1) ev have "first_match c e (Some w) None (concat sets_of) = Inr (Some ((pe, pv, pr), f))"
    by (auto simp: findPreferredProvider_def Let_def simp del: first_match.simps epoch_groups.simps
        split: if_split_asm)
  then have "pv = w \<or> endswith w ''%'' \<and> startswith pv (butlast w)"
    using first_match_matches by (fastforce simp: preferredVersionMatch_def)
  moreover have "CHR ''_'' \<in> set w" using epoch_groups_suffix [OF ev assms(4)] assms(3) by simp
  moreover have "CHR ''_'' \<in> set (butlast w)" if "endswith w ''%''"
    using that calculation(2) by (auto simp: endswith_iff)
  ultimately show ?thesis by (auto simp: startswith_iff)
qed

theorem preferred_revision_never_split_witness:
  "CHR ''_'' \<in> set ''2.1_p1'' \<and>
   findPreferredProvider ''zlib'' (\<lambda>v. if v = ''PREFERRED_VERSION_zlib'' then Some ''1.2.9_r0'' else None)
     prov_cache [[''z1'']] = Inr (None, False)"
proof -
  let ?d = "\<lambda>w v. if v = ''PREFERRED_VERSION_zlib-ng'' then Some w else None"
  have run: "findPreferredProvider ''zlib-ng'' (?d ''2.1_p1'') prov_cache [[''n1'']] =
      Inr (Some ((''0'', ''2.1_p1'', ''r0''), ''n1''), False)"
    by code_simp
  have "wanted_version (?d ''2.1_p1'') ''zlib-ng'' = Some ''2.1_p1''" "CHR ''_'' \<in> set ''2.1_p1''"
    "CHR 0x0A \<notin> set ''2.1_p1''"
    by code_simp+
  from preferred_revision_never_split [OF run this] have "CHR ''_'' \<in> set ''2.1_p1''" .
  moreover have "findPreferredProvider ''zlib'' (\<lambda>v. if v = ''PREFERRED_VERSION_zlib'' then Some ''1.2.9_r0'' else None)
     prov_cache [[''z1'']] = Inr (None, False)"
    by code_simp
  ultimately show ?thesis by simp
qed

text \<open>
  the loop that infers the runtime provider from PREFERRED_PROVIDER takes the preferred file out of
  the list it walks over, so the file after it is not looked at: two conflicting preferences count as
  one here, and the conflict is not reported.
\<close>

theorem conflicting_preference_missed:
  "let d = (\<lambda>v. if v = ''PREFERRED_PROVIDER_virtual/z'' then Some ''zlib''
                else if v = ''PREFERRED_PROVIDER_virtual/ng'' then Some ''zlib-ng'' else None);
       pns = [(''zlib'', ''z2''), (''zlib-ng'', ''n1'')]
   in find_pref d pns [] [''zlib'', ''virtual/z''] = Some ''z2'' \<and>
      find_pref d pns [''z2''] [''zlib-ng'', ''virtual/ng''] = Some ''n1'' \<and>
      infer_rprefs d prov_cache [''z2'', ''n1''] = Inr ([''z2'', ''n1''], 1) \<and>
      filterProvidersRunTime [''z2'', ''n1''] ''libz'' d prov_cache = Inr ([''z2'', ''n1''], 1)"
  by code_simp

end
