(* ===== verification/DepStringProps.thy ===== *)
theory DepStringProps
  imports DepStrings
begin

text \<open>
  Properties of the dependency strings of \<open>poky/bitbake/lib/bb/utils.py\<close>: \<open>explode_dep_versions2\<close>
  reads back what \<open>join_deps\<close> writes.
\<close>

section \<open>Well-formed dependencies\<close>

definition plain_word :: "string \<Rightarrow> bool" where
  "plain_word w \<longleftrightarrow> w \<noteq> [] \<and> hd w \<noteq> CHR ''('' \<and> CHR '','' \<notin> set w \<and> (\<forall>x \<in> set w. \<not> is_space x)"

text \<open>A version is an operator, a blank and a word.\<close>

definition version_of :: "string \<times> string \<Rightarrow> string" where
  "version_of = (\<lambda>(op, ver). op @ '' '' @ ver)"

type_synonym deplist = "(string \<times> (string \<times> string) list) list"

definition good_dep :: "string \<times> (string \<times> string) list \<Rightarrow> bool" where
  "good_dep = (\<lambda>(n, vs). plain_word n \<and> (\<forall>(op, ver) \<in> set vs. op \<in> set (ops2 @ ops1) \<and> plain_word ver))"

definition good_deps :: "deplist \<Rightarrow> bool" where
  "good_deps ds \<longleftrightarrow> (\<forall>d \<in> set ds. good_dep d) \<and> distinct (map fst ds)"

definition dep_dict :: "deplist \<Rightarrow> (string, depval) dict" where
  "dep_dict ds = map (\<lambda>(n, vs). (n, Versions (map version_of vs))) ds"

definition exploded :: "deplist \<Rightarrow> (string option, string list) dict" where
  "exploded ds = map (\<lambda>(n, vs). (Some n, map version_of vs)) ds"

section \<open>The words of the written string\<close>

text \<open>The words of a name without a version, and of a name with one.\<close>

fun item_words :: "string \<times> (string \<times> string) list \<Rightarrow> string list list" where
  "item_words (n, []) = [[n]]"
| "item_words (n, v # vs) = map (\<lambda>(op, ver). [n, CHR ''('' # op, ver @ '')'']) (v # vs)"

lemma join_dep_words:
  "join_dep (n, Versions (map version_of vs)) = map (join_with '' '') (item_words (n, vs))"
  by (cases vs) (auto simp: version_of_def)

lemma ops_good: "op \<in> set (ops2 @ ops1) \<Longrightarrow> op \<noteq> [] \<and> CHR '','' \<notin> set op \<and> (\<forall>x \<in> set op. \<not> is_space x)"
  by (auto simp: ops2_def ops1_def is_space_def)

lemma item_words_good:
  assumes "good_dep d" and "ws \<in> set (item_words d)"
  shows "ws \<noteq> [] \<and> (\<forall>w \<in> set ws. w \<noteq> [] \<and> CHR '','' \<notin> set w \<and> (\<forall>x \<in> set w. \<not> is_space x))"
proof (cases d)
  case (Pair n vs)
  show ?thesis
  proof (cases vs)
    case Nil
    with assms Pair show ?thesis by (auto simp: good_dep_def plain_word_def)
  next
    case (Cons v vs')
    with assms Pair obtain op ver where o: "(op, ver) \<in> set vs" and ws: "ws = [n, CHR ''('' # op, ver @ '')'']"
      by (cases v) auto
    with assms Pair have "op \<in> set (ops2 @ ops1)" "plain_word ver" "plain_word n"
      by (auto simp: good_dep_def)
    with ops_good [of op] ws show ?thesis by (auto simp: plain_word_def is_space_def)
  qed
qed

lemma join_with_concat:
  "\<forall>ws \<in> set wss. ws \<noteq> [] \<Longrightarrow> join_with s (map (join_with s) wss) = join_with s (concat wss)"
proof (induction wss)
  case Nil
  then show ?case by simp
next
  case (Cons ws wss)
  have app: "join_with s (a @ b) = join_with s a @ s @ join_with s b" if "a \<noteq> []" "b \<noteq> []" for a b
    using that by (induction s a rule: join_with.induct) (auto simp: neq_Nil_conv)
  show ?case
  proof (cases wss)
    case Nil
    then show ?thesis by simp
  next
    case (Cons vs vss)
    with Cons.IH Cons.prems app [of ws "concat wss"] show ?thesis by simp
  qed
qed

lemma filter_join_with:
  "\<forall>w \<in> set ws. CHR '','' \<notin> set w \<Longrightarrow>
   filter (\<lambda>c. c \<noteq> CHR '','') (join_with s ws) = join_with (filter (\<lambda>c. c \<noteq> CHR '','') s) ws"
proof (induction s ws rule: join_with.induct)
  case (2 s x)
  then show ?case by (auto simp: filter_id_conv)
next
  case (3 s x y ys)
  moreover have "filter (\<lambda>c. c \<noteq> CHR '','') x = x" using 3 by (auto simp: filter_id_conv)
  ultimately show ?case by simp
qed simp

lemma words_join_deps:
  assumes good: "\<forall>d \<in> set ds. good_dep d"
  shows "words (filter (\<lambda>c. c \<noteq> CHR '','') (join_deps (dep_dict ds) commasep)) =
    concat (concat (map item_words ds))"
proof -
  let ?iss = "concat (map item_words ds)"
  have i: "concat (map join_dep (dep_dict ds)) = map (join_with '' '') ?iss"
    by (induction ds) (auto simp: dep_dict_def join_dep_words simp del: join_dep.simps item_words.simps)
  have g: "\<forall>ws \<in> set ?iss. ws \<noteq> [] \<and> (\<forall>w \<in> set ws. w \<noteq> [] \<and> CHR '','' \<notin> set w \<and> (\<forall>x \<in> set w. \<not> is_space x))"
    using good item_words_good unfolding set_concat set_map by blast
  have "CHR '','' \<notin> set (join_with '' '' ws)" if "ws \<in> set ?iss" for ws
  proof -
    have "\<forall>w \<in> set ws. CHR '','' \<notin> set w" using g that by blast
    from filter_join_with [OF this, of "'' ''"]
    have "filter (\<lambda>c. c \<noteq> CHR '','') (join_with '' '' ws) = join_with '' '' ws" by simp
    then show ?thesis unfolding filter_id_conv by blast
  qed
  then have "filter (\<lambda>c. c \<noteq> CHR '','') (join_deps (dep_dict ds) commasep) =
      join_with '' '' (map (join_with '' '') ?iss)"
    unfolding join_deps_def Let_def i using filter_join_with [of "map (join_with '' '') ?iss"] by auto
  also have "\<dots> = join_with '' '' (concat ?iss)" using g by (intro join_with_concat) auto
  finally show ?thesis
    using words_join [of "concat ?iss" "CHR '' ''"] g by (auto simp: is_space_def)
qed


section \<open>Reading the words\<close>

lemma update_last: "k \<notin> set (dkeys d) \<Longrightarrow> dset k v (d @ [(k, w)]) = d @ [(k, v)]"
  by (induction d) auto

lemma update_new: "k \<notin> set (dkeys d) \<Longrightarrow> dset k v d = d @ [(k, v)]"
  by (induction d) auto

lemma dgetd_last: "k \<notin> set (dkeys d) \<Longrightarrow> dgetd (d @ [(k, w)]) k x = w"
  by (simp add: dgetd_def map_add_def map_of_eq_None_iff [THEN iffD2] split: option.splits)

lemma dgetd_new: "k \<notin> set (dkeys d) \<Longrightarrow> dgetd d k x = x"
  by (simp add: dgetd_def map_of_eq_None_iff [THEN iffD2])

text \<open>Between two dependencies the loop is not inside a version.\<close>

definition outside :: "depvars \<Rightarrow> bool" where
  "outside v \<longleftrightarrow> \<not> dv_incmp v \<and> \<not> dv_inversion v"

lemma startswith_paren: "plain_word w \<Longrightarrow> \<not> startswith w ''(''"
  by (auto simp: plain_word_def startswith_iff)

lemma name_word: "outside v \<Longrightarrow> plain_word n \<Longrightarrow> dep_word n v = Inr (new_dep n v)"
  by (simp add: dep_word_def startswith_paren outside_def)

lemma split_ops: "op \<in> set (ops2 @ ops1) \<Longrightarrow> split_op op = Inr (op, [])"
  by (auto simp: ops2_def ops1_def split_op_def startswith_def)

lemma op_word:
  "outside v \<Longrightarrow> op \<in> set (ops2 @ ops1) \<Longrightarrow>
   dep_word (CHR ''('' # op) v = Inr (v\<lparr>dv_incmp := False, dv_inversion := True, dv_lastcmp := op\<rparr>)"
  using ops_good [of op] split_ops [of op]
  by (simp add: dep_word_def startswith_def outside_def)

lemma version_word:
  assumes "plain_word ver" and "\<not> dv_incmp v" and "dv_inversion v" and "dv_lastver v = []"
  shows "dep_word (ver @ '')'') v =
    Inr (v\<lparr>dv_inversion := False, dv_lastver := ver,
      dv_r := dappend (dv_lastdep v) (dv_lastcmp v @ '' '' @ ver) (dv_r v)\<rparr>)"
proof -
  have "\<not> startswith (ver @ '')'') ''(''" "endswith (ver @ '')'') '')''" "ver \<noteq> []"
    using assms(1) by (auto simp: plain_word_def startswith_def endswith_iff neq_Nil_conv)
  with assms show ?thesis by (simp add: dep_word_def in_version_def Let_def)
qed


text \<open>One version of a name, whether the name is in the dictionary already or not.\<close>

definition named :: "string \<Rightarrow> depvars \<Rightarrow> (string option, string list) dict" where
  "named n v = (if dgetd (dv_r v) (Some n) [] \<noteq> [] then dv_r v else dset (Some n) [] (dv_r v))"

lemma version_item:
  assumes "outside v" and "plain_word n" and "op \<in> set (ops2 @ ops1)" and "plain_word ver"
  shows "\<exists>v'. foldE dep_word [n, CHR ''('' # op, ver @ '')''] v = Inr v' \<and> outside v' \<and>
    dv_r v' = dappend (Some n) (version_of (op, ver)) (named n v)"
proof -
  let ?v1 = "new_dep n v"
  have o: "outside ?v1" using assms(1) by (simp add: outside_def new_dep_def)
  let ?v2 = "?v1\<lparr>dv_incmp := False, dv_inversion := True, dv_lastcmp := op\<rparr>"
  have "dep_word (ver @ '')'') ?v2 = Inr (?v2\<lparr>dv_inversion := False, dv_lastver := ver,
      dv_r := dappend (dv_lastdep ?v2) (dv_lastcmp ?v2 @ '' '' @ ver) (dv_r ?v2)\<rparr>)"
    by (rule version_word [OF assms(4)]) (simp_all add: new_dep_def)
  with name_word [OF assms(1,2)] op_word [OF o assms(3)] show ?thesis
    by (simp add: outside_def new_dep_def named_def version_of_def)
qed

lemma foldE_then: "foldE f xs s = Inr t \<Longrightarrow> foldE f (xs @ ys) s = foldE f ys t"
  by (simp add: foldE_append)

lemma version_items:
  assumes "plain_word n" and fresh: "Some n \<notin> set (dkeys r)"
    and "\<forall>(op, ver) \<in> set vs. op \<in> set (ops2 @ ops1) \<and> plain_word ver"
    and "outside v" and "dv_r v = r @ [(Some n, ws)]" and "ws \<noteq> []"
  shows "\<exists>v'. foldE dep_word (concat (map (\<lambda>(op, ver). [n, CHR ''('' # op, ver @ '')'']) vs)) v = Inr v' \<and>
    outside v' \<and> dv_r v' = r @ [(Some n, ws @ map version_of vs)]"
  using assms(3-6)
proof (induction vs arbitrary: v ws)
  case Nil
  then show ?case by simp
next
  case (Cons x vs)
  obtain op ver where x: "x = (op, ver)" by force
  with Cons.prems version_item [OF Cons.prems(2) assms(1), of op ver] obtain v1 where
    1: "foldE dep_word [n, CHR ''('' # op, ver @ '')''] v = Inr v1" "outside v1"
    and r1: "dv_r v1 = dappend (Some n) (version_of x) (named n v)" by auto
  have "named n v = r @ [(Some n, ws)]"
    using Cons.prems(3,4) dgetd_last [OF fresh, of ws] by (simp add: named_def)
  then have "dv_r v1 = r @ [(Some n, ws @ [version_of x])]"
    by (simp add: r1 dappend_def dgetd_last [OF fresh] update_last [OF fresh])
  from Cons.IH [OF _ 1(2) this] Cons.prems(1) 1(1) x show ?case
    by (simp add: foldE_then [OF 1(1), unfolded append_Cons append_Nil] del: foldE.simps)
qed

lemma read_dep:
  assumes good: "good_dep (n, vs)" and fresh: "Some n \<notin> set (dkeys (dv_r v))" and out: "outside v"
  shows "\<exists>v'. foldE dep_word (concat (item_words (n, vs))) v = Inr v' \<and> outside v' \<and>
    dv_r v' = dv_r v @ [(Some n, map version_of vs)]"
proof -
  have n: "plain_word n" using good by (simp add: good_dep_def)
  have named: "named n v = dv_r v @ [(Some n, [])]"
    by (simp add: named_def dgetd_new [OF fresh] update_new [OF fresh])
  show ?thesis
  proof (cases vs)
    case Nil
    with name_word [OF out n] out named show ?thesis
      by (simp add: new_dep_def named_def outside_def)
  next
    case (Cons x xs)
    obtain op ver where x: "x = (op, ver)" by force
    with good Cons have "op \<in> set (ops2 @ ops1)" "plain_word ver" by (auto simp: good_dep_def)
    from version_item [OF out n this] x obtain v1 where
      1: "foldE dep_word [n, CHR ''('' # op, ver @ '')''] v = Inr v1" "outside v1"
      and r1: "dv_r v1 = dappend (Some n) (version_of x) (named n v)" by auto
    have "dv_r v1 = dv_r v @ [(Some n, [version_of x])]"
      by (simp add: r1 named dappend_def dgetd_last [OF fresh] update_last [OF fresh])
    from version_items [OF n fresh _ 1(2) this, of xs] good Cons 1(1) x show ?thesis
      by (auto simp: good_dep_def foldE_then [OF 1(1), unfolded append_Cons append_Nil] simp del: foldE.simps)
  qed
qed

lemma read_deps:
  assumes "\<forall>d \<in> set ds. good_dep d" and "distinct (map fst ds)" and "outside v"
    and "\<forall>n \<in> set (map fst ds). Some n \<notin> set (dkeys (dv_r v))"
  shows "\<exists>v'. foldE dep_word (concat (concat (map item_words ds))) v = Inr v' \<and> outside v' \<and>
    dv_r v' = dv_r v @ exploded ds"
  using assms
proof (induction ds arbitrary: v)
  case Nil
  then show ?case by (simp add: exploded_def)
next
  case (Cons d ds)
  obtain n vs where d: "d = (n, vs)" by force
  with Cons.prems read_dep [of n vs v] obtain v1 where
    1: "foldE dep_word (concat (item_words d)) v = Inr v1" "outside v1"
    and r: "dv_r v1 = dv_r v @ [(Some n, map version_of vs)]" by auto
  have "\<forall>m \<in> set (map fst ds). Some m \<notin> set (dkeys (dv_r v1))"
    using Cons.prems(2,4) d r by (force simp del: in_dkeys_iff)
  from Cons.IH [OF _ _ 1(2) this] Cons.prems 1(1) r d show ?case
    by (auto simp: foldE_append exploded_def)
qed

text \<open>
  What join_deps writes is read back by explode_dep_versions2, with either separator: for distinct
  names, each with any number of versions of a known operator, the dictionary that comes back has
  the names in the order given (or sorted), each with its versions in order.
\<close>

theorem explode_join_deps:
  assumes "good_deps ds"
  shows "explode_dep_versions2 (join_deps (dep_dict ds) commasep) do_sort =
    Inr (if do_sort then sort_key (\<lambda>(k, _). case k of None \<Rightarrow> [] | Some s \<Rightarrow> s) (exploded ds) else exploded ds)"
proof -
  have g: "\<forall>d \<in> set ds. good_dep d" "distinct (map fst ds)" using assms by (auto simp: good_deps_def)
  have "outside depvars_init" by (simp add: outside_def depvars_init_def)
  with read_deps [OF g, of depvars_init] obtain v where
    v: "foldE dep_word (concat (concat (map item_words ds))) depvars_init = Inr v" "dv_r v = exploded ds"
    by (auto simp: depvars_init_def)
  have "None \<notin> set (dkeys (exploded ds))" by (auto simp: exploded_def)
  then show ?thesis
    using v by (simp add: explode_dep_versions2_def words_join_deps [OF g(1)] sort_items_def del: set_map)
qed

theorem explode_join_deps_witness:
  "explode_dep_versions2 (join_deps (dep_dict [(''glibc'', [(''>='', ''2.39''), (''<'', ''3'')]), (''bash'', [])]) True) False =
     Inr [(Some ''glibc'', [''>= 2.39'', ''< 3'']), (Some ''bash'', [])] \<and>
   join_deps (dep_dict [(''glibc'', [(''>='', ''2.39''), (''<'', ''3'')]), (''bash'', [])]) True =
     ''glibc (>= 2.39), glibc (< 3), bash''"
proof -
  have "good_deps [(''glibc'', [(''>='', ''2.39''), (''<'', ''3'')]), (''bash'', [])]" by code_simp
  from explode_join_deps [OF this, of True False] show ?thesis
    by (simp add: exploded_def version_of_def dep_dict_def join_deps_def)
qed

end
