(* ===== verification/SchedulerProps.thy ===== *)
theory SchedulerProps
  imports DemoBuild
begin

text \<open>
  The scheduler \<open>basic\<close>, the base class \<open>RunQueueScheduler\<close> of
  \<open>poky/bitbake/lib/bb/runqueue.py\<close> used as it is.
\<close>

lemma basic_rev_prio:
  assumes "s_prio_map (sched r) = basic_prio_map es" and "s_rev_prio_map (sched r) = []" and "entries r \<noteq> []"
  shows "\<exists>e. rev_prio r = Inl e"
proof -
  obtain tid e rest where "entries r = (tid, e) # rest" using assms(3) by (cases "entries r") auto
  with assms(1,2) show ?thesis by (simp add: rev_prio_def prio_index_def basic_prio_map_def)
qed

text \<open>
  The scheduler basic cannot choose: as soon as two tasks can be run, and the machine is not
  under pressure, the call of next_buildable_task raises, whatever the state.  Its priority map is
  a list with the view of the keys as its only element, and no task has an index in that.
\<close>

theorem basic_scheduler_raises:
  assumes "s_prio_map (sched r) = basic_prio_map es" and "s_rev_prio_map (sched r) = []"
    and "entries r \<noteq> []" and "1 < length (candidates r)" and "\<not> (st_active (rq_stats r) \<noteq> 0 \<and> pressure)"
  shows "\<exists>e. next_buildable_task env pressure r = Inl e"
proof -
  obtain a b cs where c: "candidates r = a # b # cs"
    using assms(4) by (cases "candidates r" rule: remdups_adj.cases) auto
  let ?r = "upd_sched (\<lambda>s. s\<lparr>s_buildable := sdiff (s_buildable s) (runq_running r)\<rparr>) r"
  let ?m = "foldE (count_running env) (sdiff (runq_running ?r) (runq_complete ?r)) (s_skip_maxthread (sched ?r), [])"
  show ?thesis
  proof (cases ?m)
    case (Inl e)
    then have "next_buildable_task env pressure r = Inl e"
      using c assms(5) by (auto simp: next_buildable_task_def Let_def upd_sched_def)
    then show ?thesis by blast
  next
    case (Inr p)
    obtain maxthread skip where p: "p = (maxthread, skip)" by force
    let ?s = "upd_sched (\<lambda>s. s\<lparr>s_skip_maxthread := maxthread\<rparr>) ?r"
    have "\<exists>e. rev_prio ?s = Inl e"
      by (rule basic_rev_prio) (simp_all add: upd_sched_def assms)
    then obtain e where "best_task ?s maxthread skip (candidates r) = Inl e" by (auto simp: best_task_def)
    then have "next_buildable_task env pressure r = Inl e"
      using c assms(5) Inr p by (auto simp: next_buildable_task_def Let_def upd_sched_def)
    then show ?thesis by blast
  qed
qed

definition two_ready :: rqexe where
  "two_ready = (rqexe_fields (demo_env []) [(''a:x'', RunTaskEntry), (''b:x'', RunTaskEntry)] 2
     \<lparr>s_prio_map = basic_prio_map [(''a:x'', RunTaskEntry), (''b:x'', RunTaskEntry)], s_buildable = [''a:x'', ''b:x''],
      s_skip_maxthread = [], s_stamps = [], s_rev_prio_map = []\<rparr> demo_files)\<lparr>tasks_notcovered := [''a:x'', ''b:x'']\<rparr>"

theorem basic_scheduler_raises_witness:
  "\<exists>e. next_buildable_task (demo_env []) False two_ready = Inl e"
proof -
  have c: "1 < length (candidates two_ready)" by code_simp
  show ?thesis
    by (rule basic_scheduler_raises [OF _ _ _ c]) (simp_all add: two_ready_def rqexe_fields_def)
qed

end
