(* ===== verification/VarStore.thy ===== *)
theory VarStore
  imports Prelude
begin

text \<open>
  The state of a \<open>DataSmart\<close> of \<open>poky/bitbake/lib/bb/data_smart.py\<close>, the store of the variables of
  the configuration and of each recipe, and the parts that read and change it without expanding
  anything: \<open>_findVar\<close>, \<open>initVar\<close>, \<open>_makeShadowCopy\<close>, the bookkeeping of overrides, \<open>delVar\<close>
  and the flags.

  \<^item> A variable is a dictionary of flags; its value is the flag \<open>_content\<close>, and the flags
    \<open>:append\<close>, \<open>:prepend\<close> and \<open>:remove\<close> hold the pending operations.
  \<^item> A copy of a store shares the dictionaries of its parents through the key \<open>_data\<close>: the
    dictionaries of the chain are the list \<open>frames\<close>, the own one first.  A write goes to the
    own one.  What a later write to a parent does to its copies is not modelled.
  \<^item> The history of the variables, kept for \<open>bitbake -e\<close>, is left out, and so are the messages.
\<close>

section \<open>State\<close>

datatype pval =
    PNone
  | PStr string
  | POps "(pval \<times> string option) list"
  | PSet "string list"
  | PBool bool
  | PInt int
  | PList "pval list"

type_synonym flags = "(string, pval) dict"

text \<open>What \<open>VariableParse\<close> keeps of an expansion; \<open>removes\<close> is an attribute that may be missing.\<close>

record vparse =
  vp_name :: "string option"
  vp_value :: pval
  vp_unexpanded :: pval
  vp_refs :: "string list"
  vp_execs :: "string list"
  vp_contains :: "(string, string list) dict"
  vp_removes :: "pval list option"

text \<open>An entry \<open>(r, o)\<close> of \<open>overridedata[var]\<close>: with the override \<open>o\<close>, the value is that of \<open>r\<close>.\<close>

record dstore =
  frames :: "(string, flags) dict list"
  overridedata :: "(string, (string \<times> string) list) dict"
  ds_overrides :: "string list option"
  overridevars :: "string list"
  inoverride :: bool
  expand_cache :: "(string, vparse) dict"
  var_renames :: "(string, string) dict"

definition bitbake_renamed_vars :: "(string, string) dict" where
  "bitbake_renamed_vars =
     [(''BB_ENV_WHITELIST'', ''BB_ENV_PASSTHROUGH''),
      (''BB_ENV_EXTRAWHITE'', ''BB_ENV_PASSTHROUGH_ADDITIONS''),
      (''BB_HASHBASE_WHITELIST'', ''BB_BASEHASH_IGNORE_VARS''),
      (''BB_HASHCONFIG_WHITELIST'', ''BB_HASHCONFIG_IGNORE_VARS''),
      (''BB_HASHTASK_WHITELIST'', ''BB_TASKHASH_IGNORE_TASKS''),
      (''BB_SETSCENE_ENFORCE_WHITELIST'', ''BB_SETSCENE_ENFORCE_IGNORE_TASKS''),
      (''MULTI_PROVIDER_WHITELIST'', ''BB_MULTI_PROVIDER_ALLOWED''),
      (''BB_STAMP_WHITELIST'', ''is a deprecated variable and support has been removed''),
      (''BB_STAMP_POLICY'', ''is a deprecated variable and support has been removed'')]"

definition DataSmart :: dstore where
  "DataSmart =
     \<lparr>frames = [[]], overridedata = [], ds_overrides = None, overridevars = [''OVERRIDES'', ''FILE''],
      inoverride = False, expand_cache = [], var_renames = bitbake_renamed_vars\<rparr>"

definition createCopy :: "dstore \<Rightarrow> dstore" where
  "createCopy d =
     DataSmart\<lparr>frames := [] # frames d, overridevars := overridevars d, overridedata := overridedata d,
       var_renames := var_renames d\<rparr>"

section \<open>Finding and preparing a variable\<close>

definition local_dict :: "dstore \<Rightarrow> (string, flags) dict" where
  "local_dict d = (case frames d of [] \<Rightarrow> [] | f # fs \<Rightarrow> f)"

definition set_local :: "((string, flags) dict \<Rightarrow> (string, flags) dict) \<Rightarrow> dstore \<Rightarrow> dstore" where
  "set_local g d = d\<lparr>frames := g (local_dict d) # tl (frames d)\<rparr>"

fun find_frames :: "(string, flags) dict list \<Rightarrow> string \<Rightarrow> flags option" where
  "find_frames [] var = None"
| "find_frames (f # fs) var = (case map_of f var of Some v \<Rightarrow> Some v | None \<Rightarrow> find_frames fs var)"

definition findVar :: "dstore \<Rightarrow> string \<Rightarrow> flags option" where
  "findVar d var = find_frames (frames d) var"

definition reset_cache :: "dstore \<Rightarrow> dstore" where
  "reset_cache d = d\<lparr>expand_cache := []\<rparr>"

definition initVar :: "string \<Rightarrow> dstore \<Rightarrow> dstore" where
  "initVar var d =
     (let d = reset_cache d
      in if din var (local_dict d) then d else set_local (dset var []) d)"

definition makeShadowCopy :: "string \<Rightarrow> dstore \<Rightarrow> dstore" where
  "makeShadowCopy var d =
     (if din var (local_dict d) then d
      else (case findVar d var of
              Some (f # fs) \<Rightarrow> set_local (dset var (f # fs)) d
            | _ \<Rightarrow> initVar var d))"

definition own_flags :: "dstore \<Rightarrow> string \<Rightarrow> flags" where
  "own_flags d var = dgetd (local_dict d) var []"

definition set_flag :: "string \<Rightarrow> string \<Rightarrow> pval \<Rightarrow> dstore \<Rightarrow> dstore" where
  "set_flag var flag value d = set_local (dset var (dset flag value (own_flags d var))) d"

definition del_flag :: "string \<Rightarrow> string \<Rightarrow> dstore \<Rightarrow> dstore" where
  "del_flag var flag d = set_local (dset var (ddel flag (own_flags d var))) d"

text \<open>A flag as it is stored, \<open>None\<close> when it is missing.\<close>

definition raw_flag :: "dstore \<Rightarrow> string \<Rightarrow> string \<Rightarrow> pval" where
  "raw_flag d var flag = (case findVar d var of None \<Rightarrow> PNone | Some fl \<Rightarrow> dgetd fl flag PNone)"

section \<open>Overrides of a name\<close>

definition rfind :: "char \<Rightarrow> string \<Rightarrow> nat option" where
  "rfind c s = (if c \<in> set s then Some (length s - Suc (length (takeWhile (\<lambda>x. x \<noteq> c) (rev s)))) else None)"

text \<open>\<open>__override_regexp__.match\<close>: the first character is a small letter or a digit.\<close>

definition override_match :: "string \<Rightarrow> bool" where
  "override_match s \<longleftrightarrow>
     (case s of [] \<Rightarrow> False
      | c # _ \<Rightarrow> (let n = of_char c :: nat in 97 \<le> n \<and> n \<le> 122 \<or> 48 \<le> n \<and> n \<le> 57))"

lemma rfind_less: "rfind c s = Some i \<Longrightarrow> i < length s"
  by (cases s) (auto simp: rfind_def split: if_split_asm)

text \<open>
  The pairs of the loop in \<open>_setvar_update_overrides\<close> and \<open>delVar\<close>: \<open>A:b:c\<close> has \<open>(A:b, c)\<close> and
  \<open>(A, b:c)\<close>.  Without a colon \<open>rfind\<close> is \<open>-1\<close>: the override is the whole name and the short name
  is the name less its last character.
\<close>

function override_loop :: "string \<Rightarrow> string \<Rightarrow> string \<Rightarrow> (string \<times> string) list" where
  "override_loop var shortvar override =
     (if override_match override
      then (shortvar, override) #
        (case rfind (CHR '':'') shortvar of
           None \<Rightarrow> []
         | Some 0 \<Rightarrow> []
         | Some (Suc i) \<Rightarrow> override_loop var (take (Suc i) var) (drop (Suc (Suc i)) var))
      else [])"
  by pat_completeness auto

termination
proof (relation "measure (\<lambda>(var, shortvar, override). length shortvar)", goal_cases)
  case (2 var shortvar override i j)
  then show ?case using rfind_less [of "CHR '':''" shortvar i] by simp
qed simp

declare override_loop.simps [simp del]

definition override_pairs :: "string \<Rightarrow> (string \<times> string) list" where
  "override_pairs var =
     (case rfind (CHR '':'') var of
        None \<Rightarrow> override_loop var (butlast var) var
      | Some i \<Rightarrow> override_loop var (take i var) (drop (Suc i) var))"

definition setvar_update_overrides :: "string \<Rightarrow> dstore \<Rightarrow> dstore" where
  "setvar_update_overrides var d =
     fold (\<lambda>(shortvar, override) d.
         let od = (if din shortvar (overridedata d) then overridedata d else dset shortvar [] (overridedata d));
             l = dgetd od shortvar []
         in d\<lparr>overridedata := (if (var, override) \<in> set l then od else dset shortvar (l @ [(var, override)]) od)\<rparr>)
       (override_pairs var) d"

section \<open>Deleting\<close>

definition drop_override :: "string \<Rightarrow> string \<times> string \<Rightarrow> dstore \<Rightarrow> dstore" where
  "drop_override var = (\<lambda>(shortvar, override) d.
     case map_of (overridedata d) shortvar of
       None \<Rightarrow> d
     | Some l \<Rightarrow> d\<lparr>overridedata := dset shortvar (remove1 (var, override) l) (overridedata d)\<rparr>)"

definition delVar :: "string \<Rightarrow> dstore \<Rightarrow> dstore" where
  "delVar var d =
     (let d = set_local (dset var []) (reset_cache d);
          d = d\<lparr>overridedata := ddel var (overridedata d)\<rparr>
      in if CHR '':'' \<in> set var then fold (drop_override var) (override_pairs var) d else d)"

definition delVarFlag :: "string \<Rightarrow> string \<Rightarrow> dstore \<Rightarrow> dstore" where
  "delVarFlag var flag d =
     (let d = reset_cache d
      in case findVar d var of
           None \<Rightarrow> d
         | Some [] \<Rightarrow> d
         | Some (f # fs) \<Rightarrow>
             (let d = makeShadowCopy var d
              in if din flag (own_flags d var) then del_flag var flag d else d))"

text \<open>The content is kept; a variable without content is dropped from the own dictionary.\<close>

definition delVarFlags :: "string \<Rightarrow> dstore \<Rightarrow> dstore" where
  "delVarFlags var d =
     (let d = makeShadowCopy var (reset_cache d)
      in case map_of (own_flags d var) ''_content'' of
           Some content \<Rightarrow> set_local (dset var [(''_content'', content)]) d
         | None \<Rightarrow> set_local (ddel var) d)"

definition setVarFlags :: "string \<Rightarrow> flags \<Rightarrow> dstore \<Rightarrow> dstore" where
  "setVarFlags var fl d =
     (let d = makeShadowCopy var (reset_cache d)
      in fold (\<lambda>(i, v) d. if i = ''_content'' then d else set_flag var i v d) fl d)"

section \<open>Names\<close>

text \<open>
  \<open>__setvar_regexp__\<close>: the first keyword that ends the name or is followed by a colon and an
  override without capital letters.
\<close>

definition setvar_keywords :: "string list" where
  "setvar_keywords = ['':append'', '':prepend'', '':remove'']"

definition is_capital :: "char \<Rightarrow> bool" where
  "is_capital c \<longleftrightarrow> (let n = of_char c :: nat in 65 \<le> n \<and> n \<le> 90)"

definition keyword_rest :: "string \<Rightarrow> string option option" where
  "keyword_rest s =
     (case s of
        [] \<Rightarrow> Some None
      | c # add \<Rightarrow> if c = CHR '':'' \<and> (\<forall>x \<in> set add. \<not> is_capital x) then Some (Some add)
                   else if s = [CHR 0x0A] then Some None else None)"

definition keyword_at :: "string \<Rightarrow> (string \<times> string option) option" where
  "keyword_at s =
     (case filter (startswith s) setvar_keywords of
        [] \<Rightarrow> None
      | k # _ \<Rightarrow> map_option (\<lambda>add. (k, add)) (keyword_rest (drop (length k) s)))"

fun setvar_match :: "string \<Rightarrow> (string \<times> string \<times> string option) option" where
  "setvar_match [] = None"
| "setvar_match (c # cs) =
     (case keyword_at (c # cs) of
        Some (k, add) \<Rightarrow> Some ([], k, add)
      | None \<Rightarrow> if c = CHR 0x0A then None
                else map_option (\<lambda>(base, k, add). (c # base, k, add)) (setvar_match cs))"

definition contains_sub :: "string \<Rightarrow> string \<Rightarrow> bool" where
  "contains_sub s p \<longleftrightarrow> (\<exists>i \<in> set [0..<Suc (length s)]. startswith (drop i s) p)"

text \<open>\<open>s.replace(p, q)\<close> for a non-empty \<open>p\<close>.\<close>

fun replace_fuel :: "nat \<Rightarrow> string \<Rightarrow> string \<Rightarrow> string \<Rightarrow> string" where
  "replace_fuel 0 p q s = s"
| "replace_fuel (Suc n) p q [] = []"
| "replace_fuel (Suc n) p q (c # cs) =
     (if startswith (c # cs) p then q @ replace_fuel n p q (drop (length p) (c # cs))
      else c # replace_fuel n p q cs)"

definition replace_str :: "string \<Rightarrow> string \<Rightarrow> string \<Rightarrow> string" where
  "replace_str p q s = replace_fuel (length s) p q s"

definition old_syntax :: "string \<Rightarrow> bool" where
  "old_syntax var \<longleftrightarrow> \<not> startswith var ''__anon_'' \<and>
     (contains_sub var ''_append'' \<or> contains_sub var ''_prepend'' \<or> contains_sub var ''_remove'')"

definition truthy_val :: "pval \<Rightarrow> bool" where
  "truthy_val v =
     (case v of PNone \<Rightarrow> False | PStr s \<Rightarrow> s \<noteq> [] | POps l \<Rightarrow> l \<noteq> [] | PSet l \<Rightarrow> l \<noteq> []
      | PBool b \<Rightarrow> b | PInt n \<Rightarrow> n \<noteq> 0 | PList l \<Rightarrow> l \<noteq> [])"

end
