(* ===== verification/VarExpand.thy ===== *)
theory VarExpand
  imports VarStore
begin

text \<open>
  Reading variables, from \<open>poky/bitbake/lib/bb/data_smart.py\<close>: \<open>VariableParse\<close>,
  \<open>expandWithRefs\<close>, \<open>need_overrides\<close> and \<open>getVarFlag\<close>.  Reading changes the store: it fills the
  cache of expansions and the list of overrides.

  The functions call each other; \<open>getVarFlag n\<close> has the depth of the recursion and the number of
  rounds of each loop bounded by \<open>n\<close>, and what runs out of it is \<open>Diverges\<close>: in the code that is a
  loop without end or Python's \<open>RecursionError\<close>.

  The Python expressions in values are code of the metadata: compiling one, what the parser of
  \<open>codeparser.py\<close> finds in it, and its value are arguments.  An expression only reads the store.
\<close>

record ds_env =
  de_compile :: "string \<Rightarrow> pyerr + unit"
  de_parse :: "string option \<Rightarrow> string \<Rightarrow> string list \<times> string list \<times> (string, string list) dict"
  de_eval :: "dstore \<Rightarrow> string \<Rightarrow> pyerr + string"

section \<open>The two patterns\<close>

text \<open>\<open>\${[a-zA-Z0-9\-_+./~:]+?}\<close>; the name cannot contain a brace, so it is the longest run.\<close>

definition name_char :: "char \<Rightarrow> bool" where
  "name_char c \<longleftrightarrow>
     (let n = of_char c :: nat
      in 97 \<le> n \<and> n \<le> 122 \<or> 65 \<le> n \<and> n \<le> 90 \<or> 48 \<le> n \<and> n \<le> 57) \<or> c \<in> set ''-_+./~:''"

definition match_var :: "string \<Rightarrow> (string \<times> string) option" where
  "match_var s =
     (if startswith s ''${''
      then (let r = drop 2 s; k = takeWhile name_char r; t = dropWhile name_char r
            in if k \<noteq> [] \<and> t \<noteq> [] \<and> hd t = CHR ''}'' then Some (k, tl t) else None)
      else None)"

text \<open>
  \<open>\${@(?:{.*?}|.)+?}\<close>: after at least one piece, the first closing brace ends the match; a piece
  is a group in braces, tried first and as short as possible, or one character.  The result is
  the code and the rest of the string.
\<close>

fun py_tail :: "bool \<Rightarrow> string \<Rightarrow> (string \<times> string) option"
  and py_group :: "string \<Rightarrow> (string \<times> string) option" where
  "py_tail started [] = None"
| "py_tail started (c # cs) =
     (if started \<and> c = CHR ''}'' then Some ([], cs)
      else
        (case (if c = CHR ''{'' then py_group cs else None) of
           Some (b, r) \<Rightarrow> Some (c # b, r)
         | None \<Rightarrow> if c = CHR 0x0A then None
                   else map_option (\<lambda>(b, r). (c # b, r)) (py_tail True cs)))"
| "py_group [] = None"
| "py_group (c # cs) =
     (case (if c = CHR ''}'' then py_tail True cs else None) of
        Some (b, r) \<Rightarrow> Some (c # b, r)
      | None \<Rightarrow> if c = CHR 0x0A then None
                else map_option (\<lambda>(b, r). (c # b, r)) (py_group cs))"

definition match_python :: "string \<Rightarrow> (string \<times> string) option" where
  "match_python s = (if startswith s ''${@'' then py_tail False (drop 3 s) else None)"

lemma py_length:
  "py_tail st s = Some (b, r) \<Longrightarrow> length r < length s"
  "py_group s = Some (b, r) \<Longrightarrow> length r < length s"
proof (induction st s and s arbitrary: b r and b r rule: py_tail_py_group.induct)
  case (2 st c cs)
  then show ?case by (auto split: if_split_asm option.splits)
next
  case (4 c cs)
  then show ?case by (auto split: if_split_asm option.splits)
qed simp_all

lemma match_var_length: "match_var s = Some (k, r) \<Longrightarrow> length r < length s"
  using length_dropWhile_le [of name_char "drop 2 s"]
  by (cases "dropWhile name_char (drop 2 s)") (auto simp: match_var_def Let_def split: if_split_asm)

lemma match_python_length: "match_python s = Some (k, r) \<Longrightarrow> length r < length s"
  using py_length(1) [of False "drop 3 s" k r] by (auto simp: match_python_def split: if_split_asm)

text \<open>\<open>re.sub\<close> with a function: the matches from left to right.  An error carries the state.\<close>

function sub_matches ::
  "(string \<Rightarrow> (string \<times> string) option) \<Rightarrow> (string \<Rightarrow> 's \<Rightarrow> (pyerr \<times> 's) + (string \<times> 's)) \<Rightarrow>
   string \<Rightarrow> 's \<Rightarrow> (pyerr \<times> 's) + (string \<times> 's)" where
  "sub_matches mat f [] s = Inr ([], s)"
| "sub_matches mat f (c # cs) s =
     (case mat (c # cs) of
        Some (k, r) \<Rightarrow>
          if length r < length (c # cs)
          then bindE (f k s) (\<lambda>(out, s). bindE (sub_matches mat f r s) (\<lambda>(rest, s). Inr (out @ rest, s)))
          else Inl (Diverges, s)
      | None \<Rightarrow> bindE (sub_matches mat f cs s) (\<lambda>(rest, s). Inr (c # rest, s)))"
  by pat_completeness auto
termination
  by (relation "measure (\<lambda>(mat, f, cs, s). length cs)") auto

definition has_var :: "string \<Rightarrow> bool" where
  "has_var s \<longleftrightarrow> (\<exists>i \<in> set [0..<length s]. match_var (drop i s) \<noteq> None)"

section \<open>VariableParse\<close>

type_synonym getter = "string \<Rightarrow> string \<Rightarrow> dstore \<Rightarrow> pyerr + (pval \<times> dstore)"

definition VariableParse :: "string option \<Rightarrow> pval \<Rightarrow> pval \<Rightarrow> vparse" where
  "VariableParse varname unexpanded val =
     \<lparr>vp_name = varname, vp_value = val, vp_unexpanded = unexpanded, vp_refs = [], vp_execs = [],
      vp_contains = [], vp_removes = None\<rparr>"

definition name_or :: "string option \<Rightarrow> bool" where
  "name_or n \<longleftrightarrow> (case n of None \<Rightarrow> False | Some s \<Rightarrow> s \<noteq> [])"

text \<open>\<open>get\<close> is the expanding \<open>getVarFlag\<close> with a variable and a flag.\<close>

type_synonym vstate = "vparse \<times> dstore"
type_synonym 'a vres = "(pyerr \<times> vstate) + 'a"

definition at_state :: "vstate \<Rightarrow> pyerr + 'a \<Rightarrow> 'a vres" where
  "at_state st m = (case m of Inl e \<Rightarrow> Inl (e, st) | Inr x \<Rightarrow> Inr x)"

definition var_sub :: "getter \<Rightarrow> string \<Rightarrow> vstate \<Rightarrow> (string \<times> vstate) vres" where
  "var_sub get key = (\<lambda>(vp, d).
     if name_or (vp_name vp) \<and> vp_name vp = Some key
     then Inl (PyException ''variable references itself'', vp, d)
     else bindE (at_state (vp, d) (get key ''_content'' d)) (\<lambda>(var, d).
       let vp = vp\<lparr>vp_refs := sadd key (vp_refs vp)\<rparr>
       in case var of
            PNone \<Rightarrow> Inr (''${'' @ key @ ''}'', vp, d)
          | PStr s \<Rightarrow> Inr (s, vp, d)
          | _ \<Rightarrow> Inl (TypeError, vp, d)))"

definition add_contains ::
  "(string, string list) dict \<Rightarrow> (string, string list) dict \<Rightarrow> (string, string list) dict" where
  "add_contains new old = fold (\<lambda>(k, vs) c. dset k (sunion (dgetd c k []) vs) c) new old"

definition python_sub :: "ds_env \<Rightarrow> getter \<Rightarrow> string \<Rightarrow> vstate \<Rightarrow> (string \<times> vstate) vres" where
  "python_sub env get code = (\<lambda>(vp, d).
     if has_var code then Inr (''${@'' @ code @ ''}'', vp, d)
     else
       bindE (at_state (vp, d) (de_compile env (strip_chars is_space code))) (\<lambda>_.
       bindE (at_state (vp, d) (if name_or (vp_name vp) then get (the (vp_name vp)) ''vardeps'' d
                                else Inr (PNone, d))) (\<lambda>(_, d).
         case de_parse env (vp_name vp) code of (refs, execs, contains) \<Rightarrow>
           let vp = vp\<lparr>vp_refs := sunion (vp_refs vp) refs, vp_execs := sunion (vp_execs vp) execs,
                       vp_contains := add_contains contains (vp_contains vp)\<rparr>
           in bindE (at_state (vp, d) (de_eval env d code)) (\<lambda>value. Inr (value, vp, d)))))"

section \<open>expandWithRefs\<close>

text \<open>
  One round.  A syntax error for an unterminated string means unmatched brackets; the expression
  is then left alone.  The references found before the error stay.
\<close>

definition is_unterminated :: "pyerr \<Rightarrow> bool" where
  "is_unterminated e \<longleftrightarrow> e = SyntaxError True"

definition wrap_error :: "pyerr \<Rightarrow> pyerr" where
  "wrap_error e =
     (case e of Fatal m \<Rightarrow> Fatal m | SkipRecipe \<Rightarrow> SkipRecipe | Diverges \<Rightarrow> Diverges | _ \<Rightarrow> ExpansionError)"

definition expand_round :: "ds_env \<Rightarrow> getter \<Rightarrow> string \<Rightarrow> vstate \<Rightarrow> (string \<times> vstate) vres" where
  "expand_round env get s st =
     bindE (sub_matches match_var (var_sub get) s st) (\<lambda>(s, st).
       case sub_matches match_python (python_sub env get) s st of
         Inr r \<Rightarrow> Inr r
       | Inl (e, st) \<Rightarrow> if is_unterminated e then Inr (s, st) else Inl (e, st))"

fun expand_loop :: "nat \<Rightarrow> ds_env \<Rightarrow> getter \<Rightarrow> string \<Rightarrow> vstate \<Rightarrow> pyerr + (string \<times> vstate)" where
  "expand_loop 0 env get s st = Inl Diverges"
| "expand_loop (Suc k) env get s st =
     (if \<not> contains_sub s ''${'' then Inr (s, st)
      else
        (case expand_round env get s st of
           Inl (e, _) \<Rightarrow> Inl (wrap_error e)
         | Inr (s', st) \<Rightarrow> if s' = s then Inr (s', st) else expand_loop k env get s' st))"

definition expandWithRefs ::
  "nat \<Rightarrow> ds_env \<Rightarrow> getter \<Rightarrow> pval \<Rightarrow> string option \<Rightarrow> dstore \<Rightarrow> pyerr + (vparse \<times> dstore)" where
  "expandWithRefs k env get v varname d =
     (case v of
        PStr s \<Rightarrow>
          bindE (expand_loop k env get s (VariableParse varname v PNone, d)) (\<lambda>(s, vp, d).
            Inr (vp\<lparr>vp_value := PStr s\<rparr>, d))
      | _ \<Rightarrow> Inr (VariableParse varname v v, d))"

section \<open>need_overrides\<close>

text \<open>\<open>(self.getVar("OVERRIDES") or "").split(":")\<close>.\<close>

definition override_list :: "getter \<Rightarrow> dstore \<Rightarrow> pyerr + (string list \<times> dstore)" where
  "override_list get d =
     bindE (get ''OVERRIDES'' ''_content'' d) (\<lambda>(v, d).
       case v of
         PStr s \<Rightarrow> Inr (split_on (CHR '':'') s, d)
       | _ \<Rightarrow> if truthy_val v then Inl AttributeError else Inr ([[]], d))"

fun settle_overrides :: "nat \<Rightarrow> getter \<Rightarrow> dstore \<Rightarrow> pyerr + dstore" where
  "settle_overrides 0 get d = Inl (Fatal ''Overrides could not be expanded'')"
| "settle_overrides (Suc k) get d =
     bindE (override_list get (d\<lparr>inoverride := True, ds_overrides := Some []\<rparr>)) (\<lambda>(o1, d).
     bindE (override_list get (d\<lparr>ds_overrides := Some o1, inoverride := False, expand_cache := []\<rparr>)) (\<lambda>(o2, d).
       if o2 = o1 then Inr d
       else settle_overrides k get (d\<lparr>ds_overrides := Some o2\<rparr>)))"

definition need_overrides :: "getter \<Rightarrow> dstore \<Rightarrow> pyerr + dstore" where
  "need_overrides get d =
     (if ds_overrides d \<noteq> None \<or> inoverride d then Inr d else settle_overrides 5 get d)"

section \<open>The override that applies\<close>

definition active_override :: "string list \<Rightarrow> string \<Rightarrow> bool" where
  "active_override ovs o' \<longleftrightarrow>
     o' \<in> set ovs \<or> CHR '':'' \<in> set o' \<and> set (split_on (CHR '':'') o') \<subseteq> set ovs"

definition active_dict :: "string list \<Rightarrow> (string \<times> string) list \<Rightarrow> (string, string) dict" where
  "active_dict ovs od =
     fold (\<lambda>(r, o') active. if active_override ovs o' then dset o' r active else active) od []"

text \<open>
  The body of the two inner loops: an override that ends with the current one loses that part,
  one that equals it is the match so far and leaves the dictionary.
\<close>

type_synonym pick_state = "(string, string) dict \<times> string option \<times> bool"

definition pick_step :: "string \<Rightarrow> string \<Rightarrow> pick_state \<Rightarrow> pick_state" where
  "pick_step o' a = (\<lambda>(active, m, chg).
     if endswith a (CHR '':'' # o')
     then (case map_of active a of
             None \<Rightarrow> (active, m, chg)
           | Some t \<Rightarrow> (dset (replace_str (CHR '':'' # o') [] a) t (ddel a active), m, True))
     else if a = o' then (ddel a active, map_of active a, chg)
     else (active, m, chg))"

definition pick_round :: "string list \<Rightarrow> pick_state \<Rightarrow> pick_state" where
  "pick_round ovs s = fold (\<lambda>o' s. fold (pick_step o') (dkeys (fst s)) s) ovs s"

definition key_size :: "(string, 'v) dict \<Rightarrow> nat" where
  "key_size d = sum_list (map (\<lambda>(k, v). Suc (length k)) d)"

lemma key_size_ddel: "map_of d k = Some v \<Longrightarrow> key_size (ddel k d) + Suc (length k) \<le> key_size d"
proof (induction d)
  case (Cons a d)
  have le: "key_size (ddel k d) \<le> key_size d" for d :: "(string, 'a) dict"
    by (induction d) (auto simp: key_size_def)
  show ?case using Cons le [of d] by (cases a) (auto simp: key_size_def)
qed simp

lemma key_size_ddel_le: "key_size (ddel k d) \<le> key_size d"
  by (induction d) (auto simp: key_size_def)

lemma key_size_dset: "key_size (dset k v d) \<le> key_size d + Suc (length k)"
  by (induction d) (auto simp: key_size_def)

lemma replace_length: "length (replace_fuel n p [] s) \<le> length s"
  by (induction n p "[] :: string" s rule: replace_fuel.induct) auto

lemma replace_shorter:
  "p \<noteq> [] \<Longrightarrow> length s \<le> n \<Longrightarrow> endswith s p \<Longrightarrow> length (replace_fuel n p [] s) < length s"
proof (induction n p "[] :: string" s rule: replace_fuel.induct)
  case (3 n p c cs)
  show ?case
  proof (cases "startswith (c # cs) p")
    case True
    have "length (drop (length p) (c # cs)) < length (c # cs)" using 3(3) by simp
    with True replace_length [of n p "drop (length p) (c # cs)"] show ?thesis by simp
  next
    case False
    then have "endswith cs p" using 3(5) by (auto simp: endswith_iff startswith_iff Cons_eq_append_conv)
    with 3 False show ?thesis by simp
  qed
qed (auto simp: endswith_iff)

lemma pick_step_size:
  "pick_step o' a (active, m, chg) = (active', m', chg') \<Longrightarrow>
   key_size active' + (if chg' then 1 else 0) \<le> key_size active + (if chg then 1 else 0)"
proof (cases "endswith a (CHR '':'' # o') \<and> map_of active a \<noteq> None")
  case True
  assume s: "pick_step o' a (active, m, chg) = (active', m', chg')"
  from True obtain t where t: "map_of active a = Some t" by auto
  let ?k = "replace_str (CHR '':'' # o') [] a"
  have "length ?k < length a" unfolding replace_str_def using True by (intro replace_shorter) auto
  with s True t key_size_ddel [OF t] key_size_dset [of ?k t "ddel a active"] show ?thesis
    by (auto simp: pick_step_def)
next
  case False
  assume "pick_step o' a (active, m, chg) = (active', m', chg')"
  with False key_size_ddel_le [of a active] show ?thesis
    by (auto simp: pick_step_def split: if_split_asm)
qed

lemma pick_fold_size:
  "fold (pick_step o') as (active, m, chg) = (active', m', chg') \<Longrightarrow>
   key_size active' + (if chg' then 1 else 0) \<le> key_size active + (if chg then 1 else 0)"
proof (induction as arbitrary: active m chg)
  case (Cons a as)
  obtain x y z where s: "pick_step o' a (active, m, chg) = (x, y, z)" by (metis prod_cases3)
  with Cons.prems have "fold (pick_step o') as (x, y, z) = (active', m', chg')" by simp
  from Cons.IH [OF this] pick_step_size [OF s] show ?case by (rule order_trans)
qed simp

lemma pick_round_size:
  "pick_round ovs (active, m, chg) = (active', m', chg') \<Longrightarrow>
   key_size active' + (if chg' then 1 else 0) \<le> key_size active + (if chg then 1 else 0)"
  unfolding pick_round_def
proof (induction ovs arbitrary: active m chg)
  case (Cons o' ovs)
  obtain x y z where s: "fold (pick_step o') (dkeys active) (active, m, chg) = (x, y, z)" by (metis prod_cases3)
  with Cons.prems have "fold (\<lambda>o' s. fold (pick_step o') (dkeys (fst s)) s) ovs (x, y, z) = (active', m', chg')"
    by simp
  from Cons.IH [OF this] pick_fold_size [OF s] show ?case by (rule order_trans)
qed simp

lemma pick_round_changed: "pick_round ovs (active, m, False) = (active', m', True) \<Longrightarrow> key_size active' < key_size active"
  using pick_round_size [of ovs active m False active' m' True] by simp

text \<open>The \<open>while mod\<close> loop: every round that changes something makes the keys shorter.\<close>

function pick_loop :: "string list \<Rightarrow> (string, string) dict \<Rightarrow> string option \<Rightarrow> string option" where
  "pick_loop ovs active m =
     (case pick_round ovs (active, m, False) of
        (active, m, chg) \<Rightarrow> if chg then pick_loop ovs active m else m)"
  by pat_completeness auto

termination
  by (relation "measure (\<lambda>(ovs, active, m). key_size active)")
    (simp, simp only: in_measure split_conv, metis pick_round_changed)

declare pick_loop.simps [simp del]

definition pick_override :: "string list \<Rightarrow> (string \<times> string) list \<Rightarrow> string option" where
  "pick_override ovs od = pick_loop ovs (active_dict ovs od) None"

section \<open>getVarFlag\<close>

text \<open>\<open>re.split\<close> at white space, with the separators.\<close>

fun ws_split :: "string \<Rightarrow> string list" where
  "ws_split [] = [[]]"
| "ws_split (c # cs) =
     (if is_space c then [] # [c] # ws_split cs
      else (case ws_split cs of [] \<Rightarrow> [[c]] | h # t \<Rightarrow> (c # h) # t))"

text \<open>Whether an operation with the overrides \<open>o\<close> applies.\<close>

definition op_active :: "dstore \<Rightarrow> string option \<Rightarrow> bool" where
  "op_active d add =
     (case add of
        None \<Rightarrow> True
      | Some s \<Rightarrow> s = [] \<or> set (split_on (CHR '':'') s) \<subseteq> set (the (ds_overrides d)))"

definition plus_val :: "pval \<Rightarrow> pval \<Rightarrow> pyerr + pval" where
  "plus_val a b = (case (a, b) of (PStr s, PStr t) \<Rightarrow> Inr (PStr (s @ t)) | _ \<Rightarrow> Inl TypeError)"

definition or_empty :: "pval \<Rightarrow> pval" where
  "or_empty v = (if v = PNone then PStr [] else v)"

definition apply_append :: "dstore \<Rightarrow> pval \<times> string option \<Rightarrow> pval \<Rightarrow> pyerr + pval" where
  "apply_append d = (\<lambda>(r, add) v. if op_active d add then plus_val (or_empty v) r else Inr v)"

definition apply_prepend :: "dstore \<Rightarrow> pval \<times> string option \<Rightarrow> pval \<Rightarrow> pyerr + pval" where
  "apply_prepend d = (\<lambda>(r, add) v. if op_active d add then plus_val r (or_empty v) else Inr v)"

text \<open>The operations of a keyword, when the variable has any.\<close>

definition ops_of :: "flags option \<Rightarrow> string \<Rightarrow> (pval \<times> string option) list option" where
  "ops_of local_var k =
     (case local_var of
        None \<Rightarrow> None
      | Some fl \<Rightarrow> (case map_of fl k of None \<Rightarrow> None | Some (POps l) \<Rightarrow> Some l | Some _ \<Rightarrow> Some []))"

definition run_ops ::
  "getter \<Rightarrow> (dstore \<Rightarrow> pval \<times> string option \<Rightarrow> pval \<Rightarrow> pyerr + pval) \<Rightarrow> (pval \<times> string option) list option \<Rightarrow>
   pval \<times> dstore \<Rightarrow> pyerr + (pval \<times> dstore)" where
  "run_ops get f ops = (\<lambda>(v, d).
     case ops of
       None \<Rightarrow> Inr (v, d)
     | Some l \<Rightarrow> bindE (need_overrides get d) (\<lambda>d. bindE (foldE (f d) l v) (\<lambda>v. Inr (v, d))))"

text \<open>The value without override: the content, or the weak default.\<close>

definition base_value :: "flags option \<Rightarrow> string \<Rightarrow> bool \<Rightarrow> pval" where
  "base_value local_var flag noweakdefault =
     (case local_var of
        None \<Rightarrow> PNone
      | Some fl \<Rightarrow>
          (case map_of fl flag of
             Some v \<Rightarrow> v
           | None \<Rightarrow> if flag = ''_content'' \<and> \<not> noweakdefault then dgetd fl ''_defaultval'' PNone else PNone))"

type_synonym full_getter = "string \<Rightarrow> string \<Rightarrow> bool \<Rightarrow> bool \<Rightarrow> dstore \<Rightarrow> pyerr + (pval \<times> vparse option \<times> dstore)"

definition reader :: "full_getter \<Rightarrow> getter" where
  "reader get var flag d = bindE (get var flag True False d) (\<lambda>(v, p, d). Inr (v, d))"

text \<open>
  The value of the override that applies, and the removals of it.  The set of removals is the
  one object that the cached parser of the override has, so what is added to it below is added
  there too; \<open>Some r\<close> in the last component says whose.
\<close>

definition override_value ::
  "full_getter \<Rightarrow> string \<Rightarrow> dstore \<Rightarrow> pyerr + (pval \<times> pval list \<times> string option \<times> dstore)" where
  "override_value get var d =
     (case map_of (overridedata d) var of
        None \<Rightarrow> Inr (PNone, [], None, d)
      | Some od \<Rightarrow>
          bindE (need_overrides (reader get) d) (\<lambda>d.
            case pick_override (the (ds_overrides d)) od of
              None \<Rightarrow> Inr (PNone, [], None, d)
            | Some r \<Rightarrow>
                if r = [] then Inr (PNone, [], None, d)
                else bindE (get r ''_content'' False True d) (\<lambda>(v, sub, d).
                  case sub of
                    None \<Rightarrow> Inl AttributeError
                  | Some p \<Rightarrow>
                      (case vp_removes p of
                         None \<Rightarrow> Inr (v, [], None, d)
                       | Some rs \<Rightarrow> Inr (v, rs, Some r, d)))))"

definition share_removes :: "string option \<Rightarrow> pval list \<Rightarrow> dstore \<Rightarrow> dstore" where
  "share_removes own rs d =
     (case own of
        None \<Rightarrow> d
      | Some r \<Rightarrow>
          (case map_of (expand_cache d) r of
             None \<Rightarrow> d
           | Some p \<Rightarrow> d\<lparr>expand_cache := dset r (p\<lparr>vp_removes := Some rs\<rparr>) (expand_cache d)\<rparr>))"

definition collect_removes :: "dstore \<Rightarrow> (pval \<times> string option) list \<Rightarrow> pval list \<Rightarrow> pval list" where
  "collect_removes d l rs = fold (\<lambda>(r, add) rs. if op_active d add then sadd r rs else rs) l rs"

text \<open>\<open>self.expand(r).split()\<close> of every removal.\<close>

definition expand_removes ::
  "nat \<Rightarrow> ds_env \<Rightarrow> getter \<Rightarrow> pval list \<Rightarrow> dstore \<Rightarrow> pyerr + ((pval \<times> string list) list \<times> dstore)" where
  "expand_removes k env get rs d =
     foldE (\<lambda>r (ws, d).
         bindE (expandWithRefs k env get r None d) (\<lambda>(p, d).
           case vp_value p of
             PStr s \<Rightarrow> Inr (ws @ [(r, words s)], d)
           | _ \<Rightarrow> Inl AttributeError)) rs ([], d)"

definition filter_removed :: "(pval \<times> string list) list \<Rightarrow> vparse \<Rightarrow> pyerr + vparse" where
  "filter_removed ws p =
     (case vp_value p of
        PStr s \<Rightarrow>
          (let removed = (\<lambda>v. map fst (filter (\<lambda>(r, l). v \<in> set l) ws));
               parts = ws_split s
           in Inr (p\<lparr>vp_value := PStr (concat (filter (\<lambda>v. removed v = []) parts)),
                     vp_removes := Some (fold sadd (concat (map removed parts)) [])\<rparr>))
      | _ \<Rightarrow> Inl TypeError)"

definition cache_name :: "string \<Rightarrow> string \<Rightarrow> string" where
  "cache_name var flag = (if flag = ''_content'' then var else var @ ''['' @ flag @ '']'')"

definition expand_value ::
  "nat \<Rightarrow> ds_env \<Rightarrow> getter \<Rightarrow> bool \<Rightarrow> pval \<Rightarrow> string \<Rightarrow> dstore \<Rightarrow> pyerr + (vparse option \<times> dstore)" where
  "expand_value k env get wanted v cn d =
     (if wanted then bindE (expandWithRefs k env get v (Some cn) d) (\<lambda>(p, d). Inr (Some p, d))
      else Inr (None, d))"

text \<open>The removals: those of the override and the own ones that apply.\<close>

definition add_removes ::
  "getter \<Rightarrow> (pval \<times> string option) list option \<Rightarrow> string option \<Rightarrow> pval list \<times> dstore \<Rightarrow>
   pyerr + (pval list \<times> dstore)" where
  "add_removes get ops own = (\<lambda>(rs, d).
     case ops of
       None \<Rightarrow> Inr (rs, d)
     | Some l \<Rightarrow>
         bindE (need_overrides get d) (\<lambda>d.
           let rs = collect_removes d l rs in Inr (rs, share_removes own rs d)))"

definition apply_removes ::
  "nat \<Rightarrow> ds_env \<Rightarrow> getter \<Rightarrow> pval list \<Rightarrow> vparse option \<Rightarrow> dstore \<Rightarrow> pyerr + (vparse option \<times> dstore)" where
  "apply_removes k env get rs p d =
     (case p of
        None \<Rightarrow> Inr (None, d)
      | Some p \<Rightarrow>
          if rs = [] then Inr (Some p, d)
          else bindE (expand_removes k env get rs d) (\<lambda>(ws, d).
               bindE (filter_removed ws p) (\<lambda>p. Inr (Some p, d))))"

definition getVarFlag_body ::
  "nat \<Rightarrow> ds_env \<Rightarrow> full_getter \<Rightarrow> string \<Rightarrow> string \<Rightarrow> bool \<Rightarrow> bool \<Rightarrow> bool \<Rightarrow> bool \<Rightarrow> dstore \<Rightarrow>
   pyerr + (pval \<times> vparse option \<times> dstore)" where
  "getVarFlag_body k env get var flag expand noweakdefault parsing retparser d =
     (let cn = cache_name var flag; cached = map_of (expand_cache d) cn
      in if flag = [] then Inr (PNone, None, d)
         else if \<not> expand \<and> retparser \<and> cached \<noteq> None
           then Inr (vp_unexpanded (the cached), cached, d)
         else if expand \<and> cached \<noteq> None then Inr (vp_value (the cached), None, d)
         else
           (let local_var = findVar d var; content = (flag = ''_content'' \<and> \<not> parsing)
            in bindE (if content then override_value get var d else Inr (PNone, [], None, d)) (\<lambda>(v, rs, own, d).
               let v = (if v = PNone then base_value local_var flag noweakdefault else v)
               in bindE (run_ops (reader get) apply_append (if content then ops_of local_var '':append'' else None)
                           (v, d)) (\<lambda>(v, d).
                  bindE (run_ops (reader get) apply_prepend (if content then ops_of local_var '':prepend'' else None)
                           (v, d)) (\<lambda>(v, d).
                  bindE (expand_value k env (reader get) (expand \<or> retparser) v cn d) (\<lambda>(p, d).
                  let v = (if expand then vp_value (the p) else v)
                  in bindE (add_removes (reader get)
                              (if content \<and> truthy_val v then ops_of local_var '':remove'' else None) own (rs, d))
                       (\<lambda>(rs, d).
                     bindE (if content \<and> truthy_val v then apply_removes k env (reader get) rs p d
                            else Inr (p, d)) (\<lambda>(p, d).
                     let v = (if expand then vp_value (the p) else v);
                         d = (case p of None \<Rightarrow> d
                              | Some q \<Rightarrow> d\<lparr>expand_cache := dset cn q (expand_cache d)\<rparr>)
                     in Inr (v, if retparser then p else None, d)))))))))"

fun getVarFlag ::
  "nat \<Rightarrow> ds_env \<Rightarrow> string \<Rightarrow> string \<Rightarrow> bool \<Rightarrow> bool \<Rightarrow> bool \<Rightarrow> bool \<Rightarrow> dstore \<Rightarrow>
   pyerr + (pval \<times> vparse option \<times> dstore)" where
  "getVarFlag 0 env var flag expand noweakdefault parsing retparser d = Inl Diverges"
| "getVarFlag (Suc k) env var flag expand noweakdefault parsing retparser d =
     getVarFlag_body k env (\<lambda>var flag expand retparser. getVarFlag k env var flag expand False False retparser)
       var flag expand noweakdefault parsing retparser d"

text \<open>The calls from outside: \<open>getVar\<close>, \<open>expand\<close> and \<open>expandWithRefs\<close> with the bound \<open>n\<close>.\<close>

definition flag_reader :: "nat \<Rightarrow> ds_env \<Rightarrow> getter" where
  "flag_reader n env = reader (\<lambda>var flag expand retparser. getVarFlag n env var flag expand False False retparser)"

definition getVar :: "nat \<Rightarrow> ds_env \<Rightarrow> string \<Rightarrow> bool \<Rightarrow> dstore \<Rightarrow> pyerr + (pval \<times> dstore)" where
  "getVar n env var expand d =
     bindE (getVarFlag n env var ''_content'' expand False False False d) (\<lambda>(v, p, d). Inr (v, d))"

definition expandWithRefs' :: "nat \<Rightarrow> ds_env \<Rightarrow> pval \<Rightarrow> string option \<Rightarrow> dstore \<Rightarrow> pyerr + (vparse \<times> dstore)" where
  "expandWithRefs' n env = expandWithRefs n env (flag_reader n env)"

definition ds_expand :: "nat \<Rightarrow> ds_env \<Rightarrow> pval \<Rightarrow> string option \<Rightarrow> dstore \<Rightarrow> pyerr + (pval \<times> dstore)" where
  "ds_expand n env v varname d =
     bindE (expandWithRefs' n env v varname d) (\<lambda>(p, d). Inr (vp_value p, d))"

definition need_overrides' :: "nat \<Rightarrow> ds_env \<Rightarrow> dstore \<Rightarrow> pyerr + dstore" where
  "need_overrides' n env = need_overrides (flag_reader n env)"

text \<open>\<open>getVarFlags\<close>: the flags that are not internal, those of \<open>ex\<close> expanded.\<close>

definition getVarFlags ::
  "nat \<Rightarrow> ds_env \<Rightarrow> string \<Rightarrow> string list \<Rightarrow> bool \<Rightarrow> dstore \<Rightarrow> pyerr + (flags option \<times> dstore)" where
  "getVarFlags n env var ex internalflags d =
     (case findVar d var of
        None \<Rightarrow> Inr (None, d)
      | Some fl \<Rightarrow>
          bindE (foldE (\<lambda>(i, v) (out, d).
              if (startswith i ''_'' \<or> startswith i '':'') \<and> \<not> internalflags then Inr (out, d)
              else if i \<in> set ex
                then bindE (ds_expand n env v (Some (var @ ''['' @ i @ '']'')) d) (\<lambda>(v, d). Inr (dset i v out, d))
              else Inr (dset i v out, d)) fl ([], d)) (\<lambda>(out, d).
            Inr (if out = [] then None else Some out, d)))"

end
