(* ===== verification/VarOps.thy ===== *)
theory VarOps
  imports VarExpand
begin

text \<open>
  Changing variables, from \<open>poky/bitbake/lib/bb/data_smart.py\<close> and \<open>data.py\<close>: \<open>setVar\<close>,
  \<open>setVarFlag\<close> and the operations made of them, \<open>renameVar\<close>, the walk over the names of a store
  and \<open>expandKeys\<close>.  The bound \<open>n\<close> is that of reading.
\<close>

section \<open>Overrides of OVERRIDES\<close>

text \<open>
  The variables \<open>OVERRIDES\<close> depends on: writing one of them forgets the list of overrides.  The
  loop follows the references of the expanded values.
\<close>

definition refs_of :: "vparse \<Rightarrow> string list" where
  "refs_of p = sunion (vp_refs p) (dkeys (vp_contains p))"

definition next_refs ::
  "nat \<Rightarrow> ds_env \<Rightarrow> string \<Rightarrow> string list \<times> dstore \<Rightarrow> pyerr + (string list \<times> dstore)" where
  "next_refs n env i = (\<lambda>(nextnew, d).
     bindE (getVar n env i True d) (\<lambda>(v, d).
     bindE (expandWithRefs' n env v (Some i) d) (\<lambda>(p, d). Inr (sunion nextnew (refs_of p), d))))"

fun overridevars_loop :: "nat \<Rightarrow> nat \<Rightarrow> ds_env \<Rightarrow> string list \<Rightarrow> dstore \<Rightarrow> pyerr + dstore" where
  "overridevars_loop 0 n env new d = Inl Diverges"
| "overridevars_loop (Suc k) n env new d =
     (if ssubset new (overridevars d) then Inr d
      else
        bindE (foldE (next_refs n env) new ([], d\<lparr>overridevars := sunion (overridevars d) new\<rparr>)) (\<lambda>(nextnew, d).
          overridevars_loop k n env nextnew d))"

definition setvar_update_overridevars :: "nat \<Rightarrow> ds_env \<Rightarrow> string \<Rightarrow> pval \<Rightarrow> dstore \<Rightarrow> pyerr + dstore" where
  "setvar_update_overridevars n env var value d =
     bindE (expandWithRefs' n env value (Some var) d) (\<lambda>(p, d).
     bindE (overridevars_loop n n env (refs_of p) d) (\<lambda>d. Inr (d\<lparr>ds_overrides := None\<rparr>)))"

section \<open>setVar\<close>

definition drop_ops :: "string \<Rightarrow> dstore \<Rightarrow> dstore" where
  "drop_ops var d =
     fold (\<lambda>k d. if din k (own_flags d var) then del_flag var k d else d) setvar_keywords d"

text \<open>A plain assignment takes the place of the overrides that are active.\<close>

definition drop_overrides :: "nat \<Rightarrow> ds_env \<Rightarrow> string \<Rightarrow> dstore \<Rightarrow> pyerr + dstore" where
  "drop_overrides n env var d =
     (if \<not> din var (overridedata d) then Inr d
      else
        bindE (need_overrides' n env d) (\<lambda>d.
          let active = map fst (filter (\<lambda>(r, o'). active_override (the (ds_overrides d)) o')
                                  (dgetd (overridedata d) var []));
              d = fold delVar active d
          in Inr (d\<lparr>overridedata := ddel var (overridedata d)\<rparr>)))"

definition set_plain :: "nat \<Rightarrow> ds_env \<Rightarrow> string \<Rightarrow> pval \<Rightarrow> bool \<Rightarrow> dstore \<Rightarrow> pyerr + dstore" where
  "set_plain n env var value parsing d =
     (let d = makeShadowCopy var d
      in bindE (if parsing then Inr d else drop_overrides n env var (drop_ops var d)) (\<lambda>d.
           let d = (if CHR '':'' \<in> set var then setvar_update_overrides var d else d);
               d = set_flag var ''_content'' value d
           in if var \<in> set (overridevars d) then setvar_update_overridevars n env var value d else Inr d))"

definition mark_failing :: "nat \<Rightarrow> ds_env \<Rightarrow> dstore \<Rightarrow> pyerr + dstore" where
  "mark_failing n env d =
     set_plain n env ''_FAILPARSINGERRORHANDLED'' (PBool True) False (reset_cache d)"

text \<open>
  A shadow copy copies the dictionary of flags but not the set in it: the set of exported names
  is one object in all dictionaries of the chain that have it.
\<close>

definition add_export :: "string \<Rightarrow> flags \<Rightarrow> flags" where
  "add_export var fl =
     (case map_of fl ''_content'' of
        Some (PSet s) \<Rightarrow> dset ''_content'' (PSet (sadd var s)) fl
      | _ \<Rightarrow> fl)"

definition set_export :: "string \<Rightarrow> dstore \<Rightarrow> dstore" where
  "set_export var d =
     (let d = makeShadowCopy ''__exportlist'' d;
          d = (if din ''_content'' (own_flags d ''__exportlist'') then d
               else set_flag ''__exportlist'' ''_content'' (PSet []) d)
      in d\<lparr>frames := map (\<lambda>f. case map_of f ''__exportlist'' of
                               None \<Rightarrow> f
                             | Some fl \<Rightarrow> dset ''__exportlist'' (add_export var fl) f) (frames d)\<rparr>)"

definition rename_text :: "pval \<Rightarrow> string" where
  "rename_text v = (case v of PStr s \<Rightarrow> s | _ \<Rightarrow> [])"

definition setVarFlag :: "nat \<Rightarrow> ds_env \<Rightarrow> string \<Rightarrow> string \<Rightarrow> pval \<Rightarrow> dstore \<Rightarrow> pyerr + dstore" where
  "setVarFlag n env var flag value d =
     (let d = reset_cache d;
          d = (if var = ''BB_RENAMED_VARIABLES''
               then d\<lparr>var_renames := dset flag (rename_text value) (var_renames d)\<rparr> else d)
      in bindE (if din var (var_renames d) then mark_failing n env d else Inr d) (\<lambda>d.
           let d = set_flag var flag value (makeShadowCopy var d);
               d = (if flag = ''_defaultval'' \<and> CHR '':'' \<in> set var then setvar_update_overrides var d else d)
           in bindE (if flag = ''_defaultval'' \<and> var \<in> set (overridevars d)
                     then setvar_update_overridevars n env var value d else Inr d) (\<lambda>d.
              Inr (if flag = ''unexport'' \<or> flag = ''export'' then set_export var d else d))))"

definition ops_list :: "pval \<Rightarrow> (pval \<times> string option) list" where
  "ops_list v = (case v of POps l \<Rightarrow> l | _ \<Rightarrow> [])"

definition setVar :: "nat \<Rightarrow> ds_env \<Rightarrow> string \<Rightarrow> pval \<Rightarrow> bool \<Rightarrow> dstore \<Rightarrow> pyerr + dstore" where
  "setVar n env var value parsing d =
     (if old_syntax var then Inl (Fatal ''old override syntax'')
      else
        bindE (if din (hd (split_on (CHR '':'') var)) (var_renames d) then mark_failing n env d else Inr d) (\<lambda>d.
        let d = reset_cache d
        in case setvar_match var of
             Some (base, k, add) \<Rightarrow>
               bindE (setVarFlag n env base k (POps (ops_list (raw_flag d base k) @ [(value, add)])) d) (\<lambda>d.
                 let d = setvar_update_overrides base d
                 in if base \<in> set (overridevars d) then setvar_update_overridevars n env var value d else Inr d)
           | None \<Rightarrow> set_plain n env var value parsing d))"

definition appendVar :: "nat \<Rightarrow> ds_env \<Rightarrow> string \<Rightarrow> pval \<Rightarrow> dstore \<Rightarrow> pyerr + dstore" where
  "appendVar n env var value d = setVar n env (var @ '':append'') value True d"

definition prependVar :: "nat \<Rightarrow> ds_env \<Rightarrow> string \<Rightarrow> pval \<Rightarrow> dstore \<Rightarrow> pyerr + dstore" where
  "prependVar n env var value d = setVar n env (var @ '':prepend'') value True d"

section \<open>Flags\<close>

definition or_empty_val :: "pval \<Rightarrow> pval" where
  "or_empty_val v = (if truthy_val v then v else PStr [])"

definition appendVarFlag :: "nat \<Rightarrow> ds_env \<Rightarrow> string \<Rightarrow> string \<Rightarrow> pval \<Rightarrow> dstore \<Rightarrow> pyerr + dstore" where
  "appendVarFlag n env var flag value d =
     bindE (getVarFlag n env var flag False False False False d) (\<lambda>(v, p, d).
     bindE (plus_val (or_empty_val v) value) (\<lambda>v. setVarFlag n env var flag v d))"

definition prependVarFlag :: "nat \<Rightarrow> ds_env \<Rightarrow> string \<Rightarrow> string \<Rightarrow> pval \<Rightarrow> dstore \<Rightarrow> pyerr + dstore" where
  "prependVarFlag n env var flag value d =
     bindE (getVarFlag n env var flag False False False False d) (\<lambda>(v, p, d).
     bindE (plus_val value (or_empty_val v)) (\<lambda>v. setVarFlag n env var flag v d))"

section \<open>renameVar\<close>

text \<open>The operations of the old name are added to those of the new one.\<close>

definition move_ops :: "nat \<Rightarrow> ds_env \<Rightarrow> string \<Rightarrow> string \<times> pval \<Rightarrow> dstore \<Rightarrow> pyerr + dstore" where
  "move_ops n env newkey = (\<lambda>(i, src) d.
     if i \<in> set setvar_keywords
     then setVarFlag n env newkey i (POps (ops_list (raw_flag d newkey i) @ ops_list src)) d
     else Inr d)"

fun renameVar :: "nat \<Rightarrow> nat \<Rightarrow> ds_env \<Rightarrow> string \<Rightarrow> string \<Rightarrow> dstore \<Rightarrow> pyerr + dstore" where
  "renameVar 0 n env key newkey d = Inl Diverges"
| "renameVar (Suc k) n env key newkey d =
     (if key = newkey then Inr d
      else
        (let val = base_value (findVar d key) ''_content'' False
         in bindE (if val \<noteq> PNone then setVar n env newkey val True d else Inr d) (\<lambda>d.
            bindE (foldE (move_ops n env newkey) (case findVar d key of None \<Rightarrow> [] | Some fl \<Rightarrow> fl) d) (\<lambda>d.
            bindE (case map_of (overridedata d) key of
                     None \<Rightarrow> Inr d
                   | Some od \<Rightarrow>
                       foldE (\<lambda>(v, o') d.
                           let v' = replace_str key newkey v;
                               d = d\<lparr>overridedata := dappend newkey (v', o') (overridedata d)\<rparr>
                           in renameVar k n env v v' d)
                         od (d\<lparr>overridedata := dset newkey [] (overridedata d)\<rparr>)) (\<lambda>d.
              let d = (if CHR '':'' \<in> set newkey \<and> val = PNone then setvar_update_overrides newkey d else d)
              in Inr (delVar key d))))))"

section \<open>The names of a store\<close>

definition overridden :: "dstore \<Rightarrow> string list" where
  "overridden d =
     map fst (filter (\<lambda>(var, od). \<exists>(r, o') \<in> set od. active_override (the (ds_overrides d)) o') (overridedata d))"

text \<open>A name with no flags in a dictionary was deleted there, and hides those of the parents.\<close>

fun keylist :: "string list \<Rightarrow> (string, flags) dict list \<Rightarrow> string list \<Rightarrow> string list" where
  "keylist ovs [] deleted = []"
| "keylist ovs (f # fs) deleted =
     (let ks = filter (\<lambda>(k, fl). k \<notin> set deleted \<and> k \<notin> set ovs) f
      in sunion (map fst (filter (\<lambda>(k, fl). fl \<noteq> []) ks))
           (keylist ovs fs (deleted @ map fst (filter (\<lambda>(k, fl). fl = []) ks))))"

definition ds_keys :: "nat \<Rightarrow> ds_env \<Rightarrow> dstore \<Rightarrow> pyerr + (string list \<times> dstore)" where
  "ds_keys n env d =
     bindE (need_overrides' n env d) (\<lambda>d.
       Inr (keylist (overridden d) (frames d) [] @ overridden d, d))"

definition localkeys :: "dstore \<Rightarrow> string list" where
  "localkeys d = dkeys (local_dict d)"

text \<open>\<open>expandVarref\<close>: a reference to the variable is replaced in place.\<close>

definition expandVarref :: "nat \<Rightarrow> ds_env \<Rightarrow> string \<Rightarrow> bool \<Rightarrow> dstore \<Rightarrow> pyerr + dstore" where
  "expandVarref n env variable parents d =
     bindE (if parents then ds_keys n env d else Inr (localkeys d, d)) (\<lambda>(ks, d).
     bindE (getVar n env variable False d) (\<lambda>(value, d).
       foldE (\<lambda>key d.
         bindE (getVar n env key False d) (\<lambda>(v, d).
           case v of
             PStr s \<Rightarrow>
               if contains_sub s (''${'' @ variable @ ''}'')
               then (case value of
                       PStr t \<Rightarrow> setVar n env key (PStr (replace_str (''${'' @ variable @ ''}'') t s)) False d
                     | _ \<Rightarrow> Inl TypeError)
               else Inr d
           | _ \<Rightarrow> Inr d)) ks d))"

section \<open>expandKeys\<close>

definition expand_key ::
  "nat \<Rightarrow> ds_env \<Rightarrow> string \<Rightarrow> (string, string) dict \<times> dstore \<Rightarrow> pyerr + ((string, string) dict \<times> dstore)" where
  "expand_key n env key = (\<lambda>(todo, d).
     if \<not> contains_sub key ''${'' then Inr (todo, d)
     else bindE (ds_expand n env (PStr key) None d) (\<lambda>(e, d).
       case e of
         PStr ekey \<Rightarrow> Inr (if key = ekey then todo else dset key ekey todo, d)
       | _ \<Rightarrow> Inl TypeError))"

definition rename_key :: "nat \<Rightarrow> ds_env \<Rightarrow> (string, string) dict \<Rightarrow> string \<Rightarrow> dstore \<Rightarrow> pyerr + dstore" where
  "rename_key n env todo key d =
     bindE (dget todo key) (\<lambda>ekey.
     bindE (getVar n env ekey False d) (\<lambda>(newval, d).
     bindE (if newval \<noteq> PNone then getVar n env key False d else Inr (PNone, d)) (\<lambda>(_, d).
       renameVar n n env key ekey d)))"

definition expandKeys :: "nat \<Rightarrow> ds_env \<Rightarrow> dstore \<Rightarrow> pyerr + dstore" where
  "expandKeys n env d =
     bindE (ds_keys n env d) (\<lambda>(ks, d).
     bindE (foldE (expand_key n env) ks ([], d)) (\<lambda>(todo, d).
       foldE (rename_key n env todo) (sort (dkeys todo)) d))"

end
