(* ===== verification/VarReads.thy ===== *)
theory VarReads
  imports VarOps
begin

text \<open>
  What reading keeps: whatever is read and expanded, only the cache of expansions and the list of
  overrides of the store change.  The locale \<open>reader_law\<close> is what the functions of
  \<open>data_smart.py\<close> rely on when they call back \<open>getVarFlag\<close>; it is interpreted on \<open>getVarFlag\<close>
  itself, by induction on the depth of the calls.
\<close>

section \<open>The law of readers\<close>

definition plain_flag :: "string \<Rightarrow> bool" where
  "plain_flag flag \<longleftrightarrow> flag \<noteq> [] \<and> flag \<notin> set setvar_keywords"

lemma plain_flag_read [simp]: "plain_flag ''_content''" "plain_flag ''vardeps''"
  by (simp_all add: plain_flag_def setvar_keywords_def)

definition end_state :: "('e \<times> 's) + ('a \<times> 's) \<Rightarrow> 's" where
  "end_state m = (case m of Inl (e, s) \<Rightarrow> s | Inr (x, s) \<Rightarrow> s)"

lemma end_state_simps [simp]: "end_state (Inl (e, s)) = s" "end_state (Inr (x, s)) = s"
  by (simp_all add: end_state_def)

lemma sub_matches_keeps:
  assumes step: "\<And>k s. P s \<Longrightarrow> P (end_state (f k s))"
  shows "P s \<Longrightarrow> P (end_state (sub_matches mat f cs s))"
  using step
proof (induction mat f cs s rule: sub_matches.induct)
  case (2 mat f c cs s)
  show ?case
  proof (cases "mat (c # cs)")
    case None
    with 2 have "P (end_state (sub_matches mat f cs s))" by blast
    with None show ?thesis by (cases "sub_matches mat f cs s") auto
  next
    case (Some kr)
    obtain k r where kr: "kr = (k, r)" by fastforce
    have f: "P (end_state (f k s))" using 2 by blast
    show ?thesis
    proof (cases "f k s")
      case (Inl e)
      with Some kr f 2(3) show ?thesis by (cases e) auto
    next
      case (Inr x)
      obtain out s' where x: "x = (out, s')" by fastforce
      from f Inr x have "P s'" by simp
      then have "length r < length (c # cs) \<Longrightarrow> P (end_state (sub_matches mat f r s'))"
        using 2(2) [OF Some kr [symmetric] _ Inr] x 2(4) by auto
      with Some kr Inr x 2(3) show ?thesis
        by (cases "sub_matches mat f r s'") auto
    qed
  qed
qed simp

locale reader_law =
  fixes P :: "dstore \<Rightarrow> bool" and get :: full_getter
  assumes get_keeps: "P d \<Longrightarrow> plain_flag flag \<Longrightarrow> get var flag expand retparser d = Inr (v, p, d') \<Longrightarrow> P d'"
    and overrides_keep: "P d \<Longrightarrow> P (d\<lparr>ds_overrides := ovs\<rparr>)"
    and inoverride_keeps: "P d \<Longrightarrow> P (d\<lparr>inoverride := b\<rparr>)"
    and reset_keeps: "P d \<Longrightarrow> P (d\<lparr>expand_cache := []\<rparr>)"
begin

lemma reader_keeps: "P d \<Longrightarrow> plain_flag flag \<Longrightarrow> reader get var flag d = Inr (v, d') \<Longrightarrow> P d'"
  by (auto simp: reader_def dest: get_keeps)

lemma var_sub_keeps: "P (snd st) \<Longrightarrow> P (snd (end_state (var_sub (reader get) k st)))"
  using reader_keeps [of "snd st" "''_content''" k]
  by (cases "reader get k ''_content'' (snd st)")
    (auto simp: var_sub_def at_state_def Let_def split: prod.splits pval.splits)

lemma python_sub_keeps: "P (snd st) \<Longrightarrow> P (snd (end_state (python_sub env (reader get) k st)))"
proof -
  assume P: "P (snd st)"
  obtain vp d where st: "st = (vp, d)" by fastforce
  have "P d'" if "(if b then reader get x ''vardeps'' d else Inr (PNone, d)) = Inr (v, d')" for b x v d'
    using that P st reader_keeps [of d "''vardeps''" x v d'] by (auto split: if_split_asm)
  with P st show ?thesis
    by (cases "de_compile env (strip_chars is_space k)";
        cases "if name_or (vp_name vp) then reader get (the (vp_name vp)) ''vardeps'' d else Inr (PNone, d)")
      (auto simp: python_sub_def at_state_def Let_def bindE_def split: prod.splits sum.splits)
qed

lemma expand_round_keeps: "P (snd st) \<Longrightarrow> P (snd (end_state (expand_round env (reader get) s st)))"
proof -
  assume P: "P (snd st)"
  have v: "P (snd (end_state (sub_matches match_var (var_sub (reader get)) s st)))"
    by (rule sub_matches_keeps [where P = "\<lambda>st. P (snd st)"]) (rule var_sub_keeps, assumption, rule P)
  have p: "P (snd (end_state (sub_matches match_python (python_sub env (reader get)) s' st')))"
    if "P (snd st')" for s' st'
    by (rule sub_matches_keeps [where P = "\<lambda>st. P (snd st)"]) (rule python_sub_keeps, assumption, rule that)
  show ?thesis
  proof (cases "sub_matches match_var (var_sub (reader get)) s st")
    case (Inl a)
    then show ?thesis using v by (cases a) (simp add: expand_round_def)
  next
    case (Inr b)
    then obtain s' st' where b: "sub_matches match_var (var_sub (reader get)) s st = Inr (s', st')" by (cases b) auto
    with v p [of st' s'] show ?thesis
      by (auto simp: expand_round_def end_state_def split: sum.splits prod.splits)
  qed
qed

lemma expand_loop_keeps: "P (snd st) \<Longrightarrow> expand_loop k env (reader get) s st = Inr (s', st') \<Longrightarrow> P (snd st')"
proof (induction k arbitrary: s st)
  case (Suc k)
  from expand_round_keeps [OF Suc.prems(1), of env s] Suc show ?case
    by (auto split: if_split_asm sum.splits prod.splits simp: end_state_def)
qed simp

lemma expandWithRefs_keeps: "P d \<Longrightarrow> expandWithRefs k env (reader get) v n d = Inr (p, d') \<Longrightarrow> P d'"
  using expand_loop_keeps [of "(VariableParse n v PNone, d)"]
  by (auto simp: expandWithRefs_def split: pval.splits)

lemma override_list_keeps: "P d \<Longrightarrow> override_list (reader get) d = Inr (ovs, d') \<Longrightarrow> P d'"
  using reader_keeps [of d "''_content''" "''OVERRIDES''"]
  by (auto simp: override_list_def split: pval.splits if_split_asm)

lemma settle_overrides_keeps: "P d \<Longrightarrow> settle_overrides k (reader get) d = Inr d' \<Longrightarrow> P d'"
proof (induction k arbitrary: d)
  case (Suc k)
  from Suc.prems(2) obtain o1 d1 o2 d2 where
    1: "override_list (reader get) (d\<lparr>inoverride := True, ds_overrides := Some []\<rparr>) = Inr (o1, d1)" and
    2: "override_list (reader get) (d1\<lparr>ds_overrides := Some o1, inoverride := False, expand_cache := []\<rparr>) = Inr (o2, d2)" and
    3: "(if o2 = o1 then Inr d2 else settle_overrides k (reader get) (d2\<lparr>ds_overrides := Some o2\<rparr>)) = Inr d'"
    by auto
  have "P (d\<lparr>inoverride := True, ds_overrides := Some []\<rparr>)"
    by (intro overrides_keep inoverride_keeps Suc.prems)
  from override_list_keeps [OF this 1] have "P d1" .
  then have "P (d1\<lparr>ds_overrides := Some o1, inoverride := False, expand_cache := []\<rparr>)"
    by (intro overrides_keep inoverride_keeps reset_keeps)
  from override_list_keeps [OF this 2] have d2: "P d2" .
  with 3 Suc.IH [OF overrides_keep [OF d2]] show ?case by (auto split: if_split_asm)
qed simp

lemma need_overrides_keeps: "P d \<Longrightarrow> need_overrides (reader get) d = Inr d' \<Longrightarrow> P d'"
  using settle_overrides_keeps [of d 5] by (auto simp: need_overrides_def split: if_split_asm)

lemma run_ops_keeps: "P d \<Longrightarrow> run_ops (reader get) f ops (v, d) = Inr (v', d') \<Longrightarrow> P d'"
  using need_overrides_keeps [of d] by (auto simp: run_ops_def split: option.splits)

lemma override_value_keeps: "P d \<Longrightarrow> override_value get var d = Inr (v, rs, own, d') \<Longrightarrow> P d'"
proof -
  assume P: "P d" and o: "override_value get var d = Inr (v, rs, own, d')"
  show ?thesis
  proof (cases "map_of (overridedata d) var")
    case None
    with P o show ?thesis by (simp add: override_value_def)
  next
    case (Some od)
    with o obtain d1 where d1: "need_overrides (reader get) d = Inr d1" by (auto simp: override_value_def)
    from need_overrides_keeps [OF P d1] have "P d1" .
    with o Some d1 get_keeps [OF this plain_flag_read(1)] show ?thesis
      by (auto simp: override_value_def split: option.splits if_split_asm)
  qed
qed

lemma expand_removes_keeps:
  assumes "P d" "expand_removes k env (reader get) rs d = Inr (ws, d')"
  shows "P d'"
proof -
  have "case (ws, d') of (ws, d) \<Rightarrow> P d"
    by (rule foldE_invariant [OF assms(2) [unfolded expand_removes_def]])
      (use assms(1) in \<open>auto split: pval.splits dest: expandWithRefs_keeps\<close>)
  then show ?thesis by simp
qed

lemma expand_value_keeps:
  "P d \<Longrightarrow> expand_value k env (reader get) w v cn d = Inr (p, d') \<Longrightarrow> P d'"
  by (auto simp: expand_value_def split: if_split_asm dest: expandWithRefs_keeps)

lemma add_removes_keeps:
  assumes "\<And>own rs d. P d \<Longrightarrow> P (share_removes own rs d)"
  shows "P d \<Longrightarrow> add_removes (reader get) ops own (rs, d) = Inr (rs', d') \<Longrightarrow> P d'"
  using assms by (auto simp: add_removes_def Let_def split: option.splits dest: need_overrides_keeps)

lemma apply_removes_keeps:
  "P d \<Longrightarrow> apply_removes k env (reader get) rs p d = Inr (p', d') \<Longrightarrow> P d'"
  by (auto simp: apply_removes_def split: option.splits if_split_asm dest: expand_removes_keeps)

text \<open>The steps of a call of \<open>getVarFlag\<close> that returns.\<close>

lemma getVarFlag_bodyE:
  assumes body: "getVarFlag_body k env g var flag e nw pa r d = Inr (v, p, d')"
  obtains
    (no_flag) "flag = []" "v = PNone" "p = None" "d' = d"
  | (cached) q where "flag \<noteq> []" "map_of (expand_cache d) (cache_name var flag) = Some q" "d' = d"
      "if e then v = vp_value q \<and> p = None else r \<and> v = vp_unexpanded q \<and> p = Some q"
  | (read) content v0 rs own d1 v1 v2 d2 v3 d3 p4 d4 v4 rs5 d5 p6 d6 where
      "flag \<noteq> []" "content = (flag = ''_content'' \<and> \<not> pa)"
      "(if content then override_value g var d else Inr (PNone, [], None, d)) = Inr (v0, rs, own, d1)"
      "v1 = (if v0 = PNone then base_value (findVar d var) flag nw else v0)"
      "run_ops (reader g) apply_append (if content then ops_of (findVar d var) '':append'' else None) (v1, d1) = Inr (v2, d2)"
      "run_ops (reader g) apply_prepend (if content then ops_of (findVar d var) '':prepend'' else None) (v2, d2) = Inr (v3, d3)"
      "expand_value k env (reader g) (e \<or> r) v3 (cache_name var flag) d3 = Inr (p4, d4)"
      "v4 = (if e then vp_value (the p4) else v3)"
      "add_removes (reader g) (if content \<and> truthy_val v4 then ops_of (findVar d var) '':remove'' else None) own (rs, d4)
         = Inr (rs5, d5)"
      "(if content \<and> truthy_val v4 then apply_removes k env (reader g) rs5 p4 d5 else Inr (p4, d5)) = Inr (p6, d6)"
      "v = (if e then vp_value (the p6) else v4)" "p = (if r then p6 else None)"
      "d' = (case p6 of None \<Rightarrow> d6
             | Some q \<Rightarrow> d6\<lparr>expand_cache := dset (cache_name var flag) q (expand_cache d6)\<rparr>)"
proof (cases "flag = []")
  case True
  with body no_flag show ?thesis by (auto simp: getVarFlag_body_def)
next
  case flag: False
  show ?thesis
  proof (cases "(e \<or> r) \<and> map_of (expand_cache d) (cache_name var flag) \<noteq> None")
    case True
    then obtain q where "map_of (expand_cache d) (cache_name var flag) = Some q" by auto
    with True flag body cached [of q] show ?thesis
      by (auto simp: getVarFlag_body_def Let_def split: if_split_asm)
  next
    case False
    have c: "(\<not> e \<and> r \<and> map_of (expand_cache d) (cache_name var flag) \<noteq> None) = False"
      "(e \<and> map_of (expand_cache d) (cache_name var flag) \<noteq> None) = False" "(flag = []) = False"
      using False flag by auto
    from body show ?thesis
      unfolding getVarFlag_body_def Let_def c if_False
      by (simp only: bindE_Inr_iff split_paired_Ex prod.case sum.inject prod.inject)
        (elim exE conjE, rule read [OF flag refl], (assumption | rule refl | erule sym)+)
  qed
qed

text \<open>The whole of \<open>getVarFlag\<close>, for a law that allows any change of the cache.\<close>

lemma getVarFlag_body_keeps:
  assumes cache: "\<And>d c. P d \<Longrightarrow> P (d\<lparr>expand_cache := c\<rparr>)"
    and P: "P d" and body: "getVarFlag_body k env get var flag e nw pa r d = Inr (v, p, d')"
  shows "P d'"
proof -
  have share: "P d \<Longrightarrow> P (share_removes own rs d)" for own rs d
    using cache by (auto simp: share_removes_def split: option.splits)
  show ?thesis
    using body
  proof (cases rule: getVarFlag_bodyE)
    case (read content v0 rs own d1 v1 v2 d2 v3 d3 p4 d4 v4 rs5 d5 p6 d6)
    have "P d1" using read(3) P override_value_keeps by (auto split: if_split_asm)
    from run_ops_keeps [OF run_ops_keeps [OF this read(5)] read(6)] have "P d3" .
    from add_removes_keeps [OF share expand_value_keeps [OF this read(7)] read(9)] have "P d5" .
    with read(10) have "P d6" by (auto split: if_split_asm dest: apply_removes_keeps)
    with read(13) show ?thesis by (auto split: option.splits intro: cache)
  qed (use P in simp_all)
qed

end

section \<open>Reading keeps the variables\<close>

definition variables ::
  "dstore \<Rightarrow> (string, flags) dict list \<times> (string, (string \<times> string) list) dict \<times> string list \<times> (string, string) dict" where
  "variables d = (frames d, overridedata d, overridevars d, var_renames d)"

lemma variables_update [simp]:
  "variables (d\<lparr>expand_cache := c\<rparr>) = variables d"
  "variables (d\<lparr>ds_overrides := ovs\<rparr>) = variables d"
  "variables (d\<lparr>inoverride := b\<rparr>) = variables d"
  by (simp_all add: variables_def)

lemma variables_parts:
  assumes "variables d' = variables d"
  shows "frames d' = frames d" "overridedata d' = overridedata d" "overridevars d' = overridevars d"
    "var_renames d' = var_renames d" "findVar d' = findVar d"
  using assms by (auto simp: variables_def findVar_def)

lemma share_removes_variables [simp]: "variables (share_removes own rs d) = variables d"
  by (simp add: share_removes_def split: option.splits)


text \<open>The law holds of \<open>getVarFlag\<close> at every depth.\<close>

lemma getVarFlag_law:
  "reader_law (\<lambda>d. variables d = V) (\<lambda>var flag e r. getVarFlag k env var flag e False False r)"
proof (induction k)
  case 0
  then show ?case by unfold_locales simp_all
next
  case (Suc k)
  have "variables d' = V"
    if "variables d = V" "getVarFlag (Suc k) env var flag e False False r d = Inr (v, p, d')" for d d' var flag e r v p
    using reader_law.getVarFlag_body_keeps [OF Suc _ that(1)] that(2) by (auto simp: fun_eq_iff)
  then show ?case by unfold_locales simp_all
qed

interpretation reads: reader_law "\<lambda>d. variables d = V" "\<lambda>var flag e r. getVarFlag k env var flag e False False r"
  for V k env
  by (rule getVarFlag_law)

lemma getVarFlag_variables:
  "getVarFlag n env var flag e nw pa r d = Inr (v, p, d') \<Longrightarrow> variables d' = variables d"
  by (cases n) (auto dest: reads.getVarFlag_body_keeps [rotated 2])

lemma getVar_variables: "getVar n env var e d = Inr (v, d') \<Longrightarrow> variables d' = variables d"
  by (auto simp: getVar_def dest: getVarFlag_variables)

lemma expandWithRefs_variables: "expandWithRefs' n env v var d = Inr (p, d') \<Longrightarrow> variables d' = variables d"
  unfolding expandWithRefs'_def flag_reader_def by (rule reads.expandWithRefs_keeps) simp_all

lemma need_overrides_variables: "need_overrides' n env d = Inr d' \<Longrightarrow> variables d' = variables d"
  unfolding need_overrides'_def flag_reader_def by (rule reads.need_overrides_keeps) simp_all

end
