(* ===== verification/VarFlat.thy ===== *)
theory VarFlat
  imports VarReads
begin

text \<open>
  The chain of dictionaries of a store seen as one map from names to flags: a copy shares the
  dictionaries of its parents and is written by copying a variable first, and yet every write acts
  as on a flat map that the copy has alone.  The locale \<open>flat_store\<close> is the law a write obeys;
  \<open>spec_write\<close> is the store without the chain, and \<open>run_writes\<close> follows it step by step.
\<close>

section \<open>One map\<close>

locale flat_store =
  fixes look :: "'s \<Rightarrow> string \<Rightarrow> flags option" and put :: "string \<Rightarrow> flags \<Rightarrow> 's \<Rightarrow> 's"
  assumes look_put: "look (put var fl s) = (look s)(var \<mapsto> fl)"
begin

lemma put_same: "look s var = Some fl \<Longrightarrow> look (put var fl s) = look s"
  by (auto simp: look_put)

lemma put_put: "look (put var fl' (put var fl s)) = look (put var fl' s)"
  by (simp add: look_put)

lemma put_commute: "v \<noteq> w \<Longrightarrow> look (put v fl (put w fl' s)) = look (put w fl' (put v fl s))"
  by (simp add: look_put fun_upd_twist)

text \<open>Editing the flags of one variable in a loop.\<close>

lemma fold_edit:
  assumes "look s var = Some fl"
  shows "look (fold (\<lambda>x s. put var (g x (the (look s var))) s) xs s) = (look s)(var \<mapsto> fold g xs fl)"
  using assms
proof (induction xs arbitrary: s fl)
  case (Cons x xs)
  from Cons.IH [of "put var (g x fl) s" "g x fl"] Cons.prems show ?case by (simp add: look_put fun_eq_iff)
qed auto

end

lemma findVar_set_local: "findVar (set_local (dset var fl) d) = (findVar d)(var \<mapsto> fl)"
  by (cases "frames d") (auto simp: findVar_def set_local_def local_dict_def fun_eq_iff)

lemma local_set_local [simp]: "local_dict (set_local g d) = g (local_dict d)"
  by (simp add: local_dict_def set_local_def)

interpretation chain: flat_store findVar "\<lambda>var fl. set_local (dset var fl)"
  by unfold_locales (rule findVar_set_local)

section \<open>The writes on one map\<close>

abbreviation flags_in :: "(string \<Rightarrow> flags option) \<Rightarrow> string \<Rightarrow> flags" where
  "flags_in m var \<equiv> (case m var of None \<Rightarrow> [] | Some fl \<Rightarrow> fl)"

lemma findVar_reset [simp]: "findVar (reset_cache d) = findVar d" "findVar (d\<lparr>overridedata := od\<rparr>) = findVar d"
  by (simp_all add: reset_cache_def findVar_def fun_eq_iff)

lemma local_dict_reset [simp]: "local_dict (reset_cache d) = local_dict d"
  by (simp add: reset_cache_def local_dict_def)

lemma own_is_found: "din var (local_dict d) \<Longrightarrow> findVar d var = Some (own_flags d var)"
  by (cases "frames d") (auto simp: findVar_def local_dict_def own_flags_def dgetd_def din_iff)

lemma findVar_initVar:
  "findVar (initVar var d) = (if din var (local_dict d) then findVar d else (findVar d)(var \<mapsto> []))"
  by (simp add: initVar_def Let_def findVar_set_local)

lemma findVar_shadow: "findVar (makeShadowCopy var d) = (findVar d)(var \<mapsto> flags_in (findVar d) var)"
  using own_is_found [of var d]
  by (auto simp: makeShadowCopy_def findVar_initVar findVar_set_local fun_upd_idem split: option.splits list.splits)

lemma own_after_shadow: "own_flags (makeShadowCopy var d) var = flags_in (findVar d) var"
  and local_after_shadow: "din var (local_dict (makeShadowCopy var d))"
proof -
  show l: "din var (local_dict (makeShadowCopy var d))"
    by (auto simp: makeShadowCopy_def initVar_def Let_def local_set_local split: option.splits list.splits)
  from own_is_found [OF l] show "own_flags (makeShadowCopy var d) var = flags_in (findVar d) var"
    by (simp add: findVar_shadow)
qed

lemma findVar_set_flag: "findVar (set_flag var flag v d) = (findVar d)(var \<mapsto> dset flag v (own_flags d var))"
  by (simp add: set_flag_def findVar_set_local)

lemma findVar_shadow_set:
  "findVar (set_flag var flag v (makeShadowCopy var d)) =
     (findVar d)(var \<mapsto> dset flag v (flags_in (findVar d) var))"
  by (simp add: findVar_set_flag own_after_shadow findVar_shadow)

lemma findVar_del_flag: "findVar (del_flag var flag d) = (findVar d)(var \<mapsto> ddel flag (own_flags d var))"
  by (simp add: del_flag_def findVar_set_local)

lemma findVar_delVarFlag:
  "findVar (delVarFlag var flag d) =
     (case findVar d var of None \<Rightarrow> findVar d | Some fl \<Rightarrow> (findVar d)(var \<mapsto> ddel flag fl))"
proof (cases "findVar d var")
  case None
  then show ?thesis by (simp add: delVarFlag_def)
next
  case (Some fl)
  then have d: "findVar (reset_cache d) var = Some fl" by simp
  show ?thesis
  proof (cases "fl = []")
    case True
    with Some show ?thesis by (simp add: delVarFlag_def fun_upd_idem)
  next
    case False
    then obtain a fs where fl: "fl = a # fs" by (cases fl) auto
    let ?d = "makeShadowCopy var (reset_cache d)"
    have own: "own_flags ?d var = fl" and fv: "findVar ?d = findVar d"
      using Some by (auto simp: own_after_shadow findVar_shadow fun_eq_iff)
    have "delVarFlag var flag d = (if din flag fl then del_flag var flag ?d else ?d)"
      using d unfolding fl by (simp add: delVarFlag_def own [unfolded fl])
    then have "findVar (delVarFlag var flag d) = (if din flag fl then (findVar d)(var \<mapsto> ddel flag fl) else findVar d)"
      by (cases "din flag fl") (simp_all only: findVar_del_flag own fv if_True if_False)
    moreover have "ddel flag fl = fl" if "\<not> din flag fl" using that unfolding din_def by (intro delete_id) simp
    ultimately show ?thesis using Some by (cases "din flag fl") (simp_all add: fun_upd_idem)
  qed
qed

lemma findVar_delVar: "findVar (delVar var d) = (findVar d)(var \<mapsto> [])"
proof -
  have "findVar (fold (drop_override var) ps d) = findVar d" for ps d
    by (rule fold_invariant_set [where P = "\<lambda>d'. findVar d' = findVar d"])
      (auto simp: drop_override_def split: option.splits)
  then show ?thesis by (simp add: delVar_def Let_def findVar_set_local)
qed

lemma findVar_setVarFlags:
  "findVar (setVarFlags var new d) =
     (findVar d)(var \<mapsto> fold (\<lambda>(i, v) fl. if i = ''_content'' then fl else dset i v fl) new (flags_in (findVar d) var))"
proof -
  have "findVar (fold (\<lambda>(i, v) d. if i = ''_content'' then d else set_flag var i v d) new d) =
      (findVar d)(var \<mapsto> fold (\<lambda>(i, v) fl. if i = ''_content'' then fl else dset i v fl) new (own_flags d var))"
    if "din var (local_dict d)" for d
    using that
  proof (induction new arbitrary: d)
    case Nil
    with own_is_found show ?case by (simp add: fun_upd_idem)
  next
    case (Cons x new)
    obtain i v where x: "x = (i, v)" by fastforce
    have own: "own_flags (set_flag var i v d) var = dset i v (own_flags d var)"
      "din var (local_dict (set_flag var i v d))"
      by (simp_all add: set_flag_def own_flags_def dgetd_def)
    with x Cons.IH [of d] Cons.IH [OF own(2)] Cons.prems show ?case
      by (auto simp: findVar_set_flag fun_eq_iff)
  qed
  from this [OF local_after_shadow] show ?thesis
    by (simp add: setVarFlags_def Let_def own_after_shadow findVar_shadow)
qed

section \<open>Sequences of writes\<close>

datatype var_write =
    WFlag string string pval
  | WFlags string flags
  | WDelFlag string string
  | WDel string
  | WCopy

fun run_write :: "nat \<Rightarrow> ds_env \<Rightarrow> var_write \<Rightarrow> dstore \<Rightarrow> pyerr + dstore" where
  "run_write n env (WFlag var flag v) d = setVarFlag n env var flag v d"
| "run_write n env (WFlags var fl) d = Inr (setVarFlags var fl d)"
| "run_write n env (WDelFlag var flag) d = Inr (delVarFlag var flag d)"
| "run_write n env (WDel var) d = Inr (delVar var d)"
| "run_write n env WCopy d = Inr (createCopy d)"

definition run_writes :: "nat \<Rightarrow> ds_env \<Rightarrow> var_write list \<Rightarrow> dstore \<Rightarrow> pyerr + dstore" where
  "run_writes n env ws d = foldE (run_write n env) ws d"

fun spec_write :: "var_write \<Rightarrow> (string \<Rightarrow> flags option) \<Rightarrow> string \<Rightarrow> flags option" where
  "spec_write (WFlag var flag v) m = m(var \<mapsto> dset flag v (flags_in m var))"
| "spec_write (WFlags var fl) m =
     m(var \<mapsto> fold (\<lambda>(i, v) fl. if i = ''_content'' then fl else dset i v fl) fl (flags_in m var))"
| "spec_write (WDelFlag var flag) m = (case m var of None \<Rightarrow> m | Some fl \<Rightarrow> m(var \<mapsto> ddel flag fl))"
| "spec_write (WDel var) m = m(var \<mapsto> [])"
| "spec_write WCopy m = m"

text \<open>The writes whose whole effect is on the flags: no renamed variable, no exported one.\<close>

fun ordinary_write :: "(string, string) dict \<Rightarrow> var_write \<Rightarrow> bool" where
  "ordinary_write renames (WFlag var flag v) \<longleftrightarrow>
     \<not> din var renames \<and> var \<noteq> ''BB_RENAMED_VARIABLES'' \<and> flag \<noteq> ''export'' \<and> flag \<noteq> ''unexport''"
| "ordinary_write renames w \<longleftrightarrow> True"

text \<open>What follows a write of an override or of a variable of \<open>OVERRIDES\<close> touches no flag.\<close>

definition contents :: "dstore \<Rightarrow> (string, flags) dict list \<times> (string, string) dict" where
  "contents d = (frames d, var_renames d)"

lemma contents_parts:
  assumes "contents d' = contents d"
  shows "findVar d' = findVar d" "var_renames d' = var_renames d"
  using assms by (auto simp: contents_def findVar_def fun_eq_iff)

lemma contents_variables: "variables d' = variables d \<Longrightarrow> contents d' = contents d"
  by (simp add: variables_def contents_def)

lemma contents_update [simp]:
  "contents (d\<lparr>expand_cache := c\<rparr>) = contents d"
  "contents (d\<lparr>ds_overrides := ovs\<rparr>) = contents d"
  "contents (d\<lparr>overridevars := b\<rparr>) = contents d"
  "contents (d\<lparr>overridedata := od\<rparr>) = contents d"
  by (simp_all add: contents_def)

lemma setvar_update_overrides_contents: "contents (setvar_update_overrides var d) = contents d"
  unfolding setvar_update_overrides_def
  by (rule fold_invariant_set [where P = "\<lambda>d'. contents d' = contents d"]) (auto simp: Let_def)

lemma overridevars_loop_keeps:
  assumes "\<And>d d'. variables d' = variables d \<Longrightarrow> f d' = f d" and "\<And>d s. f (d\<lparr>overridevars := s\<rparr>) = f d"
  shows "overridevars_loop k n env new d = Inr d' \<Longrightarrow> f d' = f d"
proof (induction k arbitrary: new d)
  case (Suc k)
  have step: "f d2 = f d1" if "foldE (next_refs n env) is (x, d1) = Inr (y, d2)" for "is" x y d1 d2
  proof -
    have "case (y, d2) of (_, d') \<Rightarrow> f d' = f d1"
      by (rule foldE_invariant [OF that])
        (auto simp: next_refs_def dest!: getVar_variables expandWithRefs_variables assms(1))
    then show ?thesis by simp
  qed
  from Suc show ?case by (auto split: if_split_asm dest!: step simp: assms(2))
qed simp

lemma setvar_update_overridevars_keeps:
  assumes "\<And>d d'. variables d' = variables d \<Longrightarrow> f d' = f d" and "\<And>d s. f (d\<lparr>overridevars := s\<rparr>) = f d"
  assumes "setvar_update_overridevars n env var v d = Inr d'"
  shows "f d' = f d"
proof -
  from assms(3) obtain p d1 d2 where d1: "expandWithRefs' n env v (Some var) d = Inr (p, d1)"
    and d2: "overridevars_loop n n env (refs_of p) d1 = Inr d2" and d': "d' = d2\<lparr>ds_overrides := None\<rparr>"
    by (auto simp: setvar_update_overridevars_def)
  have "f d' = f d2" by (rule assms(1)) (simp add: d')
  also have "f d2 = f d1" by (rule overridevars_loop_keeps [OF assms(1,2) d2])
  also have "f d1 = f d" by (rule assms(1)) (rule expandWithRefs_variables [OF d1])
  finally show ?thesis .
qed

lemma setvar_update_overridevars_contents:
  "setvar_update_overridevars n env var v d = Inr d' \<Longrightarrow> contents d' = contents d"
  by (rule setvar_update_overridevars_keeps [of contents]) (auto intro: contents_variables)

lemma setvar_update_overridevars_data:
  "setvar_update_overridevars n env var v d = Inr d' \<Longrightarrow> overridedata d' = overridedata d"
  by (rule setvar_update_overridevars_keeps [of overridedata]) (auto dest: variables_parts)

lemma contents_reset: "contents (reset_cache d) = contents d"
  by (simp add: reset_cache_def)

lemma set_local_renames [simp]: "var_renames (set_local g d) = var_renames d"
  by (simp add: set_local_def)

lemma makeShadowCopy_renames [simp]: "var_renames (makeShadowCopy var d) = var_renames d"
  by (simp add: makeShadowCopy_def initVar_def Let_def reset_cache_def split: option.splits list.splits)

lemma set_flag_renames [simp]: "var_renames (set_flag var flag v d) = var_renames d"
  by (simp add: set_flag_def)

lemma setVarFlag_flat:
  assumes "setVarFlag n env var flag v d = Inr d'" and "ordinary_write (var_renames d) (WFlag var flag v)"
  shows "findVar d' = (findVar d)(var \<mapsto> dset flag v (flags_in (findVar d) var))" "var_renames d' = var_renames d"
proof -
  let ?s = "set_flag var flag v (makeShadowCopy var (reset_cache d))"
  let ?o = "if flag = ''_defaultval'' \<and> CHR '':'' \<in> set var then setvar_update_overrides var ?s else ?s"
  have r: "var_renames (reset_cache d) = var_renames d" by (simp add: reset_cache_def)
  from assms have "(if flag = ''_defaultval'' \<and> var \<in> set (overridevars ?o)
      then setvar_update_overridevars n env var v ?o else Inr ?o) = Inr d'"
    by (simp add: setVarFlag_def Let_def r bindE_Inr_iff)
  then have "contents d' = contents ?o"
    by (auto split: if_split_asm dest: setvar_update_overridevars_contents)
  also have "contents ?o = contents ?s" by (simp add: setvar_update_overrides_contents)
  finally have c: "contents d' = contents ?s" .
  show "findVar d' = (findVar d)(var \<mapsto> dset flag v (flags_in (findVar d) var))"
    using contents_parts(1) [OF c] by (simp add: findVar_shadow_set)
  show "var_renames d' = var_renames d" using contents_parts(2) [OF c] by (simp add: r)
qed

lemma setVarFlags_renames: "var_renames (setVarFlags var new d) = var_renames d"
proof -
  have "var_renames (fold (\<lambda>(i, v) d. if i = ''_content'' then d else set_flag var i v d) new d) = var_renames d" for d
    by (rule fold_invariant_set [where P = "\<lambda>d'. var_renames d' = var_renames d"]) auto
  then show ?thesis by (simp add: setVarFlags_def Let_def reset_cache_def)
qed

lemma delVarFlag_renames: "var_renames (delVarFlag var flag d) = var_renames d"
  by (simp add: delVarFlag_def Let_def reset_cache_def del_flag_def split: option.splits list.splits)

lemma delVar_renames: "var_renames (delVar var d) = var_renames d"
proof -
  have "var_renames (fold (drop_override var) ps d) = var_renames d" for ps d
    by (rule fold_invariant_set [where P = "\<lambda>d'. var_renames d' = var_renames d"])
      (auto simp: drop_override_def split: option.splits)
  then show ?thesis by (simp add: delVar_def Let_def reset_cache_def)
qed

lemma run_write_flat:
  assumes "run_write n env w d = Inr d'" and "ordinary_write (var_renames d) w"
  shows "findVar d' = spec_write w (findVar d) \<and> var_renames d' = var_renames d"
proof (cases w)
  case (WFlag var flag v)
  with assms setVarFlag_flat show ?thesis by fastforce
next
  case WCopy
  with assms show ?thesis by (auto simp: createCopy_def findVar_def)
qed (use assms in \<open>auto simp: findVar_setVarFlags setVarFlags_renames findVar_delVarFlag delVarFlag_renames
    findVar_delVar delVar_renames split: option.splits\<close>)


end
