(* ===== verification/VarTypes.thy ===== *)
theory VarTypes
  imports VarFlat
begin

text \<open>
  A type discipline of the data store: contents and flags are strings, pending operations are
  lists of strings, and two internal variables hold something else.  Reading a store that keeps
  to it never ends in one of the type errors of Python (\<open>TypeError\<close>, \<open>AttributeError\<close>), and gives
  strings.  The locale \<open>typed_getter\<close> is what each step needs of the calls of \<open>getVarFlag\<close> it
  makes; it extends \<open>reader_law\<close>.
\<close>

section \<open>Types\<close>

definition is_text :: "pval \<Rightarrow> bool" where
  "is_text v \<longleftrightarrow> (case v of PStr _ \<Rightarrow> True | _ \<Rightarrow> False)"

definition val_ok :: "pval \<Rightarrow> bool" where
  "val_ok v \<longleftrightarrow> v = PNone \<or> is_text v"

definition text_ops :: "pval \<Rightarrow> bool" where
  "text_ops v \<longleftrightarrow> (case v of POps l \<Rightarrow> list_all (is_text \<circ> fst) l | _ \<Rightarrow> False)"

lemma is_text_iff: "is_text v \<longleftrightarrow> (\<exists>s. v = PStr s)"
  by (cases v) (simp_all add: is_text_def)

lemma val_ok_simps [simp]: "val_ok PNone" "val_ok (PStr s)" "is_text (PStr s)" "\<not> is_text PNone"
  by (simp_all add: val_ok_def is_text_def)

text \<open>The variables that the store itself writes, with a set and a truth value.\<close>

definition internal_vars :: "string list" where
  "internal_vars = [''__exportlist'', ''_FAILPARSINGERRORHANDLED'']"

definition typed_flag :: "string \<Rightarrow> string \<times> pval \<Rightarrow> bool" where
  "typed_flag var = (\<lambda>(flag, v).
     if flag \<in> set setvar_keywords then text_ops v \<and> var \<notin> set internal_vars
     else val_ok v \<or> var \<in> set internal_vars)"

definition typed_parse :: "vparse \<Rightarrow> bool" where
  "typed_parse p \<longleftrightarrow> val_ok (vp_value p) \<and> val_ok (vp_unexpanded p) \<and>
     (case vp_removes p of None \<Rightarrow> True | Some rs \<Rightarrow> list_all is_text rs)"

definition internal_name :: "string \<Rightarrow> bool" where
  "internal_name cn \<longleftrightarrow> (\<exists>v \<in> set internal_vars. cn = v \<or> startswith cn (v @ ''[''))"

definition typed_store :: "dstore \<Rightarrow> bool" where
  "typed_store d \<longleftrightarrow>
     list_all (\<lambda>f. list_all (\<lambda>(var, fl). list_all (typed_flag var) fl) f) (frames d) \<and>
     list_all (\<lambda>(var, od). var \<notin> set internal_vars \<and> list_all (\<lambda>(r, o'). \<not> internal_name r) od) (overridedata d) \<and>
     list_all (\<lambda>(cn, p). internal_name cn \<or> typed_parse p) (expand_cache d)"

definition type_error :: "pyerr \<Rightarrow> bool" where
  "type_error e \<longleftrightarrow> e = TypeError \<or> e = AttributeError"

section \<open>Results\<close>

definition res_ok :: "('a \<Rightarrow> bool) \<Rightarrow> pyerr + 'a \<Rightarrow> bool" where
  "res_ok Q m \<longleftrightarrow> (case m of Inl e \<Rightarrow> \<not> type_error e | Inr x \<Rightarrow> Q x)"

lemma res_ok_simps [simp]: "res_ok Q (Inl e) \<longleftrightarrow> \<not> type_error e" "res_ok Q (Inr x) \<longleftrightarrow> Q x"
  by (simp_all add: res_ok_def)

lemma res_ok_bind: "res_ok Q m \<Longrightarrow> (\<And>x. Q x \<Longrightarrow> res_ok R (f x)) \<Longrightarrow> res_ok R (bindE m f)"
  by (cases m) auto

lemma res_ok_mono: "res_ok Q m \<Longrightarrow> (\<And>x. Q x \<Longrightarrow> R x) \<Longrightarrow> res_ok R m"
  by (cases m) auto

lemma res_ok_fold: "Q s \<Longrightarrow> (\<And>x s. x \<in> set xs \<Longrightarrow> Q s \<Longrightarrow> res_ok Q (f x s)) \<Longrightarrow> res_ok Q (foldE f xs s)"
  by (induction xs arbitrary: s) (auto intro: res_ok_bind)

lemma res_ok_Inr: "res_ok Q m \<Longrightarrow> m = Inr x \<Longrightarrow> Q x"
  by simp

section \<open>What a typed store gives\<close>

lemma typed_flags:
  assumes "typed_store d" and "findVar d var = Some fl"
  shows "list_all (typed_flag var) fl"
proof -
  have "find_frames fs var = Some fl \<Longrightarrow> list_all (\<lambda>f. list_all (\<lambda>(var, fl). list_all (typed_flag var) fl) f) fs \<Longrightarrow>
      list_all (typed_flag var) fl" for fs
    by (induction fs) (auto split: option.splits simp: list_all_iff dest!: map_of_SomeD)
  with assms show ?thesis by (auto simp: findVar_def typed_store_def)
qed

lemma typed_cached:
  assumes "typed_store d" and "map_of (expand_cache d) cn = Some p" and "\<not> internal_name cn"
  shows "typed_parse p"
  using assms by (auto simp: typed_store_def list_all_iff dest!: map_of_SomeD)

lemma typed_updates:
  "typed_store d \<Longrightarrow> typed_store (d\<lparr>ds_overrides := ovs\<rparr>)"
  "typed_store d \<Longrightarrow> typed_store (d\<lparr>inoverride := b\<rparr>)"
  "typed_store d \<Longrightarrow> typed_store (d\<lparr>expand_cache := []\<rparr>)"
  by (simp_all add: typed_store_def)

lemma typed_store_cache:
  assumes "typed_store d" and "internal_name cn \<or> typed_parse q"
  shows "typed_store (d\<lparr>expand_cache := dset cn q (expand_cache d)\<rparr>)"
proof -
  have "set (dset cn q c) \<subseteq> insert (cn, q) (set c)" for c by (induction c) auto
  with assms show ?thesis by (fastforce simp: typed_store_def list_all_iff)
qed

lemma typed_base:
  assumes "typed_store d" and "var \<notin> set internal_vars" and "plain_flag flag"
  shows "val_ok (base_value (findVar d var) flag nw)"
proof (cases "findVar d var")
  case (Some fl)
  have "val_ok v" if "map_of fl f = Some v" "f \<notin> set setvar_keywords" for f v
    using typed_flags [OF assms(1) Some] map_of_SomeD [OF that(1)] that(2) assms(2)
    by (auto simp: list_all_iff typed_flag_def)
  with assms(3) Some show ?thesis
    by (auto simp: base_value_def dgetd_def plain_flag_def setvar_keywords_def split: option.splits)
qed (simp add: base_value_def)

lemma typed_ops:
  assumes "typed_store d" and "k \<in> set setvar_keywords" and "ops_of (findVar d var) k = Some l"
  shows "var \<notin> set internal_vars \<and> list_all (is_text \<circ> fst) l"
proof -
  from assms(3) obtain fl v where fl: "findVar d var = Some fl" "map_of fl k = Some v"
    by (auto simp: ops_of_def split: option.splits)
  from typed_flags [OF assms(1) fl(1)] map_of_SomeD [OF fl(2)] assms(2)
  have "text_ops v" "var \<notin> set internal_vars" by (auto simp: list_all_iff typed_flag_def)
  with assms(3) fl show ?thesis by (auto simp: ops_of_def text_ops_def split: pval.splits)
qed

lemma cache_name_internal: "internal_name (cache_name var flag) \<or> var \<notin> set internal_vars"
  by (auto simp: internal_name_def cache_name_def startswith_iff)

section \<open>The override that applies is one of the entries\<close>

definition pick_in :: "string set \<Rightarrow> pick_state \<Rightarrow> bool" where
  "pick_in R = (\<lambda>(active, m, chg). (\<forall>a t. map_of active a = Some t \<longrightarrow> t \<in> R) \<and> (\<forall>r. m = Some r \<longrightarrow> r \<in> R))"

lemma pick_step_in: "pick_in R s \<Longrightarrow> pick_in R (pick_step o' a s)"
  by (cases s) (auto simp: pick_in_def pick_step_def split: option.splits if_split_asm)

lemma pick_round_in: "pick_in R s \<Longrightarrow> pick_in R (pick_round ovs s)"
  unfolding pick_round_def
  by (rule fold_invariant_set [where P = "pick_in R"], assumption)
    (rule fold_invariant_set [where P = "pick_in R"], assumption, rule pick_step_in)

lemma pick_loop_in: "pick_in R (active, m, False) \<Longrightarrow> pick_loop ovs active m = Some r \<Longrightarrow> r \<in> R"
proof (induction ovs active m rule: pick_loop.induct)
  case (1 ovs active m)
  obtain active' m' chg where rd: "pick_round ovs (active, m, False) = (active', m', chg)" by (metis prod_cases3)
  from pick_round_in [OF 1(2), of ovs] rd have P: "pick_in R (active', m', False)" by (simp add: pick_in_def)
  show ?case
  proof (cases chg)
    case True
    with 1(3) rd have "pick_loop ovs active' m' = Some r" by (simp add: pick_loop.simps [of ovs active])
    with 1(1) [OF rd [symmetric] refl True P] show ?thesis by blast
  next
    case False
    with 1(3) rd P show ?thesis by (simp add: pick_loop.simps [of ovs active] pick_in_def)
  qed
qed

lemma pick_override_entry:
  assumes "pick_override ovs od = Some r"
  shows "\<exists>o'. (r, o') \<in> set od"
proof -
  have "\<forall>a t. map_of (active_dict ovs od) a = Some t \<longrightarrow> t \<in> fst ` set od"
    unfolding active_dict_def
    by (rule fold_invariant_set [where P = "\<lambda>d. \<forall>a t. map_of d a = Some t \<longrightarrow> t \<in> fst ` set od"])
      (force simp del: in_dkeys_iff split: if_split_asm)+
  then have "pick_in (fst ` set od) (active_dict ovs od, None, False)" by (simp add: pick_in_def del: in_dkeys_iff)
  from pick_loop_in [OF this] assms show ?thesis by (force simp: pick_override_def simp del: in_dkeys_iff)
qed

section \<open>An expansion starts without removals\<close>

definition parse_view :: "vparse \<Rightarrow> pval list option \<times> pval" where
  "parse_view vp = (vp_removes vp, vp_unexpanded vp)"

lemma parse_view_updates [simp]:
  "parse_view (vp\<lparr>vp_refs := a\<rparr>) = parse_view vp" "parse_view (vp\<lparr>vp_execs := b\<rparr>) = parse_view vp"
  "parse_view (vp\<lparr>vp_contains := c\<rparr>) = parse_view vp"
  by (simp_all add: parse_view_def)

lemma var_sub_view: "parse_view (fst (end_state (var_sub g k st))) = parse_view (fst st)"
  by (cases "g k ''_content'' (snd st)")
    (auto simp: var_sub_def at_state_def Let_def split: prod.splits pval.splits)

lemma python_sub_view: "parse_view (fst (end_state (python_sub env g k st))) = parse_view (fst st)"
proof -
  obtain vp d where st: "st = (vp, d)" by fastforce
  then show ?thesis
    by (cases "de_compile env (strip_chars is_space k)";
        cases "if name_or (vp_name vp) then g (the (vp_name vp)) ''vardeps'' d else Inr (PNone, d)")
      (auto simp: python_sub_def at_state_def Let_def bindE_def split: prod.splits sum.splits)
qed

lemma expand_round_view: "parse_view (fst (end_state (expand_round env g s st))) = parse_view (fst st)"
proof -
  have v: "parse_view (fst (end_state (sub_matches match_var (var_sub g) s st))) = parse_view (fst st)"
    by (rule sub_matches_keeps [where P = "\<lambda>st'. parse_view (fst st') = parse_view (fst st)"]) (simp_all add: var_sub_view)
  have p: "parse_view (fst (end_state (sub_matches match_python (python_sub env g) s' st'))) = parse_view (fst st')" for s' st'
    by (rule sub_matches_keeps [where P = "\<lambda>st''. parse_view (fst st'') = parse_view (fst st')"])
      (simp_all add: python_sub_view)
  show ?thesis
  proof (cases "sub_matches match_var (var_sub g) s st")
    case (Inl a)
    then show ?thesis using v by (cases a) (simp add: expand_round_def)
  next
    case (Inr b)
    then obtain s' st' where b: "sub_matches match_var (var_sub g) s st = Inr (s', st')" by (cases b) auto
    with v p [of s' st'] show ?thesis
      by (auto simp: expand_round_def end_state_def split: sum.splits prod.splits)
  qed
qed

lemma expand_loop_view:
  "expand_loop k env g s st = Inr (s', st') \<Longrightarrow> parse_view (fst st') = parse_view (fst st)"
proof (induction k arbitrary: s st)
  case (Suc k)
  from expand_round_view [of env g s st] Suc show ?case
    by (fastforce split: if_split_asm sum.splits prod.splits simp: end_state_def)
qed simp

lemma expandWithRefs_view:
  assumes "expandWithRefs k env g v n d = Inr (p, d')"
  shows "vp_removes p = None \<and> vp_unexpanded p = v \<and> (if is_text v then is_text (vp_value p) else vp_value p = v)"
  using assms expand_loop_view [where st = "(VariableParse n v PNone, d)"]
  by (auto simp: expandWithRefs_def is_text_def VariableParse_def parse_view_def split: pval.splits)

section \<open>Readers of a typed store\<close>

definition typed_result :: "string \<Rightarrow> string \<Rightarrow> bool \<Rightarrow> bool \<Rightarrow> pval \<times> vparse option \<times> dstore \<Rightarrow> bool" where
  "typed_result var flag e r = (\<lambda>(v, p, d).
     typed_store d \<and> (\<not> internal_name (cache_name var flag) \<longrightarrow> val_ok v) \<and>
     (r \<and> \<not> e \<longrightarrow> (case p of None \<Rightarrow> False | Some q \<Rightarrow> internal_name (cache_name var flag) \<or> typed_parse q)))"

locale typed_getter =
  fixes get :: full_getter
  assumes get_typed: "typed_store d \<Longrightarrow> plain_flag flag \<Longrightarrow> res_ok (typed_result var flag e r) (get var flag e r d)"

sublocale typed_getter \<subseteq> reader_law typed_store get
proof
  show "typed_store d'" if "typed_store d" "plain_flag flag" "get var flag e r d = Inr (v, p, d')" for d flag var e r v p d'
    using res_ok_Inr [OF get_typed [OF that(1,2)] that(3)] by (simp add: typed_result_def)
qed (simp_all add: typed_updates)

context typed_getter
begin

lemma reader_typed:
  assumes "typed_store d" and "plain_flag flag"
  shows "res_ok (\<lambda>(v, d). typed_store d \<and> (\<not> internal_name (cache_name var flag) \<longrightarrow> val_ok v)) (reader get var flag d)"
  unfolding reader_def
  by (rule res_ok_bind [OF get_typed [OF assms]]) (auto simp: typed_result_def)

lemma override_list_typed: "typed_store d \<Longrightarrow> res_ok (\<lambda>(ovs, d). typed_store d) (override_list (reader get) d)"
proof -
  assume d: "typed_store d"
  have "\<not> internal_name (cache_name ''OVERRIDES'' ''_content'')" by code_simp
  with reader_typed [OF d plain_flag_read(1), of "''OVERRIDES''"] show ?thesis
    unfolding override_list_def
    by (elim res_ok_bind) (auto simp: val_ok_def is_text_iff truthy_val_def type_error_def)
qed

lemma settle_overrides_typed: "typed_store d \<Longrightarrow> res_ok typed_store (settle_overrides k (reader get) d)"
proof (induction k arbitrary: d)
  case (Suc k)
  show ?case
    unfolding settle_overrides.simps
    by (rule res_ok_bind [OF override_list_typed], intro typed_updates Suc.prems, clarify,
        rule res_ok_bind [OF override_list_typed], intro typed_updates, assumption)
      (clarsimp, rule Suc.IH, rule typed_updates, assumption)
qed (simp add: type_error_def)

lemma need_overrides_typed: "typed_store d \<Longrightarrow> res_ok typed_store (need_overrides (reader get) d)"
  by (simp add: need_overrides_def settle_overrides_typed)

lemma expand_loop_error: "expand_loop k env g s st = Inl e \<Longrightarrow> \<not> type_error e"
proof (induction k arbitrary: s st)
  case (Suc k)
  then show ?case
    by (auto simp: wrap_error_def type_error_def split: if_split_asm sum.splits prod.splits pyerr.splits)
qed (simp add: type_error_def)

lemma expandWithRefs_typed:
  assumes "typed_store d"
  shows "res_ok (\<lambda>(p, d). typed_store d \<and> (val_ok v \<longrightarrow> typed_parse p)) (expandWithRefs k env (reader get) v n d)"
proof (cases "expandWithRefs k env (reader get) v n d")
  case (Inl e)
  then have "\<not> type_error e"
    by (auto simp: expandWithRefs_def bindE_Inl_iff split: pval.splits dest: expand_loop_error)
  with Inl show ?thesis by simp
next
  case (Inr x)
  obtain p d' where x: "x = (p, d')" by fastforce
  from expandWithRefs_keeps [OF assms] Inr x have "typed_store d'" by blast
  moreover have "val_ok v \<longrightarrow> typed_parse p"
    using expandWithRefs_view [of k env "reader get" v n d p d'] Inr x by (auto simp: typed_parse_def val_ok_def)
  ultimately show ?thesis using Inr x by simp
qed

text \<open>The removals that come out of a typed variable.\<close>

lemma run_ops_typed:
  assumes "typed_store d" and "val_ok v" and "\<And>l. ops = Some l \<Longrightarrow> list_all (is_text \<circ> fst) l"
    and "\<And>d r add v. val_ok v \<Longrightarrow> is_text r \<Longrightarrow> res_ok val_ok (f d (r, add) v)"
  shows "res_ok (\<lambda>(v, d). typed_store d \<and> val_ok v) (run_ops (reader get) f ops (v, d))"
proof (cases ops)
  case (Some l)
  have "res_ok val_ok (foldE (f d) l v)" for d
    using assms(2,3) Some assms(4) by (intro res_ok_fold) (auto simp: list_all_iff)
  then have "res_ok (\<lambda>(v, d). typed_store d \<and> val_ok v) (bindE (foldE (f d) l v) (\<lambda>v. Inr (v, d)))"
    if "typed_store d" for d
    by (rule res_ok_bind) (use that in simp)
  with Some show ?thesis
    by (simp add: run_ops_def) (rule res_ok_bind [OF need_overrides_typed [OF assms(1)]])
qed (use assms in \<open>simp add: run_ops_def\<close>)

lemma apply_typed:
  "val_ok v \<Longrightarrow> is_text r \<Longrightarrow> res_ok val_ok (apply_append d (r, add) v)"
  "val_ok v \<Longrightarrow> is_text r \<Longrightarrow> res_ok val_ok (apply_prepend d (r, add) v)"
  by (auto simp: apply_append_def apply_prepend_def val_ok_def is_text_iff or_empty_def plus_val_def)

lemma override_value_typed:
  assumes "typed_store d"
  shows "res_ok (\<lambda>(v, rs, own, d). typed_store d \<and> val_ok v \<and> list_all is_text rs \<and>
      (v \<noteq> PNone \<or> rs \<noteq> [] \<longrightarrow> var \<notin> set internal_vars)) (override_value get var d)"
proof (cases "map_of (overridedata d) var")
  case None
  with assms show ?thesis by (simp add: override_value_def)
next
  case (Some od)
  with assms have od: "var \<notin> set internal_vars" "\<forall>(r, o') \<in> set od. \<not> internal_name r"
    by (auto simp: typed_store_def list_all_iff dest!: map_of_SomeD)
  have sub: "res_ok (\<lambda>(v, rs, own, d). typed_store d \<and> val_ok v \<and> list_all is_text rs)
      (bindE (get r ''_content'' False True d) (\<lambda>(v, sub, d). case sub of None \<Rightarrow> Inl AttributeError
         | Some p \<Rightarrow> (case vp_removes p of None \<Rightarrow> Inr (v, [], None, d) | Some rs \<Rightarrow> Inr (v, rs, Some r, d))))"
    if "typed_store d" "\<not> internal_name r" for d r
    by (rule res_ok_bind [OF get_typed [OF that(1) plain_flag_read(1)]])
      (use that(2) in \<open>auto simp: typed_result_def cache_name_def typed_parse_def split: option.splits\<close>)
  have "res_ok (\<lambda>(v, rs, own, d). typed_store d \<and> val_ok v \<and> list_all is_text rs) (override_value get var d)"
    unfolding override_value_def Some option.case
  proof (rule res_ok_bind [OF need_overrides_typed [OF assms]], goal_cases)
    case (1 d1)
    then show ?case
      using sub [OF 1] pick_override_entry [of "the (ds_overrides d1)" od] od(2) by (fastforce split: option.splits)
  qed
  with od(1) show ?thesis by (auto elim!: res_ok_mono)
qed

lemma share_removes_typed: "typed_store d \<Longrightarrow> list_all is_text rs \<Longrightarrow> typed_store (share_removes own rs d)"
  by (auto simp: share_removes_def typed_parse_def split: option.splits
      intro!: typed_store_cache dest: typed_cached)

lemma add_removes_typed:
  assumes "typed_store d" and "list_all is_text rs" and "\<And>l. ops = Some l \<Longrightarrow> list_all (is_text \<circ> fst) l"
  shows "res_ok (\<lambda>(rs, d). typed_store d \<and> list_all is_text rs) (add_removes (reader get) ops own (rs, d))"
proof (cases ops)
  case (Some l)
  have "list_all is_text (collect_removes d l rs)" for d
    unfolding collect_removes_def
    by (rule fold_invariant_set [where P = "list_all is_text"]) (use assms(2,3) Some in \<open>fastforce simp: list_all_iff split: if_split_asm\<close>)+
  with Some show ?thesis
    by (simp add: add_removes_def Let_def)
      (rule res_ok_bind [OF need_overrides_typed [OF assms(1)]], simp add: share_removes_typed)
qed (use assms in \<open>simp add: add_removes_def\<close>)

lemma expand_removes_typed:
  assumes "typed_store d" and "list_all is_text rs"
  shows "res_ok (\<lambda>(ws, d). typed_store d \<and> list_all (is_text \<circ> fst) ws) (expand_removes k env (reader get) rs d)"
  unfolding expand_removes_def
proof (rule res_ok_fold, goal_cases)
  case (2 r s)
  obtain ws d1 where s: "s = (ws, d1)" by fastforce
  have "is_text r" using 2(1) assms(2) by (auto simp: list_all_iff)
  then have "res_ok (\<lambda>(p, d). typed_store d \<and> is_text (vp_value p)) (expandWithRefs k env (reader get) r None d1)"
    using expandWithRefs_typed [of d1 r k env None] expandWithRefs_view [of k env "reader get" r None d1] 2(2) s
    by (auto simp: res_ok_def split: sum.splits)
  then show ?case unfolding s prod.case
    by (rule res_ok_bind) (use 2(2) \<open>is_text r\<close> s in \<open>auto simp: is_text_iff\<close>)
qed (use assms in simp)

lemma apply_removes_typed:
  assumes "typed_store d" and "list_all is_text rs" and "case p of None \<Rightarrow> True | Some q \<Rightarrow> typed_parse q \<and> (rs \<noteq> [] \<longrightarrow> is_text (vp_value q))"
  shows "res_ok (\<lambda>(p', d). typed_store d \<and> (p' = None \<longleftrightarrow> p = None) \<and> (case p' of None \<Rightarrow> True | Some q \<Rightarrow> typed_parse q))
    (apply_removes k env (reader get) rs p d)"
proof (cases "p = None \<or> rs = []")
  case True
  with assms show ?thesis by (auto simp: apply_removes_def split: option.splits)
next
  case False
  then obtain q s where q: "p = Some q" "vp_value q = PStr s" "typed_parse q" "rs \<noteq> []"
    using assms(3) by (auto simp: is_text_iff)
  have "res_ok (\<lambda>q. typed_parse q) (filter_removed ws q)" if "list_all (is_text \<circ> fst) ws" for ws
  proof -
    have "list_all is_text (fold sadd xs ys)" if "list_all is_text xs" "list_all is_text ys" for xs ys
      by (rule fold_invariant_set [where P = "list_all is_text"]) (use that in \<open>auto simp: list_all_iff\<close>)
    moreover have "list_all is_text (concat (map (\<lambda>v. map fst (filter (\<lambda>(r, l). v \<in> set l) ws)) parts))" for parts
      using that by (fastforce simp: list_all_iff)
    ultimately show ?thesis using q(2,3) by (simp add: filter_removed_def Let_def typed_parse_def)
  qed
  then have "res_ok (\<lambda>(p', d). typed_store d \<and> p' \<noteq> None \<and> (case p' of None \<Rightarrow> True | Some q \<Rightarrow> typed_parse q))
      (bindE (filter_removed ws q) (\<lambda>p. Inr (Some p, d)))" if "typed_store d" "list_all (is_text \<circ> fst) ws" for ws d
    by (rule res_ok_bind [OF _ ]) (use that in auto)
  then have "res_ok (\<lambda>(p', d). typed_store d \<and> p' \<noteq> None \<and> (case p' of None \<Rightarrow> True | Some q \<Rightarrow> typed_parse q))
      (bindE (expand_removes k env (reader get) rs d) (\<lambda>(ws, d). bindE (filter_removed ws q) (\<lambda>p. Inr (Some p, d))))"
    by (intro res_ok_bind [OF expand_removes_typed [OF assms(1,2)]]) auto
  with q show ?thesis by (simp add: apply_removes_def)
qed

lemma expand_value_typed:
  assumes "typed_store d" and "\<not> b \<longrightarrow> val_ok v"
  shows "res_ok (\<lambda>(p, d). typed_store d \<and> (p = None \<longleftrightarrow> \<not> w) \<and>
      (\<not> b \<longrightarrow> (case p of None \<Rightarrow> True | Some q \<Rightarrow> typed_parse q \<and> is_text (vp_value q) = is_text v)))
    (expand_value k env (reader get) w v cn d)"
proof (cases w)
  case True
  have "res_ok (\<lambda>(p, d). typed_store d \<and> (\<not> b \<longrightarrow> typed_parse p \<and> is_text (vp_value p) = is_text v))
      (expandWithRefs k env (reader get) v (Some cn) d)"
    using expandWithRefs_typed [OF assms(1), of v k env "Some cn"] assms(2)
      expandWithRefs_view [of k env "reader get" v "Some cn" d]
    by (fastforce simp: res_ok_def split: sum.splits if_split_asm)
  then show ?thesis unfolding expand_value_def if_P [OF True]
    by (rule res_ok_bind) (use True in auto)
qed (use assms in \<open>simp add: expand_value_def\<close>)

text \<open>The last part of \<open>getVarFlag\<close>: the removals.\<close>

lemma removes_typed:
  assumes "typed_store d" and "list_all is_text rs" and "rs \<noteq> [] \<longrightarrow> \<not> b" and "p = None \<longleftrightarrow> \<not> w"
    and "\<not> b \<longrightarrow> val_ok v \<and> (case p of None \<Rightarrow> True | Some q \<Rightarrow> typed_parse q \<and> is_text (vp_value q) = is_text v)"
    and "\<And>l. ops = Some l \<Longrightarrow> \<not> b \<and> list_all (is_text \<circ> fst) l"
  shows "res_ok (\<lambda>(p, d). typed_store d \<and> (p = None \<longleftrightarrow> \<not> w) \<and>
      (\<not> b \<longrightarrow> (case p of None \<Rightarrow> True | Some q \<Rightarrow> typed_parse q)))
    (bindE (add_removes (reader get) (if c \<and> truthy_val v then ops else None) own (rs, d)) (\<lambda>(rs, d).
       if c \<and> truthy_val v then apply_removes k env (reader get) rs p d else Inr (p, d)))"
proof (cases b)
  case True
  with assms(3,6) have "ops = None" "rs = []" by (cases ops; auto)+
  with assms True show ?thesis by (cases p) (simp_all add: add_removes_def apply_removes_def)
next
  case False
  have tr: "is_text v" if "truthy_val v" using that assms(5) False by (auto simp: val_ok_def truthy_val_def)
  show ?thesis
  proof (cases "c \<and> truthy_val v")
    case True
    show ?thesis unfolding if_P [OF True]
      by (rule res_ok_bind [OF add_removes_typed [OF assms(1,2)]])
        (use assms(4-6) False True tr in \<open>auto intro!: res_ok_mono [OF apply_removes_typed] split: option.splits\<close>)
  next
    case no: False
    show ?thesis unfolding if_not_P [OF no] using assms False
      by (simp add: add_removes_def) (auto split: option.splits)
  qed
qed

text \<open>One of the two loops over operations, on a variable that may be internal.\<close>

lemma pending_typed:
  assumes "typed_store d0" and "typed_store d" and "var \<in> set internal_vars \<or> val_ok v" and "k \<in> set setvar_keywords"
    and "\<And>d r add v. val_ok v \<Longrightarrow> is_text r \<Longrightarrow> res_ok val_ok (f d (r, add) v)"
  shows "res_ok (\<lambda>(v, d). typed_store d \<and> (var \<in> set internal_vars \<or> val_ok v))
      (run_ops (reader get) f (if c then ops_of (findVar d0 var) k else None) (v, d))"
proof (cases "if c then ops_of (findVar d0 var) k else None")
  case None
  then show ?thesis unfolding None using assms(2,3) by (simp add: run_ops_def)
next
  case (Some l)
  with typed_ops [OF assms(1,4), of var l] assms(3) have "val_ok v" "list_all (is_text \<circ> fst) l"
    by (auto split: if_split_asm)
  with run_ops_typed [OF assms(2), of v "Some l" f] assms(5) show ?thesis
    unfolding Some by (auto elim!: res_ok_mono)
qed

lemma append_prepend_typed:
  assumes "typed_store d0" and "typed_store d" and "var \<in> set internal_vars \<or> val_ok v"
  shows "res_ok (\<lambda>(v, d). typed_store d \<and> (var \<in> set internal_vars \<or> val_ok v))
      (run_ops (reader get) apply_append (if c then ops_of (findVar d0 var) '':append'' else None) (v, d))"
    and "res_ok (\<lambda>(v, d). typed_store d \<and> (var \<in> set internal_vars \<or> val_ok v))
      (run_ops (reader get) apply_prepend (if c then ops_of (findVar d0 var) '':prepend'' else None) (v, d))"
  by (rule pending_typed [OF assms]; simp add: setvar_keywords_def apply_typed)+

lemma res_ok_bind2:
  "res_ok Q (bindE m (\<lambda>(a, b). f a b)) \<Longrightarrow> (\<And>x. Q x \<Longrightarrow> res_ok R (g x)) \<Longrightarrow>
   res_ok R (bindE m (\<lambda>(a, b). bindE (f a b) g))"
  by (cases m) (auto intro: res_ok_bind)

lemma getVarFlag_body_typed:
  assumes "typed_store d" and "plain_flag flag"
  shows "res_ok (typed_result var flag e r) (getVarFlag_body k env get var flag e nw pa r d)"
proof (cases "(e \<or> r) \<and> map_of (expand_cache d) (cache_name var flag) \<noteq> None")
  case True
  then obtain q where q: "map_of (expand_cache d) (cache_name var flag) = Some q" by auto
  with typed_cached [OF assms(1) q] True assms show ?thesis
    by (auto simp: getVarFlag_body_def Let_def typed_result_def plain_flag_def typed_parse_def)
next
  case False
  let ?c = "flag = ''_content'' \<and> \<not> pa" and ?cn = "cache_name var flag" and ?b = "var \<in> set internal_vars"
  have cond: "(\<not> e \<and> r \<and> map_of (expand_cache d) ?cn \<noteq> None) = False"
    "(e \<and> map_of (expand_cache d) ?cn \<noteq> None) = False" "(flag = []) = False"
    using False assms(2) by (auto simp: plain_flag_def)
  have kw: "'':remove'' \<in> set setvar_keywords" by (simp add: setvar_keywords_def)
  have first: "res_ok (\<lambda>(v, rs, own, d). typed_store d \<and> val_ok v \<and> list_all is_text rs \<and> (v \<noteq> PNone \<or> rs \<noteq> [] \<longrightarrow> \<not> ?b))
      (if ?c then override_value get var d else Inr (PNone, [], None, d))"
    using override_value_typed [OF assms(1), of var] assms(1) by auto
  have base: "?b \<or> val_ok (base_value (findVar d var) flag nw)"
    using typed_base [OF assms(1) _ assms(2)] by auto
  have final: "typed_result var flag e r (if e then vp_value (the p) else v, if r then p else None,
      case p of None \<Rightarrow> d | Some q \<Rightarrow> d\<lparr>expand_cache := dset ?cn q (expand_cache d)\<rparr>)"
    if "typed_store d" "p = None \<longleftrightarrow> \<not> (e \<or> r)" "\<not> ?b \<longrightarrow> val_ok v"
      "\<not> ?b \<longrightarrow> (case p of None \<Rightarrow> True | Some q \<Rightarrow> typed_parse q)" for p v d
    using that cache_name_internal [of var flag]
    by (auto simp: typed_result_def typed_parse_def intro: typed_store_cache split: option.splits)
  show ?thesis
    unfolding getVarFlag_body_def Let_def cond if_False
  proof (rule res_ok_bind [OF first], clarify, goal_cases)
    case (1 v rs own d1)
    then have rs: "list_all is_text rs" "rs \<noteq> [] \<longrightarrow> \<not> ?b" by auto
    from 1 have "?b \<or> val_ok (if v = PNone then base_value (findVar d var) flag nw else v)" using base by auto
    note step = append_prepend_typed(1) [OF assms(1) 1(1) this]
    show ?case
    proof (rule res_ok_bind [OF step], clarify, goal_cases)
      case (1 v2 d2)
      note step = append_prepend_typed(2) [OF assms(1) 1]
      show ?case
      proof (rule res_ok_bind [OF step], clarify, goal_cases)
        case (1 v3 d3)
        then have v3: "\<not> ?b \<longrightarrow> val_ok v3" by blast
        note step = expand_value_typed [OF 1(1) v3]
        show ?case
        proof (rule res_ok_bind [OF step], clarify, goal_cases)
          case (1 p d4)
          show ?case
          proof -
            let ?v = "if e then vp_value (the p) else v3"
            have "\<not> ?b \<longrightarrow> val_ok ?v \<and>
                (case p of None \<Rightarrow> True | Some q \<Rightarrow> typed_parse q \<and> is_text (vp_value q) = is_text ?v)"
              using 1 v3 by (auto simp: typed_parse_def split: option.splits)
            note step = removes_typed [OF 1(1) rs 1(2) this]
            have v: "\<not> ?b \<longrightarrow> val_ok ?v" using \<open>\<not> ?b \<longrightarrow> val_ok ?v \<and> _\<close> by blast
            have ops: "\<not> ?b \<and> list_all (is_text \<circ> fst) l" if "ops_of (findVar d var) '':remove'' = Some l" for l
              using typed_ops [OF assms(1) kw that] by simp
            show ?thesis
              by (rule res_ok_bind2 [OF step [OF ops]], assumption, clarify, simp only: res_ok_simps, rule final)
                (use v in \<open>assumption | blast\<close>)+
          qed
        qed
      qed
    qed
  qed
qed

end

lemma getVarFlag_typed_law: "typed_getter (\<lambda>var flag e r. getVarFlag k env var flag e False False r)"
proof (induction k)
  case 0
  then show ?case by unfold_locales (simp add: type_error_def)
next
  case (Suc k)
  have "res_ok (typed_result var flag e r) (getVarFlag (Suc k) env var flag e False False r d)"
    if "typed_store d" "plain_flag flag" for var flag e r d
    using typed_getter.getVarFlag_body_typed [OF Suc that] by simp
  then show ?case by unfold_locales
qed

interpretation typed: typed_getter "\<lambda>var flag e r. getVarFlag k env var flag e False False r" for k env
  by (rule getVarFlag_typed_law)

lemma getVarFlag_typed:
  assumes "typed_store d" and "plain_flag flag"
  shows "res_ok (typed_result var flag e r) (getVarFlag n env var flag e nw pa r d)"
  using typed.getVarFlag_body_typed [OF assms] by (cases n) (simp_all add: type_error_def)

section \<open>Writes that keep the types\<close>

definition user_name :: "string \<Rightarrow> bool" where
  "user_name var \<longleftrightarrow> (\<forall>v \<in> set internal_vars. \<not> startswith var v)"

lemma user_name_internal: "user_name var \<Longrightarrow> var \<notin> set internal_vars \<and> \<not> internal_name var"
  by (auto simp: user_name_def internal_name_def startswith_iff)

lemma user_name_prefix: "user_name (s @ t) \<Longrightarrow> user_name s"
  by (auto simp: user_name_def startswith_iff)

lemma typed_set_local:
  assumes "typed_store d" and "list_all (typed_flag var) fl"
  shows "typed_store (set_local (dset var fl) d)"
proof -
  have "set (dset var fl f) \<subseteq> insert (var, fl) (set f)" for f :: "(string, flags) dict" by (induction f) auto
  with assms show ?thesis
    by (cases "frames d") (fastforce simp: typed_store_def set_local_def local_dict_def list_all_iff)+
qed

lemma typed_reset: "typed_store d \<Longrightarrow> typed_store (reset_cache d)"
  by (simp add: reset_cache_def typed_updates)

lemma typed_shadow: "typed_store d \<Longrightarrow> typed_store (makeShadowCopy var d)"
proof -
  assume d: "typed_store d"
  have "typed_store (set_local (dset var fl) d)" if "findVar d var = Some fl" for fl
    by (rule typed_set_local [OF d typed_flags [OF d that]])
  with d typed_set_local [OF typed_reset [OF d], of var "[]"] typed_reset [OF d] show ?thesis
    by (auto simp: makeShadowCopy_def initVar_def Let_def split: option.splits list.splits)
qed

lemma typed_own: "typed_store d \<Longrightarrow> list_all (typed_flag var) (own_flags d var)"
  using own_is_found [of var d] typed_flags [of d var]
  by (cases "din var (local_dict d)") (auto simp: own_flags_def dgetd_def din_None)

lemma typed_set_flag:
  assumes "typed_store d" and "typed_flag var (flag, v)"
  shows "typed_store (set_flag var flag v d)"
proof -
  have "set (dset flag v fl) \<subseteq> insert (flag, v) (set fl)" for fl by (induction fl) auto
  with typed_own [OF assms(1), of var] assms(2) have "list_all (typed_flag var) (dset flag v (own_flags d var))"
    by (fastforce simp: list_all_iff)
  with typed_set_local [OF assms(1)] show ?thesis by (simp add: set_flag_def)
qed

lemma typed_del_flag: "typed_store d \<Longrightarrow> typed_store (del_flag var flag d)"
proof -
  assume d: "typed_store d"
  have "set (ddel flag fl) \<subseteq> set fl" for fl :: flags by (induction fl) auto
  with typed_own [OF d, of var] have "list_all (typed_flag var) (ddel flag (own_flags d var))"
    by (fastforce simp: list_all_iff)
  with typed_set_local [OF d] show ?thesis by (simp add: del_flag_def)
qed

lemma typed_drop_ops: "typed_store d \<Longrightarrow> typed_store (drop_ops var d)"
  unfolding drop_ops_def
  by (rule fold_invariant_set [where P = typed_store]) (auto intro: typed_del_flag)

definition typed_data :: "(string, (string \<times> string) list) dict \<Rightarrow> bool" where
  "typed_data odata \<longleftrightarrow>
     list_all (\<lambda>(var, od). var \<notin> set internal_vars \<and> list_all (\<lambda>(r, o'). \<not> internal_name r) od) odata"

lemma typed_data_store: "typed_store d \<Longrightarrow> typed_data odata \<Longrightarrow> typed_store (d\<lparr>overridedata := odata\<rparr>)"
  "typed_store d \<Longrightarrow> typed_data (overridedata d)"
  by (simp_all add: typed_store_def typed_data_def)

lemma typed_data_dset:
  assumes "typed_data odata" and "var \<notin> set internal_vars" and "\<And>r o'. (r, o') \<in> set od \<Longrightarrow> \<not> internal_name r"
  shows "typed_data (dset var od odata)"
proof -
  have "set (dset var od x) \<subseteq> insert (var, od) (set x)" for x by (induction x) auto
  with assms show ?thesis by (fastforce simp: typed_data_def list_all_iff)
qed

lemma typed_data_ddel: "typed_data odata \<Longrightarrow> typed_data (ddel var odata)"
proof -
  have "set (ddel var x) \<subseteq> set x" for x :: "(string, (string \<times> string) list) dict" by (induction x) auto
  then show "typed_data odata \<Longrightarrow> ?thesis" by (fastforce simp: typed_data_def list_all_iff)
qed

lemma typed_data_entries:
  "typed_data odata \<Longrightarrow> map_of odata var = Some od \<Longrightarrow> (r, o') \<in> set od \<Longrightarrow> var \<notin> set internal_vars \<and> \<not> internal_name r"
  by (fastforce simp: typed_data_def list_all_iff dest!: map_of_SomeD)

lemma typed_delVar: "typed_store d \<Longrightarrow> typed_store (delVar var d)"
proof -
  assume d: "typed_store d"
  have drop: "typed_store (drop_override var p d)" if "typed_store d" for p d
  proof -
    obtain s o' where p: "p = (s, o')" by fastforce
    note data = typed_data_store(2) [OF that]
    show ?thesis
    proof (cases "map_of (overridedata d) s")
      case None
      then show ?thesis using that by (simp add: drop_override_def p)
    next
      case (Some l)
      have "s \<notin> set internal_vars"
        using data Some by (auto simp: typed_data_def list_all_iff dest!: map_of_SomeD)
      moreover have "\<not> internal_name r" if "(r, o'') \<in> set (remove1 (var, o') l)" for r o''
        using typed_data_entries [OF data Some set_remove1_subset [THEN subsetD, OF that]] by simp
      ultimately have "typed_data (dset s (remove1 (var, o') l) (overridedata d))"
        using data by (intro typed_data_dset)
      with that Some show ?thesis by (simp add: drop_override_def p typed_data_store(1))
    qed
  qed
  have "typed_store (set_local (dset var []) (reset_cache d))"
    using typed_set_local [OF typed_reset [OF d]] by simp
  then have "typed_store ((set_local (dset var []) (reset_cache d))\<lparr>overridedata := ddel var (overridedata d)\<rparr>)"
    by (rule typed_data_store(1)) (rule typed_data_ddel [OF typed_data_store(2) [OF d]])
  moreover have "overridedata (set_local (dset var []) (reset_cache d)) = overridedata d"
    by (simp add: set_local_def reset_cache_def)
  ultimately have d2: "typed_store ((set_local (dset var []) (reset_cache d))
      \<lparr>overridedata := ddel var (overridedata (set_local (dset var []) (reset_cache d)))\<rparr>)" by simp
  then have "typed_store (fold (drop_override var) ps ((set_local (dset var []) (reset_cache d))
      \<lparr>overridedata := ddel var (overridedata (set_local (dset var []) (reset_cache d)))\<rparr>))" for ps
    by (rule fold_invariant_set [where P = typed_store]) (rule drop)
  with d2 show ?thesis unfolding delVar_def Let_def by (simp only: split: if_split) blast
qed

lemma override_loop_prefix: "(s, o') \<in> set (override_loop var short ovr) \<Longrightarrow> (\<exists>n. short = take n var) \<Longrightarrow> \<exists>n. s = take n var"
proof (induction var short ovr rule: override_loop.induct)
  case (1 var short ovr)
  from 1(2) have "override_match ovr" and
    c: "s = short \<or> (\<exists>i. rfind (CHR '':'') short = Some (Suc i) \<and>
        (s, o') \<in> set (override_loop var (take (Suc i) var) (drop (Suc (Suc i)) var)))"
    unfolding override_loop.simps [of var short ovr] by (auto split: if_split_asm option.split_asm nat.split_asm)
  from c show ?case
  proof (elim disjE exE conjE)
    fix i
    assume "rfind (CHR '':'') short = Some (Suc i)"
      "(s, o') \<in> set (override_loop var (take (Suc i) var) (drop (Suc (Suc i)) var))"
    from 1(1) [OF \<open>override_match ovr\<close> this(1) refl this(2)] show ?thesis by blast
  qed (use 1(3) in simp)
qed

lemma override_pairs_prefix:
  assumes "(s, o') \<in> set (override_pairs var)"
  obtains t where "var = s @ t"
proof -
  have "\<exists>n. butlast var = take n var" by (rule exI [of _ "length var - 1"]) (rule butlast_conv_take)
  with assms override_loop_prefix obtain n where "s = take n var"
    by (auto simp: override_pairs_def split: option.splits dest!: override_loop_prefix)
  with that [of "drop n var"] show ?thesis by simp
qed

lemma typed_update_overrides:
  assumes "typed_store d" and "user_name var"
  shows "typed_store (setvar_update_overrides var d)"
  unfolding setvar_update_overrides_def
proof (rule fold_invariant_set [where P = typed_store], rule assms(1), clarify, goal_cases)
  case (1 s o' d)
  obtain t where "var = s @ t" using override_pairs_prefix [OF 1(1)] .
  with assms(2) user_name_internal user_name_prefix have s: "s \<notin> set internal_vars" "\<not> internal_name var" by blast+
  note data = typed_data_store(2) [OF 1(2)]
  let ?od = "if din s (overridedata d) then overridedata d else dset s [] (overridedata d)"
  have od: "typed_data ?od" using data s(1) by (auto intro!: typed_data_dset)
  have "\<not> internal_name r" if "(r, o'') \<in> set (dgetd ?od s [] @ [(var, o')])" for r o''
    using that s(2) typed_data_entries [OF od, of s "dgetd ?od s []" r]
    by (cases "map_of ?od s") (auto simp only: dgetd_def option.case set_append list.set)
  then have "typed_data (dset s (dgetd ?od s [] @ [(var, o')]) ?od)"
    by (rule typed_data_dset [OF od s(1)])
  with od 1(2) show ?case by (auto simp: Let_def intro!: typed_data_store(1))
qed

lemma expandWithRefs_typed_store: "typed_store d \<Longrightarrow> expandWithRefs' n env v var d = Inr (p, d') \<Longrightarrow> typed_store d'"
  unfolding expandWithRefs'_def flag_reader_def by (rule typed.expandWithRefs_keeps)

lemma getVar_typed_store: "typed_store d \<Longrightarrow> getVar n env var e d = Inr (v, d') \<Longrightarrow> typed_store d'"
  unfolding getVar_def
  using res_ok_Inr [OF getVarFlag_typed [of d "''_content''" var e False n env False False]]
  by (auto simp: typed_result_def)

lemma typed_overridevars: "typed_store d \<Longrightarrow> typed_store (d\<lparr>overridevars := s\<rparr>)"
  by (simp add: typed_store_def)

lemma overridevars_loop_typed: "typed_store d \<Longrightarrow> overridevars_loop k n env new d = Inr d' \<Longrightarrow> typed_store d'"
proof (induction k arbitrary: new d)
  case (Suc k)
  have step: "typed_store d2" if "foldE (next_refs n env) is (x, d1) = Inr (y, d2)" "typed_store d1" for "is" x y d1 d2
  proof -
    have "case (y, d2) of (_, d') \<Rightarrow> typed_store d'"
      by (rule foldE_invariant [OF that(1)])
        (use that(2) in \<open>auto simp: next_refs_def dest!: getVar_typed_store [rotated] expandWithRefs_typed_store [rotated]\<close>)
    then show ?thesis by simp
  qed
  show ?case
  proof (cases "ssubset new (overridevars d)")
    case False
    with Suc.prems(2) obtain y d2 where
      d2: "foldE (next_refs n env) new ([], d\<lparr>overridevars := sunion (overridevars d) new\<rparr>) = Inr (y, d2)"
      "overridevars_loop k n env y d2 = Inr d'" by auto
    from Suc.IH [OF step [OF d2(1) typed_overridevars [OF Suc.prems(1)]] d2(2)] show ?thesis .
  qed (use Suc.prems in simp)
qed simp

lemma setvar_update_overridevars_typed:
  "typed_store d \<Longrightarrow> setvar_update_overridevars n env var v d = Inr d' \<Longrightarrow> typed_store d'"
proof -
  assume d: "typed_store d" and s: "setvar_update_overridevars n env var v d = Inr d'"
  from s obtain p d1 d2 where d1: "expandWithRefs' n env v (Some var) d = Inr (p, d1)"
    and d2: "overridevars_loop n n env (refs_of p) d1 = Inr d2" and d': "d' = d2\<lparr>ds_overrides := None\<rparr>"
    by (auto simp: setvar_update_overridevars_def)
  from overridevars_loop_typed [OF expandWithRefs_typed_store [OF d d1] d2] show ?thesis
    unfolding d' by (rule typed_updates)
qed

lemma need_overrides_typed_store: "typed_store d \<Longrightarrow> need_overrides' n env d = Inr d' \<Longrightarrow> typed_store d'"
  unfolding need_overrides'_def flag_reader_def by (rule typed.need_overrides_keeps)

lemma drop_overrides_typed: "typed_store d \<Longrightarrow> drop_overrides n env var d = Inr d' \<Longrightarrow> typed_store d'"
proof -
  have "typed_store (fold delVar xs d)" if "typed_store d" for xs d
    using that by (induction xs arbitrary: d) (auto intro: typed_delVar)
  note del = this
  assume d: "typed_store d" and drop: "drop_overrides n env var d = Inr d'"
  show ?thesis
  proof (cases "din var (overridedata d)")
    case True
    with drop obtain d1 xs where d1: "need_overrides' n env d = Inr d1"
      and d': "d' = (fold delVar xs d1)\<lparr>overridedata := ddel var (overridedata (fold delVar xs d1))\<rparr>"
      by (auto simp: drop_overrides_def Let_def)
    from del [OF need_overrides_typed_store [OF d d1], of xs] show ?thesis
      unfolding d' by (rule typed_data_store(1)) (rule typed_data_ddel, rule typed_data_store(2), rule del,
          rule need_overrides_typed_store [OF d d1])
  qed (use d drop in \<open>simp add: drop_overrides_def\<close>)
qed

lemma set_plain_typed:
  assumes "typed_store d" and "set_plain n env var v parsing d = Inr d'"
    and "user_name var \<and> val_ok v \<or> CHR '':'' \<notin> set var \<and> var \<in> set internal_vars"
  shows "typed_store d'"
proof -
  let ?o = "\<lambda>d. if CHR '':'' \<in> set var then setvar_update_overrides var d else d"
  from assms(2) obtain d1 where
    d1: "(if parsing then Inr (makeShadowCopy var d) else drop_overrides n env var (drop_ops var (makeShadowCopy var d))) = Inr d1"
    and d': "(let d = set_flag var ''_content'' v (?o d1)
              in if var \<in> set (overridevars d) then setvar_update_overridevars n env var v d else Inr d) = Inr d'"
    by (auto simp: set_plain_def Let_def)
  from d1 have "typed_store d1"
    using typed_shadow [OF assms(1), of var] drop_overrides_typed [OF typed_drop_ops [OF typed_shadow [OF assms(1)]]]
    by (cases parsing) auto
  then have "typed_store (?o d1)" using assms(3) by (auto intro: typed_update_overrides)
  moreover have "typed_flag var (''_content'', v)"
    using assms(3) by (auto simp: typed_flag_def setvar_keywords_def)
  ultimately have "typed_store (set_flag var ''_content'' v (?o d1))" by (rule typed_set_flag)
  with d' setvar_update_overridevars_typed show ?thesis by (auto simp: Let_def split: if_split_asm)
qed

lemma mark_failing_typed: "typed_store d \<Longrightarrow> mark_failing n env d = Inr d' \<Longrightarrow> typed_store d'"
proof -
  assume d: "typed_store d" and m: "mark_failing n env d = Inr d'"
  have "CHR '':'' \<notin> set ''_FAILPARSINGERRORHANDLED'' \<and> ''_FAILPARSINGERRORHANDLED'' \<in> set internal_vars" by code_simp
  with set_plain_typed [OF typed_reset [OF d] m [unfolded mark_failing_def]] show ?thesis by blast
qed

lemma typed_raw_flag:
  assumes "typed_store d" and "k \<in> set setvar_keywords"
  shows "list_all (is_text \<circ> fst) (ops_list (raw_flag d base k))"
proof (cases "findVar d base")
  case (Some fl)
  show ?thesis
  proof (cases "map_of fl k")
    case None
    with Some show ?thesis by (simp add: raw_flag_def dgetd_def ops_list_def)
  next
    case v: (Some v)
    with typed_flags [OF assms(1) Some] map_of_SomeD [OF v] assms(2) have "text_ops v"
      by (auto simp: list_all_iff typed_flag_def)
    with Some v show ?thesis by (auto simp: raw_flag_def dgetd_def ops_list_def text_ops_def split: pval.splits)
  qed
qed (simp add: raw_flag_def ops_list_def)

lemma setVarFlag_ops_typed:
  assumes "typed_store d" and "setVarFlag n env base k (POps l) d = Inr d'"
    and "k \<in> set setvar_keywords" and "user_name base" and "list_all (is_text \<circ> fst) l"
  shows "typed_store d'"
proof -
  let ?d = "if base = ''BB_RENAMED_VARIABLES''
    then (reset_cache d)\<lparr>var_renames := dset k (rename_text (POps l)) (var_renames (reset_cache d))\<rparr> else reset_cache d"
  have k: "k \<noteq> ''_defaultval''" "k \<noteq> ''export''" "k \<noteq> ''unexport''"
    using assms(3) by (auto simp: setvar_keywords_def)
  have d: "typed_store ?d" using typed_reset [OF assms(1)] by (simp add: typed_store_def)
  from assms(2) k obtain d1 where d1: "(if din base (var_renames ?d) then mark_failing n env ?d else Inr ?d) = Inr d1"
    and d': "d' = set_flag base k (POps l) (makeShadowCopy base d1)"
    unfolding setVarFlag_def Let_def by (auto simp only: bindE_Inr_iff sum.inject simp_thms if_False)
  from d1 d have "typed_store d1" by (auto split: if_split_asm dest: mark_failing_typed [rotated])
  moreover have "typed_flag base (k, POps l)"
    using assms(3,5) user_name_internal [OF assms(4)] by (simp add: typed_flag_def text_ops_def)
  ultimately show ?thesis unfolding d' by (intro typed_set_flag typed_shadow)
qed

lemma setvar_match_parts:
  "setvar_match var = Some (base, k, add) \<Longrightarrow> k \<in> set setvar_keywords \<and> (\<exists>t. var = base @ t)"
proof (induction var arbitrary: base rule: setvar_match.induct)
  case (2 c cs)
  have "k \<in> set setvar_keywords" if "keyword_at s = Some (k, add)" for s
    using that by (auto simp: keyword_at_def dest!: filter_eq_ConsD split: list.splits) (metis in_set_conv_decomp)
  with 2 show ?case by (auto split: option.splits if_split_asm)
qed simp

lemma setVar_typed:
  assumes "typed_store d" and "setVar n env var (PStr s) parsing d = Inr d'" and "user_name var"
  shows "typed_store d'"
proof -
  from assms(2) obtain d0 where
    d0: "(if din (hd (split_on (CHR '':'') var)) (var_renames d) then mark_failing n env d else Inr d) = Inr d0"
    and run: "(let d = reset_cache d0
        in case setvar_match var of
             Some (base, k, add) \<Rightarrow>
               bindE (setVarFlag n env base k (POps (ops_list (raw_flag d base k) @ [(PStr s, add)])) d) (\<lambda>d.
                 let d = setvar_update_overrides base d
                 in if base \<in> set (overridevars d) then setvar_update_overridevars n env var (PStr s) d else Inr d)
           | None \<Rightarrow> set_plain n env var (PStr s) parsing d) = Inr d'"
    by (auto simp: setVar_def split: if_split_asm)
  from d0 assms(1) have d: "typed_store (reset_cache d0)"
    by (auto split: if_split_asm intro: typed_reset dest: mark_failing_typed [rotated])
  show ?thesis
  proof (cases "setvar_match var")
    case None
    with run have "set_plain n env var (PStr s) parsing (reset_cache d0) = Inr d'" by simp
    from set_plain_typed [OF d this] assms(3) show ?thesis by simp
  next
    case (Some m)
    obtain base k add where m: "m = (base, k, add)" by (cases m) auto
    from setvar_match_parts [OF Some [unfolded m]] assms(3) have k: "k \<in> set setvar_keywords" and base: "user_name base"
      by (auto intro: user_name_prefix)
    from run Some m obtain d1 where
      d1: "setVarFlag n env base k (POps (ops_list (raw_flag (reset_cache d0) base k) @ [(PStr s, add)])) (reset_cache d0) = Inr d1"
      and d': "(let d = setvar_update_overrides base d1
                in if base \<in> set (overridevars d) then setvar_update_overridevars n env var (PStr s) d else Inr d) = Inr d'"
      by (auto simp: Let_def [of "reset_cache d0"])
    from setVarFlag_ops_typed [OF d d1 k base] typed_raw_flag [OF d k, of base] have "typed_store d1" by simp
    from typed_update_overrides [OF this base] d' setvar_update_overridevars_typed show ?thesis
      by (auto simp: Let_def split: if_split_asm)
  qed
qed

text \<open>
  C13: Strings in, strings out.  On a store filled by assignments of strings, appends, prepends,
  removals and overrides included, no read of a variable or an ordinary flag ends in Python's
  \<open>TypeError\<close> or \<open>AttributeError\<close>, and what it gives is a string or nothing; the two variables
  the store writes itself are left out.
\<close>

theorem strings_in_strings_out:
  assumes "foldE (\<lambda>(v, s). setVar n env v (PStr s) False) ws DataSmart = Inr d"
    and "list_all (\<lambda>(v, s). user_name v) ws" and "plain_flag flag" and "\<not> internal_name (cache_name var flag)"
  shows "case getVarFlag m env var flag e nw pa False d of
      Inl err \<Rightarrow> \<not> type_error err
    | Inr (v, p, d') \<Rightarrow> val_ok v"
proof -
  have "typed_store DataSmart" by code_simp
  with assms(1) have "typed_store d"
  proof (rule foldE_invariant)
    show "typed_store t" if "x \<in> set ws" "typed_store s" "(case x of (v, s) \<Rightarrow> setVar n env v (PStr s) False) s = Inr t" for x s t
      using that assms(2) by (auto simp: list_all_iff intro: setVar_typed)
  qed
  from getVarFlag_typed [OF this assms(3), of var e False m env nw pa] assms(4) show ?thesis
    by (cases "getVarFlag m env var flag e nw pa False d") (auto simp: typed_result_def)
qed

end
