(* ===== verification/VarValues.thy ===== *)
theory VarValues
  imports VarTypes
begin

text \<open>
  The value of a variable: a plain assignment wins over all that was there before, and without one
  the value is that of the content and of the pending appends, prepends and removals, described
  by \<open>reference_text\<close> and \<open>removed_words\<close> apart from the order in which \<open>getVarFlag\<close> runs.
\<close>

section \<open>Writing a value\<close>

lemma startswith_Cons_colon: "startswith (c # cs) (CHR '':'' # k) \<Longrightarrow> c = CHR '':''"
  by (auto simp: startswith_iff)

lemma keyword_at_colon: "keyword_at (c # cs) = Some x \<Longrightarrow> c = CHR '':''"
  by (auto simp: keyword_at_def setvar_keywords_def dest: startswith_Cons_colon split: if_split_asm)

lemma setvar_match_plain: "CHR '':'' \<notin> set var \<Longrightarrow> setvar_match var = None"
  by (induction var rule: setvar_match.induct) (auto split: option.splits dest: keyword_at_colon)

definition no_ops :: "string \<Rightarrow> dstore \<Rightarrow> bool" where
  "no_ops var d \<longleftrightarrow> din var (local_dict d) \<and> (\<forall>k \<in> set setvar_keywords. \<not> din k (own_flags d var))"

lemma own_flags_set_local:
  "own_flags (set_local (dset w fl) d) var = (if w = var then fl else own_flags d var)"
  by (simp add: own_flags_def dgetd_def)

lemma own_flags_overridedata [simp]:
  "own_flags (d\<lparr>overridedata := od\<rparr>) var = own_flags d var"
  "local_dict (d\<lparr>overridedata := od\<rparr>) = local_dict d"
  by (simp_all add: own_flags_def local_dict_def)

lemma delVar_no_ops: "no_ops var d \<Longrightarrow> no_ops var (delVar w d)"
proof -
  assume n: "no_ops var d"
  have keep: "no_ops var (fold (drop_override w) ps d) = no_ops var d" for ps d
    by (rule fold_invariant_set [where P = "\<lambda>d'. no_ops var d' = no_ops var d"])
      (auto simp: drop_override_def no_ops_def split: option.splits)
  have "own_flags (reset_cache d) var = own_flags d var" by (simp add: own_flags_def)
  with n show ?thesis
    by (auto simp: delVar_def Let_def keep) (auto simp: no_ops_def own_flags_set_local)
qed

lemma drop_ops_no_ops: "din var (local_dict d) \<Longrightarrow> no_ops var (drop_ops var d)"
  by (auto simp: drop_ops_def setvar_keywords_def no_ops_def del_flag_def own_flags_set_local)

lemma overridedata_shadow [simp]:
  "overridedata (set_local g d) = overridedata d" "overridedata (reset_cache d) = overridedata d"
  "overridedata (makeShadowCopy var d) = overridedata d" "overridedata (set_flag var f v d) = overridedata d"
  by (simp_all add: set_local_def reset_cache_def makeShadowCopy_def initVar_def Let_def set_flag_def
      split: option.splits list.splits)

lemma drop_overrides_no_ops:
  assumes "drop_overrides n env var d = Inr d'" and "no_ops var d"
  shows "no_ops var d' \<and> map_of (overridedata d') var = None"
proof (cases "din var (overridedata d)")
  case False
  with assms show ?thesis by (simp add: drop_overrides_def din_None)
next
  case True
  with assms(1) obtain d1 where d1: "need_overrides' n env d = Inr d1"
    and d': "d' = (let d2 = fold delVar (map fst (filter (\<lambda>(r, o'). active_override (the (ds_overrides d1)) o')
        (dgetd (overridedata d1) var []))) d1 in d2\<lparr>overridedata := ddel var (overridedata d2)\<rparr>)"
    by (auto simp: drop_overrides_def Let_def)
  from variables_parts(1) [OF need_overrides_variables [OF d1]] assms(2) have "no_ops var d1"
    by (simp add: no_ops_def own_flags_def local_dict_def)
  then have "no_ops var (fold delVar xs d1)" for xs
    by (induction xs arbitrary: d1) (auto simp: delVar_no_ops)
  then show ?thesis unfolding d' by (simp add: Let_def) (simp add: no_ops_def)
qed


text \<open>A plain assignment, without the checks of the name: what it leaves of the variable.\<close>

lemma set_plain_result:
  assumes "set_plain n env var v False d = Inr d'" and "CHR '':'' \<notin> set var"
  obtains fl where "findVar d' var = Some (dset ''_content'' v fl)" "\<And>k. k \<in> set setvar_keywords \<Longrightarrow> \<not> din k fl"
    "map_of (overridedata d') var = None"
proof -
  from assms obtain d1 where d1: "drop_overrides n env var (drop_ops var (makeShadowCopy var d)) = Inr d1"
    and d': "(let d = set_flag var ''_content'' v d1
              in if var \<in> set (overridevars d) then setvar_update_overridevars n env var v d else Inr d) = Inr d'"
    by (auto simp: set_plain_def Let_def)
  from drop_overrides_no_ops [OF d1 drop_ops_no_ops] local_after_shadow
  have ops: "no_ops var d1" and od: "map_of (overridedata d1) var = None" by auto
  have c: "contents d' = contents (set_flag var ''_content'' v d1)" and "overridedata d' = overridedata d1"
    using d' setvar_update_overridevars_contents [of n env var v "set_flag var ''_content'' v d1" d']
      setvar_update_overridevars_data [of n env var v "set_flag var ''_content'' v d1" d']
    by (auto simp: Let_def split: if_split_asm)
  with contents_parts(1) [OF c] ops od show ?thesis
    by (intro that [of "own_flags d1 var"]) (auto simp: findVar_set_flag no_ops_def)
qed

lemma getVar_plain:
  assumes "findVar d var = Some (dset ''_content'' v fl)" and "\<And>k. k \<in> set setvar_keywords \<Longrightarrow> \<not> din k fl"
    and "map_of (overridedata d) var = None"
  shows "getVar (Suc k) env var False d = Inr (v, d)"
proof -
  let ?l = "dset ''_content'' v fl"
  have ops: "ops_of (Some ?l) '':append'' = None" "ops_of (Some ?l) '':prepend'' = None" "ops_of (Some ?l) '':remove'' = None"
    using assms(2) by (auto simp: ops_of_def setvar_keywords_def din_None)
  show ?thesis
    by (simp add: getVar_def getVarFlag_body_def Let_def assms(1,3) override_value_def base_value_def ops run_ops_def
        expand_value_def add_removes_def apply_removes_def)
qed


section \<open>The value of a variable\<close>

text \<open>
  The reference: the pending operations that apply, around the content.  An operation with
  overrides applies when all of them are in the list of overrides.
\<close>

definition text_of :: "pval \<Rightarrow> string" where
  "text_of v = (case v of PStr s \<Rightarrow> s | _ \<Rightarrow> [])"

definition op_on :: "string list \<Rightarrow> pval \<times> string option \<Rightarrow> bool" where
  "op_on ovs = (\<lambda>(r, add). case add of None \<Rightarrow> True | Some s \<Rightarrow> s = [] \<or> set (split_on (CHR '':'') s) \<subseteq> set ovs)"

definition ops_on :: "string list \<Rightarrow> flags \<Rightarrow> string \<Rightarrow> string list" where
  "ops_on ovs fl k = map (text_of \<circ> fst) (filter (op_on ovs) (ops_list (dgetd fl k (POps []))))"

definition reference_text :: "string list \<Rightarrow> flags \<Rightarrow> string option" where
  "reference_text ovs fl =
     (let base = base_value (Some fl) ''_content'' False;
          pre = ops_on ovs fl '':prepend''; post = ops_on ovs fl '':append''
      in if base = PNone \<and> pre = [] \<and> post = [] then None
         else Some (concat (rev pre) @ text_of base @ concat post))"

definition text_flags :: "flags \<Rightarrow> bool" where
  "text_flags fl \<longleftrightarrow>
     (base_value (Some fl) ''_content'' False = PNone \<or> is_text (base_value (Some fl) ''_content'' False)) \<and>
     list_all (\<lambda>k. text_ops (dgetd fl k (POps []))) setvar_keywords"

definition text_val :: "string option \<Rightarrow> pval" where
  "text_val t = (case t of None \<Rightarrow> PNone | Some s \<Rightarrow> PStr s)"

lemma op_active_on: "ds_overrides d = Some ovs \<Longrightarrow> op_active d (snd x) = op_on ovs x"
  by (cases x) (simp add: op_active_def op_on_def split: option.splits)

lemma text_of_simps [simp]: "text_of (PStr s) = s" "text_of PNone = []" "text_val None = PNone" "text_val (Some s) = PStr s"
  by (simp_all add: text_of_def text_val_def)

lemma foldE_append_ops:
  assumes "ds_overrides d = Some ovs" and "list_all (is_text \<circ> fst) l"
  shows "foldE (apply_append d) l (text_val t) =
    Inr (let ts = map (text_of \<circ> fst) (filter (op_on ovs) l)
         in text_val (if t = None \<and> ts = [] then None else Some (text_of (text_val t) @ concat ts)))"
  using assms(2)
proof (induction l arbitrary: t)
  case Nil
  then show ?case by (cases t) (simp_all)
next
  case (Cons x l)
  obtain s add where x: "x = (PStr s, add)" using Cons.prems by (cases x) (auto simp: is_text_iff)
  have a: "op_active d add = op_on ovs x" using op_active_on [OF assms(1), of x] by (simp add: x)
  have "apply_append d x (text_val t) = Inr (text_val (if op_on ovs x then Some (text_of (text_val t) @ s) else t))"
    by (cases t) (simp_all add: apply_append_def x a [unfolded x] or_empty_def plus_val_def)
  with Cons show ?case by (cases t) (simp_all add: Let_def x)
qed

lemma foldE_prepend_ops:
  assumes "ds_overrides d = Some ovs" and "list_all (is_text \<circ> fst) l"
  shows "foldE (apply_prepend d) l (text_val t) =
    Inr (let ts = map (text_of \<circ> fst) (filter (op_on ovs) l)
         in text_val (if t = None \<and> ts = [] then None else Some (concat (rev ts) @ text_of (text_val t))))"
  using assms(2)
proof (induction l arbitrary: t)
  case Nil
  then show ?case by (cases t) (simp_all)
next
  case (Cons x l)
  obtain s add where x: "x = (PStr s, add)" using Cons.prems by (cases x) (auto simp: is_text_iff)
  have a: "op_active d add = op_on ovs x" using op_active_on [OF assms(1), of x] by (simp add: x)
  have "apply_prepend d x (text_val t) = Inr (text_val (if op_on ovs x then Some (s @ text_of (text_val t)) else t))"
    by (cases t) (simp_all add: apply_prepend_def x a [unfolded x] or_empty_def plus_val_def)
  with Cons show ?case by (cases t) (simp_all add: Let_def x)
qed

lemma ops_of_text:
  assumes "text_ops (dgetd fl k (POps []))"
  shows "case ops_of (Some fl) k of None \<Rightarrow> dgetd fl k (POps []) = POps [] | Some l \<Rightarrow> dgetd fl k (POps []) = POps l"
  using assms by (auto simp: ops_of_def text_ops_def dgetd_def split: option.splits pval.splits)

lemma run_text_ops:
  assumes "ds_overrides d = Some ovs" and "text_ops (dgetd fl k (POps []))"
  shows "run_ops get apply_append (ops_of (Some fl) k) (text_val t, d) =
      Inr (text_val (if t = None \<and> ops_on ovs fl k = [] then None else Some (text_of (text_val t) @ concat (ops_on ovs fl k))), d)"
    and "run_ops get apply_prepend (ops_of (Some fl) k) (text_val t, d) =
      Inr (text_val (if t = None \<and> ops_on ovs fl k = [] then None else Some (concat (rev (ops_on ovs fl k)) @ text_of (text_val t))), d)"
proof -
  have need: "need_overrides get d = Inr d" by (simp add: need_overrides_def assms(1))
  obtain l where l: "dgetd fl k (POps []) = POps l" "list_all (is_text \<circ> fst) l"
    using assms(2) by (auto simp: text_ops_def split: pval.splits)
  have on: "ops_on ovs fl k = map (text_of \<circ> fst) (filter (op_on ovs) l)" by (simp add: ops_on_def l ops_list_def)
  have "ops_of (Some fl) k = Some l \<or> ops_of (Some fl) k = None \<and> l = []"
    using ops_of_text [OF assms(2)] l(1) by (auto split: option.splits)
  with foldE_append_ops [OF assms(1) l(2), of t] foldE_prepend_ops [OF assms(1) l(2), of t]
  show "run_ops get apply_append (ops_of (Some fl) k) (text_val t, d) =
      Inr (text_val (if t = None \<and> ops_on ovs fl k = [] then None else Some (text_of (text_val t) @ concat (ops_on ovs fl k))), d)"
    "run_ops get apply_prepend (ops_of (Some fl) k) (text_val t, d) =
      Inr (text_val (if t = None \<and> ops_on ovs fl k = [] then None else Some (concat (rev (ops_on ovs fl k)) @ text_of (text_val t))), d)"
    by (cases t; auto simp: run_ops_def need on Let_def)+
qed

text \<open>Both loops together give the reference.\<close>

lemma run_reference:
  assumes "ds_overrides d = Some ovs" and "text_flags fl"
  shows "bindE (run_ops get apply_append (ops_of (Some fl) '':append'') (base_value (Some fl) ''_content'' False, d))
      (\<lambda>(v, d). run_ops get apply_prepend (ops_of (Some fl) '':prepend'') (v, d)) =
    Inr (text_val (reference_text ovs fl), d)"
proof -
  obtain t where t: "base_value (Some fl) ''_content'' False = text_val t"
    using assms(2) by (auto simp: text_flags_def is_text_iff) (metis text_of_simps(3), metis text_of_simps(4))
  have ops: "text_ops (dgetd fl '':append'' (POps []))" "text_ops (dgetd fl '':prepend'' (POps []))"
    using assms(2) by (simp_all add: text_flags_def setvar_keywords_def)
  let ?u = "if t = None \<and> ops_on ovs fl '':append'' = [] then None
            else Some (text_of (text_val t) @ concat (ops_on ovs fl '':append''))"
  have "reference_text ovs fl = (if ?u = None \<and> ops_on ovs fl '':prepend'' = [] then None
      else Some (concat (rev (ops_on ovs fl '':prepend'')) @ text_of (text_val ?u)))"
    by (cases t) (auto simp: t reference_text_def Let_def)
  then show ?thesis
    unfolding t run_text_ops(1) [OF assms(1) ops(1)] bindE_simps prod.case run_text_ops(2) [OF assms(1) ops(2)]
    by simp
qed

section \<open>Removals\<close>

definition strip_words :: "string list \<Rightarrow> string \<Rightarrow> string" where
  "strip_words ws s = concat (filter (\<lambda>w. w \<notin> set ws) (ws_split s))"

lemma concat_ws_split [simp]: "concat (ws_split s) = s"
  by (induction s rule: ws_split.induct) (auto split: list.splits)

lemma strip_no_words [simp]: "strip_words [] s = s"
  by (simp add: strip_words_def)
lemma words_word_space:
  "\<forall>x \<in> set w. \<not> is_space x \<Longrightarrow> is_space c \<Longrightarrow> words (w @ c # s) = (if w = [] then [] else [w]) @ words s"
  using words_acc_word [of w "[]" "c # s"] by (simp add: words_def)

lemma ws_split_word: "\<forall>x \<in> set w. \<not> is_space x \<Longrightarrow> ws_split w = [w]"
  by (induction w) auto

lemma ws_split_word_space:
  "\<forall>x \<in> set w. \<not> is_space x \<Longrightarrow> is_space c \<Longrightarrow> ws_split (w @ c # s) = w # [c] # ws_split s"
  by (induction w) auto

lemma first_space:
  obtains "\<forall>x \<in> set s. \<not> is_space x"
  | w c r where "s = w @ c # r" "\<forall>x \<in> set w. \<not> is_space x" "is_space c"
proof (cases "\<exists>x \<in> set s. is_space x")
  case True
  from split_list_first_prop [OF this] that(2) show ?thesis by blast
qed (use that(1) in blast)

lemma strip_words_laws:
  assumes "\<forall>w \<in> set ws. \<forall>x \<in> set w. \<not> is_space x"
  shows "words (strip_words ws s) = filter (\<lambda>w. w \<notin> set ws) (words s) \<and>
    filter is_space (strip_words ws s) = filter is_space s"
proof (induction s rule: length_induct)
  case (1 s)
  show ?case
  proof (cases rule: first_space [of s])
    case 1
    then have "strip_words ws s = (if s \<in> set ws then [] else s)" "words s = (if s = [] then [] else [s])"
      "filter is_space s = []" "words [] = []"
      using words_single [of s] by (auto simp: strip_words_def ws_split_word filter_empty_conv) (simp_all add: words_def)
    then show ?thesis by auto
  next
    case (2 w c r)
    have c: "[c] \<notin> set ws" using assms 2(3) by fastforce
    have st: "strip_words ws s = (if w \<in> set ws then [] else w) @ c # strip_words ws r"
      using 2 c by (simp add: strip_words_def ws_split_word_space)
    have IH: "words (strip_words ws r) = filter (\<lambda>w. w \<notin> set ws) (words r)"
      "filter is_space (strip_words ws r) = filter is_space r"
      using 1 2(1) by simp_all
    have "words (strip_words ws s) = (if w = [] \<or> w \<in> set ws then [] else [w]) @ words (strip_words ws r)"
      unfolding st using words_word_space [OF _ 2(3), of "if w \<in> set ws then [] else w"] 2(2) by auto
    moreover have "words s = (if w = [] then [] else [w]) @ words r"
      unfolding 2(1) by (rule words_word_space [OF 2(2,3)])
    moreover have "filter is_space w = []" using 2(2) by (simp add: filter_empty_conv)
    moreover have "filter is_space (strip_words ws s) = c # filter is_space r"
      unfolding st using \<open>filter is_space w = []\<close> 2(3) IH(2) by simp
    ultimately show ?thesis using IH 2(1,3) by auto
  qed
qed

definition removed_words :: "string list \<Rightarrow> flags \<Rightarrow> string list" where
  "removed_words ovs fl = concat (map words (ops_on ovs fl '':remove''))"

lemma filter_removed_words:
  assumes "vp_value p = PStr s" and "set (concat (map snd ws)) = set l"
  shows "\<exists>q. filter_removed ws p = Inr q \<and> vp_value q = PStr (strip_words l s)"
proof -
  have "(map fst (filter (\<lambda>(r, l). v \<in> set l) ws) = []) = (v \<notin> set l)" for v
    unfolding assms(2) [symmetric] by (fastforce simp: filter_empty_conv)
  with assms(1) show ?thesis by (simp add: filter_removed_def Let_def strip_words_def)
qed

definition no_refs :: "string \<Rightarrow> bool" where
  "no_refs s \<longleftrightarrow> \<not> contains_sub s ''${''"

lemma expand_no_refs:
  assumes "v = text_val t" and "t = None \<or> no_refs (text_of v)"
  shows "\<exists>p. expandWithRefs (Suc k) env get v n d = Inr (p, d) \<and> vp_value p = v"
  using assms by (cases t) (auto simp: expandWithRefs_def no_refs_def VariableParse_def)

lemma collect_text_removes:
  assumes "ds_overrides d = Some ovs"
  shows "set (collect_removes d l rs) = set rs \<union> set (map fst (filter (op_on ovs) l))"
proof (induction l arbitrary: rs)
  case (Cons x l)
  obtain r add where x: "x = (r, add)" by fastforce
  have "op_active d add = op_on ovs x" using op_active_on [OF assms, of x] by (simp add: x)
  with Cons [of "if op_on ovs x then sadd r rs else rs"] show ?case by (auto simp: collect_removes_def x)
qed (simp add: collect_removes_def)

lemma expand_text_removes:
  assumes "\<And>r. r \<in> set rs \<Longrightarrow> is_text r \<and> no_refs (text_of r)"
  shows "expand_removes (Suc k) env get rs d = Inr (map (\<lambda>r. (r, words (text_of r))) rs, d)"
proof -
  have "foldE (\<lambda>r (ws, d). bindE (expandWithRefs (Suc k) env get r None d) (\<lambda>(p, d).
           case vp_value p of PStr s \<Rightarrow> Inr (ws @ [(r, words s)], d) | _ \<Rightarrow> Inl AttributeError)) rs (ws, d)
      = Inr (ws @ map (\<lambda>r. (r, words (text_of r))) rs, d)" for ws
    using assms
  proof (induction rs arbitrary: ws)
    case (Cons r rs)
    obtain s where s: "r = PStr s" "no_refs s" using Cons.prems [of r] by (auto simp: is_text_iff)
    obtain p where "expandWithRefs (Suc k) env get r None d = Inr (p, d)" "vp_value p = r"
      using expand_no_refs [of r "Some s" k env get None d] s by auto
    with Cons s show ?case by simp
  qed simp
  from this [of "[]"] show ?thesis by (simp add: expand_removes_def)
qed

lemma no_removes: "add_removes get None own x = Inr x"
  by (cases x) (simp add: add_removes_def)

text \<open>The removals of a variable, after the expansion \<open>p\<close> of its value.\<close>

lemma removes_reference:
  assumes d: "ds_overrides d = Some ovs" and ops: "text_ops (dgetd fl '':remove'' (POps []))"
    and rs: "list_all no_refs (ops_on ovs fl '':remove'')" and p: "vp_value p = PStr s"
  shows "\<exists>rs q. add_removes get (ops_of (Some fl) '':remove'') None ([], d) = Inr (rs, d) \<and>
    apply_removes (Suc k) env get rs (Some p) d = Inr (Some q, d) \<and>
    vp_value q = PStr (strip_words (removed_words ovs fl) s)"
proof -
  have need: "need_overrides get d = Inr d" by (simp add: need_overrides_def d)
  obtain l where l: "dgetd fl '':remove'' (POps []) = POps l" "list_all (is_text \<circ> fst) l"
    using ops by (auto simp: text_ops_def split: pval.splits)
  define rs where "rs = collect_removes d l []"
  have on: "ops_on ovs fl '':remove'' = map (text_of \<circ> fst) (filter (op_on ovs) l)"
    by (simp add: ops_on_def l ops_list_def)
  have "set rs = set (map fst (filter (op_on ovs) l))" by (simp add: rs_def collect_text_removes [OF d])
  then have strs: "is_text r \<and> no_refs (text_of r)" if "r \<in> set rs" for r
    using that l(2) rs [unfolded on] by (fastforce simp: list_all_iff)
  have words: "set (concat (map snd (map (\<lambda>r. (r, words (text_of r))) rs))) = set (removed_words ovs fl)"
    using \<open>set rs = _\<close> by (auto simp: removed_words_def on)
  have add: "add_removes get (ops_of (Some fl) '':remove'') None ([], d) = Inr (rs, d)"
    using ops_of_text [OF ops] l(1)
    by (auto simp: add_removes_def need share_removes_def rs_def collect_removes_def split: option.splits)
  show ?thesis
  proof (cases "rs = []")
    case True
    with words have "removed_words ovs fl = []" by simp
    with add True p show ?thesis by (auto simp: apply_removes_def)
  next
    case False
    from filter_removed_words [OF p words] obtain q where
      "filter_removed (map (\<lambda>r. (r, words (text_of r))) rs) p = Inr q"
      "vp_value q = PStr (strip_words (removed_words ovs fl) s)" by auto
    with add False show ?thesis
      by (intro exI [of _ rs] exI [of _ q]) (simp add: apply_removes_def expand_text_removes [OF strs])
  qed
qed

lemma getVar_reference_value:
  assumes "findVar d var = Some fl" and "map_of (overridedata d) var = None" and "ds_overrides d = Some ovs"
    and "map_of (expand_cache d) var = None" and "text_flags fl" and "reference_text ovs fl = Some s" and "no_refs s"
    and "list_all no_refs (ops_on ovs fl '':remove'')"
  shows "\<exists>d'. getVar (Suc (Suc k)) env var True d = Inr (PStr (strip_words (removed_words ovs fl) s), d')"
proof -
  let ?g = "\<lambda>var flag e r. getVarFlag (Suc k) env var flag e False False r"
  obtain p where p: "expandWithRefs (Suc k) env (reader ?g) (PStr s) (Some var) d = Inr (p, d)" "vp_value p = PStr s"
    using expand_no_refs [of "PStr s" "Some s" k env "reader ?g" "Some var" d] assms(7) by auto
  from run_reference [OF assms(3,5), of "reader ?g"] obtain v1 d1 where
    runs: "run_ops (reader ?g) apply_append (ops_of (Some fl) '':append'') (base_value (Some fl) ''_content'' False, d) = Inr (v1, d1)"
      "run_ops (reader ?g) apply_prepend (ops_of (Some fl) '':prepend'') (v1, d1) = Inr (PStr s, d)"
    by (auto simp: assms(6))
  have "text_ops (dgetd fl '':remove'' (POps []))"
    using assms(5) by (simp add: text_flags_def setvar_keywords_def)
  from removes_reference [OF assms(3) this assms(8) p(2)] obtain rs q where
    rm: "add_removes (reader ?g) (ops_of (Some fl) '':remove'') None ([], d) = Inr (rs, d)"
      "apply_removes (Suc k) env (reader ?g) rs (Some p) d = Inr (Some q, d)"
      "vp_value q = PStr (strip_words (removed_words ovs fl) s)" by blast
  have body: "getVarFlag (Suc (Suc k)) env var ''_content'' True False False False d = 
      (if s = [] then Inr (PStr [], None, d\<lparr>expand_cache := dset var p (expand_cache d)\<rparr>)
       else Inr (vp_value q, None, d\<lparr>expand_cache := dset var q (expand_cache d)\<rparr>))"
    by (simp add: getVarFlag_body_def Let_def cache_name_def assms(1,2,4) override_value_def runs expand_value_def p
        truthy_val_def rm no_removes)
  have "strip_words ws [] = []" for ws by (simp add: strip_words_def)
  with rm(3) show ?thesis unfolding getVar_def body by (cases "s = []") simp_all
qed


end
