(* ===== verification/VarRules.thy ===== *)
theory VarRules
  imports VarValues
begin

text \<open>
  The rules of overrides, of expansion and of the names of a store: the override listed last
  applies, expanding a text is one substitution, a variable that refers to itself is an error,
  and the names listed are the visible ones.
\<close>

section \<open>The override that applies\<close>

fun nub :: "'a list \<Rightarrow> 'a list" where
  "nub [] = []"
| "nub (x # xs) = x # filter (\<lambda>y. y \<noteq> x) (nub xs)"

text \<open>Of the overrides that have a version of the variable, the one whose first position is the last.\<close>

definition reference_override :: "string list \<Rightarrow> (string \<times> string) list \<Rightarrow> string option" where
  "reference_override ovs od =
     (let hits = filter (\<lambda>o'. o' \<in> snd ` set od) (nub ovs)
      in if hits = [] then None else map_of (rev (map prod.swap od)) (last hits))"

lemma no_colon_suffix: "CHR '':'' \<notin> set a \<Longrightarrow> \<not> endswith a (CHR '':'' # o')"
  by (auto simp: endswith_iff)

lemma pick_step_plain:
  assumes "CHR '':'' \<notin> set a"
  shows "pick_step o' a (active, m, chg) =
    (if a = o' then (ddel o' active, map_of active o', chg) else (active, m, chg))"
  using no_colon_suffix [OF assms, of o'] by (simp add: pick_step_def)

lemma pick_fold_plain:
  assumes "\<And>a. a \<in> set as \<Longrightarrow> CHR '':'' \<notin> set a" and "distinct as"
  shows "fold (pick_step o') as (active, m, chg) =
    (if o' \<in> set as then (ddel o' active, map_of active o', chg) else (active, m, chg))"
  using assms by (induction as arbitrary: active m) (auto simp: pick_step_plain)

lemma pick_round_plain:
  assumes "\<And>a. din a active \<Longrightarrow> CHR '':'' \<notin> set a" and "distinct (dkeys active)"
  shows "\<exists>active'. pick_round ovs (active, m, chg) =
    (active', let hits = filter (\<lambda>o'. din o' active) (nub ovs) in if hits = [] then m else map_of active (last hits), chg)"
  unfolding pick_round_def
  using assms
proof (induction ovs arbitrary: active m)
  case (Cons o' ovs)
  have fold: "fold (pick_step o') (dkeys active) (active, m, chg) =
      (if din o' active then (ddel o' active, map_of active o', chg) else (active, m, chg))"
    using pick_fold_plain [of "dkeys active" o' active m chg] Cons.prems unfolding din_def by simp
  show ?case
  proof (cases "din o' active")
    case False
    then have "filter (\<lambda>x. din x active) (nub (o' # ovs)) = filter (\<lambda>x. din x active) (nub ovs)"
      by (auto intro: filter_cong)
    with False Cons.IH [OF Cons.prems] fold show ?thesis by simp
  next
    case True
    let ?act = "ddel o' active" and ?hits = "filter (\<lambda>x. din x (ddel o' active)) (nub ovs)"
    have "filter (\<lambda>x. din x active) (nub (o' # ovs)) = o' # ?hits"
      using True by (auto intro: filter_cong)
    moreover have "last ?hits \<noteq> o'" if "?hits \<noteq> []" using last_in_set [OF that] by auto
    moreover obtain active' where "fold (\<lambda>o' s. fold (pick_step o') (dkeys (fst s)) s) ovs (?act, map_of active o', chg) =
        (active', let hits = ?hits in if hits = [] then map_of active o' else map_of ?act (last hits), chg)"
      using Cons.IH [of ?act "map_of active o'"] Cons.prems by auto
    ultimately show ?thesis using True fold by (auto simp: Let_def)
  qed
qed simp

lemma active_dict_laws:
  assumes "list_all (\<lambda>(r, o'). CHR '':'' \<notin> set o') od"
  shows "distinct (dkeys (active_dict ovs od))"
    and "map_of (active_dict ovs od) x = (if x \<in> set ovs then map_of (rev (map prod.swap od)) x else None)"
proof -
  define f where "f = (\<lambda>(r, o') active. if active_override ovs o' then dset o' r active else (active :: (string, string) dict))"
  have "distinct (dkeys (fold f od d)) \<and>
      map_of (fold f od d) x = (case map_of (rev (map prod.swap od)) x of Some r \<Rightarrow> if x \<in> set ovs then Some r else map_of d x
                                | None \<Rightarrow> map_of d x)" if "distinct (dkeys d)" for d
    using assms that
  proof (induction od arbitrary: d)
    case (Cons e od)
    obtain r o' where e: "e = (r, o')" by fastforce
    have act: "active_override ovs o' = (o' \<in> set ovs)" using Cons.prems(1) by (simp add: active_override_def e)
    have f: "f (r, o') d = (if o' \<in> set ovs then dset o' r d else d)" by (simp add: f_def act)
    then have "distinct (dkeys (f (r, o') d))" using Cons.prems(2) by simp
    with Cons.IH [OF _ this] Cons.prems(1) show ?case
      by (auto simp: e f map_add_def simp del: map_of_eq_Some_iff split: option.splits)
  qed simp
  from this [of "[]"] show "distinct (dkeys (active_dict ovs od))"
    "map_of (active_dict ovs od) x = (if x \<in> set ovs then map_of (rev (map prod.swap od)) x else None)"
    by (auto simp: active_dict_def f_def split: option.splits)
qed

lemma set_nub [simp]: "set (nub xs) = set xs"
  by (induction xs) auto


section \<open>Expansion\<close>

definition var_name :: "string \<Rightarrow> bool" where
  "var_name x \<longleftrightarrow> x \<noteq> [] \<and> list_all name_char x"

lemma not_name_char_brace [simp]: "\<not> name_char (CHR ''}'')"
  by code_simp

lemma match_var_ref:
  assumes "var_name x"
  shows "match_var (CHR ''$'' # CHR ''{'' # x @ CHR ''}'' # r) = Some (x, r)"
proof -
  have "takeWhile name_char (x @ CHR ''}'' # r) = x" "dropWhile name_char (x @ CHR ''}'' # r) = CHR ''}'' # r"
    using assms by (auto simp: var_name_def list_all_iff takeWhile_append dropWhile_append)
  with assms show ?thesis by (simp add: match_var_def var_name_def startswith_iff Let_def)
qed

lemma match_var_char: "c \<noteq> CHR ''$'' \<Longrightarrow> match_var (c # s) = None"
  by (simp add: match_var_def startswith_iff)

lemma sub_matches_skip:
  assumes "\<And>c s. c \<in> set pre \<Longrightarrow> mat (c # s) = None"
  shows "sub_matches mat f (pre @ s) st = bindE (sub_matches mat f s st) (\<lambda>(out, st). Inr (pre @ out, st))"
  using assms
proof (induction pre)
  case Nil
  show ?case by (cases "sub_matches mat f s st") auto
next
  case (Cons c pre)
  then show ?case by (cases "sub_matches mat f s st") auto
qed

datatype segment = Lit string | Ref string

fun render :: "segment list \<Rightarrow> string" where
  "render [] = []"
| "render (Lit s # segs) = s @ render segs"
| "render (Ref x # segs) = ''${'' @ x @ ''}'' @ render segs"

fun substitute :: "(string \<Rightarrow> string) \<Rightarrow> segment list \<Rightarrow> string" where
  "substitute f [] = []"
| "substitute f (Lit s # segs) = s @ substitute f segs"
| "substitute f (Ref x # segs) = f x @ substitute f segs"

fun seg_ok :: "(string \<Rightarrow> bool) \<Rightarrow> segment \<Rightarrow> bool" where
  "seg_ok ok (Lit s) \<longleftrightarrow> CHR ''$'' \<notin> set s"
| "seg_ok ok (Ref x) \<longleftrightarrow> var_name x \<and> ok x"

lemma sub_vars_render:
  assumes "list_all (seg_ok (\<lambda>x. vp_name vp \<noteq> Some x \<and> get x ''_content'' d = Inr (PStr (f x), d))) segs"
  shows "\<exists>refs. sub_matches match_var (var_sub get) (render segs) (vp, d) =
    Inr (substitute f segs, vp\<lparr>vp_refs := refs\<rparr>, d)"
  using assms
proof (induction segs arbitrary: vp rule: render.induct)
  case (1 vp)
  show ?case by (intro exI [of _ "vp_refs vp"]) simp
next
  case (2 s segs)
  then obtain refs where "sub_matches match_var (var_sub get) (render segs) (vp, d) =
      Inr (substitute f segs, vp\<lparr>vp_refs := refs\<rparr>, d)" by auto
  moreover have "match_var (c # t) = None" if "c \<in> set s" for c t
    using 2(2) that by (intro match_var_char) auto
  ultimately show ?case by (intro exI [of _ refs]) (simp add: sub_matches_skip)
next
  case (3 x segs)
  let ?vp = "vp\<lparr>vp_refs := sadd x (vp_refs vp)\<rparr>"
  from 3(2) have "list_all (seg_ok (\<lambda>x. vp_name ?vp \<noteq> Some x \<and> get x ''_content'' d = Inr (PStr (f x), d))) segs"
    by simp
  from 3(1) [OF this] obtain refs where "sub_matches match_var (var_sub get) (render segs) (?vp, d) =
      Inr (substitute f segs, ?vp\<lparr>vp_refs := refs\<rparr>, d)" by blast
  moreover have "var_sub get x (vp, d) = Inr (f x, ?vp, d)"
    using 3(2) by (simp add: var_sub_def at_state_def)
  ultimately show ?case using 3(2) match_var_ref [of x "render segs"] by (intro exI [of _ refs]) simp
qed

lemma contains_sub_Cons: "contains_sub (c # s) p \<longleftrightarrow> startswith (c # s) p \<or> contains_sub s p"
proof -
  have "[0..<Suc (length (c # s))] = 0 # map Suc [0..<Suc (length s)]"
    by (simp add: map_Suc_upt upt_conv_Cons del: upt_Suc)
  then show ?thesis unfolding contains_sub_def by (simp del: upt_Suc set_upt)
qed

lemma sub_python_no_refs: "no_refs s \<Longrightarrow> sub_matches match_python f s st = Inr (s, st)"
proof (induction s)
  case (Cons c s)
  then have "match_python (c # s) = None" "no_refs s"
    by (auto simp: no_refs_def contains_sub_Cons match_python_def startswith_iff)
  with Cons.IH show ?case by simp
qed simp

lemma render_no_refs:
  "list_all (seg_ok ok) segs \<Longrightarrow> \<not> contains_sub (render segs) ''${'' \<Longrightarrow> substitute f segs = render segs"
proof (induction segs rule: render.induct)
  case (2 s segs)
  have "contains_sub t ''${'' \<Longrightarrow> contains_sub (s @ t) ''${''" for t
    by (induction s) (simp_all add: contains_sub_Cons)
  with 2 show ?case by auto
qed (auto simp: contains_sub_Cons startswith_iff)

text \<open>One round of expansion of a text whose references have values without references.\<close>

lemma expand_loop_render:
  assumes segs: "list_all (seg_ok (\<lambda>x. vp_name vp \<noteq> Some x \<and> get x ''_content'' d = Inr (PStr (f x), d))) segs"
    and result: "no_refs (substitute f segs)"
  shows "\<exists>refs. expand_loop (Suc (Suc k)) env get (render segs) (vp, d) = Inr (substitute f segs, vp\<lparr>vp_refs := refs\<rparr>, d)"
proof (cases "contains_sub (render segs) ''${''")
  case False
  with render_no_refs [OF segs] show ?thesis by (intro exI [of _ "vp_refs vp"]) simp
next
  case True
  from sub_vars_render [of vp get d f, OF segs] obtain refs where
    "sub_matches match_var (var_sub get) (render segs) (vp, d) = Inr (substitute f segs, vp\<lparr>vp_refs := refs\<rparr>, d)" by blast
  with True result show ?thesis
    by (intro exI [of _ refs]) (simp add: expand_round_def sub_python_no_refs no_refs_def)
qed


text \<open>
  C17: A variable that refers to itself is an error.  When the text that the flags of a variable
  describe refers to the variable, after any text without a dollar sign, \<open>getVar\<close> raises
  \<open>ExpansionError\<close> and does not loop.
\<close>

theorem self_reference_raises:
  assumes "findVar d var = Some fl" and "map_of (overridedata d) var = None" and "ds_overrides d = Some ovs"
    and "map_of (expand_cache d) var = None" and "text_flags fl" and "var_name var"
    and "reference_text ovs fl = Some (pre @ ''${'' @ var @ ''}'' @ post)" and "CHR ''$'' \<notin> set pre"
  shows "getVar (Suc (Suc k)) env var True d = Inl ExpansionError"
proof -
  let ?g = "\<lambda>var flag e r. getVarFlag (Suc k) env var flag e False False r"
  let ?s = "pre @ ''${'' @ var @ ''}'' @ post" and ?st = "(VariableParse (Some var) (PStr (pre @ ''${'' @ var @ ''}'' @ post)) PNone, d)"
  from run_reference [OF assms(3,5), of "reader ?g"] obtain v1 d1 where
    runs: "run_ops (reader ?g) apply_append (ops_of (Some fl) '':append'') (base_value (Some fl) ''_content'' False, d) = Inr (v1, d1)"
      "run_ops (reader ?g) apply_prepend (ops_of (Some fl) '':prepend'') (v1, d1) = Inr (PStr ?s, d)"
    by (auto simp: assms(7))
  have "var_sub (reader ?g) var ?st = Inl (PyException ''variable references itself'', ?st)"
    using assms(6) by (simp add: var_sub_def VariableParse_def name_or_def var_name_def)
  moreover have "match_var (c # t) = None" if "c \<in> set pre" for c t
    using assms(8) that by (intro match_var_char) auto
  ultimately have "sub_matches match_var (var_sub (reader ?g)) ?s ?st = Inl (PyException ''variable references itself'', ?st)"
    using match_var_ref [OF assms(6), of post] by (simp add: sub_matches_skip)
  moreover have "contains_sub ?s ''${''"
    by (induction pre) (simp_all add: contains_sub_Cons startswith_iff)
  ultimately have "expandWithRefs (Suc k) env (reader ?g) (PStr ?s) (Some var) d = Inl ExpansionError"
    by (simp add: expandWithRefs_def expand_round_def wrap_error_def)
  then have "expand_value (Suc k) env (reader ?g) True (PStr ?s) var d = Inl ExpansionError"
    by (simp only: expand_value_def if_True bindE_simps)
  then show ?thesis
    by (simp add: getVar_def getVarFlag_body_def Let_def cache_name_def assms(1,2,4) override_value_def runs del: append_Cons)
qed

section \<open>The names of a store\<close>

lemma keylist_visible:
  assumes "list_all (distinct \<circ> dkeys) fs"
  shows "v \<in> set (keylist ovs fs deleted) \<longleftrightarrow>
    v \<notin> set ovs \<and> v \<notin> set deleted \<and> (case find_frames fs v of None \<Rightarrow> False | Some fl \<Rightarrow> fl \<noteq> [])"
  using assms
proof (induction fs arbitrary: deleted)
  case (Cons f fs)
  have in_f: "(\<exists>fl. (v, fl) \<in> set f \<and> P fl) \<longleftrightarrow> (\<exists>fl. map_of f v = Some fl \<and> P fl)" for P
    using Cons.prems by auto
  define dels where "dels = map fst (filter (\<lambda>(k, fl). fl = []) (filter (\<lambda>(k, fl). k \<notin> set deleted \<and> k \<notin> set ovs) f))"
  have dels: "v \<in> set dels \<longleftrightarrow> v \<notin> set deleted \<and> v \<notin> set ovs \<and> map_of f v = Some []"
    unfolding dels_def using in_f [of "\<lambda>fl. fl = []"] by force
  have "v \<in> set (keylist ovs (f # fs) deleted) \<longleftrightarrow>
      v \<notin> set deleted \<and> v \<notin> set ovs \<and> (\<exists>fl. map_of f v = Some fl \<and> fl \<noteq> []) \<or> v \<in> set (keylist ovs fs (deleted @ dels))"
    using in_f [of "\<lambda>fl. fl \<noteq> []"]
    unfolding keylist.simps Let_def dels_def [symmetric] set_sunion Un_iff by (simp add: image_iff) blast
  with Cons.IH [of "deleted @ dels"] Cons.prems show ?case
    by (auto simp: dels simp del: map_of_eq_Some_iff keylist.simps split: option.splits)
qed simp

text \<open>
  The names of a store are the visible ones: those whose nearest dictionary has flags for
  them, and those with an override that is active.  A name deleted in a copy is not listed though
  a parent still has it, and a name deleted in a parent is when the copy has set it again.
\<close>

theorem keys_are_visible:
  assumes "ds_keys n env d = Inr (ks, d')" and "list_all (distinct \<circ> dkeys) (frames d)"
  shows "v \<in> set ks \<longleftrightarrow> v \<in> set (overridden d') \<or> (case findVar d v of None \<Rightarrow> False | Some fl \<Rightarrow> fl \<noteq> [])"
proof -
  from assms(1) obtain need: "need_overrides' n env d = Inr d'"
    and ks: "ks = keylist (overridden d') (frames d') [] @ overridden d'"
    by (auto simp: ds_keys_def)
  have "frames d' = frames d" by (rule variables_parts(1) [OF need_overrides_variables [OF need]])
  with ks keylist_visible [OF assms(2), of v "overridden d'" "[]"] show ?thesis
    by (auto simp: findVar_def)
qed

end
