(* ===== verification/VarProps.thy ===== *)
theory VarProps
  imports VarRules
begin

text \<open>
  What the data store promises: reading keeps the variables, writing is writing one flat map, a
  plain assignment wins, the value of a variable is the one its operations and removals describe,
  the override listed last applies, and the names it lists are the visible ones.  At the end,
  small stores on which the code does something else than it means to.
\<close>

section \<open>A small store\<close>

definition demo_env :: ds_env where
  "demo_env = \<lparr>de_compile = (\<lambda>_. Inr ()), de_parse = (\<lambda>_ _. ([], [], [])), de_eval = (\<lambda>_ c. Inr c)\<rparr>"

definition right_or :: "'a \<Rightarrow> 'e + 'a \<Rightarrow> 'a" where
  "right_or x m = (case m of Inl _ \<Rightarrow> x | Inr y \<Rightarrow> y)"

definition demo_writes :: "var_write list" where
  "demo_writes =
     [WFlag ''A'' ''_content'' (PStr ''1''), WFlag ''B'' ''doc'' (PStr ''b''), WCopy, WFlag ''A'' ''doc'' (PStr ''a''),
      WDel ''B'', WCopy, WFlags ''C'' [(''_content'', PStr ''no''), (''task'', PStr ''1'')], WDelFlag ''A'' ''doc'']"

lemma demo_writes_return:
  "run_writes 3 demo_env demo_writes DataSmart = Inr (right_or DataSmart (run_writes 3 demo_env demo_writes DataSmart))"
  by code_simp


section \<open>Reading\<close>


section \<open>Examples\<close>

text \<open>A store with its list of overrides settled.\<close>

definition demo_store :: dstore where
  "demo_store = DataSmart\<lparr>frames :=
     [[(''A'', [(''_content'', PStr ''b c''), ('':append'', POps [(PStr '' d'', None), (PStr '' e'', Some ''qemu:arm''), (PStr '' f'', Some ''x86'')]),
          ('':prepend'', POps [(PStr ''a '', Some ''arm'')]), ('':remove'', POps [(PStr ''c d'', None)])]),
       (''B'', [(''_content'', PStr ''see ${A}'')]), (''C'', [(''_content'', PStr ''loop ${C} end'')]), (''Gone'', [])],
      [(''Gone'', [(''_content'', PStr ''1'')]), (''Up'', [(''_content'', PStr ''2'')])]],
     overridedata := [(''Plain'', [(''Plain:arm'', ''arm'')])], ds_overrides := Some [''arm'', ''qemu'']\<rparr>"

definition read_store :: dstore where
  "read_store = (case getVar 6 demo_env ''B'' True demo_store of Inl e \<Rightarrow> DataSmart | Inr (v, d) \<Rightarrow> d)"

lemma read_store_eq: "getVar 6 demo_env ''B'' True demo_store = Inr (PStr ''see a b   e'', read_store)"
  by code_simp






lemma self_reference_raises_witness: "getVar 2 demo_env ''C'' True demo_store = Inl ExpansionError"
proof -
  define fl where "fl = flags_in (findVar demo_store) ''C''"
  have "findVar demo_store ''C'' = Some fl" unfolding fl_def by code_simp
  moreover have "map_of (overridedata demo_store) ''C'' = None" "map_of (expand_cache demo_store) ''C'' = None"
    "ds_overrides demo_store = Some [''arm'', ''qemu'']" "var_name ''C''" by code_simp+
  moreover have "text_flags fl" "reference_text [''arm'', ''qemu''] fl = Some (''loop '' @ ''${'' @ ''C'' @ ''}'' @ '' end'')"
    "CHR ''$'' \<notin> set ''loop ''" unfolding fl_def by code_simp+
  ultimately have "getVar (Suc (Suc 0)) demo_env ''C'' True demo_store = Inl ExpansionError"
    by (intro self_reference_raises)
  then show ?thesis by (simp add: numeral_2_eq_2)
qed

lemma keys_are_visible_witness:
  "ds_keys 3 demo_env demo_store = Inr ([''A'', ''B'', ''C'', ''Up'', ''Plain''], demo_store) \<and>
   \<not> ''Gone'' \<in> set [''A'', ''B'', ''C'', ''Up'', ''Plain''] \<and> ''Up'' \<in> set [''A'', ''B'', ''C'', ''Up'', ''Plain'']"
proof -
  have ks: "ds_keys 3 demo_env demo_store = Inr ([''A'', ''B'', ''C'', ''Up'', ''Plain''], demo_store)"
    and fs: "list_all (distinct \<circ> dkeys) (frames demo_store)" by code_simp+
  have "findVar demo_store ''Gone'' = Some []" "findVar demo_store ''Up'' = Some [(''_content'', PStr ''2'')]"
    "''Gone'' \<notin> set (overridden demo_store)" by code_simp+
  with keys_are_visible [OF ks fs, of "''Gone''"] keys_are_visible [OF ks fs, of "''Up''"] ks show ?thesis by simp
qed

definition demo_strings :: "(string \<times> string) list" where
  "demo_strings = [(''OVERRIDES'', ''${X}''), (''X'', ''arm''), (''A'', ''b''), (''A:arm'', ''c''), (''A:append:arm'', ''d''), (''A:remove'', ''c'')]"

lemma strings_in_strings_out_witness:
  "(case foldE (\<lambda>(v, s). setVar 6 demo_env v (PStr s) False) demo_strings DataSmart of
      Inl e \<Rightarrow> False
    | Inr d \<Rightarrow> (case getVarFlag 6 demo_env ''A'' ''_content'' True False False False d of
          Inl err \<Rightarrow> \<not> type_error err | Inr (v, p, d') \<Rightarrow> val_ok v))"
proof -
  have "case foldE (\<lambda>(v, s). setVar 6 demo_env v (PStr s) False) demo_strings DataSmart of Inl e \<Rightarrow> False | Inr d \<Rightarrow> True"
    by code_simp
  then obtain d where d: "foldE (\<lambda>(v, s). setVar 6 demo_env v (PStr s) False) demo_strings DataSmart = Inr d"
    by (auto split: sum.splits)
  have "list_all (\<lambda>(v, s). user_name v) demo_strings" "\<not> internal_name (cache_name ''A'' ''_content'')" by code_simp+
  from strings_in_strings_out [OF d this(1) plain_flag_read(1) this(2), of 6 True False False] d
  show ?thesis by simp
qed

section \<open>Where the store does something else\<close>

definition do_sets :: "(string \<times> string) list \<Rightarrow> dstore \<Rightarrow> pyerr + dstore" where
  "do_sets ws d = foldE (\<lambda>(k, v). setVar 6 demo_env k (PStr v) False) ws d"

definition value_of :: "string \<Rightarrow> bool \<Rightarrow> pyerr + dstore \<Rightarrow> pyerr + pval" where
  "value_of var e m = bindE m (\<lambda>d. bindE (getVar 6 demo_env var e d) (\<lambda>(v, d). Inr v))"

definition then_read :: "string \<Rightarrow> pyerr + dstore \<Rightarrow> pyerr + dstore" where
  "then_read var m = bindE m (\<lambda>d. bindE (getVar 6 demo_env var True d) (\<lambda>(v, d). Inr d))"

text \<open>
  \<open>_setvar_update_overridevars\<close> collects the variables \<open>OVERRIDES\<close> depends on from values that are
  expanded already, so it sees one level only: with \<open>OVERRIDES\<close> naming \<open>X\<close> and \<open>X\<close> naming \<open>Y\<close>, a
  later write of \<open>Y\<close> leaves the list of overrides as it was.
\<close>

theorem stale_overrides:
  "value_of ''A'' True (bindE (then_read ''A'' (do_sets [(''Y'', ''arm''), (''X'', ''${Y}''), (''OVERRIDES'', ''${X}''),
       (''A'', ''base''), (''A:arm'', ''arm value''), (''A:qemu'', ''qemu value'')] DataSmart))
     (do_sets [(''Y'', ''qemu'')])) = Inr (PStr ''arm value'') \<and>
   value_of ''OVERRIDES'' True (bindE (then_read ''A'' (do_sets [(''Y'', ''arm''), (''X'', ''${Y}''), (''OVERRIDES'', ''${X}''),
       (''A'', ''base''), (''A:arm'', ''arm value''), (''A:qemu'', ''qemu value'')] DataSmart))
     (do_sets [(''Y'', ''qemu'')])) = Inr (PStr ''qemu'')"
  by code_simp

text \<open>
  \<open>setVar\<close> clears the cache of expansions when it starts, reads \<open>OVERRIDES\<close> to find the overrides that
  it replaces, and does not clear the cache again: a variable that \<open>OVERRIDES\<close> depends on and that has
  an override is read with its old value after the write.
\<close>

theorem stale_after_set:
  "value_of ''X'' True (do_sets [(''OVERRIDES'', ''${X}''), (''X'', ''arm''), (''X:foo'', ''other''), (''X'', ''qemu'')] DataSmart)
     = Inr (PStr ''arm'') \<and>
   value_of ''X'' False (do_sets [(''OVERRIDES'', ''${X}''), (''X'', ''arm''), (''X:foo'', ''other''), (''X'', ''qemu'')] DataSmart)
     = Inr (PStr ''qemu'')"
  by code_simp

text \<open>
  An append to a name in small letters, a task, registers the name itself as an override of the
  name without its last letter.
\<close>

theorem append_registers_short_name:
  "bindE (do_sets [(''do_compile:append'', ''x'')] DataSmart) (\<lambda>d. Inr (overridedata d)) =
     Inr [(''do_compil'', [(''do_compile'', ''do_compile'')])]"
  by code_simp

text \<open>The set of exported names is one object in a store and its copy.\<close>

theorem export_reaches_parent:
  "(case bindE (setVarFlag 6 demo_env ''A'' ''export'' (PStr ''1'') DataSmart)
          (\<lambda>d. setVarFlag 6 demo_env ''B'' ''export'' (PStr ''1'') (createCopy d)) of
      Inl e \<Rightarrow> [] | Inr d \<Rightarrow> map (\<lambda>f. map_of f ''__exportlist'') (frames d)) =
     [Some [(''_content'', PSet [''A'', ''B''])], Some [(''_content'', PSet [''A'', ''B''])]]"
  by code_simp

text \<open>A read that leaves out the weak default is cached under the name of the full value.\<close>

theorem weak_default_cached_away:
  "bindE (setVarFlag 6 demo_env ''A'' ''_defaultval'' (PStr ''weak'') DataSmart) (\<lambda>d.
     bindE (getVarFlag 6 demo_env ''A'' ''_content'' True True False False d) (\<lambda>(v, p, d).
       Inr (v))) = Inr PNone \<and>
   bindE (setVarFlag 6 demo_env ''A'' ''_defaultval'' (PStr ''weak'') DataSmart) (\<lambda>d.
     bindE (getVarFlag 6 demo_env ''A'' ''_content'' True True False False d) (\<lambda>(v, p, d).
       bindE (getVar 6 demo_env ''A'' True d) (\<lambda>(v, d). Inr v))) = Inr PNone \<and>
   bindE (setVarFlag 6 demo_env ''A'' ''_defaultval'' (PStr ''weak'') DataSmart) (\<lambda>d.
     bindE (getVar 6 demo_env ''A'' True d) (\<lambda>(v, d). Inr v)) = Inr (PStr ''weak'')"
  by code_simp

text \<open>
  \<open>delVarFlags\<close> on a variable without a value removes the copy's own dictionary of it, and the
  flags of the parent show again: nothing is deleted.
\<close>

theorem delVarFlags_uncovers:
  "(case setVarFlag 6 demo_env ''do_a'' ''task'' (PStr ''1'') DataSmart of
      Inl e \<Rightarrow> PNone | Inr d \<Rightarrow> raw_flag (delVarFlags ''do_a'' (createCopy d)) ''do_a'' ''task'') = PStr ''1''"
  by code_simp

end
