(* ===== verification/ConfLines.thy ===== *)
theory ConfLines
  imports VarOps
begin

text \<open>
  The lines of a configuration file, from \<open>poky/bitbake/lib/bb/parse/parse_py/ConfHandler.py\<close>: the
  patterns of \<open>feeder\<close> and the loop of \<open>handle\<close> that joins continued lines, and the nodes of
  \<open>parse/ast.py\<close> that a line becomes.

  \<^item> A line never contains a line break, so a dot in a pattern is any character and a dollar the
    end of the line.  White space at the end of a line is gone unless a blank line continues it.
  \<^item> A pattern with alternatives is tried in the order of the alternatives, with the shortest
    variable name first; the choices in between have one way to succeed.
\<close>

section \<open>Nodes\<close>

datatype conf_op = OpColon | OpLazy | OpQues | OpAppend | OpPrepend | OpPredot | OpPostdot | OpSet

record conf_groups =
  g_exp :: bool
  g_var :: string
  g_flag :: "string option"
  g_op :: conf_op
  g_value :: string

datatype ast_node =
    IncludeNode string bool
  | ExportNode string
  | UnsetNode string
  | UnsetFlagNode string string
  | DataNode conf_groups
  | MethodNode string "string list" bool bool
  | PythonMethodNode string string "string list"
  | ExportFuncsNode "string list" string
  | AddTaskNode string "string option" "string option"
  | DelTaskNode string
  | BBHandlerNode "string list"
  | InheritNode string
  | InheritDeferredNode string

text \<open>A statement has the file and the line it comes from.\<close>

type_synonym statement = "string \<times> nat \<times> ast_node"

section \<open>Patterns\<close>

definition alnum :: "char \<Rightarrow> bool" where
  "alnum c \<longleftrightarrow> (let n = of_char c :: nat in 97 \<le> n \<and> n \<le> 122 \<or> 65 \<le> n \<and> n \<le> 90 \<or> 48 \<le> n \<and> n \<le> 57)"

definition conf_name_char :: "char \<Rightarrow> bool" where
  "conf_name_char c \<longleftrightarrow> alnum c \<or> c \<in> set ''-_+.${}/~''"

definition conf_var_char :: "char \<Rightarrow> bool" where
  "conf_var_char c \<longleftrightarrow> conf_name_char c \<or> c = CHR '':''"

definition flag_first :: "char \<Rightarrow> bool" where
  "flag_first c \<longleftrightarrow> alnum c \<or> c \<in> set ''-_+.''"

definition flag_char :: "char \<Rightarrow> bool" where
  "flag_char c \<longleftrightarrow> flag_first c \<or> c = CHR ''@''"

fun first_some :: "('a \<Rightarrow> 'b option) \<Rightarrow> 'a list \<Rightarrow> 'b option" where
  "first_some f [] = None"
| "first_some f (x # xs) = (case f x of Some y \<Rightarrow> Some y | None \<Rightarrow> first_some f xs)"

definition conf_ops :: "(string \<times> conf_op) list" where
  "conf_ops =
     [('':='', OpColon), (''??='', OpLazy), (''?='', OpQues), (''+='', OpAppend), (''=+'', OpPrepend),
      (''=.'', OpPredot), (''.='', OpPostdot), (''='', OpSet)]"

text \<open>
  The quoted value: it takes the rest of the line, and a rest of exactly three quotes, the first
  and the last of them at its ends, is refused.
\<close>

definition is_quote :: "char \<Rightarrow> bool" where
  "is_quote c \<longleftrightarrow> c = CHR 0x22 \<or> c = CHR 0x27"

definition three_quotes :: "string \<Rightarrow> bool" where
  "three_quotes r \<longleftrightarrow> r \<noteq> [] \<and> last r = hd r \<and> length (filter (\<lambda>c. c = hd r) r) = 3"

definition quoted :: "string \<Rightarrow> string option" where
  "quoted r =
     (if 2 \<le> length r \<and> is_quote (hd r) \<and> \<not> three_quotes r \<and> last r = hd r then Some (butlast (tl r)) else None)"

definition conf_tail :: "string \<Rightarrow> (conf_op \<times> string) option" where
  "conf_tail r =
     first_some (\<lambda>(t, opr).
         let r = dropWhile is_space r
         in if startswith r t then map_option (\<lambda>v. (opr, v)) (quoted (dropWhile is_space (drop (length t) r)))
            else None) conf_ops"

definition conf_flag :: "string \<Rightarrow> (string \<times> string) option" where
  "conf_flag r =
     (case r of
        b # c # cs \<Rightarrow>
          (let rest = dropWhile flag_char cs
           in if b = CHR ''['' \<and> flag_first c \<and> rest \<noteq> [] \<and> hd rest = CHR '']''
              then Some (c # takeWhile flag_char cs, tl rest) else None)
      | _ \<Rightarrow> None)"

fun conf_var :: "string \<Rightarrow> string \<Rightarrow> (string \<times> string option \<times> conf_op \<times> string) option" where
  "conf_var pre [] = None"
| "conf_var pre (c # cs) =
     (if \<not> conf_var_char c then None
      else
        (let v = pre @ [c];
             with_flag = (case conf_flag cs of
                            None \<Rightarrow> None
                          | Some (f, r) \<Rightarrow> map_option (\<lambda>(opr, value). (v, Some f, opr, value)) (conf_tail r))
         in case with_flag of
              Some x \<Rightarrow> Some x
            | None \<Rightarrow>
                (case conf_tail cs of
                   Some (opr, value) \<Rightarrow> Some (v, None, opr, value)
                 | None \<Rightarrow> conf_var v cs)))"

definition groups_of :: "bool \<Rightarrow> string \<times> string option \<times> conf_op \<times> string \<Rightarrow> conf_groups" where
  "groups_of e = (\<lambda>(v, f, opr, value). \<lparr>g_exp = e, g_var = v, g_flag = f, g_op = opr, g_value = value\<rparr>)"

definition config_match :: "string \<Rightarrow> conf_groups option" where
  "config_match s =
     (case (if startswith s ''export'' \<and> drop 6 s \<noteq> [] \<and> is_space (hd (drop 6 s))
            then conf_var [] (dropWhile is_space (drop 6 s)) else None) of
        Some x \<Rightarrow> Some (groups_of True x)
      | None \<Rightarrow> map_option (groups_of False) (conf_var [] s))"

text \<open>A word, white space, and at least one more character: \<open>include\<close> and its like.\<close>

definition word_rest :: "string \<Rightarrow> string \<Rightarrow> string option" where
  "word_rest w s =
     (let r = drop (length w) s; sp = takeWhile is_space r; t = dropWhile is_space r
      in if \<not> startswith s w \<or> sp = [] then None
         else if t \<noteq> [] then Some t
         else if 2 \<le> length sp then Some [last sp] else None)"

definition name_rest :: "string \<Rightarrow> string \<Rightarrow> string option" where
  "name_rest w s =
     (case word_rest w s of
        None \<Rightarrow> None
      | Some t \<Rightarrow> if list_all conf_name_char t then Some t else None)"

definition unset_flag_match :: "string \<Rightarrow> (string \<times> string) option" where
  "unset_flag_match s =
     (case word_rest ''unset'' s of
        None \<Rightarrow> None
      | Some t \<Rightarrow>
          (let v = takeWhile conf_name_char t; r = dropWhile conf_name_char t; f = butlast (tl r)
           in if v \<noteq> [] \<and> 4 \<le> length r \<and> hd r = CHR ''['' \<and> last r = CHR '']'' \<and> flag_first (hd f) \<and>
                list_all flag_char (tl f)
              then Some (v, f) else None))"

text \<open>\<open>feeder\<close>, for files other than the base configuration, which may have \<open>addpylib\<close> lines too.\<close>

definition conf_feeder :: "string \<Rightarrow> pyerr + ast_node" where
  "conf_feeder s =
     (case first_some (\<lambda>m. m s)
        [\<lambda>s. map_option DataNode (config_match s),
         \<lambda>s. map_option (\<lambda>w. IncludeNode w False) (word_rest ''include'' s),
         \<lambda>s. map_option (\<lambda>w. IncludeNode w True) (word_rest ''require'' s),
         \<lambda>s. map_option ExportNode (name_rest ''export'' s),
         \<lambda>s. map_option UnsetNode (name_rest ''unset'' s),
         \<lambda>s. map_option (\<lambda>(v, f). UnsetFlagNode v f) (unset_flag_match s)] of
        Some node \<Rightarrow> Inr node
      | None \<Rightarrow> Inl (ParseError ''unparsed line''))"

section \<open>Lines of a file\<close>

definition rstrip :: "string \<Rightarrow> string" where
  "rstrip s = rev (dropWhile is_space (rev s))"

text \<open>
  The inner loop: as long as the line ends with a backslash, the next one is joined.  Past the end
  of the file the next line is empty.  A line that becomes empty is an \<open>IndexError\<close>, in the test
  of its last character.
\<close>

function join_cont :: "string \<Rightarrow> nat \<Rightarrow> string list \<Rightarrow> pyerr + (string \<times> nat \<times> string list)" where
  "join_cont s n ls =
     (if s = [] then Inl IndexError
      else if last s \<noteq> CHR 0x5C then Inr (s, n, ls)
      else
        (let s2 = (case ls of [] \<Rightarrow> [] | l # _ \<Rightarrow> rstrip l)
         in if (s2 = [] \<or> hd s2 \<noteq> CHR ''#'') \<and> hd s = CHR ''#''
            then Inl (Fatal ''confusing multiline, partially commented expression'')
            else join_cont (butlast s @ s2) (Suc n) (tl ls)))"
  by pat_completeness auto

termination
  by (relation "measures [\<lambda>(s, n, ls). length ls, \<lambda>(s, n, ls). length s]") (auto split: list.splits)

declare join_cont.simps [simp del]

lemma join_cont_length: "join_cont s n ls = Inr (s', n', ls') \<Longrightarrow> length ls' \<le> length ls"
proof (induction s n ls rule: join_cont.induct)
  case (1 s n ls)
  show ?case
    using 1(2) 1(1) [OF _ _ refl] by (subst (asm) join_cont.simps) (fastforce simp: Let_def split: if_split_asm)
qed

text \<open>The outer loop: the statements of a file, in order; the first line not understood is an error.\<close>

function conf_read :: "string \<Rightarrow> nat \<Rightarrow> string list \<Rightarrow> pyerr + statement list" where
  "conf_read fn n [] = Inr []"
| "conf_read fn n (l # ls) =
     (if list_all is_space l then conf_read fn (Suc n) ls
      else
        (case join_cont (rstrip l) (Suc n) ls of
           Inl e \<Rightarrow> Inl e
         | Inr (s, m, ls') \<Rightarrow>
             if hd s = CHR ''#'' then conf_read fn m ls'
             else bindE (conf_feeder s) (\<lambda>node. bindE (conf_read fn m ls') (\<lambda>sts. Inr ((fn, m, node) # sts)))))"
  by pat_completeness auto

termination
  by (relation "measure (\<lambda>(fn, n, ls). length ls)") (auto dest!: join_cont_length)

end
