(* ===== verification/AstData.thy ===== *)
theory AstData
  imports ConfLines DataCache
begin

text \<open>
  What assignments and functions of a configuration or recipe file do to the data store, from
  \<open>poky/bitbake/lib/bb/parse/ast.py\<close>: the operators of \<open>DataNode\<close>, shell and Python functions, and
  \<open>EXPORT_FUNCTIONS\<close>.

  Code in a recipe is Python of the metadata: compiling a function and defining it is the
  argument \<open>pe_method\<close>, and \<open>pe_show\<close> is what \<open>str\<close> gives for a value that is not a string.
\<close>

record parse_env =
  pe_ds :: ds_env
  pe_show :: "pval \<Rightarrow> string"
  pe_method :: "string \<Rightarrow> string \<Rightarrow> pyerr + unit"

section \<open>Values\<close>

definition py_str :: "parse_env \<Rightarrow> pval \<Rightarrow> string" where
  "py_str env v = (case v of PStr s \<Rightarrow> s | _ \<Rightarrow> pe_show env v)"

text \<open>A variable that holds a list, or the empty list: \<open>getVar(..) or []\<close>.\<close>

definition list_or_nil :: "pval \<Rightarrow> pyerr + pval list" where
  "list_or_nil v = (if \<not> truthy_val v then Inr [] else (case v of PList l \<Rightarrow> Inr l | _ \<Rightarrow> Inl AttributeError))"

definition read_list :: "nat \<Rightarrow> parse_env \<Rightarrow> string \<Rightarrow> dstore \<Rightarrow> pyerr + (pval list \<times> dstore)" where
  "read_list n env var d =
     bindE (getVar n (pe_ds env) var False d) (\<lambda>(v, d). bindE (list_or_nil v) (\<lambda>l. Inr (l, d)))"

definition read_flag_list :: "nat \<Rightarrow> parse_env \<Rightarrow> string \<Rightarrow> string \<Rightarrow> dstore \<Rightarrow> pyerr + (pval list \<times> dstore)" where
  "read_flag_list n env var flag d =
     bindE (getVarFlag n (pe_ds env) var flag False False False False d) (\<lambda>(v, p, d).
       bindE (list_or_nil v) (\<lambda>l. Inr (l, d)))"

fun digits :: "nat \<Rightarrow> nat \<Rightarrow> string" where
  "digits 0 n = []"
| "digits (Suc k) n = (if n < 10 then [char_of (48 + n)] else digits k (n div 10) @ [char_of (48 + n mod 10)])"

definition show_int :: "int \<Rightarrow> string" where
  "show_int i = (if i < 0 then CHR ''-'' # digits (Suc (nat (- i))) (nat (- i)) else digits (Suc (nat i)) (nat i))"

section \<open>Assignments\<close>

definition getFunc :: "nat \<Rightarrow> parse_env \<Rightarrow> conf_groups \<Rightarrow> dstore \<Rightarrow> pyerr + (pval \<times> dstore)" where
  "getFunc n env g d =
     bindE (case g_flag g of
              Some f \<Rightarrow> getVarFlag n (pe_ds env) (g_var g) f False True False False d
            | None \<Rightarrow> getVarFlag n (pe_ds env) (g_var g) ''_content'' False True True False d)
       (\<lambda>(v, p, d). Inr (v, d))"

text \<open>The value that an operator makes of the old value and the one on the line.\<close>

definition combine :: "parse_env \<Rightarrow> conf_op \<Rightarrow> pval \<Rightarrow> string \<Rightarrow> pval" where
  "combine env opr old new =
     (let s = py_str env (or_empty_val old)
      in case opr of
           OpQues \<Rightarrow> if old = PNone then PStr new else old
         | OpAppend \<Rightarrow> PStr (s @ '' '' @ new)
         | OpPrepend \<Rightarrow> PStr (new @ '' '' @ s)
         | OpPostdot \<Rightarrow> PStr (s @ new)
         | OpPredot \<Rightarrow> PStr (new @ s)
         | _ \<Rightarrow> PStr new)"

definition data_value :: "nat \<Rightarrow> parse_env \<Rightarrow> conf_groups \<Rightarrow> dstore \<Rightarrow> pyerr + (pval \<times> dstore)" where
  "data_value n env g d =
     (case g_op g of
        OpColon \<Rightarrow>
          bindE (ds_expand n (pe_ds env) (PStr (g_value g)) (Some (g_var g @ ''[:=]'')) (createCopy d)) (\<lambda>(v, e). Inr (v, d))
      | OpSet \<Rightarrow> Inr (PStr (g_value g), d)
      | OpLazy \<Rightarrow> Inr (PStr (g_value g), d)
      | opr \<Rightarrow> bindE (getFunc n env g d) (\<lambda>(old, d). Inr (combine env opr old (g_value g), d)))"

definition eval_data :: "nat \<Rightarrow> parse_env \<Rightarrow> conf_groups \<Rightarrow> dstore \<Rightarrow> pyerr + dstore" where
  "eval_data n env g d =
     bindE (if g_exp g then setVarFlag n (pe_ds env) (g_var g) ''export'' (PInt 1) d else Inr d) (\<lambda>d.
     bindE (data_value n env g d) (\<lambda>(val, d).
       case (case g_flag g of Some f \<Rightarrow> Some f | None \<Rightarrow> if g_op g = OpLazy then Some ''_defaultval'' else None) of
         Some flag \<Rightarrow> setVarFlag n (pe_ds env) (g_var g) flag val d
       | None \<Rightarrow> setVar n (pe_ds env) (g_var g) val True d))"

section \<open>Functions\<close>

definition underscored :: "char \<Rightarrow> char" where
  "underscored c = (if c \<in> set ''/.+-@%&~'' then CHR ''_'' else c)"

definition join_body :: "string list \<Rightarrow> string" where
  "join_body body = join_with [CHR 0x0A] body"

text \<open>The flags and the body of a function, in the order in which they are written.\<close>

fun set_all :: "nat \<Rightarrow> parse_env \<Rightarrow> (string \<times> pval) list \<Rightarrow> string \<Rightarrow> dstore \<Rightarrow> pyerr + dstore" where
  "set_all n env fl var d = foldE (\<lambda>(f, v) d. setVarFlag n (pe_ds env) var f v d) fl d"

definition eval_method ::
  "nat \<Rightarrow> parse_env \<Rightarrow> string \<Rightarrow> nat \<Rightarrow> string \<Rightarrow> string list \<Rightarrow> bool \<Rightarrow> bool \<Rightarrow> dstore \<Rightarrow> pyerr + dstore" where
  "eval_method n env filename lineno func_name body python fakeroot d =
     (let anon = (func_name = ''__anonymous'');
          funcname = (if anon then ''__anon_'' @ show_int (int lineno) @ ''_'' @ map underscored filename else func_name);
          body_text = join_body body;
          body_text = (if anon then ''def '' @ funcname @ ''(d):'' @ [CHR 0x0A] @ body_text else body_text)
      in bindE (if \<not> anon then Inr d
                else bindE (pe_method env funcname body_text) (\<lambda>_.
                     bindE (read_list n env ''__BBANONFUNCS'' d) (\<lambda>(l, d).
                       setVar n (pe_ds env) ''__BBANONFUNCS'' (PList (l @ [PStr funcname])) False d))) (\<lambda>d.
         bindE (getVar n (pe_ds env) funcname False d) (\<lambda>(old, d).
           let d = (if truthy_val old then delVarFlag funcname ''fakeroot'' (delVarFlag funcname ''python'' d) else d)
           in bindE (set_all n env
                ((if python \<or> anon then [(''python'', PStr ''1'')] else []) @
                 (if fakeroot then [(''fakeroot'', PStr ''1'')] else []) @ [(''func'', PInt 1)]) funcname d) (\<lambda>d.
              bindE (setVar n (pe_ds env) funcname (PStr body_text) True d) (\<lambda>d.
                set_all n env [(''filename'', PStr filename),
                   (''lineno'', PStr (show_int (int lineno - int (length body))))] funcname d)))))"

definition eval_python_method ::
  "nat \<Rightarrow> parse_env \<Rightarrow> string \<Rightarrow> nat \<Rightarrow> string \<Rightarrow> string \<Rightarrow> string list \<Rightarrow> dstore \<Rightarrow> pyerr + dstore" where
  "eval_python_method n env filename lineno func modulename body d =
     bindE (pe_method env modulename (join_body body)) (\<lambda>_.
     bindE (set_all n env [(''func'', PInt 1), (''python'', PInt 1)] func d) (\<lambda>d.
     bindE (setVar n (pe_ds env) func (PStr (join_body body)) True d) (\<lambda>d.
       set_all n env [(''filename'', PStr filename),
         (''lineno'', PStr (show_int (int lineno - int (length body) - 1)))] func d)))"

text \<open>\<open>EXPORT_FUNCTIONS\<close>: a function that calls the one of the class, unless the recipe has its own.\<close>

definition sentinel :: string where
  "sentinel = ''    # Export function set'' @ [CHR 0x0A]"

definition str_in :: "string \<Rightarrow> pval \<Rightarrow> pyerr + bool" where
  "str_in s v =
     (case v of PStr t \<Rightarrow> Inr (contains_sub t s) | PList l \<Rightarrow> Inr (PStr s \<in> set l) | PSet l \<Rightarrow> Inr (s \<in> set l)
      | POps l \<Rightarrow> Inr False | _ \<Rightarrow> Inl TypeError)"

text \<open>Copies a flag that has a value from one variable to another.\<close>

definition copy_flag :: "nat \<Rightarrow> parse_env \<Rightarrow> string \<Rightarrow> string \<Rightarrow> string \<Rightarrow> dstore \<Rightarrow> pyerr + dstore" where
  "copy_flag n env from_var to_var flag d =
     bindE (getVarFlag n (pe_ds env) from_var flag False False False False d) (\<lambda>(v, p, d).
       if truthy_val v then setVarFlag n (pe_ds env) to_var flag v d else Inr d)"

definition export_func :: "nat \<Rightarrow> parse_env \<Rightarrow> string \<Rightarrow> string \<Rightarrow> dstore \<Rightarrow> pyerr + dstore" where
  "export_func n env classname func d =
     (let calledfunc = classname @ ''_'' @ func
      in bindE (getVar n (pe_ds env) func False d) (\<lambda>(basevar, d).
         bindE (if truthy_val basevar then str_in sentinel basevar else Inr True) (\<lambda>generated.
           if \<not> generated then Inr d
           else
             bindE (if truthy_val basevar then set_all n env [(''python'', PNone), (''func'', PNone)] func d else Inr d) (\<lambda>d.
             bindE (foldE (copy_flag n env calledfunc func) [''func'', ''python''] d) (\<lambda>d.
             bindE (foldE (copy_flag n env func calledfunc) [''dirs'', ''cleandirs'', ''fakeroot''] d) (\<lambda>d.
             bindE (set_all n env [(''filename'', PStr ''autogenerated''), (''lineno'', PInt 1)] func d) (\<lambda>d.
             bindE (getVarFlag n (pe_ds env) calledfunc ''python'' False False False False d) (\<lambda>(python, p, d).
               if truthy_val python
               then setVar n (pe_ds env) func
                      (PStr (sentinel @ ''    bb.build.exec_func('' @ [CHR 0x27] @ calledfunc @ [CHR 0x27] @ '', d)'' @ [CHR 0x0A])) True d
               else if CHR ''-'' \<in> set classname then Inl (Fatal ''dash in the name of a class'')
               else setVar n (pe_ds env) func (PStr (sentinel @ ''    '' @ calledfunc @ [CHR 0x0A])) True d))))))))"

end
