(* ===== verification/RecipeTasks.thy ===== *)
theory RecipeTasks
  imports AstData
begin

text \<open>
  The tasks of a recipe, from \<open>poky/bitbake/lib/bb/build.py\<close>: \<open>addtask\<close> and \<open>deltask\<close> keep the list
  \<open>__BBTASKS\<close> and the flags \<open>deps\<close> of the tasks, \<open>add_tasks\<close> turns them into the task dependency data
  that the recipe data cache takes, and \<open>preceedtask\<close> and \<open>tasksbetween\<close> walk over them.
\<close>

definition task_name :: "string \<Rightarrow> string" where
  "task_name task = (if take 3 task \<noteq> ''do_'' then ''do_'' @ task else task)"

text \<open>A name taken from a list; what is not a string cannot be the name of a variable.\<close>

definition name_of :: "pval \<Rightarrow> pyerr + string" where
  "name_of v = (case v of PStr s \<Rightarrow> Inr s | _ \<Rightarrow> Inl TypeError)"

definition add_after :: "string option \<Rightarrow> pval list \<Rightarrow> pval list" where
  "add_after after existing =
     (case after of
        None \<Rightarrow> existing
      | Some a \<Rightarrow> fold (\<lambda>entry l. if PStr entry \<in> set l then l else l @ [PStr entry]) (words a) existing)"

definition add_before :: "nat \<Rightarrow> parse_env \<Rightarrow> string \<Rightarrow> string \<Rightarrow> dstore \<Rightarrow> pyerr + dstore" where
  "add_before n env task entry d =
     bindE (read_flag_list n env entry ''deps'' d) (\<lambda>(existing, d).
       if PStr task \<in> set existing then Inr d
       else setVarFlag n (pe_ds env) entry ''deps'' (PList (PStr task # existing)) d)"

definition addtask :: "nat \<Rightarrow> parse_env \<Rightarrow> string \<Rightarrow> string option \<Rightarrow> string option \<Rightarrow> dstore \<Rightarrow> pyerr + dstore" where
  "addtask n env task before after d =
     (let task = task_name task
      in bindE (setVarFlag n (pe_ds env) task ''task'' (PInt 1) d) (\<lambda>d.
         bindE (read_list n env ''__BBTASKS'' d) (\<lambda>(bbtasks, d).
         bindE (setVar n (pe_ds env) ''__BBTASKS''
                  (PList (if PStr task \<in> set bbtasks then bbtasks else bbtasks @ [PStr task])) False d) (\<lambda>d.
         bindE (read_flag_list n env task ''deps'' d) (\<lambda>(existing, d).
         bindE (setVarFlag n (pe_ds env) task ''deps'' (PList (add_after after existing)) d) (\<lambda>d.
           case before of
             None \<Rightarrow> Inr d
           | Some b \<Rightarrow> foldE (add_before n env task) (words b) d))))))"

definition drop_dep :: "nat \<Rightarrow> parse_env \<Rightarrow> string \<Rightarrow> pval \<Rightarrow> dstore \<Rightarrow> pyerr + dstore" where
  "drop_dep n env task bbtask d =
     bindE (name_of bbtask) (\<lambda>bbtask.
     bindE (read_flag_list n env bbtask ''deps'' d) (\<lambda>(deps, d).
       if PStr task \<in> set deps then setVarFlag n (pe_ds env) bbtask ''deps'' (PList (remove1 (PStr task) deps)) d
       else Inr d))"

definition deltask :: "nat \<Rightarrow> parse_env \<Rightarrow> string \<Rightarrow> dstore \<Rightarrow> pyerr + dstore" where
  "deltask n env task d =
     (let task = task_name task
      in bindE (read_list n env ''__BBTASKS'' d) (\<lambda>(bbtasks, d).
         bindE (if PStr task \<in> set bbtasks
                then setVar n (pe_ds env) ''__BBTASKS'' (PList (remove1 (PStr task) bbtasks)) False
                       (delVarFlag task ''task'' d)
                else Inr d) (\<lambda>d.
         bindE (read_list n env ''__BBTASKS'' (delVarFlag task ''deps'' d)) (\<lambda>(bbtasks, d).
           foldE (drop_dep n env task) bbtasks d))))"

section \<open>The task dependency data\<close>

definition task_flags :: "string list" where
  "task_flags =
     [''mcdepends'', ''depends'', ''rdepends'', ''deptask'', ''rdeptask'', ''recrdeptask'', ''recideptask'', ''nostamp'',
      ''fakeroot'', ''noexec'', ''umask'']"

text \<open>
  \<open>getTask\<close>: the expanded flag of the task, as text; in the code a flag that is a number stays one.
\<close>

definition get_task ::
  "nat \<Rightarrow> parse_env \<Rightarrow> string \<Rightarrow> flags \<Rightarrow> string \<Rightarrow> flag_map \<times> dstore \<Rightarrow> pyerr + (flag_map \<times> dstore)" where
  "get_task n env task fl name = (\<lambda>(tf, d).
     let tf = (if din name tf then tf else dset name [] tf)
     in case map_of fl name of
          None \<Rightarrow> Inr (tf, d)
        | Some v \<Rightarrow> bindE (ds_expand n (pe_ds env) v None d) (\<lambda>(v, d).
            Inr (dset name (dset task (py_str env v) (dgetd tf name [])) tf, d)))"

text \<open>What a \<open>for\<close> loop takes out of the flag \<open>deps\<close>: a string gives its characters.\<close>

definition dep_items :: "pval \<Rightarrow> pyerr + pval list" where
  "dep_items v =
     (case v of PList l \<Rightarrow> Inr l | PStr s \<Rightarrow> Inr (map (\<lambda>c. PStr [c]) s) | PSet l \<Rightarrow> Inr (map PStr l) | _ \<Rightarrow> Inl TypeError)"

definition add_parent ::
  "nat \<Rightarrow> parse_env \<Rightarrow> pval \<Rightarrow> string list \<times> dstore \<Rightarrow> pyerr + (string list \<times> dstore)" where
  "add_parent n env dep = (\<lambda>(ps, d).
     bindE (ds_expand n (pe_ds env) dep None d) (\<lambda>(v, d). Inr (ps @ [py_str env v], d)))"

definition add_task ::
  "nat \<Rightarrow> parse_env \<Rightarrow> pval \<Rightarrow> task_deps \<times> dstore \<Rightarrow> pyerr + (task_deps \<times> dstore)" where
  "add_task n env item = (\<lambda>(td, d).
     bindE (ds_expand n (pe_ds env) item None d) (\<lambda>(v, d).
     bindE (name_of v) (\<lambda>task.
     bindE (setVarFlag n (pe_ds env) task ''task'' (PInt 1) d) (\<lambda>d.
     let td = (if task \<in> set (td_tasks td) then td else td\<lparr>td_tasks := td_tasks td @ [task]\<rparr>)
     in bindE (getVarFlags n (pe_ds env) task [] False d) (\<lambda>(fl, d).
        case fl of
          None \<Rightarrow> Inl TypeError
        | Some fl \<Rightarrow>
            bindE (foldE (get_task n env task fl) task_flags (td_flags td, d)) (\<lambda>(tf, d).
            bindE (case map_of fl ''deps'' of
                     None \<Rightarrow> Inr ([], d)
                   | Some v \<Rightarrow> bindE (dep_items v) (\<lambda>deps. foldE (add_parent n env) deps ([], d))) (\<lambda>(ps, d).
              Inr (td\<lparr>td_flags := tf, td_parents := dset task ps (td_parents td)\<rparr>, d))))))))"

text \<open>\<open>add_tasks\<close>: the data go to the variable \<open>_task_deps\<close>, here the first component.\<close>

definition add_tasks ::
  "nat \<Rightarrow> parse_env \<Rightarrow> pval list \<Rightarrow> task_deps option \<Rightarrow> dstore \<Rightarrow> pyerr + (task_deps \<times> dstore)" where
  "add_tasks n env tasklist td d =
     foldE (add_task n env) tasklist
       (case td of None \<Rightarrow> \<lparr>td_tasks = [], td_parents = [], td_flags = []\<rparr> | Some td \<Rightarrow> td, d)"

section \<open>Walks\<close>

definition preceedtask :: "nat \<Rightarrow> parse_env \<Rightarrow> string \<Rightarrow> bool \<Rightarrow> dstore \<Rightarrow> pyerr + (string list \<times> dstore)" where
  "preceedtask n env task with_recrdeptasks d =
     bindE (getVar n (pe_ds env) ''__BBTASKS'' False d) (\<lambda>(tasks, d).
     bindE (str_in task tasks) (\<lambda>there.
       if \<not> there then Inr ([], d)
       else
         bindE (getVarFlag n (pe_ds env) task ''deps'' True False False False d) (\<lambda>(deps, p, d).
         bindE (if truthy_val deps then dep_items deps else Inr []) (\<lambda>deps.
         let preceed = remdups (map (py_str env) deps)
         in if \<not> with_recrdeptasks then Inr (preceed, d)
            else bindE (getVarFlag n (pe_ds env) task ''recrdeptask'' True False False False d) (\<lambda>(r, p, d).
                 if \<not> truthy_val r then Inr (preceed, d)
                 else bindE (case r of PStr s \<Rightarrow> Inr (words s) | _ \<Rightarrow> Inl AttributeError) (\<lambda>ws.
                      Inr (sunion preceed ws, d)))))))"

fun follow_chain ::
  "nat \<Rightarrow> dstore \<Rightarrow> string list \<Rightarrow> string \<Rightarrow> string \<Rightarrow> string list \<Rightarrow> string list \<Rightarrow> pyerr + string list" where
  "follow_chain 0 d tasks endtask task chain outtasks = Inl Diverges"
| "follow_chain (Suc k) d tasks endtask task chain outtasks =
     (if task \<in> set chain then Inl (Fatal ''Circular task dependencies'')
      else
        foldE (\<lambda>othertask outtasks.
            if othertask = task then Inr outtasks
            else if task = endtask then Inr (fold sadd (chain @ [task]) outtasks)
            else bindE (str_in task (raw_flag d othertask ''deps'')) (\<lambda>needs.
                   if needs then follow_chain k d tasks endtask othertask (chain @ [task]) outtasks
                   else Inr outtasks))
          tasks outtasks)"

definition tasksbetween ::
  "nat \<Rightarrow> parse_env \<Rightarrow> string \<Rightarrow> string \<Rightarrow> dstore \<Rightarrow> pyerr + (string list \<times> dstore)" where
  "tasksbetween n env task_start task_end d =
     bindE (ds_keys n (pe_ds env) d) (\<lambda>(ks, d).
     bindE (foldE (\<lambda>k (tasks, d).
         bindE (getVarFlag n (pe_ds env) k ''task'' True False False False d) (\<lambda>(v, p, d).
           Inr (if truthy_val v then tasks @ [k] else tasks, d))) ks ([], d)) (\<lambda>(tasks, d).
     bindE (follow_chain (length tasks + 2) d tasks task_end task_start [] []) (\<lambda>outtasks.
       Inr (outtasks, d))))"

end
