(* ===== verification/BBLines.thy ===== *)
theory BBLines
  imports ConfLines
begin

text \<open>
  The lines of recipes, classes and their include files, from
  \<open>poky/bitbake/lib/bb/parse/parse_py/BBHandler.py\<close>: the patterns, \<open>feeder\<close>, a machine over the
  lines with an open function, an open Python function or a continued line, and the loop of
  \<open>get_statements\<close>.  The variables of the module are the record \<open>bb_state\<close>.  The statements of a
  class or include file are cached in the code; a file does not change here, so reading it again
  gives the same.  Warnings are left out.
\<close>

section \<open>Patterns\<close>

text \<open>\<open>\w\<close> for the characters up to 255.\<close>

definition word_char :: "char \<Rightarrow> bool" where
  "word_char c \<longleftrightarrow> alnum c \<or> c = CHR ''_'' \<or>
     (let n = of_char c :: nat
      in n \<in> set [170, 178, 179, 181, 185, 186, 188, 189, 190] \<or> 192 \<le> n \<and> n \<noteq> 215 \<and> n \<noteq> 247)"

definition func_char :: "char \<Rightarrow> bool" where
  "func_char c \<longleftrightarrow> word_char c \<or> c \<in> set ''.-+{}$:''"

text \<open>
  \<open>__func_start_regexp__\<close>: the words \<open>python\<close> and \<open>fakeroot\<close>, a name that may be missing, an empty
  argument list and a brace at the end.  The result is the name and the two words.
\<close>

definition func_tail :: "string \<Rightarrow> string option option" where
  "func_tail s =
     (let name = takeWhile func_char s; r = dropWhile is_space (dropWhile func_char s)
      in if startswith r ''(''
         then (let r = dropWhile is_space (drop 1 r)
               in if startswith r '')'' \<and> dropWhile is_space (drop 1 r) = ''{''
                  then Some (if name = [] then None else Some name) else None)
         else None)"

lemma drop_space_shorter: "0 < k \<Longrightarrow> drop k s \<noteq> [] \<Longrightarrow> length (dropWhile P (drop k s)) < length s"
  using length_dropWhile_le [of P "drop k s"] by (cases "k < length s") auto

function func_start :: "string \<Rightarrow> bool \<Rightarrow> bool \<Rightarrow> (string option \<times> bool \<times> bool) option" where
  "func_start s py fr =
     (if startswith s ''python'' \<and> drop 6 s \<noteq> [] \<and> (is_space (hd (drop 6 s)) \<or> hd (drop 6 s) = CHR ''('')
      then func_start (dropWhile is_space (drop 6 s)) True fr
      else if startswith s ''fakeroot'' \<and> drop 8 s \<noteq> [] \<and> is_space (hd (drop 8 s))
      then func_start (dropWhile is_space (drop 8 s)) py True
      else map_option (\<lambda>name. (name, py, fr)) (func_tail s))"
  by pat_completeness auto

termination
  by (relation "measure (\<lambda>(s, py, fr). length s)") (simp_all add: drop_space_shorter)

declare func_start.simps [simp del]

definition def_match :: "string \<Rightarrow> string option" where
  "def_match s =
     (case word_rest ''def'' s of
        None \<Rightarrow> None
      | Some t \<Rightarrow>
          (let name = takeWhile word_char t
           in if name \<noteq> [] \<and> CHR '':'' \<in> set (dropWhile word_char t) then Some name else None))"

text \<open>The text before the last place where \<open>p\<close> starts, and the rest from there.\<close>

fun split_last :: "string \<Rightarrow> string \<Rightarrow> (string \<times> string) option" where
  "split_last p [] = (if p = [] then Some ([], []) else None)"
| "split_last p (c # cs) =
     (case split_last p cs of
        Some (a, b) \<Rightarrow> Some (c # a, b)
      | None \<Rightarrow> if startswith (c # cs) p then Some ([], c # cs) else None)"

lemma split_last_append: "split_last p s = Some (a, b) \<Longrightarrow> s = a @ b"
  by (induction p s arbitrary: a b rule: split_last.induct) (auto split: option.splits if_split_asm)

lemma clause_shorter:
  assumes "split_last p (dropWhile P (drop k s)) = Some (a, b)" and "startswith s w" and "0 < k" and "k = length w"
  shows "length b < length s"
proof -
  have "length b \<le> length (dropWhile P (drop k s))" using split_last_append [OF assms(1)] by simp
  also have "\<dots> \<le> length (drop k s)" by (rule length_dropWhile_le)
  also have "\<dots> < length s" using assms(2,3,4) by (auto simp: startswith_iff)
  finally show ?thesis .
qed

text \<open>
  The clauses of \<open>addtask\<close>: after a word, its list goes up to the last place where the other word
  starts, or to the end; a clause that comes twice counts the last time.
\<close>

type_synonym clauses = "string option \<times> string option"

function task_clauses :: "string \<Rightarrow> clauses \<Rightarrow> clauses" where
  "task_clauses s (before, after) =
     (if startswith s ''before''
      then (let t = dropWhile is_space (drop 6 s)
            in case split_last ''after'' t of
                 Some (a, b) \<Rightarrow> task_clauses b (Some a, after)
               | None \<Rightarrow> (Some t, after))
      else if startswith s ''after''
      then (let t = dropWhile is_space (drop 5 s)
            in case split_last ''before'' t of
                 Some (a, b) \<Rightarrow> task_clauses b (before, Some a)
               | None \<Rightarrow> (before, Some t))
      else (before, after))"
  by pat_completeness auto

termination
proof (relation "measure (\<lambda>(s, cl). length s)", goal_cases)
  case (2 s before after t x a b)
  then have "split_last ''after'' (dropWhile is_space (drop 6 s)) = Some (a, b)" by simp
  from clause_shorter [OF this, of "''before''"] 2 show ?case by (simp del: drop_Suc_Cons)
next
  case (3 s before after t x a b)
  then have "split_last ''before'' (dropWhile is_space (drop 5 s)) = Some (a, b)" by simp
  from clause_shorter [OF this, of "''after''"] 3 show ?case by simp
qed simp

declare task_clauses.simps [simp del]

text \<open>The name and the two lists of an \<open>addtask\<close> line.\<close>

definition addtask_match :: "string \<Rightarrow> (string \<times> clauses) option" where
  "addtask_match s =
     (case word_rest ''addtask'' s of
        None \<Rightarrow> None
      | Some t \<Rightarrow>
          (let func = takeWhile word_char t
           in if func = [] then None
              else Some (func, task_clauses (dropWhile is_space (dropWhile word_char t)) (None, None))))"

section \<open>The machine\<close>

text \<open>An open function: its name, where it starts, and whether it is Python and \<open>fakeroot\<close>.\<close>

record bb_state =
  bb_infunc :: "(string \<times> string \<times> nat \<times> bool \<times> bool) option"
  bb_inpython :: "string option"
  bb_body :: "string list"
  bb_residue :: "string list"

definition bb_start :: bb_state where
  "bb_start = \<lparr>bb_infunc = None, bb_inpython = None, bb_body = [], bb_residue = []\<rparr>"

definition python_line :: "string \<Rightarrow> bool" where
  "python_line s \<longleftrightarrow> s = [] \<or> is_space (hd s) \<or> hd s = CHR ''#''"

text \<open>What a complete line is, outside functions: a new state and perhaps a statement.\<close>

definition keyword_in_task :: "string \<Rightarrow> bool" where
  "keyword_in_task te \<longleftrightarrow> (\<exists>k \<in> set setvar_keywords. contains_sub te (k @ ''_''))"

definition bb_line ::
  "string \<Rightarrow> string \<Rightarrow> nat \<Rightarrow> string \<Rightarrow> bb_state \<Rightarrow> pyerr + (bb_state \<times> ast_node option)" where
  "bb_line classname fn lineno s st =
     (case func_start s False False of
        Some (name, py, fr) \<Rightarrow>
          Inr (st\<lparr>bb_infunc := Some (case name of None \<Rightarrow> ''__anonymous'' | Some f \<Rightarrow> f, fn, lineno, py, fr)\<rparr>, None)
      | None \<Rightarrow>
     (case def_match s of
        Some name \<Rightarrow> Inr (st\<lparr>bb_body := bb_body st @ [s], bb_inpython := Some name\<rparr>, None)
      | None \<Rightarrow>
     (case word_rest ''EXPORT_FUNCTIONS'' s of
        Some fns \<Rightarrow> Inr (st, Some (ExportFuncsNode (words fns) classname))
      | None \<Rightarrow>
     (case addtask_match s of
        Some (func, before, after) \<Rightarrow>
          if list_ex keyword_in_task (words s) then Inl (ParseError ''Task name contains a keyword'')
          else Inr (st, Some (AddTaskNode func before after))
      | None \<Rightarrow>
     (case first_some (\<lambda>m. m s)
        [\<lambda>s. map_option DelTaskNode (word_rest ''deltask'' s),
         \<lambda>s. map_option (\<lambda>fns. BBHandlerNode (words fns)) (word_rest ''addhandler'' s),
         \<lambda>s. map_option InheritNode (word_rest ''inherit'' s),
         \<lambda>s. map_option InheritDeferredNode (word_rest ''inherit_defer'' s)] of
        Some node \<Rightarrow> Inr (st, Some node)
      | None \<Rightarrow> bindE (conf_feeder s) (\<lambda>node. Inr (st, Some node)))))))"

text \<open>
  Comments and continued lines.  The test of the first character of the first continued line fails
  on an empty one.
\<close>

definition bb_residue_check :: "string \<Rightarrow> bb_state \<Rightarrow> pyerr + unit" where
  "bb_residue_check s st =
     (case bb_residue st of
        [] \<Rightarrow> Inr ()
      | r # _ \<Rightarrow>
          if r = [] then Inl IndexError
          else if s \<noteq> [] \<and> hd s = CHR ''#'' \<and> hd r \<noteq> CHR ''#'' then Inl (Fatal ''comment in a multiline expression'')
          else if hd r = CHR ''#'' \<and> (s = [] \<or> hd s \<noteq> CHR ''#'')
          then Inl (Fatal ''confusing multiline partially commented expression'')
          else Inr ())"

definition bb_rest ::
  "string \<Rightarrow> string \<Rightarrow> nat \<Rightarrow> string \<Rightarrow> bb_state \<Rightarrow> pyerr + (bb_state \<times> ast_node option)" where
  "bb_rest classname fn lineno s st =
     bindE (bb_residue_check s st) (\<lambda>_.
       if s \<noteq> [] \<and> last s = CHR 0x5C then Inr (st\<lparr>bb_residue := bb_residue st @ [butlast s]\<rparr>, None)
       else
         (let s = concat (bb_residue st) @ s; st = st\<lparr>bb_residue := []\<rparr>
          in if s = [] \<or> hd s = CHR ''#'' then Inr (st, None) else bb_line classname fn lineno s st))"

text \<open>\<open>feeder\<close>; \<open>root\<close> is the base name of the file.\<close>

definition bb_feeder ::
  "string \<Rightarrow> string \<Rightarrow> string \<Rightarrow> nat \<Rightarrow> string \<Rightarrow> bool \<Rightarrow> bb_state \<times> statement list \<Rightarrow>
   pyerr + (bb_state \<times> statement list)" where
  "bb_feeder classname fn root lineno s eof = (\<lambda>(st, sts).
     case bb_infunc st of
       Some (f, ffn, fline, py, fr) \<Rightarrow>
         if s = ''}''
         then Inr (st\<lparr>bb_infunc := None, bb_body := []\<rparr>,
                   sts @ [(fn, lineno, MethodNode f (bb_body st @ [[]]) py fr)])
         else Inr (st\<lparr>bb_body := bb_body st @ [s]\<rparr>, sts)
     | None \<Rightarrow>
         (let rest = (\<lambda>st sts.
                bindE (bb_rest classname fn lineno s st) (\<lambda>(st, node).
                  Inr (st, case node of None \<Rightarrow> sts | Some node \<Rightarrow> sts @ [(fn, lineno, node)])))
          in case bb_inpython st of
               None \<Rightarrow> rest st sts
             | Some f \<Rightarrow>
                 if python_line s \<and> \<not> eof then Inr (st\<lparr>bb_body := bb_body st @ [s]\<rparr>, sts)
                 else
                   (let sts = sts @ [(fn, lineno, PythonMethodNode f root (bb_body st))];
                        st = st\<lparr>bb_body := [], bb_inpython := None\<rparr>
                    in if eof then Inr (st, sts) else rest st sts)))"

fun bb_lines ::
  "string \<Rightarrow> string \<Rightarrow> string \<Rightarrow> nat \<Rightarrow> string list \<Rightarrow> bb_state \<times> statement list \<Rightarrow> pyerr + (bb_state \<times> statement list)" where
  "bb_lines classname fn root n [] x = Inr x"
| "bb_lines classname fn root n (l # ls) x =
     bindE (bb_feeder classname fn root (Suc n) (rstrip l) False x) (bb_lines classname fn root (Suc n) ls)"

text \<open>\<open>get_statements\<close>: an open Python function ends with the file, another open thing is an error.\<close>

definition get_statements ::
  "string \<Rightarrow> string \<Rightarrow> string \<Rightarrow> string list \<Rightarrow> pyerr + (bb_state \<times> statement list)" where
  "get_statements classname fn root ls =
     bindE (bb_lines classname fn root 0 ls (bb_start, [])) (\<lambda>(st, sts).
     bindE (if bb_inpython st \<noteq> None then bb_feeder classname fn root (Suc (length ls)) [] True (st, sts)
            else Inr (st, sts)) (\<lambda>(st, sts).
       if bb_residue st \<noteq> [] then Inl (ParseError ''Unparsed lines'')
       else if bb_body st \<noteq> [] then Inl (ParseError ''Unparsed lines from unclosed function'')
       else Inr (st, sts)))"

end
