(* ===== verification/ParseFiles.thy ===== *)
theory ParseFiles
  imports RecipeTasks BBLines
begin

text \<open>
  Finding files for the parser, from \<open>poky/bitbake/lib/bb/parse/__init__.py\<close> and \<open>which\<close> of
  \<open>bb/utils.py\<close>: a file along \<open>BBPATH\<close>, and the record of the files a parse depends on.

  The file system is an argument that does not change: \<open>fe_read\<close> gives the lines of a file or the
  error of opening it, \<open>fe_exists\<close>, \<open>fe_isfile\<close> and \<open>fe_mtime\<close> what \<open>os\<close> knows of a path.
\<close>

record file_env =
  fe_parse :: parse_env
  fe_read :: "string \<Rightarrow> pyerr + string list"
  fe_exists :: "string \<Rightarrow> bool"
  fe_isfile :: "string \<Rightarrow> bool"
  fe_mtime :: "string \<Rightarrow> pval"
  fe_cwd :: string

abbreviation fe_ds :: "file_env \<Rightarrow> ds_env" where
  "fe_ds env \<equiv> pe_ds (fe_parse env)"

section \<open>Paths\<close>

definition isabs :: "string \<Rightarrow> bool" where
  "isabs p \<longleftrightarrow> startswith p ''/''"

definition path_join :: "string \<Rightarrow> string \<Rightarrow> string" where
  "path_join a b =
     (if startswith b ''/'' then b
      else if a = [] \<or> last a = CHR ''/'' then a @ b else a @ ''/'' @ b)"

definition basename :: "string \<Rightarrow> string" where
  "basename p = last (split_on (CHR ''/'') p)"

definition dirname :: "string \<Rightarrow> string" where
  "dirname p =
     (let head = take (length p - length (basename p)) p
      in if list_all (\<lambda>c. c = CHR ''/'') head then head
         else rev (dropWhile (\<lambda>c. c = CHR ''/'') (rev head)))"

text \<open>\<open>splitext\<close>: the extension starts at the last dot of the base name, unless only dots precede it.\<close>

definition splitext :: "string \<Rightarrow> string \<times> string" where
  "splitext p =
     (let b = basename p; ext = rev (takeWhile (\<lambda>c. c \<noteq> CHR ''.'') (rev b));
          root = take (length b - Suc (length ext)) b
      in if CHR ''.'' \<in> set b \<and> \<not> list_all (\<lambda>c. c = CHR ''.'') root
         then (take (length p - Suc (length ext)) p, CHR ''.'' # ext) else (p, []))"

definition norm_step :: "bool \<Rightarrow> string \<Rightarrow> string list \<Rightarrow> string list" where
  "norm_step rooted c cs =
     (if c = [] \<or> c = ''.'' then cs
      else if c \<noteq> ''..'' \<or> (\<not> rooted \<and> cs = []) \<or> (cs \<noteq> [] \<and> last cs = ''..'') then cs @ [c]
      else butlast cs)"

definition abspath :: "file_env \<Rightarrow> string \<Rightarrow> string" where
  "abspath env p =
     (let q = (if isabs p then p else path_join (fe_cwd env) p);
          slashes = (if startswith q ''//'' \<and> \<not> startswith q ''///'' then ''//'' else ''/'')
      in slashes @ join_with ''/'' (fold (norm_step True) (split_on (CHR ''/'') q) []))"

text \<open>\<open>bb.utils.which\<close> with the list of candidates.\<close>

fun which_loop :: "file_env \<Rightarrow> string \<Rightarrow> string list \<Rightarrow> string list \<Rightarrow> string \<times> string list" where
  "which_loop env item [] hist = ([], hist)"
| "which_loop env item (p # ps) hist =
     (let next = path_join p item; hist = hist @ [next]
      in if fe_exists env next then (if isabs next then next else abspath env next, hist)
         else which_loop env item ps hist)"

definition which :: "file_env \<Rightarrow> string \<Rightarrow> string \<Rightarrow> string \<times> string list" where
  "which env path item = which_loop env item (split_on (CHR '':'') path) []"

section \<open>Dependencies\<close>

definition depend_entry :: "file_env \<Rightarrow> string \<Rightarrow> pval" where
  "depend_entry env f = PList [PStr f, fe_mtime env f]"

definition mark_dependency :: "nat \<Rightarrow> file_env \<Rightarrow> string \<Rightarrow> dstore \<Rightarrow> pyerr + dstore" where
  "mark_dependency n env f d =
     (let f = (if startswith f ''./'' then fe_cwd env @ ''/'' @ drop 2 f else f)
      in bindE (read_list n (fe_parse env) ''__depends'' d) (\<lambda>(deps, d).
           if depend_entry env f \<in> set deps then Inr d
           else setVar n (fe_ds env) ''__depends'' (PList (deps @ [depend_entry env f])) False d))"

text \<open>A path variable: a string, nothing, or a value that has no \<open>split\<close>.\<close>

definition path_text :: "pval \<Rightarrow> pyerr + string" where
  "path_text v = (if \<not> truthy_val v then Inr [] else (case v of PStr s \<Rightarrow> Inr s | _ \<Rightarrow> Inl AttributeError))"

definition resolve_file :: "nat \<Rightarrow> file_env \<Rightarrow> string \<Rightarrow> dstore \<Rightarrow> pyerr + (string \<times> dstore)" where
  "resolve_file n env fn d =
     bindE (if isabs fn then bindE (mark_dependency n env fn d) (\<lambda>d. Inr (fn, d))
            else
              bindE (getVar n (fe_ds env) ''BBPATH'' True d) (\<lambda>(bbpath, d).
              bindE (path_text bbpath) (\<lambda>path.
                case which env path fn of (newfn, attempts) \<Rightarrow>
                  bindE (foldE (mark_dependency n env) attempts d) (\<lambda>d.
                    if newfn = [] then Inl FileNotFoundError else Inr (newfn, d))))) (\<lambda>(fn, d).
       if fe_isfile env fn then Inr (fn, d) else Inl FileNotFoundError)"

end
