(* ===== verification/ParseRun.thy ===== *)
theory ParseRun
  imports ParseFiles
begin

text \<open>
  Running files into a data store, from \<open>ast.py\<close>, \<open>parse_py/ConfHandler.py\<close> and
  \<open>parse_py/BBHandler.py\<close> of \<open>poky/bitbake/lib/bb/parse\<close>: what each statement does, \<open>include\<close>,
  \<open>inherit\<close>, the two handlers, and the part of \<open>multi_finalize\<close> before \<open>finalize\<close>.  A file that is
  read is parsed to its end before the first of its statements is run.

  \<^item> The state \<open>pstate\<close> is the data store with the variables of the module: the cached statements
    of classes and include files, the function still open, and whether a \<open>SkipRecipe\<close> is on its
    way to the handler that catches it.  A statement that raises \<open>SkipRecipe\<close> itself counts as not
    run.
  \<^item> Files that include one another without end are a \<open>RecursionError\<close> in the code; the depth is
    the first argument of \<open>handle_file\<close>, and past it there is \<open>Diverges\<close>.
  \<^item> A list in a variable is a value; the code appends to it in place, which also shows in the copies
    made of the store before.
\<close>

record pstate =
  ps_ds :: dstore
  ps_cached :: "(string, statement list) dict"
  ps_open :: "string option"
  ps_skip :: bool

definition on_ds :: "(dstore \<Rightarrow> pyerr + dstore) \<Rightarrow> pstate \<Rightarrow> pyerr + pstate" where
  "on_ds f p = bindE (f (ps_ds p)) (\<lambda>d. Inr (p\<lparr>ps_ds := d\<rparr>))"

type_synonym file_handler = "string \<Rightarrow> pstate \<Rightarrow> pyerr + pstate"

text \<open>A loop whose steps stop when a \<open>SkipRecipe\<close> is on its way.\<close>

fun unless_skip :: "('a \<Rightarrow> pstate \<Rightarrow> pyerr + pstate) \<Rightarrow> 'a list \<Rightarrow> pstate \<Rightarrow> pyerr + pstate" where
  "unless_skip f [] p = Inr p"
| "unless_skip f (x # xs) p = bindE (f x p) (\<lambda>p. if ps_skip p then Inr p else unless_skip f xs p)"

section \<open>include\<close>

text \<open>
  Whether a file is missing or cannot be read, a required one is a \<open>ParseError\<close>; a missing one that
  is not required is passed over.
\<close>

definition include_errors :: "bool \<Rightarrow> pstate \<Rightarrow> pyerr + pstate \<Rightarrow> pyerr + pstate" where
  "include_errors force p m =
     (case m of
        Inl FileNotFoundError \<Rightarrow> if force then Inl (ParseError ''Could not include required file'') else Inr p
      | Inl OSError \<Rightarrow> Inl (ParseError ''Could not include file'')
      | _ \<Rightarrow> m)"

text \<open>
  The path searched is the directory of the including file and \<open>BBPATH\<close>, with the text \<open>None\<close> when
  \<open>BBPATH\<close> is not set.
\<close>

definition include_single_file ::
  "nat \<Rightarrow> file_env \<Rightarrow> file_handler \<Rightarrow> string \<Rightarrow> bool \<Rightarrow> string \<Rightarrow> pstate \<Rightarrow> pyerr + pstate" where
  "include_single_file n env handle parentfn force fn p =
     (if parentfn = fn then Inr p
      else
        bindE (if isabs fn then Inr (fn, ps_ds p)
               else
                 bindE (getVar n (fe_ds env) ''BBPATH'' True (ps_ds p)) (\<lambda>(bbpath, d).
                   let path = dirname parentfn @ '':'' @ (if bbpath = PNone then ''None'' else py_str (fe_parse env) bbpath)
                   in case which env path fn of (abs_fn, attempts) \<Rightarrow>
                        bindE (foldE (mark_dependency n env) attempts d) (\<lambda>d.
                          Inr (if abs_fn \<noteq> [] then abs_fn else fn, d)))) (\<lambda>(fn, d).
          include_errors force (p\<lparr>ps_ds := d\<rparr>) (handle fn (p\<lparr>ps_ds := d\<rparr>))))"

definition include_files ::
  "nat \<Rightarrow> file_env \<Rightarrow> file_handler \<Rightarrow> string \<Rightarrow> bool \<Rightarrow> string \<Rightarrow> pstate \<Rightarrow> pyerr + pstate" where
  "include_files n env handle parentfn force fns p =
     bindE (ds_expand n (fe_ds env) (PStr fns) None (ps_ds p)) (\<lambda>(fns, d).
     bindE (ds_expand n (fe_ds env) (PStr parentfn) None d) (\<lambda>(parentfn, d).
       case (fns, parentfn) of
         (PStr fns, PStr parentfn) \<Rightarrow>
           unless_skip (include_single_file n env handle parentfn force) (words fns) (p\<lparr>ps_ds := d\<rparr>)
       | _ \<Rightarrow> Inl AttributeError))"

section \<open>inherit\<close>

definition class_candidate :: "string \<Rightarrow> string \<Rightarrow> string" where
  "class_candidate t file =
     (if isabs file \<or> endswith file ''.bbclass'' then file else path_join t (file @ ''.bbclass''))"

definition find_class :: "nat \<Rightarrow> file_env \<Rightarrow> string \<Rightarrow> string \<Rightarrow> dstore \<Rightarrow> pyerr + (string \<times> dstore)" where
  "find_class n env t origfile d =
     (let file = class_candidate t origfile
      in if isabs file then Inr (file, d)
         else
           bindE (getVar n (fe_ds env) ''BBPATH'' True d) (\<lambda>(bbpath, d).
           bindE (path_text bbpath) (\<lambda>path.
             case which env path file of (abs_fn, attempts) \<Rightarrow>
               bindE (foldE (mark_dependency n env) (filter (\<lambda>af. af \<noteq> abs_fn) attempts) d) (\<lambda>d.
                 Inr (if abs_fn \<noteq> [] then abs_fn else file, d)))))"

definition inherit_one :: "nat \<Rightarrow> file_env \<Rightarrow> file_handler \<Rightarrow> string \<Rightarrow> pval list \<times> pstate \<Rightarrow> pyerr + (pval list \<times> pstate)" where
  "inherit_one n env handle file = (\<lambda>(cache, p).
     bindE (getVar n (fe_ds env) ''__bbclasstype'' False (ps_ds p)) (\<lambda>(classtype, d).
     bindE (name_of classtype) (\<lambda>classtype.
     bindE (find_class n env (''classes-'' @ classtype) file d) (\<lambda>(first, d).
     bindE (if fe_exists env first then Inr (first, d) else find_class n env ''classes'' file d) (\<lambda>(found, d).
       if \<not> fe_exists env found then Inl (ParseError ''Could not inherit file'')
       else if PStr found \<in> set cache then Inr (cache, p\<lparr>ps_ds := d\<rparr>)
       else
         bindE (setVar n (fe_ds env) ''__inherit_cache'' (PList (cache @ [PStr found])) False d) (\<lambda>d.
           case handle found (p\<lparr>ps_ds := d\<rparr>) of
             Inl e \<Rightarrow> Inl (if e \<in> {FileNotFoundError, OSError} then ParseError ''Could not inherit file'' else e)
           | Inr p \<Rightarrow>
               if ps_skip p then Inr (cache, p)
               else bindE (read_list n (fe_parse env) ''__inherit_cache'' (ps_ds p)) (\<lambda>(cache, d).
                      Inr (cache, p\<lparr>ps_ds := d\<rparr>))))))))"

fun inherit_loop :: "nat \<Rightarrow> file_env \<Rightarrow> file_handler \<Rightarrow> string list \<Rightarrow> pval list \<times> pstate \<Rightarrow> pyerr + pstate" where
  "inherit_loop n env handle [] x = Inr (snd x)"
| "inherit_loop n env handle (f # fs) x =
     bindE (inherit_one n env handle f x) (\<lambda>x. if ps_skip (snd x) then Inr (snd x) else inherit_loop n env handle fs x)"

definition inherit :: "nat \<Rightarrow> file_env \<Rightarrow> file_handler \<Rightarrow> string \<Rightarrow> pstate \<Rightarrow> pyerr + pstate" where
  "inherit n env handle files p =
     bindE (read_list n (fe_parse env) ''__inherit_cache'' (ps_ds p)) (\<lambda>(cache, d).
     bindE (ds_expand n (fe_ds env) (PStr files) None d) (\<lambda>(files, d).
       case files of
         PStr files \<Rightarrow> inherit_loop n env handle (words files) (cache, p\<lparr>ps_ds := d\<rparr>)
       | _ \<Rightarrow> Inl AttributeError))"

section \<open>Statements\<close>

definition add_handlers :: "nat \<Rightarrow> parse_env \<Rightarrow> string list \<Rightarrow> dstore \<Rightarrow> pyerr + dstore" where
  "add_handlers n env hs d =
     bindE (read_list n env ''__BBHANDLERS'' d) (\<lambda>(bbhands, d).
     bindE (foldE (\<lambda>h. setVarFlag n (pe_ds env) h ''handler'' (PInt 1)) hs d) (\<lambda>d.
       setVar n (pe_ds env) ''__BBHANDLERS'' (PList (bbhands @ map PStr hs)) False d))"

definition defer_inherit :: "nat \<Rightarrow> parse_env \<Rightarrow> string \<Rightarrow> string \<Rightarrow> nat \<Rightarrow> dstore \<Rightarrow> pyerr + dstore" where
  "defer_inherit n env classes filename lineno d =
     bindE (read_list n env ''__BBDEFINHERITS'' d) (\<lambda>(inherits, d).
       setVar n (pe_ds env) ''__BBDEFINHERITS''
         (PList (inherits @ [PList [PStr classes, PStr filename, PInt (int lineno)]])) False d)"

definition delete_tasks :: "nat \<Rightarrow> parse_env \<Rightarrow> string \<Rightarrow> dstore \<Rightarrow> pyerr + dstore" where
  "delete_tasks n env tasks d =
     bindE (ds_expand n (pe_ds env) (PStr tasks) None d) (\<lambda>(v, d).
       case v of PStr s \<Rightarrow> foldE (deltask n env) (words s) d | _ \<Rightarrow> Inl AttributeError)"

text \<open>The statements that only change the data store.\<close>

definition eval_store_node ::
  "nat \<Rightarrow> parse_env \<Rightarrow> string \<Rightarrow> nat \<Rightarrow> ast_node \<Rightarrow> dstore \<Rightarrow> pyerr + dstore" where
  "eval_store_node n env filename lineno node d =
     (case node of
        ExportNode v \<Rightarrow> setVarFlag n (pe_ds env) v ''export'' (PInt 1) d
      | UnsetNode v \<Rightarrow> Inr (delVar v d)
      | UnsetFlagNode v f \<Rightarrow> Inr (delVarFlag v f d)
      | DataNode g \<Rightarrow> eval_data n env g d
      | MethodNode f body py fr \<Rightarrow> eval_method n env filename lineno f body py fr d
      | PythonMethodNode f modulename body \<Rightarrow> eval_python_method n env filename lineno f modulename body d
      | ExportFuncsNode fns classname \<Rightarrow> foldE (export_func n env classname) fns d
      | AddTaskNode t before after \<Rightarrow> addtask n env t before after d
      | DelTaskNode ts \<Rightarrow> delete_tasks n env ts d
      | BBHandlerNode hs \<Rightarrow> add_handlers n env hs d
      | InheritDeferredNode classes \<Rightarrow> defer_inherit n env classes filename lineno d
      | _ \<Rightarrow> Inr d)"

definition eval_node :: "nat \<Rightarrow> file_env \<Rightarrow> file_handler \<Rightarrow> statement \<Rightarrow> pstate \<Rightarrow> pyerr + pstate" where
  "eval_node n env handle = (\<lambda>(filename, lineno, node) p.
     case node of
       IncludeNode w force \<Rightarrow>
         bindE (ds_expand n (fe_ds env) (PStr w) None (ps_ds p)) (\<lambda>(s, d).
           case s of
             PStr s \<Rightarrow> include_files n env handle filename force s (p\<lparr>ps_ds := d\<rparr>)
           | _ \<Rightarrow> Inl AttributeError)
     | InheritNode classes \<Rightarrow> inherit n env handle classes p
     | _ \<Rightarrow> on_ds (eval_store_node n (fe_parse env) filename lineno node) p)"

text \<open>A \<open>SkipRecipe\<close> ends the statements of the file.\<close>

definition eval_or_skip :: "nat \<Rightarrow> file_env \<Rightarrow> file_handler \<Rightarrow> statement \<Rightarrow> pstate \<Rightarrow> pyerr + pstate" where
  "eval_or_skip n env handle st p =
     (case eval_node n env handle st p of
        Inl SkipRecipe \<Rightarrow> Inr (p\<lparr>ps_skip := True\<rparr>)
      | r \<Rightarrow> r)"

definition eval_statements ::
  "nat \<Rightarrow> file_env \<Rightarrow> file_handler \<Rightarrow> statement list \<Rightarrow> pstate \<Rightarrow> pyerr + pstate" where
  "eval_statements n env handle sts p = unless_skip (eval_or_skip n env handle) sts p"

section \<open>The handlers\<close>

text \<open>
  \<open>ConfHandler.handle\<close> in an included file; \<open>FILE\<close> is put back if it had a value.  Nothing registers
  a \<open>confFilters\<close> function.
\<close>

definition conf_handle :: "nat \<Rightarrow> file_env \<Rightarrow> bool \<Rightarrow> file_handler \<Rightarrow> file_handler" where
  "conf_handle n env included handle fn p =
     bindE (if included then getVar n (fe_ds env) ''FILE'' False (ps_ds p) else Inr (PNone, ps_ds p)) (\<lambda>(oldfile, d).
     bindE (resolve_file n env fn d) (\<lambda>(abs_fn, d).
     bindE (fe_read env abs_fn) (\<lambda>ls.
     bindE (conf_read abs_fn 0 ls) (\<lambda>sts.
     bindE (setVar n (fe_ds env) ''FILE'' (PStr abs_fn) False d) (\<lambda>d.
     bindE (eval_statements n env handle sts (p\<lparr>ps_ds := d\<rparr>)) (\<lambda>p.
       if ps_skip p \<or> \<not> truthy_val oldfile then Inr p
       else on_ds (setVar n (fe_ds env) ''FILE'' oldfile False) p))))))"

text \<open>
  \<open>get_statements\<close> with its cache: the statements, and the function still open; nothing is read
  and so nothing is open when the statements are cached.
\<close>

definition load_statements ::
  "file_env \<Rightarrow> string \<Rightarrow> string \<Rightarrow> string \<Rightarrow> string \<Rightarrow> pstate \<Rightarrow> pyerr + (statement list \<times> pstate)" where
  "load_statements env classname fn abs_fn root p =
     (case map_of (ps_cached p) abs_fn of
        Some sts \<Rightarrow> Inr (sts, p\<lparr>ps_open := None\<rparr>)
      | None \<Rightarrow>
          bindE (fe_read env abs_fn) (\<lambda>ls.
          bindE (get_statements classname fn root ls) (\<lambda>(st, sts).
            Inr (sts, p\<lparr>ps_open := map_option fst (bb_infunc st),
                        ps_cached := (if endswith fn ''.bbclass'' \<or> endswith fn ''.inc''
                                      then dset abs_fn sts (ps_cached p) else ps_cached p)\<rparr>))))"

definition note_class :: "nat \<Rightarrow> file_env \<Rightarrow> string \<Rightarrow> dstore \<Rightarrow> pyerr + dstore" where
  "note_class n env fn d =
     bindE (read_list n (fe_parse env) ''__inherit_cache'' d) (\<lambda>(cache, d).
       if PStr fn \<in> set cache then Inr d
       else setVar n (fe_ds env) ''__inherit_cache'' (PList (cache @ [PStr fn])) False d)"

text \<open>
  \<open>BBHandler.handle\<close> up to \<open>multi_finalize\<close>.  A \<open>SkipRecipe\<close> stops here: the recipe is marked, and
  only the recipe itself is then done.
\<close>

definition bb_handle :: "nat \<Rightarrow> file_env \<Rightarrow> bool \<Rightarrow> file_handler \<Rightarrow> file_handler" where
  "bb_handle n env included handle fn p =
     (case splitext (basename fn) of (root, ext) \<Rightarrow>
        let is_class = (ext = ''.bbclass'')
        in bindE (if is_class then note_class n env fn (ps_ds p) else Inr (ps_ds p)) (\<lambda>d.
           bindE (if included then getVar n (fe_ds env) ''FILE'' False d else Inr (PNone, d)) (\<lambda>(oldfile, d).
           bindE (resolve_file n env fn d) (\<lambda>(abs_fn, d).
           bindE (load_statements env (if is_class then root else []) fn abs_fn (basename fn) (p\<lparr>ps_ds := d\<rparr>)) (\<lambda>(sts, p).
           bindE (if \<not> is_class \<and> PStr abs_fn \<noteq> oldfile
                  then on_ds (setVar n (fe_ds env) ''FILE'' (PStr abs_fn) False) p else Inr p) (\<lambda>p.
           bindE (eval_statements n env handle sts p) (\<lambda>p.
           bindE (if ps_skip p then on_ds (setVar n (fe_ds env) ''__SKIPPED'' (PBool True) False) p else Inr p) (\<lambda>p.
             if ps_skip p \<and> \<not> included then Inr p
             else if ps_open p \<noteq> None then Inl (ParseError ''Shell function is never closed'')
             else if \<not> is_class \<and> truthy_val oldfile \<and> PStr abs_fn \<noteq> oldfile
             then on_ds (setVar n (fe_ds env) ''FILE'' oldfile False) (p\<lparr>ps_skip := False\<rparr>)
             else Inr (p\<lparr>ps_skip := False\<rparr>)))))))))"

text \<open>\<open>bb.parse.handle\<close>: the handler for the extension of the file.\<close>

fun handle_file :: "nat \<Rightarrow> nat \<Rightarrow> file_env \<Rightarrow> file_handler" where
  "handle_file 0 n env fn p = Inl Diverges"
| "handle_file (Suc k) n env fn p =
     (if endswith fn ''.conf'' then conf_handle n env True (handle_file k n env) fn p
      else if snd (splitext fn) \<in> {''.bb'', ''.bbclass'', ''.inc''} then bb_handle n env True (handle_file k n env) fn p
      else Inl (ParseError ''not a BitBake file''))"

section \<open>A recipe\<close>

text \<open>The classes that \<open>inherit_defer\<close> put off, first in first out; a class can put off more.\<close>

fun deferred_loop :: "nat \<Rightarrow> nat \<Rightarrow> file_env \<Rightarrow> file_handler \<Rightarrow> pstate \<Rightarrow> pyerr + pstate" where
  "deferred_loop 0 n env handle p = Inl Diverges"
| "deferred_loop (Suc k) n env handle p =
     bindE (read_list n (fe_parse env) ''__BBDEFINHERITS'' (ps_ds p)) (\<lambda>(inherits, d).
       case inherits of
         [] \<Rightarrow> Inr (p\<lparr>ps_ds := d\<rparr>)
       | PList [PStr classes, _, _] # others \<Rightarrow>
           bindE (setVar n (fe_ds env) ''__BBDEFINHERITS'' (PList others) False d) (\<lambda>d.
           bindE (inherit n env handle classes (p\<lparr>ps_ds := d\<rparr>)) (\<lambda>p.
             if ps_skip p then Inl SkipRecipe else deferred_loop k n env handle p))
       | _ \<Rightarrow> Inl TypeError)"

text \<open>
  A recipe with its append files, up to the call of \<open>finalize\<close>; \<open>k\<close> bounds the depth of the files
  and the number of deferred classes.
\<close>

definition parse_recipe :: "nat \<Rightarrow> nat \<Rightarrow> file_env \<Rightarrow> string \<Rightarrow> pstate \<Rightarrow> pyerr + pstate" where
  "parse_recipe k n env fn p =
     bindE (bb_handle n env False (handle_file k n env) fn p) (\<lambda>p.
       if ps_skip p \<or> snd (splitext (basename fn)) = ''.bbclass'' then Inr p
       else
         bindE (getVar n (fe_ds env) ''__BBAPPEND'' True (ps_ds p)) (\<lambda>(appends, d).
         bindE (path_text appends) (\<lambda>appends.
         bindE (unless_skip (bb_handle n env True (handle_file k n env)) (words appends) (p\<lparr>ps_ds := d\<rparr>))
           (deferred_loop k n env (handle_file k n env)))))"

end
