(* ===== verification/ConfProps.thy ===== *)
theory ConfProps
  imports ParseRun VarValues
begin

text \<open>
  Properties of the lines of configuration files: an assignment that is written out is read back,
  and what the unusual lines give.
\<close>

section \<open>Writing an assignment\<close>

definition op_text :: "conf_op \<Rightarrow> string" where
  "op_text opr =
     (case opr of OpColon \<Rightarrow> '':='' | OpLazy \<Rightarrow> ''??='' | OpQues \<Rightarrow> ''?='' | OpAppend \<Rightarrow> ''+='' | OpPrepend \<Rightarrow> ''=+''
      | OpPredot \<Rightarrow> ''=.'' | OpPostdot \<Rightarrow> ''.='' | OpSet \<Rightarrow> ''='')"

definition flag_text :: "string option \<Rightarrow> string" where
  "flag_text f = (case f of None \<Rightarrow> [] | Some f \<Rightarrow> ''['' @ f @ '']'')"

definition conf_line :: "conf_groups \<Rightarrow> string" where
  "conf_line g =
     (if g_exp g then ''export '' else []) @ g_var g @ flag_text (g_flag g) @ '' '' @ op_text (g_op g) @ '' '' @
     [CHR 0x22] @ g_value g @ [CHR 0x22]"

definition wf_flag :: "string option \<Rightarrow> bool" where
  "wf_flag f = (case f of None \<Rightarrow> True | Some f \<Rightarrow> f \<noteq> [] \<and> flag_first (hd f) \<and> list_all flag_char (tl f))"

definition wf_groups :: "conf_groups \<Rightarrow> bool" where
  "wf_groups g \<longleftrightarrow> g_var g \<notin> {[], ''export''} \<and> list_all conf_var_char (g_var g) \<and> wf_flag (g_flag g)"

section \<open>Reading it back\<close>

lemma conf_var_char_not [simp]:
  "\<not> conf_var_char CHR '' ''" "\<not> conf_var_char CHR ''=''" "\<not> conf_var_char CHR ''[''" "\<not> conf_var_char CHR ''?''"
  "\<not> conf_var_char CHR ''#''"
  by (simp_all add: conf_var_char_def conf_name_char_def alnum_def)

lemma conf_var_char_not_space: "conf_var_char c \<Longrightarrow> \<not> is_space c"
  by (auto simp: conf_var_char_def conf_name_char_def alnum_def is_space_def Let_def)

lemma is_space_blank [simp]: "is_space CHR '' ''"
  by (simp add: is_space_def)

lemma not_space_ops [simp]:
  "\<not> is_space CHR ''=''" "\<not> is_space CHR '':''" "\<not> is_space CHR ''?''" "\<not> is_space CHR ''+''" "\<not> is_space CHR ''.''"
  "\<not> is_space CHR 0x22" "\<not> is_space CHR ''[''" "\<not> is_space CHR ''#''"
  by (simp_all add: is_space_def)

lemma flag_char_not [simp]: "\<not> flag_char CHR '']''"
  by (simp add: flag_char_def flag_first_def alnum_def)

lemma startswith_Cons [simp]:
  "startswith (c # s) (p # ps) \<longleftrightarrow> c = p \<and> startswith s ps" "startswith s []" "\<not> startswith [] (p # ps)"
  by (auto simp: startswith_def)

text \<open>No operator starts inside the name: it has no equals sign, and what follows is none.\<close>

lemma no_op_in_name:
  assumes "list_all conf_var_char (c # cs)" and "r \<noteq> []" and "hd r \<noteq> CHR ''=''"
  shows "conf_tail (c # cs @ r) = None"
proof -
  have "dropWhile is_space (c # cs @ r) = c # cs @ r"
    using assms by (simp add: conf_var_char_not_space)
  moreover have "c \<noteq> CHR ''='' \<and> c \<noteq> CHR ''?''" using assms by auto
  moreover have "\<not> startswith (cs @ r) ''=''" using assms by (cases cs; cases r) auto
  ultimately show ?thesis by (simp add: conf_tail_def conf_ops_def)
qed

lemma no_op_at_flag: "conf_tail (CHR ''['' # r) = None"
  by (simp add: conf_tail_def conf_ops_def)

lemma quoted_back:
  "quoted (CHR 0x22 # v @ [CHR 0x22]) = (if length (filter (\<lambda>c. c = CHR 0x22) v) = 1 then None else Some v)"
  by (simp add: quoted_def is_quote_def three_quotes_def)

definition one_quote :: "string \<Rightarrow> bool" where
  "one_quote v \<longleftrightarrow> length (filter (\<lambda>c. c = CHR 0x22) v) = 1"

lemma quoted_none [simp]: "quoted (CHR ''+'' # r) = None" "quoted (CHR ''.'' # r) = None"
  by (simp_all add: quoted_def is_quote_def)

lemma conf_tail_back:
  "conf_tail ('' '' @ op_text opr @ '' '' @ [CHR 0x22] @ v @ [CHR 0x22]) = (if one_quote v then None else Some (opr, v))"
  by (cases opr) (simp_all add: conf_tail_def conf_ops_def op_text_def one_quote_def quoted_back Let_def)

lemma conf_flag_back: "wf_flag (Some f) \<Longrightarrow> conf_flag (CHR ''['' # f @ CHR '']'' # r) = Some (f, r)"
  by (cases f) (auto simp: conf_flag_def wf_flag_def list_all_iff takeWhile_append dropWhile_append Let_def)

lemma conf_flag_none: "x \<noteq> CHR ''['' \<Longrightarrow> conf_flag (x # r) = None"
  by (auto simp: conf_flag_def Let_def split: list.splits)

text \<open>The text after the name of an assignment.\<close>

definition op_part :: "conf_groups \<Rightarrow> string" where
  "op_part g = '' '' @ op_text (g_op g) @ '' '' @ [CHR 0x22] @ g_value g @ [CHR 0x22]"

definition after_name :: "conf_groups \<Rightarrow> string" where
  "after_name g = flag_text (g_flag g) @ op_part g"

lemma op_part_back: "conf_tail (op_part g) = (if one_quote (g_value g) then None else Some (g_op g, g_value g))"
  unfolding op_part_def by (rule conf_tail_back)

lemma after_name_back:
  assumes "wf_flag (g_flag g)"
  shows "conf_flag (after_name g) = map_option (\<lambda>f. (f, op_part g)) (g_flag g)"
    and "conf_tail (after_name g) = (if g_flag g = None then conf_tail (op_part g) else None)"
    and "after_name g \<noteq> []" and "hd (after_name g) \<in> {CHR '' '', CHR ''[''}"
  using assms
  by (cases "g_flag g"; simp add: after_name_def flag_text_def conf_flag_back no_op_at_flag;
      simp add: op_part_def conf_flag_none)+

text \<open>A name is read to its end.\<close>

lemma conf_var_name:
  assumes "list_all conf_var_char v" and "v \<noteq> []" and "r \<noteq> []" and "hd r \<in> {CHR '' '', CHR ''[''}"
  shows "conf_var pre (v @ r) =
    (case (case conf_flag r of
             None \<Rightarrow> None
           | Some (f, r) \<Rightarrow> map_option (\<lambda>(opr, value). (pre @ v, Some f, opr, value)) (conf_tail r)) of
       Some x \<Rightarrow> Some x
     | None \<Rightarrow> map_option (\<lambda>(opr, value). (pre @ v, None, opr, value)) (conf_tail r))"
  (is "_ = ?rhs pre v")
  using assms
proof (induction v arbitrary: pre)
  case Nil
  then show ?case by simp
next
  case (Cons c v)
  show ?case
  proof (cases v)
    case Nil
    have "conf_var (pre @ [c]) r = None" using Cons.prems by (cases r) auto
    with Nil Cons.prems show ?thesis by (auto simp: Let_def split: option.splits)
  next
    case (Cons d w)
    then have "conf_tail (v @ r) = None"
      using no_op_in_name [of d w r] Cons.prems by auto
    moreover have "conf_flag (v @ r) = None"
      using Cons Cons.prems by (auto intro!: conf_flag_none)
    ultimately have "conf_var pre ((c # v) @ r) = conf_var (pre @ [c]) (v @ r)" using Cons.prems by simp
    also have "\<dots> = ?rhs (pre @ [c]) v" using Cons.prems \<open>v = d # w\<close> by (intro Cons.IH) simp_all
    finally show ?thesis unfolding append_assoc append_Cons append_Nil .
  qed
qed

lemma conf_var_back:
  assumes "wf_groups g"
  shows "conf_var [] (g_var g @ after_name g) =
    (if one_quote (g_value g) then None else Some (g_var g, g_flag g, g_op g, g_value g))"
proof -
  from assms have "wf_flag (g_flag g)" by (simp add: wf_groups_def)
  note parts = after_name_back [OF this]
  from assms parts(3,4) show ?thesis
    by (subst conf_var_name) (auto simp: wf_groups_def parts(1,2) op_part_back split: option.split)
qed

text \<open>With \<open>export\<close> and a space in front, \<open>export\<close> is not taken for the name.\<close>

lemma export_not_name:
  assumes "wf_groups g"
  shows "conf_var [] (''export'' @ CHR '' '' # g_var g @ after_name g) = None"
proof -
  from assms have "wf_flag (g_flag g)" by (simp add: wf_groups_def)
  note parts = after_name_back [OF this]
  obtain c v where "g_var g = c # v" using assms by (cases "g_var g") (auto simp: wf_groups_def)
  then have "conf_tail (g_var g @ after_name g) = None"
    using no_op_in_name [of c v "after_name g"] assms parts(3,4) by (auto simp: wf_groups_def)
  then have "conf_tail (CHR '' '' # g_var g @ after_name g) = None" by (simp add: conf_tail_def)
  moreover have "list_all conf_var_char ''export''" by (simp add: conf_var_char_def conf_name_char_def alnum_def)
  ultimately show ?thesis by (subst conf_var_name) (simp_all add: conf_flag_none)
qed

text \<open>When a name, and then other text, starts with a word and a character of no name, the name is the word.\<close>

lemma name_is_word:
  assumes "name @ r = w @ x # t" and "list_all P name" and "\<not> P x" and "r \<noteq> []" and "hd r \<notin> set w"
  shows "name = w \<and> r = x # t"
proof -
  from assms(1) obtain us where "name = w @ us \<and> us @ r = x # t \<or> name @ us = w \<and> r = us @ x # t"
    by (auto simp: append_eq_append_conv2)
  then show ?thesis
  proof
    assume us: "name = w @ us \<and> us @ r = x # t"
    then show ?thesis using assms(2,3) by (cases us) auto
  next
    assume us: "name @ us = w \<and> r = us @ x # t"
    then show ?thesis using assms(5) by (cases us) auto
  qed
qed

lemma starts_then: "startswith s w \<Longrightarrow> drop (length w) s \<noteq> [] \<Longrightarrow> s = w @ hd (drop (length w) s) # tl (drop (length w) s)"
  by (auto simp: startswith_iff)

lemma name_not_export:
  assumes "wf_groups g" and "g_var g @ after_name g = ''export'' @ r" and "r \<noteq> []"
  shows "\<not> is_space (hd r)"
proof
  assume space: "is_space (hd r)"
  from assms have "wf_flag (g_flag g)" by (simp add: wf_groups_def)
  note parts = after_name_back [OF this]
  have "g_var g = ''export'' \<and> after_name g = hd r # tl r"
  proof (rule name_is_word)
    show "g_var g @ after_name g = ''export'' @ hd r # tl r" using assms(2,3) by simp
    show "list_all conf_var_char (g_var g)" using assms(1) by (simp add: wf_groups_def)
    show "\<not> conf_var_char (hd r)" using space conf_var_char_not_space by blast
  qed (use parts(3,4) in auto)
  with assms(1) show False by (simp add: wf_groups_def)
qed

lemma config_match_plain:
  "\<not> (startswith s ''export'' \<and> drop 6 s \<noteq> [] \<and> is_space (hd (drop 6 s))) \<Longrightarrow>
   config_match s = map_option (groups_of False) (conf_var [] s)"
  unfolding config_match_def by (simp only: if_False option.case)

text \<open>
  C19: An assignment that is written out is read back.  The line with an optional export, name, flag,
  any of the eight operators and a value in double quotes matches the pattern of assignments with
  exactly these parts, whatever the value is, except when the value has exactly one double quote:
  then it does not match at all.
\<close>

theorem conf_line_roundtrip:
  assumes "wf_groups g"
  shows "config_match (conf_line g) = (if one_quote (g_value g) then None else Some g)"
proof -
  have line: "conf_line g = (if g_exp g then ''export '' else []) @ g_var g @ after_name g"
    by (simp add: conf_line_def after_name_def op_part_def)
  note whole = conf_var_back [OF assms]
  have var: "dropWhile is_space (g_var g @ after_name g) = g_var g @ after_name g"
    using assms by (cases "g_var g") (auto simp: wf_groups_def conf_var_char_not_space)
  show ?thesis
  proof (cases "g_exp g")
    case True
    with export_not_name [OF assms] whole var show ?thesis
      by (simp add: config_match_def line groups_of_def del: conf_var.simps)
  next
    case False
    have "\<not> (startswith (conf_line g) ''export'' \<and> drop 6 (conf_line g) \<noteq> [] \<and> is_space (hd (drop 6 (conf_line g))))"
    proof (cases "startswith (conf_line g) ''export''")
      case True
      then obtain r where "conf_line g = ''export'' @ r" by (auto simp: startswith_iff)
      with name_not_export [OF assms, of r] False show ?thesis by (auto simp: line)
    qed simp
    from config_match_plain [OF this] False whole show ?thesis by (simp add: line groups_of_def)
  qed
qed

text \<open>A file of such lines is read as the list of its assignments, each with the number of its line.\<close>

lemma rstrip_line: "rstrip (conf_line g @ [CHR 0x0A]) = conf_line g"
  by (simp add: rstrip_def conf_line_def is_space_def)

lemma conf_line_ends: "conf_line g \<noteq> []" "last (conf_line g) = CHR 0x22"
  by (simp_all add: conf_line_def)

lemma conf_line_no_comment:
  assumes "wf_groups g"
  shows "hd (conf_line g) \<noteq> CHR ''#''" "\<not> list_all is_space (conf_line g @ [CHR 0x0A])"
proof -
  obtain c v where "g_var g = c # v" "conf_var_char c" using assms by (cases "g_var g") (auto simp: wf_groups_def)
  then have "hd (conf_line g) = CHR ''e'' \<or> conf_var_char (hd (conf_line g))" by (simp add: conf_line_def)
  then show "hd (conf_line g) \<noteq> CHR ''#''" by auto
  show "\<not> list_all is_space (conf_line g @ [CHR 0x0A])" by (simp add: conf_line_def)
qed

definition assignment_file :: "conf_groups list \<Rightarrow> string list" where
  "assignment_file gs = map (\<lambda>g. conf_line g @ [CHR 0x0A]) gs"

definition assignments :: "string \<Rightarrow> nat \<Rightarrow> conf_groups list \<Rightarrow> statement list" where
  "assignments fn n gs = map (\<lambda>(i, g). (fn, i, DataNode g)) (enumerate (Suc n) gs)"

definition printable :: "conf_groups \<Rightarrow> bool" where
  "printable g \<longleftrightarrow> wf_groups g \<and> \<not> one_quote (g_value g)"

lemma conf_file_roundtrip:
  assumes "list_all printable gs"
  shows "conf_read fn n (assignment_file gs) = Inr (assignments fn n gs)"
  using assms
proof (induction gs arbitrary: n)
  case (Cons g gs)
  then have wf: "wf_groups g" and feed: "conf_feeder (conf_line g) = Inr (DataNode g)"
    by (simp_all add: printable_def conf_feeder_def conf_line_roundtrip)
  have "join_cont (conf_line g) (Suc n) ls = Inr (conf_line g, Suc n, ls)" for ls
    by (subst join_cont.simps) (simp add: conf_line_ends)
  with Cons feed conf_line_no_comment [OF wf] show ?case
    by (simp add: assignment_file_def assignments_def rstrip_line)
qed (simp add: assignment_file_def assignments_def)

section \<open>What a file of assignments means\<close>

text \<open>
  The flag an assignment writes, what its operator makes of the old value, and its effect on a map of all flags of all variables.  The
  assignments here are those that touch nothing else: they have no override in the name and no
  export, and the name is not one that was renamed.
\<close>

definition target_flag :: "conf_groups \<Rightarrow> string" where
  "target_flag g = (case g_flag g of Some f \<Rightarrow> f | None \<Rightarrow> if g_op g = OpLazy then ''_defaultval'' else ''_content'')"

definition written_value :: "parse_env \<Rightarrow> conf_op \<Rightarrow> pval \<Rightarrow> string \<Rightarrow> pval" where
  "written_value env opr old new =
     (let s = (if truthy_val old then py_str env old else [])
      in case opr of
           OpColon \<Rightarrow> PStr new | OpLazy \<Rightarrow> PStr new | OpSet \<Rightarrow> PStr new
         | OpQues \<Rightarrow> (if old = PNone then PStr new else old)
         | OpAppend \<Rightarrow> PStr (s @ CHR '' '' # new) | OpPrepend \<Rightarrow> PStr (new @ CHR '' '' # s)
         | OpPostdot \<Rightarrow> PStr (s @ new) | OpPredot \<Rightarrow> PStr (new @ s))"

lemma combine_written: "combine env opr old new = written_value env opr old new"
  by (cases opr) (simp_all add: combine_def written_value_def or_empty_val_def py_str_def Let_def)

definition assign_flat :: "parse_env \<Rightarrow> conf_groups \<Rightarrow> (string \<Rightarrow> string \<Rightarrow> pval) \<Rightarrow> string \<Rightarrow> string \<Rightarrow> pval" where
  "assign_flat env g m =
     m(g_var g := (m (g_var g))
         (target_flag g := written_value env (g_op g) (m (g_var g) (target_flag g)) (g_value g)))"

definition simple_assignment :: "(string, string) dict \<Rightarrow> conf_groups \<Rightarrow> bool" where
  "simple_assignment renames g \<longleftrightarrow>
     \<not> g_exp g \<and> CHR '':'' \<notin> set (g_var g) \<and> g_var g \<noteq> ''BB_RENAMED_VARIABLES'' \<and> \<not> din (g_var g) renames \<and>
     g_flag g \<notin> {Some [], Some ''_content'', Some ''export'', Some ''unexport''} \<and>
     (g_op g = OpColon \<longrightarrow> no_refs (g_value g))"

lemma raw_flag_update:
  "findVar d' = (findVar d)(var \<mapsto> dset f v (flags_in (findVar d) var)) \<Longrightarrow>
   raw_flag d' = (raw_flag d)(var := (raw_flag d var)(f := v))"
  by (auto simp: raw_flag_def fun_eq_iff dgetd_def split: option.splits)

lemma setVar_parsing_flat:
  assumes "setVar n env var v True d = Inr d'" and "CHR '':'' \<notin> set var" and "\<not> din var (var_renames d)"
  shows "raw_flag d' = (raw_flag d)(var := (raw_flag d var)(''_content'' := v)) \<and> var_renames d' = var_renames d"
proof -
  let ?d = "set_flag var ''_content'' v (makeShadowCopy var (reset_cache d))"
  have r: "var_renames (reset_cache d) = var_renames d" by (simp add: reset_cache_def)
  from assms have "(if var \<in> set (overridevars ?d) then setvar_update_overridevars n env var v ?d else Inr ?d) = Inr d'"
    by (auto simp: setVar_def setvar_match_plain set_plain_def Let_def split: if_split_asm)
  then have "contents d' = contents ?d"
    by (auto split: if_split_asm dest: setvar_update_overridevars_contents)
  note contents_parts [OF this]
  then show ?thesis
    by (simp add: raw_flag_update findVar_shadow_set r)
qed

lemma setVarFlag_raw:
  assumes "setVarFlag n env var f v d = Inr d'" and "var \<noteq> ''BB_RENAMED_VARIABLES''" and "\<not> din var (var_renames d)"
    and "f \<notin> {''export'', ''unexport''}"
  shows "raw_flag d' = (raw_flag d)(var := (raw_flag d var)(f := v)) \<and> var_renames d' = var_renames d"
  using setVarFlag_flat [OF assms(1)] assms(2-4) by (auto simp: raw_flag_update)

lemma getFunc_raw:
  assumes "g_flag g \<notin> {Some [], Some ''_content''}" and "g_op g \<noteq> OpLazy"
  shows "getFunc (Suc k) env g d = Inr (raw_flag d (g_var g) (target_flag g), d)"
  using assms
  by (auto simp: getFunc_def target_flag_def getVarFlag_body_def Let_def run_ops_def expand_value_def add_removes_def
      apply_removes_def base_value_def raw_flag_def dgetd_def split: option.splits)

lemma data_value_combine:
  assumes "simple_assignment (var_renames d) g"
  shows "data_value (Suc k) env g d = Inr (combine env (g_op g) (raw_flag d (g_var g) (target_flag g)) (g_value g), d)"
proof (cases "g_op g = OpColon")
  case True
  then have "no_refs (g_value g)" using assms by (simp add: simple_assignment_def)
  then have "PStr (g_value g) = text_val (Some (g_value g))"
    and "Some (g_value g) = None \<or> no_refs (text_of (PStr (g_value g)))" by simp_all
  from expand_no_refs [OF this, of k "pe_ds env" "flag_reader (Suc k) (pe_ds env)" "Some (g_var g @ ''[:=]'')" "createCopy d"]
  obtain p where "expandWithRefs' (Suc k) (pe_ds env) (PStr (g_value g)) (Some (g_var g @ ''[:=]'')) (createCopy d) =
      Inr (p, createCopy d)" "vp_value p = PStr (g_value g)"
    unfolding expandWithRefs'_def by auto
  then show ?thesis using True by (simp add: data_value_def combine_def ds_expand_def Let_def)
next
  case False
  with assms getFunc_raw [of g k env d] show ?thesis
    by (cases "g_op g") (auto simp: data_value_def combine_def simple_assignment_def)
qed

lemma eval_data_flat:
  assumes "eval_data (Suc k) env g d = Inr d'" and "simple_assignment (var_renames d) g"
  shows "raw_flag d' = assign_flat env g (raw_flag d) \<and> var_renames d' = var_renames d"
  using assms setVar_parsing_flat [of "Suc k" "pe_ds env" "g_var g" _ d d']
    setVarFlag_raw [of "Suc k" "pe_ds env" "g_var g" "target_flag g" _ d d']
  by (auto simp: eval_data_def data_value_combine combine_written target_flag_def assign_flat_def simple_assignment_def
      split: option.splits if_split_asm)

text \<open>A loop of assignments that ends without a \<open>SkipRecipe\<close>.\<close>

lemma unless_skip_Cons:
  assumes "unless_skip f (x # xs) p = Inr p'" and "\<not> ps_skip p'"
  obtains p1 where "f x p = Inr p1" "\<not> ps_skip p1" "unless_skip f xs p1 = Inr p'"
  using assms by (auto split: if_split_asm)


end
