(* ===== verification/BBProps.thy ===== *)
theory BBProps
  imports ConfProps VarRules
begin

text \<open>
  Properties of the lines of recipes and classes: a recipe of functions, assignments and tasks that
  is written out is read back.
\<close>

section \<open>Functions\<close>

definition func_line :: "bool \<Rightarrow> bool \<Rightarrow> string \<Rightarrow> string" where
  "func_line py fr name =
     (if py then ''python '' else []) @ (if fr then ''fakeroot '' else []) @ name @ ''() {''"

definition func_name :: "string \<Rightarrow> bool" where
  "func_name name \<longleftrightarrow> name \<notin> {[], ''python''} \<and> list_all func_char name"

lemma func_char_simps [simp]: "\<not> func_char CHR ''(''" "\<not> func_char CHR '' ''"
  by (simp_all add: func_char_def word_char_def alnum_def)

lemma paren_not_space [simp]: "\<not> is_space CHR ''(''" "\<not> is_space CHR '')''" "\<not> is_space CHR ''{''"
  by (simp_all add: is_space_def)

lemma func_char_not_space: "func_char c \<Longrightarrow> \<not> is_space c"
  by (auto simp: func_char_def word_char_def alnum_def is_space_def Let_def)

text \<open>A pattern that asks for a word and then white space.\<close>

definition starts_word :: "string \<Rightarrow> (char \<Rightarrow> bool) \<Rightarrow> string \<Rightarrow> bool" where
  "starts_word w Q s \<longleftrightarrow> startswith s w \<and> drop (length w) s \<noteq> [] \<and> Q (hd (drop (length w) s))"

lemma func_start_words:
  "func_start s py fr =
     (if starts_word ''python'' (\<lambda>c. is_space c \<or> c = CHR ''('') s then func_start (dropWhile is_space (drop 6 s)) True fr
      else if starts_word ''fakeroot'' is_space s then func_start (dropWhile is_space (drop 8 s)) py True
      else map_option (\<lambda>name. (name, py, fr)) (func_tail s))"
proof -
  have "starts_word ''python'' Q s \<longleftrightarrow> startswith s ''python'' \<and> drop 6 s \<noteq> [] \<and> Q (hd (drop 6 s))"
    and "starts_word ''fakeroot'' Q s \<longleftrightarrow> startswith s ''fakeroot'' \<and> drop 8 s \<noteq> [] \<and> Q (hd (drop 8 s))" for Q
    by (simp_all add: starts_word_def eval_nat_numeral)
  then show ?thesis by (subst func_start.simps) (simp only:)
qed

lemma name_no_word:
  assumes "list_all P name" and "\<And>c. Q c \<Longrightarrow> \<not> P c" and "r \<noteq> []" and "hd r \<notin> set w"
    and "name = w \<Longrightarrow> \<not> Q (hd r)"
  shows "\<not> starts_word w Q (name @ r)"
proof
  assume st: "starts_word w Q (name @ r)"
  then have w: "name @ r = w @ hd (drop (length w) (name @ r)) # tl (drop (length w) (name @ r))"
    unfolding starts_word_def by (intro starts_then) simp_all
  from name_is_word [OF this assms(1)] assms(2-5) st show False by (auto simp: starts_word_def)
qed

lemma func_tail_name: "list_all func_char name \<Longrightarrow> name \<noteq> [] \<Longrightarrow> func_tail (name @ ''() {'') = Some (Some name)"
  by (simp add: func_tail_def list_all_iff takeWhile_append dropWhile_append Let_def)

lemma func_start_name:
  assumes "func_name name"
  shows "func_start (name @ ''() {'') py fr = Some (Some name, py, fr)"
proof -
  have "\<not> starts_word ''python'' (\<lambda>c. is_space c \<or> c = CHR ''('') (name @ ''() {'')"
    by (rule name_no_word [of func_char]) (use assms in \<open>auto simp: func_name_def dest: func_char_not_space\<close>)
  moreover have "\<not> starts_word ''fakeroot'' is_space (name @ ''() {'')"
    by (rule name_no_word [of func_char]) (use assms in \<open>auto simp: func_name_def dest: func_char_not_space\<close>)
  ultimately show ?thesis
    using assms by (subst func_start_words) (simp add: func_tail_name func_name_def)
qed

lemma func_name_start: "func_name name \<Longrightarrow> dropWhile is_space (name @ r) = name @ r"
  by (cases name) (auto simp: func_name_def dest: func_char_not_space)

lemma func_start_prefix:
  assumes "dropWhile is_space r = r"
  shows "func_start (''python '' @ r) py fr = func_start r True fr"
    and "func_start (''fakeroot '' @ r) py fr = func_start r py True"
  using assms by (subst func_start_words, simp add: starts_word_def)+

lemma func_start_line:
  assumes "func_name name"
  shows "func_start (func_line py fr name) False False = Some (Some name, py, fr)"
proof -
  define r where "r = (if fr then ''fakeroot '' else []) @ name @ ''() {''"
  note start = func_name_start [OF assms, of "''() {''"]
  have "func_start r p False = Some (Some name, p, fr)" for p
    using func_start_prefix(2) [OF start] by (cases fr) (simp_all only: r_def if_True if_False append_Nil func_start_name [OF assms])
  moreover have "dropWhile is_space r = r"
    using start by (cases fr) (simp_all add: r_def is_space_def)
  moreover have "func_line py fr name = (if py then ''python '' else []) @ r" by (simp add: func_line_def r_def)
  ultimately show ?thesis
    using func_start_prefix(1) [of r] by (cases py) (simp_all only: if_True if_False append_Nil)
qed

section \<open>Assignments\<close>

text \<open>
  An assignment is no other statement, unless its name is the word another one starts with.  A
  function ends with a brace, and the words are followed by white space.
\<close>

definition statement_words :: "string list" where
  "statement_words =
     [''def'', ''EXPORT_FUNCTIONS'', ''addtask'', ''deltask'', ''addhandler'', ''inherit'', ''inherit_defer'']"

lemma last_dropWhile: "dropWhile P s \<noteq> [] \<Longrightarrow> last (dropWhile P s) = last s"
  by (induction s) auto

lemma last_drop_dropWhile: "dropWhile P (drop n s) \<noteq> [] \<Longrightarrow> last (dropWhile P (drop n s)) = last s"
  using last_dropWhile [of P "drop n s"] by (cases "n < length s") auto

lemma func_tail_brace:
  assumes "func_tail s = Some x"
  shows "last s = CHR ''{''"
proof -
  define r where "r = dropWhile is_space (dropWhile func_char s)"
  define q where "q = dropWhile is_space (drop 1 r)"
  from assms have q: "startswith r ''(''" "startswith q '')''" "dropWhile is_space (drop 1 q) = ''{''"
    by (auto simp: func_tail_def Let_def r_def q_def split: if_split_asm)
  then have r_ne: "q \<noteq> []" "r \<noteq> []" by (auto simp: startswith_iff)
  from r_ne(2) have ne: "dropWhile func_char s \<noteq> []" unfolding r_def by (metis dropWhile.simps(1))
  have "CHR ''{'' = last q" using last_drop_dropWhile [of is_space 1 q, unfolded q(3)] by simp
  also have "\<dots> = last r" using last_drop_dropWhile [of is_space 1 r] r_ne by (simp add: q_def)
  also have "\<dots> = last s" using last_dropWhile ne r_ne(2) by (metis r_def)
  finally show ?thesis by simp
qed

lemma func_start_brace: "func_start s py fr = Some x \<Longrightarrow> s \<noteq> [] \<and> last s = CHR ''{''"
proof (induction s py fr rule: func_start.induct)
  case (1 s py fr)
  have "last s = last (dropWhile is_space (drop n s))" if "dropWhile is_space (drop n s) \<noteq> []" for n
    using last_drop_dropWhile [OF that] by simp
  moreover have "s \<noteq> []" if "drop n s \<noteq> []" for n using that by auto
  moreover have "s \<noteq> [] \<and> last s = CHR ''{''" if "func_tail s = Some y" for y
    using func_tail_brace [OF that] that by (cases s) (simp_all add: func_tail_def)
  ultimately show ?case using 1(1,2) 1(3) by (subst (asm) func_start.simps) (simp split: if_split_asm, metis+)
qed

lemma word_rest_start: "word_rest w s = Some t \<Longrightarrow> starts_word w is_space s"
  by (auto simp: word_rest_def starts_word_def Let_def takeWhile_eq_Nil_iff split: if_split_asm)

lemma assignment_no_word:
  assumes "wf_groups g" and "g_var g \<notin> set statement_words" and "w \<in> set statement_words"
  shows "word_rest w (conf_line g) = None"
proof (rule ccontr)
  assume "word_rest w (conf_line g) \<noteq> None"
  then have st: "starts_word w is_space (conf_line g)" by (auto dest: word_rest_start)
  from assms(1) have "wf_flag (g_flag g)" by (simp add: wf_groups_def)
  note parts = after_name_back [OF this]
  show False
  proof (cases "g_exp g")
    case True
    with st assms(3) show False by (auto simp: starts_word_def conf_line_def statement_words_def)
  next
    case False
    have "\<not> starts_word w is_space (g_var g @ after_name g)"
    proof (rule name_no_word [of conf_var_char])
      show "hd (after_name g) \<notin> set w" using parts(4) assms(3) by (auto simp: statement_words_def)
    qed (use assms parts(3) in \<open>auto simp: wf_groups_def dest: conf_var_char_not_space\<close>)
    moreover have "conf_line g = g_var g @ after_name g"
      using False by (simp add: conf_line_def after_name_def op_part_def)
    ultimately show False using st by simp
  qed
qed

lemma bb_line_assignment:
  assumes "printable g" and "g_var g \<notin> set statement_words"
  shows "bb_line classname fn lineno (conf_line g) st = Inr (st, Some (DataNode g))"
proof -
  from assms have wf: "wf_groups g" and feed: "conf_feeder (conf_line g) = Inr (DataNode g)"
    by (simp_all add: printable_def conf_feeder_def conf_line_roundtrip)
  have "func_start (conf_line g) False False = None"
    using func_start_brace [of "conf_line g" False False] by (cases "func_start (conf_line g) False False") (auto simp: conf_line_ends)
  moreover note assignment_no_word [OF wf assms(2)]
  ultimately show ?thesis
    by (simp add: bb_line_def def_match_def addtask_match_def statement_words_def feed)
qed

section \<open>Tasks\<close>

definition task_line :: "string \<Rightarrow> string list \<Rightarrow> string list \<Rightarrow> string" where
  "task_line name bs as =
     ''addtask '' @ name @ (if bs = [] then [] else '' before '' @ join_with '' '' bs) @
     (if as = [] then [] else '' after '' @ join_with '' '' as)"

definition before_text :: "string list \<Rightarrow> string list \<Rightarrow> string option" where
  "before_text bs as =
     (if bs = [] then None else Some (join_with '' '' bs @ (if as = [] then [] else '' '')))"

definition after_text :: "string list \<Rightarrow> string option" where
  "after_text as = (if as = [] then None else Some (join_with '' '' as))"

definition task_word :: "string \<Rightarrow> bool" where
  "task_word w \<longleftrightarrow> w \<noteq> [] \<and> list_all word_char w \<and> \<not> contains_sub w ''before'' \<and> \<not> contains_sub w ''after''"

lemma word_char_simps [simp]: "\<not> word_char CHR '' ''" "\<not> word_char CHR '':''" "\<not> word_char CHR 0x5C" "\<not> word_char CHR ''{''"
  by (simp_all add: word_char_def alnum_def)

lemma word_char_not_space: "word_char c \<Longrightarrow> \<not> is_space c"
  using func_char_not_space by (simp add: func_char_def)

text \<open>A word without a space that occurs in a list of words occurs in one of them.\<close>

lemma startswith_split: "x \<notin> set p \<Longrightarrow> startswith (a @ x # b) p \<longleftrightarrow> startswith a p"
proof (induction a arbitrary: p)
  case Nil
  then show ?case by (cases p) auto
next
  case (Cons c a)
  then show ?case by (cases p) auto
qed

lemma contains_sub_Nil: "p \<noteq> [] \<Longrightarrow> \<not> contains_sub [] p"
  by (cases p) (simp_all add: contains_sub_def)

lemma contains_sub_sep:
  assumes "x \<notin> set p" and "p \<noteq> []"
  shows "contains_sub (a @ x # b) p \<longleftrightarrow> contains_sub a p \<or> contains_sub b p"
proof (induction a)
  case Nil
  have "\<not> startswith (x # b) p" using assms by (cases p) auto
  then show ?case using assms by (simp add: contains_sub_Cons contains_sub_Nil)
next
  case (Cons c a)
  then show ?case using startswith_split [OF assms(1), of "c # a" b] by (auto simp: contains_sub_Cons)
qed

lemma contains_sub_join:
  assumes "CHR '' '' \<notin> set p" and "p \<noteq> []"
  shows "contains_sub (join_with '' '' ws) p \<longleftrightarrow> (\<exists>w \<in> set ws. contains_sub w p)"
  using assms by (induction "'' ''" ws rule: join_with.induct) (auto simp: contains_sub_Nil contains_sub_sep)

lemma split_last_none: "p \<noteq> [] \<Longrightarrow> \<not> contains_sub s p \<Longrightarrow> split_last p s = None"
  by (induction p s rule: split_last.induct) (auto simp: contains_sub_Cons)

lemma split_last_here:
  assumes "p = c # ps" and "\<not> contains_sub (ps @ b) p"
  shows "split_last p (a @ p @ b) = Some (a, p @ b)"
proof (induction a)
  case Nil
  have "split_last p (ps @ b) = None" using assms by (intro split_last_none) simp_all
  moreover have "startswith (p @ b) p" by (simp add: startswith_iff)
  ultimately show ?case by (simp add: assms(1))
qed simp

lemma task_words_join:
  assumes "list_all task_word ws" and "p \<in> {''before'', ''after''}"
  shows "\<not> contains_sub (join_with '' '' ws) p"
  using assms by (subst contains_sub_join) (auto simp: task_word_def list_all_iff)

lemma task_join_start:
  assumes "list_all task_word ws"
  shows "dropWhile is_space (join_with '' '' ws @ r) = (if ws = [] then dropWhile is_space r else join_with '' '' ws @ r)"
proof (cases ws)
  case (Cons w vs)
  with assms obtain c cs where "w = c # cs" "word_char c" by (cases w) (auto simp: task_word_def)
  with Cons show ?thesis by (cases vs) (simp_all add: word_char_not_space)
qed simp

lemma task_clauses_back:
  assumes "list_all task_word bs" and "list_all task_word as"
  shows "task_clauses (drop 1 ((if bs = [] then [] else '' before '' @ join_with '' '' bs) @
      (if as = [] then [] else '' after '' @ join_with '' '' as))) (None, None) = (before_text bs as, after_text as)"
proof -
  note joins = task_words_join [OF assms(1)] task_words_join [OF assms(2)]
  have last: "split_last ''before'' (join_with '' '' as) = None" "split_last ''after'' (join_with '' '' bs) = None"
    using joins by (intro split_last_none; simp)+
  have after: "task_clauses (''after '' @ join_with '' '' as) (b, None) = (b, after_text as)" if "as \<noteq> []" for b
    using that last task_join_start [OF assms(2), of "[]"] by (subst task_clauses.simps) (simp add: after_text_def)
  have "\<not> contains_sub (''fter '' @ join_with '' '' as) ''after''"
    using joins(2) [of "''after''"] by (simp add: contains_sub_Cons)
  then have "split_last ''after'' ((join_with '' '' bs @ '' '') @ ''after '' @ join_with '' '' as) =
      Some (join_with '' '' bs @ '' '', ''after '' @ join_with '' '' as)"
    using split_last_here [of "''after''" "CHR ''a''" "''fter''" "'' '' @ join_with '' '' as" "join_with '' '' bs @ '' ''"] by simp
  then have both: "split_last ''after'' (join_with '' '' bs @ '' after '' @ join_with '' '' as) =
      Some (join_with '' '' bs @ '' '', ''after '' @ join_with '' '' as)" by simp
  show ?thesis
  proof (cases "bs = []")
    case True
    then show ?thesis using after by (cases "as = []") (simp_all add: before_text_def after_text_def task_clauses.simps [of "[]"])
  next
    case False
    define r where "r = (if as = [] then [] else '' after '' @ join_with '' '' as)"
    have "task_clauses (''before '' @ join_with '' '' bs @ r) (None, None) = (before_text bs as, after_text as)"
      using False task_join_start [OF assms(1), of r] last both after
      by (subst task_clauses.simps) (simp add: before_text_def after_text_def r_def)
    with False show ?thesis by (simp add: r_def)
  qed
qed

definition task_end :: "string list \<Rightarrow> string list \<Rightarrow> string" where
  "task_end bs as =
     (if bs = [] then [] else '' before '' @ join_with '' '' bs) @ (if as = [] then [] else '' after '' @ join_with '' '' as)"

definition wf_task :: "string \<Rightarrow> string list \<Rightarrow> string list \<Rightarrow> bool" where
  "wf_task name bs as \<longleftrightarrow> name \<noteq> [] \<and> list_all word_char name \<and> list_all task_word bs \<and> list_all task_word as"

lemma addtask_match_back:
  assumes "wf_task name bs as"
  shows "addtask_match (task_line name bs as) = Some (name, before_text bs as, after_text as)"
proof -
  define q where "q = task_end bs as"
  have line: "task_line name bs as = ''addtask'' @ CHR '' '' # name @ q" by (simp add: task_line_def q_def task_end_def)
  have q: "q = [] \<or> (\<exists>r. q = CHR '' '' # r \<and> dropWhile is_space q = r)"
    by (simp add: q_def task_end_def is_space_def)
  obtain c cs where name: "name = c # cs" "\<not> is_space c"
    using assms by (cases name) (auto simp: wf_task_def word_char_not_space)
  have rest: "word_rest ''addtask'' (task_line name bs as) = Some (name @ q)"
    unfolding line word_rest_def using name by simp
  have "takeWhile word_char q = [] \<and> dropWhile word_char q = q"
    using q by (metis dropWhile.simps takeWhile.simps word_char_simps(1))
  then have parts: "takeWhile word_char (name @ q) = name" "dropWhile word_char (name @ q) = q"
    using assms by (auto simp: wf_task_def list_all_iff)
  have "dropWhile is_space q = drop 1 q" using q by (metis One_nat_def dropWhile.simps(1) drop_Nil drop_Suc_Cons drop0)
  with task_clauses_back [of bs as] assms
  have "task_clauses (dropWhile is_space q) (None, None) = (before_text bs as, after_text as)"
    by (simp add: wf_task_def q_def task_end_def)
  with rest parts name(1) show ?thesis by (simp add: addtask_match_def)
qed

lemma contains_sub_set: "contains_sub s p \<Longrightarrow> set p \<subseteq> set s"
proof (induction s)
  case Nil
  then show ?case by (cases p) (simp_all add: contains_sub_Nil)
next
  case (Cons c s)
  have "startswith (c # s) p \<Longrightarrow> set p \<subseteq> set (c # s)" unfolding startswith_iff by (metis set_append Un_upper1)
  with Cons show ?case by (auto simp: contains_sub_Cons)
qed

lemma words_acc_chars: "w \<in> set (words_acc v s) \<Longrightarrow> set w \<subseteq> set v \<union> set s"
  by (induction v s rule: words_acc.induct) (fastforce split: if_split_asm)+

lemma words_chars: "w \<in> set (words s) \<Longrightarrow> set w \<subseteq> set s"
  using words_acc_chars [of w "[]" s] by (simp add: words_def)

lemma no_keyword:
  assumes "CHR '':'' \<notin> set s"
  shows "\<not> list_ex keyword_in_task (words s)"
proof
  assume "list_ex keyword_in_task (words s)"
  then obtain w k where w: "w \<in> set (words s)" and k: "k \<in> set setvar_keywords" "contains_sub w (k @ ''_'')"
    by (auto simp: list_ex_iff keyword_in_task_def)
  then have "CHR '':'' \<in> set w" using contains_sub_set [OF k(2)] by (auto simp: setvar_keywords_def)
  with words_chars [OF w] assms show False by blast
qed

lemma word_chars_join: "list_all task_word ws \<Longrightarrow> x \<in> set (join_with '' '' ws) \<Longrightarrow> word_char x \<or> x = CHR '' ''"
  by (induction "'' ''" ws rule: join_with.induct) (auto simp: task_word_def list_all_iff)

lemma last_join: "list_all task_word ws \<Longrightarrow> ws \<noteq> [] \<Longrightarrow> join_with '' '' ws \<noteq> [] \<and> word_char (last (join_with '' '' ws))"
  by (induction "'' ''" ws rule: join_with.induct) (auto simp: task_word_def list_all_iff)

lemma task_line_chars:
  assumes "wf_task name bs as"
  shows "CHR '':'' \<notin> set (task_line name bs as)" and "word_char (last (task_line name bs as))"
    and "task_line name bs as \<noteq> []" "hd (task_line name bs as) = CHR ''a''"
proof -
  show "CHR '':'' \<notin> set (task_line name bs as)"
    using assms word_chars_join [of bs "CHR '':''"] word_chars_join [of as "CHR '':''"]
    by (auto simp: task_line_def wf_task_def list_all_iff)
  show "word_char (last (task_line name bs as))"
    using assms last_join [of bs] last_join [of as] by (auto simp: task_line_def wf_task_def list_all_iff)
qed (simp_all add: task_line_def)

lemma bb_line_task:
  assumes "wf_task name bs as"
  shows "bb_line classname fn lineno (task_line name bs as) st =
    Inr (st, Some (AddTaskNode name (before_text bs as) (after_text as)))"
proof -
  note chars = task_line_chars [OF assms]
  have "func_start (task_line name bs as) False False = None"
    using func_start_brace [of "task_line name bs as" False False] chars(2)
    by (cases "func_start (task_line name bs as) False False") auto
  moreover have "def_match (task_line name bs as) = None" "word_rest ''EXPORT_FUNCTIONS'' (task_line name bs as) = None"
    by (simp_all add: def_match_def word_rest_def task_line_def)
  ultimately show ?thesis
    using no_keyword [OF chars(1)] by (simp add: bb_line_def addtask_match_back [OF assms])
qed

section \<open>A recipe\<close>

datatype recipe_item =
    Assign conf_groups
  | Func bool bool string "string list"
  | Task string "string list" "string list"

fun item_lines :: "recipe_item \<Rightarrow> string list" where
  "item_lines (Assign g) = [conf_line g @ [CHR 0x0A]]"
| "item_lines (Func py fr name body) = (func_line py fr name @ [CHR 0x0A]) # body @ [''}'' @ [CHR 0x0A]]"
| "item_lines (Task name bs as) = [task_line name bs as @ [CHR 0x0A]]"

fun item_node :: "recipe_item \<Rightarrow> ast_node" where
  "item_node (Assign g) = DataNode g"
| "item_node (Func py fr name body) = MethodNode name (map rstrip body @ [[]]) py fr"
| "item_node (Task name bs as) = AddTaskNode name (before_text bs as) (after_text as)"

fun wf_item :: "recipe_item \<Rightarrow> bool" where
  "wf_item (Assign g) \<longleftrightarrow> printable g \<and> g_var g \<notin> set statement_words"
| "wf_item (Func py fr name body) \<longleftrightarrow> func_name name \<and> list_all (\<lambda>l. rstrip l \<noteq> ''}'') body"
| "wf_item (Task name bs as) \<longleftrightarrow> wf_task name bs as"

text \<open>The statements of the items, each with the number of its last line.\<close>

fun recipe_statements :: "string \<Rightarrow> nat \<Rightarrow> recipe_item list \<Rightarrow> statement list" where
  "recipe_statements fn n [] = []"
| "recipe_statements fn n (i # items) =
     (fn, n + length (item_lines i), item_node i) # recipe_statements fn (n + length (item_lines i)) items"

lemma bb_lines_append:
  "bb_lines classname fn root n (ls @ ls') x =
     bindE (bb_lines classname fn root n ls x) (bb_lines classname fn root (n + length ls) ls')"
  by (induction ls arbitrary: n x) (auto split: sum.splits simp: bindE_def)

lemma rstrip_newline: "s \<noteq> [] \<Longrightarrow> \<not> is_space (last s) \<Longrightarrow> rstrip (s @ [CHR 0x0A]) = s"
  by (cases s rule: rev_cases) (simp_all add: rstrip_def is_space_def)

text \<open>A line outside functions that is a statement of its own.\<close>

lemma feeder_statement:
  assumes "s \<noteq> []" and "hd s \<noteq> CHR ''#''" and "last s \<noteq> CHR 0x5C"
  shows "bb_feeder classname fn root n s False (bb_start, sts) =
    bindE (bb_line classname fn n s bb_start) (\<lambda>(st, node). Inr (st, case node of None \<Rightarrow> sts | Some node \<Rightarrow> sts @ [(fn, n, node)]))"
  using assms by (simp add: bb_feeder_def bb_start_def bb_rest_def bb_residue_check_def Let_def)

lemma feeder_body:
  assumes "list_all (\<lambda>l. rstrip l \<noteq> ''}'') body" and "bb_infunc st = Some f"
  shows "bb_lines classname fn root n body (st, sts) = Inr (st\<lparr>bb_body := bb_body st @ map rstrip body\<rparr>, sts)"
  using assms by (induction body arbitrary: n st) (auto simp: bb_feeder_def split: prod.splits)

lemma read_item:
  assumes "wf_item i"
  shows "bb_lines classname fn root n (item_lines i) (bb_start, sts) =
    Inr (bb_start, sts @ [(fn, n + length (item_lines i), item_node i)])"
proof (cases i)
  case (Assign g)
  with assms have g: "wf_groups g" and line: "bb_line classname fn m (conf_line g) st = Inr (st, Some (DataNode g))" for m st
    by (auto simp: printable_def bb_line_assignment)
  with Assign conf_line_no_comment [OF g] show ?thesis
    by (simp add: rstrip_line feeder_statement conf_line_ends)
next
  case (Task name bs as)
  with assms have wf: "wf_task name bs as" by simp
  note chars = task_line_chars [OF wf]
  have "last (task_line name bs as) \<noteq> CHR 0x5C" "\<not> is_space (last (task_line name bs as))"
    using chars(2) word_char_not_space by auto
  with Task chars show ?thesis
    by (simp add: rstrip_newline feeder_statement bb_line_task [OF wf])
next
  case (Func py fr name body)
  with assms have name: "func_name name" and body: "list_all (\<lambda>l. rstrip l \<noteq> ''}'') body" by auto
  obtain c cs where "name = c # cs" "func_char c" using name by (cases name) (auto simp: func_name_def)
  then have "hd (func_line py fr name) \<noteq> CHR ''#''"
    by (auto simp: func_line_def func_char_def word_char_def alnum_def)
  moreover have "func_line py fr name \<noteq> []" "last (func_line py fr name) = CHR ''{''" by (simp_all add: func_line_def)
  ultimately have first: "bb_feeder classname fn root m (rstrip (func_line py fr name @ [CHR 0x0A])) False (bb_start, sts) =
      Inr (bb_start\<lparr>bb_infunc := Some (name, fn, m, py, fr)\<rparr>, sts)" for m
    by (simp add: rstrip_newline feeder_statement bb_line_def func_start_line [OF name])
  have brace: "rstrip [CHR ''}'', CHR 0x0A] = ''}''" by (simp add: rstrip_def is_space_def)
  have "bb_lines classname fn root m body (bb_start\<lparr>bb_infunc := Some f\<rparr>, sts) =
      Inr (bb_start\<lparr>bb_infunc := Some f, bb_body := map rstrip body\<rparr>, sts)" for m f
    by (subst feeder_body [OF body]) (simp_all add: bb_start_def)
  with Func first brace show ?thesis
    by (simp add: bb_lines_append bb_feeder_def) (simp add: bb_start_def)
qed

lemma read_items:
  assumes "list_all wf_item items"
  shows "bb_lines classname fn root n (concat (map item_lines items)) (bb_start, sts) =
    Inr (bb_start, sts @ recipe_statements fn n items)"
  using assms by (induction items arbitrary: n sts) (simp_all add: bb_lines_append read_item)

text \<open>
  C20: A recipe that is written out is read back.  The text of a list of assignments, shell and
  Python functions and tasks gives exactly their statements, in order, with nothing left open: the
  body of a function has its lines without the white space at their ends, and the lists of a task
  are cut at the words before and after, which no name in them contains.
\<close>

theorem recipe_roundtrip:
  assumes "list_all wf_item items"
  shows "get_statements classname fn root (concat (map item_lines items)) = Inr (bb_start, recipe_statements fn 0 items)"
  using read_items [OF assms, of classname fn root 0 "[]"] by (simp add: get_statements_def bb_start_def)

text \<open>The lists of a task have the names as their words.\<close>

lemma words_join_blank:
  "list_all task_word ws \<Longrightarrow> words (join_with '' '' ws @ '' '') = ws"
proof (induction "'' ''" ws rule: join_with.induct)
  case 1
  then show ?case by (simp add: words_def)
next
  case (2 w)
  then have "w \<noteq> []" "\<forall>x \<in> set w. \<not> is_space x" by (auto simp: task_word_def list_all_iff word_char_not_space)
  then show ?case using words_cons_word [of w "CHR '' ''" "[]"] by (simp add: words_def)
next
  case (3 w v ws)
  then have "w \<noteq> []" "\<forall>x \<in> set w. \<not> is_space x" by (auto simp: task_word_def list_all_iff word_char_not_space)
  with 3 show ?case using words_cons_word [of w "CHR '' ''"] by simp
qed

lemma task_lists_words:
  assumes "list_all task_word bs" and "list_all task_word as"
  shows "(case before_text bs as of None \<Rightarrow> [] | Some t \<Rightarrow> words t) = bs"
    and "(case after_text as of None \<Rightarrow> [] | Some t \<Rightarrow> words t) = as"
proof -
  have "words (join_with '' '' ws) = ws" if "list_all task_word ws" for ws
    using that by (intro words_join) (auto simp: task_word_def list_all_iff word_char_not_space)
  with assms show "(case before_text bs as of None \<Rightarrow> [] | Some t \<Rightarrow> words t) = bs"
    and "(case after_text as of None \<Rightarrow> [] | Some t \<Rightarrow> words t) = as"
    by (simp_all add: before_text_def after_text_def words_join_blank)
qed

end
