(* ===== verification/TaskListProps.thy ===== *)
theory TaskListProps
  imports ConfProps
begin

text \<open>
  Properties of the task lists of a recipe: \<open>addtask\<close> and \<open>deltask\<close> as changes of the relation of
  tasks to what they depend on, and the end of the walk of \<open>tasksbetween\<close>.
\<close>

section \<open>Reading and writing lists\<close>

text \<open>A variable that has its value and nothing that would change it when it is read or assigned.\<close>

definition quiet :: "string \<Rightarrow> dstore \<Rightarrow> bool" where
  "quiet var d \<longleftrightarrow>
     CHR '':'' \<notin> set var \<and> map_of (overridedata d) var = None \<and> \<not> din var (var_renames d) \<and>
     (case findVar d var of
        None \<Rightarrow> True
      | Some fl \<Rightarrow> \<forall>k \<in> set (''_defaultval'' # setvar_keywords). \<not> din k fl)"

lemma getVar_quiet:
  assumes "quiet var d"
  shows "getVar (Suc k) env var False d = Inr (raw_flag d var ''_content'', d)"
proof -
  have "ops_of (findVar d var) k = None" if "k \<in> {'':append'', '':prepend'', '':remove''}" for k
    using assms that by (auto simp: quiet_def ops_of_def setvar_keywords_def din_None split: option.splits)
  moreover have "base_value (findVar d var) ''_content'' False = raw_flag d var ''_content''"
    using assms by (auto simp: base_value_def raw_flag_def quiet_def dgetd_def din_None split: option.splits)
  ultimately show ?thesis
    using assms by (simp add: getVar_def getVarFlag_body_def Let_def override_value_def quiet_def run_ops_def
        expand_value_def add_removes_def apply_removes_def)
qed

lemma read_list_quiet:
  "quiet var d \<Longrightarrow> read_list (Suc k) env var d = bindE (list_or_nil (raw_flag d var ''_content'')) (\<lambda>l. Inr (l, d))"
  by (simp add: read_list_def getVar_quiet)

lemma read_flag_list_raw:
  assumes "f \<notin> {[], ''_content''}"
  shows "read_flag_list (Suc k) env var f d = bindE (list_or_nil (raw_flag d var f)) (\<lambda>l. Inr (l, d))"
  using assms
  by (auto simp: read_flag_list_def getVarFlag_body_def Let_def run_ops_def expand_value_def add_removes_def
      apply_removes_def base_value_def raw_flag_def dgetd_def split: option.splits)

lemma setVar_quiet:
  assumes "setVar n env var v False d = Inr d'" and "quiet var d"
  shows "findVar d' = (findVar d)(var \<mapsto> dset ''_content'' v (flags_in (findVar d) var))"
    and "var_renames d' = var_renames d" and "overridedata d' = overridedata d"
proof -
  let ?s = "makeShadowCopy var (reset_cache d)" and ?d = "set_flag var ''_content'' v (makeShadowCopy var (reset_cache d))"
  from assms(2) have q: "CHR '':'' \<notin> set var" "map_of (overridedata d) var = None" "\<not> din var (var_renames d)" by (simp_all add: quiet_def)
  have r: "var_renames (reset_cache d) = var_renames d" by (simp add: reset_cache_def)
  have "\<not> din k (own_flags ?s var)" if "k \<in> set setvar_keywords" for k
    using assms(2) that by (auto simp: own_after_shadow quiet_def split: option.splits)
  then have "drop_ops var ?s = ?s" by (simp add: drop_ops_def setvar_keywords_def)
  moreover have "drop_overrides n env var ?s = Inr ?s" using q(2) by (simp add: drop_overrides_def din_None)
  ultimately have d': "(if var \<in> set (overridevars ?d) then setvar_update_overridevars n env var v ?d else Inr ?d) = Inr d'"
    using assms(1) q by (auto simp: setVar_def setvar_match_plain set_plain_def Let_def split: if_split_asm)
  then have c: "contents d' = contents ?d"
    by (auto split: if_split_asm dest: setvar_update_overridevars_contents)
  from contents_parts [OF c] show "findVar d' = (findVar d)(var \<mapsto> dset ''_content'' v (flags_in (findVar d) var))"
    and "var_renames d' = var_renames d"
    by (simp_all add: findVar_shadow_set r)
  show "overridedata d' = overridedata d"
    using d' by (auto split: if_split_asm dest: setvar_update_overridevars_data)
qed

section \<open>The dependencies as a relation\<close>

text \<open>A store whose list of tasks is an ordinary variable, and a name that may be that of a task.\<close>

abbreviation tasks_quiet :: "dstore \<Rightarrow> bool" where
  "tasks_quiet d \<equiv> quiet ''__BBTASKS'' d"

definition task_ok :: "(string, string) dict \<Rightarrow> string \<Rightarrow> bool" where
  "task_ok renames v \<longleftrightarrow> v \<notin> {''__BBTASKS'', ''BB_RENAMED_VARIABLES''} \<and> \<not> din v renames"

definition names_in :: "pval \<Rightarrow> string set" where
  "names_in v = (case list_or_nil v of Inl _ \<Rightarrow> {} | Inr l \<Rightarrow> {w. PStr w \<in> set l})"

definition task_set :: "dstore \<Rightarrow> string set" where
  "task_set d = names_in (raw_flag d ''__BBTASKS'' ''_content'')"

definition dep_edges :: "dstore \<Rightarrow> (string \<times> string) set" where
  "dep_edges d = {(v, w). w \<in> names_in (raw_flag d v ''deps'')}"

lemma names_in_PList [simp]: "names_in (PList l) = {w. PStr w \<in> set l}"
  by (cases l) (simp_all add: names_in_def list_or_nil_def truthy_val_def)

lemma names_in_Inr: "list_or_nil v = Inr l \<Longrightarrow> names_in v = {w. PStr w \<in> set l}"
  by (simp add: names_in_def)

lemma setVarFlag_plain:
  assumes "setVarFlag n env v f x d = Inr d'" and "f \<in> {''task'', ''deps''}" and "task_ok (var_renames d) v"
  shows "d' = set_flag v f x (makeShadowCopy v (reset_cache d))"
proof -
  have r: "var_renames (reset_cache d) = var_renames d" by (simp add: reset_cache_def)
  show ?thesis using assms by (auto simp: setVarFlag_def Let_def task_ok_def r)
qed

lemma write_task_flag:
  assumes "setVarFlag n env v f x d = Inr d'" and "f \<in> {''task'', ''deps''}" and "task_ok (var_renames d) v" and "tasks_quiet d"
  shows "tasks_quiet d'" and "var_renames d' = var_renames d"
    and "raw_flag d' = (raw_flag d)(v := (raw_flag d v)(f := x))"
proof -
  have w: "ordinary_write (var_renames d) (WFlag v f x)" using assms(2,3) by (auto simp: task_ok_def)
  note flat = setVarFlag_flat [OF assms(1) w]
  show "raw_flag d' = (raw_flag d)(v := (raw_flag d v)(f := x))" by (rule raw_flag_update [OF flat(1)])
  show "var_renames d' = var_renames d" by (rule flat(2))
  have "overridedata d' = overridedata d" using setVarFlag_plain [OF assms(1-3)] by simp
  moreover have "findVar d' ''__BBTASKS'' = findVar d ''__BBTASKS''" using assms(3) flat(1) by (auto simp: task_ok_def)
  ultimately show "tasks_quiet d'" using assms(4) flat(2) by (simp add: quiet_def)
qed

lemma write_task_list:
  assumes "setVar n env ''__BBTASKS'' x False d = Inr d'" and "tasks_quiet d"
  shows "tasks_quiet d'" and "var_renames d' = var_renames d"
    and "raw_flag d' = (raw_flag d)(''__BBTASKS'' := (raw_flag d ''__BBTASKS'')(''_content'' := x))"
proof -
  note flat = setVar_quiet [OF assms]
  show "raw_flag d' = (raw_flag d)(''__BBTASKS'' := (raw_flag d ''__BBTASKS'')(''_content'' := x))"
    by (rule raw_flag_update [OF flat(1)])
  show "var_renames d' = var_renames d" by (rule flat(2))
  have "findVar d' ''__BBTASKS'' = Some (dset ''_content'' x (flags_in (findVar d) ''__BBTASKS''))" using flat(1) by simp
  then show "tasks_quiet d'" using assms(2) flat(2,3)
    by (auto simp: quiet_def setvar_keywords_def split: option.splits)
qed

section \<open>addtask\<close>

lemma add_after_names: "{w. PStr w \<in> set (add_after after l)} = {w. PStr w \<in> set l} \<union> (case after of None \<Rightarrow> {} | Some a \<Rightarrow> set (words a))"
proof (cases after)
  case (Some a)
  have "{w. PStr w \<in> set (fold (\<lambda>entry l. if PStr entry \<in> set l then l else l @ [PStr entry]) ws l)} =
      {w. PStr w \<in> set l} \<union> set ws" for ws
    by (induction ws arbitrary: l) auto
  with Some show ?thesis by (simp add: add_after_def)
qed (simp add: add_after_def)

lemma dep_edges_update:
  assumes "raw_flag d' = (raw_flag d)(v := (raw_flag d v)(''deps'' := x))"
  shows "dep_edges d' = {e \<in> dep_edges d. fst e \<noteq> v} \<union> {v} \<times> names_in x"
  using assms by (auto simp: dep_edges_def split: if_split_asm)

lemma dep_edges_same:
  assumes "raw_flag d' = (raw_flag d)(v := (raw_flag d v)(f := x))" and "f \<noteq> ''deps''"
  shows "dep_edges d' = dep_edges d"
  using assms by (auto simp: dep_edges_def split: if_split_asm)

lemma task_set_same:
  assumes "raw_flag d' = (raw_flag d)(v := (raw_flag d v)(f := x))" and "v \<noteq> ''__BBTASKS''"
  shows "task_set d' = task_set d"
  using assms by (simp add: task_set_def)

lemma add_before_edges:
  assumes "add_before (Suc k) env task entry d = Inr d'" and "task_ok (var_renames d) entry" and "tasks_quiet d"
  shows "tasks_quiet d' \<and> var_renames d' = var_renames d \<and> task_set d' = task_set d \<and>
    dep_edges d' = dep_edges d \<union> {(entry, task)}"
proof -
  from assms(1) obtain l where l: "list_or_nil (raw_flag d entry ''deps'') = Inr l"
    and step: "(if PStr task \<in> set l then Inr d
      else setVarFlag (Suc k) (pe_ds env) entry ''deps'' (PList (PStr task # l)) d) = Inr d'"
    by (auto simp: add_before_def read_flag_list_raw)
  have names: "(entry, w) \<in> dep_edges d \<longleftrightarrow> PStr w \<in> set l" for w
    by (simp add: dep_edges_def names_in_Inr [OF l])
  show ?thesis
  proof (cases "PStr task \<in> set l")
    case True
    with step assms(3) names show ?thesis by auto
  next
    case False
    with step have w: "setVarFlag (Suc k) (pe_ds env) entry ''deps'' (PList (PStr task # l)) d = Inr d'" by simp
    note wr = write_task_flag [OF w _ assms(2,3)]
    have "entry \<noteq> ''__BBTASKS''" using assms(2) by (simp add: task_ok_def)
    with wr names show ?thesis
      by (auto simp: dep_edges_update [OF wr(3)] task_set_same [OF wr(3)])
  qed
qed

lemma add_befores_edges:
  assumes "foldE (add_before (Suc k) env task) bs d = Inr d'" and "list_all (task_ok (var_renames d)) bs" and "tasks_quiet d"
  shows "tasks_quiet d' \<and> var_renames d' = var_renames d \<and> task_set d' = task_set d \<and>
    dep_edges d' = dep_edges d \<union> set bs \<times> {task}"
  using assms
proof (induction bs arbitrary: d)
  case (Cons b bs)
  from Cons.prems(1) obtain d1 where d1: "add_before (Suc k) env task b d = Inr d1" "foldE (add_before (Suc k) env task) bs d1 = Inr d'"
    by auto
  from add_before_edges [OF d1(1)] Cons.prems Cons.IH [OF d1(2)] show ?case by auto
qed simp

text \<open>
  C21: What \<open>addtask\<close> does.  The task joins the list of tasks, and the relation of tasks to what they
  depend on gains exactly an edge to every task named after \<open>after\<close> and an edge from every task named
  after \<open>before\<close>; no other edge comes or goes, whatever flags, lists and values the store has.
\<close>

theorem addtask_edges:
  assumes "addtask (Suc k) env task before after d = Inr d'" and "tasks_quiet d" and "task_ok (var_renames d) (task_name task)"
    and "list_all (task_ok (var_renames d)) (case before of None \<Rightarrow> [] | Some b \<Rightarrow> words b)"
  shows "task_set d' = insert (task_name task) (task_set d) \<and>
    dep_edges d' = dep_edges d \<union> {task_name task} \<times> (case after of None \<Rightarrow> {} | Some a \<Rightarrow> set (words a)) \<union>
      (case before of None \<Rightarrow> {} | Some b \<Rightarrow> set (words b)) \<times> {task_name task}"
proof -
  let ?t = "task_name task" and ?e = "pe_ds env"
  from assms(1) obtain d1 where d1: "setVarFlag (Suc k) ?e ?t ''task'' (PInt 1) d = Inr d1"
    by (auto simp: addtask_def Let_def)
  note w1 = write_task_flag [OF d1 _ assms(3,2)]
  from w1 have w1: "tasks_quiet d1" "var_renames d1 = var_renames d"
    "raw_flag d1 = (raw_flag d)(?t := (raw_flag d ?t)(''task'' := PInt 1))" by auto
  from assms(1) d1 obtain l d2 where l: "list_or_nil (raw_flag d1 ''__BBTASKS'' ''_content'') = Inr l"
    and d2: "setVar (Suc k) ?e ''__BBTASKS'' (PList (if PStr ?t \<in> set l then l else l @ [PStr ?t])) False d1 = Inr d2"
    by (auto simp: addtask_def Let_def read_list_quiet [OF w1(1)])
  note w2 = write_task_list [OF d2 w1(1)]
  from assms(1) d1 d2 l obtain x d3 where x: "list_or_nil (raw_flag d2 ?t ''deps'') = Inr x"
    and d3: "setVarFlag (Suc k) ?e ?t ''deps'' (PList (add_after after x)) d2 = Inr d3"
    and d': "(case before of None \<Rightarrow> Inr d3 | Some b \<Rightarrow> foldE (add_before (Suc k) env ?t) (words b) d3) = Inr d'"
    by (auto simp: addtask_def Let_def read_list_quiet [OF w1(1)] read_flag_list_raw)
  have ok: "task_ok (var_renames d2) ?t" using assms(3) w1(2) w2(2) by simp
  note w3 = write_task_flag [OF d3 _ ok w2(1)]
  have before: "task_set d' = task_set d3 \<and> dep_edges d' = dep_edges d3 \<union> (case before of None \<Rightarrow> {} | Some b \<Rightarrow> set (words b)) \<times> {?t}"
    using d' add_befores_edges [of k env ?t _ d3 d'] assms(4) w1(2) w2(2) w3(1,2) by (auto split: option.splits)
  have "?t \<noteq> ''__BBTASKS''" using assms(3) by (simp add: task_ok_def)
  then have "task_set d3 = task_set d2" "task_set d1 = task_set d" using task_set_same w3(3) w1(3) by auto
  moreover have "task_set d2 = insert ?t (task_set d1)"
    by (auto simp: task_set_def w2(3) names_in_Inr [OF l])
  moreover have "dep_edges d2 = dep_edges d"
    using dep_edges_same [OF w2(3)] dep_edges_same [OF w1(3)] by simp
  moreover have "{e \<in> dep_edges d2. fst e = ?t} = {?t} \<times> {w. PStr w \<in> set x}"
    by (auto simp: dep_edges_def names_in_Inr [OF x])
  then have "dep_edges d3 = dep_edges d2 \<union> {?t} \<times> (case after of None \<Rightarrow> {} | Some a \<Rightarrow> set (words a))"
    using dep_edges_update [OF w3(3)] by (auto simp: add_after_names)
  ultimately show ?thesis using before by simp
qed

section \<open>deltask\<close>

lemma delete_task_flag:
  assumes "f \<in> {''task'', ''deps''}" and "tasks_quiet d" and "v \<noteq> ''__BBTASKS''"
  shows "tasks_quiet (delVarFlag v f d)" and "var_renames (delVarFlag v f d) = var_renames d"
    and "raw_flag (delVarFlag v f d) = (raw_flag d)(v := (raw_flag d v)(f := PNone))"
proof -
  have "overridedata (delVarFlag v f d) = overridedata d"
    by (auto simp: delVarFlag_def Let_def del_flag_def split: option.split list.split)
  moreover have "findVar (delVarFlag v f d) ''__BBTASKS'' = findVar d ''__BBTASKS''"
    using assms(3) by (auto simp: findVar_delVarFlag split: option.split)
  ultimately show "tasks_quiet (delVarFlag v f d)"
    using assms(2) by (simp add: quiet_def delVarFlag_renames)
  show "raw_flag (delVarFlag v f d) = (raw_flag d)(v := (raw_flag d v)(f := PNone))"
    by (auto simp: raw_flag_def findVar_delVarFlag fun_eq_iff dgetd_def split: option.splits)
qed (rule delVarFlag_renames)

lemma drop_dep_edges:
  assumes "drop_dep (Suc k) env task (PStr v) d = Inr d'" and "task_ok (var_renames d) v" and "tasks_quiet d"
    and "list_or_nil (raw_flag d v ''deps'') = Inr l" and "distinct l"
  shows "tasks_quiet d' \<and> var_renames d' = var_renames d \<and> task_set d' = task_set d \<and>
    dep_edges d' = dep_edges d - {(v, task)} \<and> (\<forall>u. u \<noteq> v \<longrightarrow> raw_flag d' u = raw_flag d u)"
proof -
  have step: "(if PStr task \<in> set l then setVarFlag (Suc k) (pe_ds env) v ''deps'' (PList (remove1 (PStr task) l)) d
      else Inr d) = Inr d'"
    using assms(1,4) by (auto simp: drop_dep_def name_of_def read_flag_list_raw)
  have names: "(v, w) \<in> dep_edges d \<longleftrightarrow> PStr w \<in> set l" for w
    by (simp add: dep_edges_def names_in_Inr [OF assms(4)])
  show ?thesis
  proof (cases "PStr task \<in> set l")
    case False
    with step assms(3) names show ?thesis by auto
  next
    case True
    with step have w: "setVarFlag (Suc k) (pe_ds env) v ''deps'' (PList (remove1 (PStr task) l)) d = Inr d'" by simp
    note wr = write_task_flag [OF w _ assms(2,3)]
    have "dep_edges d' = {e \<in> dep_edges d. fst e \<noteq> v} \<union> {v} \<times> {w. PStr w \<in> set (remove1 (PStr task) l)}"
      using dep_edges_update [OF wr(3)] by simp
    also have "\<dots> = dep_edges d - {(v, task)}"
      using assms(5) by (auto simp: names [symmetric])
    finally have "dep_edges d' = dep_edges d - {(v, task)}" .
    moreover have "task_set d' = task_set d"
      using assms(2) by (intro task_set_same [OF wr(3)]) (auto simp: task_ok_def)
    ultimately show ?thesis using wr by simp
  qed
qed

definition distinct_deps :: "dstore \<Rightarrow> string \<Rightarrow> bool" where
  "distinct_deps d v \<longleftrightarrow> (case list_or_nil (raw_flag d v ''deps'') of Inl _ \<Rightarrow> False | Inr l \<Rightarrow> distinct l)"

lemma distinct_depsE:
  assumes "distinct_deps d v"
  obtains l where "list_or_nil (raw_flag d v ''deps'') = Inr l" "distinct l"
  using assms by (auto simp: distinct_deps_def split: sum.splits)

lemma drop_deps_edges:
  assumes "foldE (drop_dep (Suc k) env task) (map PStr vs) d = Inr d'" and "list_all (task_ok (var_renames d)) vs"
    and "tasks_quiet d" and "list_all (distinct_deps d) vs" and "distinct vs"
  shows "task_set d' = task_set d \<and> dep_edges d' = dep_edges d - set vs \<times> {task}"
  using assms
proof (induction vs arbitrary: d)
  case (Cons v vs)
  from Cons.prems(1) obtain d1 where d1: "drop_dep (Suc k) env task (PStr v) d = Inr d1"
    "foldE (drop_dep (Suc k) env task) (map PStr vs) d1 = Inr d'" by auto
  from Cons.prems(4) obtain l where l: "list_or_nil (raw_flag d v ''deps'') = Inr l" "distinct l"
    by (auto elim: distinct_depsE)
  have ok: "task_ok (var_renames d) v" using Cons.prems(2) by simp
  note one = drop_dep_edges [OF d1(1) ok Cons.prems(3) l]
  have "list_all (distinct_deps d1) vs"
    using one Cons.prems(4,5) by (auto simp: list_all_iff distinct_deps_def)
  with Cons.IH [OF d1(2)] one Cons.prems(2,5) show ?case by auto
qed simp

text \<open>
  C22: What \<open>deltask\<close> does.  The task leaves the list of tasks, everything it depended on is
  forgotten, and no task of the list depends on it any more; all other dependencies stay, those of
  tasks that are not in the list included.  The lists name everything once, as \<open>addtask\<close> keeps them.
\<close>

theorem deltask_edges:
  assumes "deltask (Suc k) env task d = Inr d'" and "tasks_quiet d" and "task_ok (var_renames d) (task_name task)"
    and "list_or_nil (raw_flag d ''__BBTASKS'' ''_content'') = Inr (map PStr vs)" and "distinct vs"
    and "list_all (task_ok (var_renames d)) vs" and "list_all (distinct_deps d) vs"
  shows "task_set d' = task_set d - {task_name task} \<and>
    dep_edges d' = {(v, w) \<in> dep_edges d. v \<noteq> task_name task \<and> \<not> (w = task_name task \<and> v \<in> task_set d)}"
proof -
  let ?t = "task_name task" and ?e = "pe_ds env"
  have tne: "?t \<noteq> ''__BBTASKS''" using assms(3) by (auto simp: task_ok_def)
  have set: "task_set d = set vs" by (auto simp: task_set_def names_in_Inr [OF assms(4)])
  have rem: "remove1 (PStr ?t) (map PStr vs) = map PStr (remove1 ?t vs)" by (induction vs) auto
  define us where "us = (if ?t \<in> set vs then remove1 ?t vs else vs)"
  have us: "set us = set vs - {?t}" "distinct us" using assms(5) by (auto simp: us_def)
  from assms(1) obtain d1 where d1: "(if ?t \<in> set vs then setVar (Suc k) ?e ''__BBTASKS'' (PList (map PStr us)) False (delVarFlag ?t ''task'' d)
      else Inr d) = Inr d1"
    and d2: "bindE (read_list (Suc k) env ''__BBTASKS'' (delVarFlag ?t ''deps'' d1)) (\<lambda>(bbtasks, d). foldE (drop_dep (Suc k) env ?t) bbtasks d) = Inr d'"
    using assms(4) by (auto simp: deltask_def Let_def read_list_quiet [OF assms(2)] us_def rem inj_image_mem_iff inj_def split: if_split_asm)
  note del1 = delete_task_flag [of "''task''" d ?t, OF _ assms(2) tne]
  have one: "tasks_quiet d1 \<and> var_renames d1 = var_renames d \<and> raw_flag d1 ''__BBTASKS'' ''_content'' =
      (if ?t \<in> set vs then PList (map PStr us) else raw_flag d ''__BBTASKS'' ''_content'') \<and>
      (\<forall>v. raw_flag d1 v ''deps'' = raw_flag d v ''deps'')"
  proof (cases "?t \<in> set vs")
    case True
    with d1 have w: "setVar (Suc k) ?e ''__BBTASKS'' (PList (map PStr us)) False (delVarFlag ?t ''task'' d) = Inr d1" by simp
    note wr = write_task_list [OF w del1(1)]
    with True del1 show ?thesis by auto
  next
    case False
    with d1 assms(2) show ?thesis by simp
  qed
  note del2 = delete_task_flag [of "''deps''" d1 ?t, OF _ _ tne]
  let ?d = "delVarFlag ?t ''deps'' d1"
  have deps: "raw_flag ?d v ''deps'' = (if v = ?t then PNone else raw_flag d v ''deps'')" for v
    using one del2(3) by simp
  have "raw_flag ?d ''__BBTASKS'' ''_content'' = raw_flag d1 ''__BBTASKS'' ''_content''"
    using one del2(3) tne by simp
  then have list: "list_or_nil (raw_flag ?d ''__BBTASKS'' ''_content'') = Inr (map PStr us)"
    using one assms(4) by (cases "us") (auto simp: us_def list_or_nil_def truthy_val_def split: if_split_asm)
  then have fold: "foldE (drop_dep (Suc k) env ?t) (map PStr us) ?d = Inr d'"
    using d2 one by (simp add: read_list_quiet del2(1))
  have "task_set d' = task_set ?d \<and> dep_edges d' = dep_edges ?d - set us \<times> {?t}"
  proof (rule drop_deps_edges [OF fold])
    show "list_all (task_ok (var_renames ?d)) us" using assms(6) one del2(2) us(1) by (auto simp: list_all_iff)
    show "list_all (distinct_deps ?d) us" using assms(7) us(1) by (auto simp: list_all_iff distinct_deps_def deps)
  qed (use one del2(1) us(2) in simp_all)
  moreover have "task_set ?d = set us" by (auto simp: task_set_def names_in_Inr [OF list])
  moreover have "dep_edges ?d = {e \<in> dep_edges d. fst e \<noteq> ?t}"
    by (auto simp: dep_edges_def deps names_in_def list_or_nil_def truthy_val_def split: if_split_asm)
  ultimately show ?thesis using us(1) set by auto
qed

section \<open>tasksbetween\<close>

text \<open>A step of the walk: to a task that depends on this one; the walk does not go past the end task.\<close>

definition chain_step :: "dstore \<Rightarrow> string list \<Rightarrow> string \<Rightarrow> (string \<times> string) set" where
  "chain_step d tasks endtask =
     {(x, y). y \<in> set tasks \<and> x \<noteq> endtask \<and> x \<noteq> y \<and> str_in x (raw_flag d y ''deps'') = Inr True}"

definition between :: "(string \<times> string) set \<Rightarrow> string \<Rightarrow> string \<Rightarrow> string set" where
  "between S x z = {y. (x, y) \<in> S\<^sup>* \<and> (y, z) \<in> S\<^sup>*}"

lemma between_step:
  assumes "x \<noteq> z"
  shows "between S x z = (if (x, z) \<in> S\<^sup>* then {x} else {}) \<union> (\<Union>y \<in> {y. (x, y) \<in> S}. between S y z)"
proof -
  have first: "v = x \<or> (\<exists>y. (x, y) \<in> S \<and> (y, v) \<in> S\<^sup>*)" if "(x, v) \<in> S\<^sup>*" for v
    using that by (auto elim: converse_rtranclE)
  show ?thesis by (auto simp: between_def dest: converse_rtrancl_into_rtrancl dest!: first)
qed

lemma reaches_step: "x \<noteq> z \<Longrightarrow> (x, z) \<in> S\<^sup>* \<longleftrightarrow> (\<exists>y. (x, y) \<in> S \<and> (y, z) \<in> S\<^sup>*)"
  by (metis converse_rtranclE converse_rtrancl_into_rtrancl)

lemma between_end: "(\<And>y. (z, y) \<notin> S) \<Longrightarrow> between S z z = {z}"
  by (auto simp: between_def elim: converse_rtranclE)

text \<open>A loop that adds the elements of a set for every step.\<close>

lemma foldE_adds:
  assumes "foldE f xs out = Inr out'" and "\<And>x o1 o2. x \<in> set xs \<Longrightarrow> f x o1 = Inr o2 \<Longrightarrow> set o2 = set o1 \<union> A x"
  shows "set out' = set out \<union> (\<Union>x \<in> set xs. A x)"
  using assms
proof (induction xs arbitrary: out)
  case (Cons x xs)
  from Cons.prems(1) obtain o1 where o1: "f x out = Inr o1" "foldE f xs o1 = Inr out'" by auto
  have "set o1 = set out \<union> A x" using Cons.prems(2) [OF _ o1(1)] by simp
  moreover have "set out' = set o1 \<union> (\<Union>x \<in> set xs. A x)" using Cons.IH [OF o1(2)] Cons.prems(2) by simp
  ultimately show ?case by auto
qed simp

lemma follow_chain_between:
  assumes "follow_chain k d tasks endtask task chain out = Inr out'" and "\<not> set tasks \<subseteq> {endtask}"
  shows "set out' = set out \<union>
    (if (task, endtask) \<in> (chain_step d tasks endtask)\<^sup>* then set chain \<union> between (chain_step d tasks endtask) task endtask else {})"
  using assms
proof (induction k arbitrary: task chain out out')
  case (Suc k)
  let ?S = "chain_step d tasks endtask"
  define f where "f = (\<lambda>othertask outtasks.
            if othertask = task then Inr outtasks
            else if task = endtask then Inr (fold sadd (chain @ [task]) outtasks)
            else bindE (str_in task (raw_flag d othertask ''deps'')) (\<lambda>needs.
                   if needs then follow_chain k d tasks endtask othertask (chain @ [task]) outtasks
                   else Inr outtasks))"
  from Suc.prems(1) have loop: "foldE f tasks out = Inr out'" by (simp add: f_def split: if_split_asm)
  show ?case
  proof (cases "task = endtask")
    case True
    have "set out' = set out \<union> (\<Union>x \<in> set tasks. if x = task then {} else insert task (set chain))"
      by (rule foldE_adds [OF loop]) (auto simp: f_def True)
    moreover have "between ?S endtask endtask = {endtask}" by (rule between_end) (simp add: chain_step_def)
    ultimately show ?thesis using True Suc.prems(2) by auto
  next
    case False
    let ?A = "\<lambda>y. if (task, y) \<in> ?S \<and> (y, endtask) \<in> ?S\<^sup>* then insert task (set chain) \<union> between ?S y endtask else {}"
    have "set out' = set out \<union> (\<Union>y \<in> set tasks. ?A y)"
    proof (rule foldE_adds [OF loop])
      fix y o1 o2
      assume y: "y \<in> set tasks" and step: "f y o1 = Inr o2"
      show "set o2 = set o1 \<union> ?A y"
      proof (cases "(task, y) \<in> ?S")
        case True
        then have "follow_chain k d tasks endtask y (chain @ [task]) o1 = Inr o2"
          using step False by (auto simp: f_def chain_step_def)
        from Suc.IH [OF this Suc.prems(2)] True show ?thesis by auto
      next
        case no_step: False
        then show ?thesis using step False y by (auto simp: f_def chain_step_def split: if_split_asm)
      qed
    qed
    also have "(\<Union>y \<in> set tasks. ?A y) =
        (if (task, endtask) \<in> ?S\<^sup>* then set chain \<union> between ?S task endtask else {})"
    proof (cases "(task, endtask) \<in> ?S\<^sup>*")
      case True
      then obtain y where y: "(task, y) \<in> ?S" "(y, endtask) \<in> ?S\<^sup>*" using reaches_step [OF False] by blast
      have "between ?S task endtask = insert task (\<Union>y \<in> {y. (task, y) \<in> ?S}. between ?S y endtask)"
        using between_step [OF False, of ?S] True by simp
      moreover have "between ?S u endtask = {}" if "(u, endtask) \<notin> ?S\<^sup>*" for u
        using that by (auto simp: between_def dest: rtrancl_trans)
      moreover have "u \<in> set tasks" if "(task, u) \<in> ?S" for u using that by (simp add: chain_step_def)
      ultimately show ?thesis using True y by (auto split: if_split_asm)
    next
      case no_way: False
      then have "(task, y) \<in> ?S \<Longrightarrow> (y, endtask) \<notin> ?S\<^sup>*" for y using reaches_step [OF False] by blast
      with no_way show ?thesis by auto
    qed
    finally show ?thesis .
  qed
qed simp

text \<open>The chain of a walk names every task once, so its length bounds the depth.\<close>

lemma foldE_error: "foldE f xs a = Inl e \<Longrightarrow> \<exists>x \<in> set xs. \<exists>b. f x b = Inl e"
  by (induction xs arbitrary: a) (auto simp: bindE_Inl_iff)

lemma follow_chain_error:
  assumes "follow_chain k d tasks endtask task chain out = Inl e" and "distinct chain"
    and "set chain \<subseteq> insert start (set tasks)" and "task \<in> insert start (set tasks)" and "length tasks + 2 \<le> k + length chain"
  shows "e \<in> {TypeError, Fatal ''Circular task dependencies''}"
  using assms
proof (induction k arbitrary: task chain out)
  case 0
  have "length chain = card (set chain)" using 0(2) by (simp add: distinct_card)
  also have "\<dots> \<le> card (insert start (set tasks))" using 0(3) by (intro card_mono) simp_all
  also have "\<dots> \<le> Suc (length tasks)" using card_length [of tasks] by (simp add: card_insert_if)
  finally show ?case using 0(5) by simp
next
  case (Suc k)
  show ?case
  proof (cases "task \<in> set chain")
    case True
    with Suc.prems(1) show ?thesis by simp
  next
    case False
    with Suc.prems(1) obtain y b where y: "y \<in> set tasks" and
      step: "(if y = task then Inr b
            else if task = endtask then Inr (fold sadd (chain @ [task]) b)
            else bindE (str_in task (raw_flag d y ''deps'')) (\<lambda>needs.
                   if needs then follow_chain k d tasks endtask y (chain @ [task]) b else Inr b)) = Inl e"
      by (auto dest!: foldE_error)
    have "str_in task v = Inl e \<Longrightarrow> e = TypeError" for v by (auto simp: str_in_def split: pval.splits)
    moreover have "e \<in> {TypeError, Fatal ''Circular task dependencies''}"
      if "follow_chain k d tasks endtask y (chain @ [task]) b = Inl e"
      using Suc.IH [OF that] Suc.prems(2-5) False y by simp
    ultimately show ?thesis using step by (auto simp: bindE_Inl_iff split: if_split_asm)
  qed
qed


end
