(* ===== verification/ParseProps.thy ===== *)
theory ParseProps
  imports BBProps TaskListProps
begin

text \<open>Examples for the properties of the parser, on a small system with no files.\<close>

definition demo_parse :: parse_env where
  "demo_parse =
     \<lparr>pe_ds = \<lparr>de_compile = (\<lambda>_. Inr ()), de_parse = (\<lambda>_ _. ([], [], [])), de_eval = (\<lambda>_ c. Inr c)\<rparr>,
      pe_show = (\<lambda>_. ''shown''), pe_method = (\<lambda>_ _. Inr ())\<rparr>"

definition demo_files :: file_env where
  "demo_files =
     \<lparr>fe_parse = demo_parse, fe_read = (\<lambda>_. Inl FileNotFoundError), fe_exists = (\<lambda>_. False), fe_isfile = (\<lambda>_. False),
      fe_mtime = (\<lambda>_. PInt 0), fe_cwd = ''/work''\<rparr>"

definition demo_state :: pstate where
  "demo_state = \<lparr>ps_ds = DataSmart, ps_cached = [], ps_open = None, ps_skip = False\<rparr>"

definition demo_group :: "string \<Rightarrow> string option \<Rightarrow> conf_op \<Rightarrow> string \<Rightarrow> conf_groups" where
  "demo_group v f opr value = \<lparr>g_exp = False, g_var = v, g_flag = f, g_op = opr, g_value = value\<rparr>"

lemma conf_line_roundtrip_witness:
  "config_match (conf_line \<lparr>g_exp = True, g_var = ''A:x'', g_flag = Some ''f@'', g_op = OpPrepend, g_value = ''v''\<rparr>) =
     Some \<lparr>g_exp = True, g_var = ''A:x'', g_flag = Some ''f@'', g_op = OpPrepend, g_value = ''v''\<rparr>"
proof -
  have "wf_groups \<lparr>g_exp = True, g_var = ''A:x'', g_flag = Some ''f@'', g_op = OpPrepend, g_value = ''v''\<rparr>"
    by code_simp
  from conf_line_roundtrip [OF this] show ?thesis by (simp add: one_quote_def)
qed

definition demo_assignments :: "conf_groups list" where
  "demo_assignments =
     [demo_group ''A'' None OpSet ''1'', demo_group ''A'' None OpAppend ''2'', demo_group ''A'' None OpQues ''no'',
      demo_group ''B'' (Some ''doc'') OpPredot ''text'', demo_group ''B'' None OpLazy ''weak'']"

definition demo_statements :: "statement list" where
  "demo_statements = assignments ''/work/a.conf'' 0 demo_assignments"

definition demo_run :: pstate where
  "demo_run =
     (case eval_statements 3 demo_files (\<lambda>_. Inr) demo_statements demo_state of Inl _ \<Rightarrow> demo_state | Inr p \<Rightarrow> p)"

lemma demo_run_ends:
  "eval_statements 3 demo_files (\<lambda>_. Inr) demo_statements demo_state = Inr demo_run" "\<not> ps_skip demo_run"
  by code_simp+


section \<open>A recipe\<close>

definition demo_recipe :: "recipe_item list" where
  "demo_recipe =
     [Assign (demo_group ''A'' None OpSet ''1''), Func False True ''do_a'' [''  echo }'', ''  true  ''],
      Task ''a'' [''do_c'', ''do_d''] [''do_b'']]"

lemma recipe_roundtrip_witness:
  "get_statements [] ''a.bb'' ''a.bb'' (concat (map item_lines demo_recipe)) =
     Inr (bb_start,
       [(''a.bb'', 1, DataNode (demo_group ''A'' None OpSet ''1'')),
        (''a.bb'', 5, MethodNode ''do_a'' [''  echo }'', ''  true'', []] False True),
        (''a.bb'', 6, AddTaskNode ''a'' (Some ''do_c do_d '') (Some ''do_b''))])"
proof -
  have "list_all wf_item demo_recipe" by code_simp
  moreover have "recipe_statements ''a.bb'' 0 demo_recipe =
       [(''a.bb'', 1, DataNode (demo_group ''A'' None OpSet ''1'')),
        (''a.bb'', 5, MethodNode ''do_a'' [''  echo }'', ''  true'', []] False True),
        (''a.bb'', 6, AddTaskNode ''a'' (Some ''do_c do_d '') (Some ''do_b''))]"
    by code_simp
  ultimately show ?thesis by (simp add: recipe_roundtrip)
qed

section \<open>Task lists\<close>

definition run_or :: "dstore \<Rightarrow> pyerr + dstore \<Rightarrow> dstore" where
  "run_or d m = (case m of Inl _ \<Rightarrow> d | Inr d \<Rightarrow> d)"

definition demo_tasks :: dstore where
  "demo_tasks =
     run_or DataSmart (bindE (addtask 3 demo_parse ''a'' None None DataSmart) (addtask 3 demo_parse ''b'' (Some ''do_c'') (Some ''do_a'')))"

definition more_tasks :: dstore where
  "more_tasks = run_or DataSmart (addtask 3 demo_parse ''x'' (Some ''do_b'') (Some ''do_a'') demo_tasks)"

definition fewer_tasks :: dstore where
  "fewer_tasks = run_or DataSmart (deltask 3 demo_parse ''a'' demo_tasks)"

lemma demo_tasks_run:
  "addtask 3 demo_parse ''x'' (Some ''do_b'') (Some ''do_a'') demo_tasks = Inr more_tasks"
  "deltask 3 demo_parse ''a'' demo_tasks = Inr fewer_tasks"
  by code_simp+

lemma demo_tasks_ok:
  "tasks_quiet demo_tasks" "list_all (task_ok (var_renames demo_tasks)) [''do_a'', ''do_b'', ''do_c'', ''do_x'']"
  "list_all (distinct_deps demo_tasks) [''do_a'', ''do_b'']"
  "list_or_nil (raw_flag demo_tasks ''__BBTASKS'' ''_content'') = Inr (map PStr [''do_a'', ''do_b''])"
  by code_simp+

lemma addtask_edges_witness:
  "task_set more_tasks = insert ''do_x'' (task_set demo_tasks) \<and>
   dep_edges more_tasks = dep_edges demo_tasks \<union> {(''do_x'', ''do_a''), (''do_b'', ''do_x'')}"
proof -
  have w: "words ''do_b'' = [''do_b'']" "words ''do_a'' = [''do_a'']" "task_name ''x'' = ''do_x''" by code_simp+
  have "task_set more_tasks = insert (task_name ''x'') (task_set demo_tasks) \<and>
      dep_edges more_tasks = dep_edges demo_tasks \<union> {task_name ''x''} \<times> (case Some ''do_a'' of None \<Rightarrow> {} | Some a \<Rightarrow> set (words a)) \<union>
        (case Some ''do_b'' of None \<Rightarrow> {} | Some b \<Rightarrow> set (words b)) \<times> {task_name ''x''}"
    by (rule addtask_edges [where k = 2 and env = demo_parse])
      (use demo_tasks_run(1) demo_tasks_ok(1,2) in \<open>simp_all add: w\<close>)
  then show ?thesis by (auto simp: w)
qed

lemma deltask_edges_witness:
  "task_set fewer_tasks = task_set demo_tasks - {''do_a''} \<and>
   dep_edges fewer_tasks =
     {(v, w) \<in> dep_edges demo_tasks. v \<noteq> ''do_a'' \<and> \<not> (w = ''do_a'' \<and> v \<in> task_set demo_tasks)}"
proof -
  have w: "task_name ''a'' = ''do_a''" by code_simp
  have "task_set fewer_tasks = task_set demo_tasks - {task_name ''a''} \<and>
      dep_edges fewer_tasks = {(v, w) \<in> dep_edges demo_tasks. v \<noteq> task_name ''a'' \<and> \<not> (w = task_name ''a'' \<and> v \<in> task_set demo_tasks)}"
    by (rule deltask_edges [where k = 2 and env = demo_parse and vs = "[''do_a'', ''do_b'']"])
      (use demo_tasks_run(2) demo_tasks_ok in \<open>simp_all add: w\<close>)
  then show ?thesis by (simp add: w)
qed


section \<open>Lines that are not what they look like\<close>

text \<open>A flag of one letter cannot be unset; nor can a variable with an override.\<close>

lemma unset_short_flag:
  "conf_feeder ''unset A[doc]'' = Inr (UnsetFlagNode ''A'' ''doc'') \<and>
   conf_feeder ''unset A[x]'' = Inl (ParseError ''unparsed line'') \<and>
   conf_feeder ''unset A:arm'' = Inl (ParseError ''unparsed line'')"
  by code_simp

text \<open>A variable \<open>export\<close> that is set at once becomes an exported variable with the name of a colon.\<close>

lemma export_of_colon:
  "config_match ''export := @1@'' = None \<and>
   config_match (''export := '' @ [CHR 0x22, CHR ''x'', CHR 0x22]) =
     Some \<lparr>g_exp = True, g_var = '':'', g_flag = None, g_op = OpSet, g_value = ''x''\<rparr>"
  by code_simp

text \<open>A list of tasks is cut inside a name that has the other word in it.\<close>

lemma addtask_cut:
  "addtask_match ''addtask do_a after do_x before do_before_y'' = Some (''do_a'', Some ''_y'', Some ''do_x before do_'')"
  by code_simp

text \<open>A line with nothing but a backslash, before a blank one, is an \<open>IndexError\<close>.\<close>

lemma lone_backslash:
  "conf_read ''a.conf'' 0 [[CHR 0x5C, CHR 0x0A], [CHR 0x0A]] = Inl IndexError \<and>
   get_statements [] ''a.bb'' ''a.bb'' [[CHR 0x5C, CHR 0x0A], [CHR 0x0A]] = Inl IndexError"
  by code_simp

text \<open>A class that ends in an open function is an error the first time only: its statements are cached.\<close>

definition open_class :: file_env where
  "open_class = demo_files\<lparr>fe_read := (\<lambda>_. Inr [''f() {'']), fe_exists := (\<lambda>_. True), fe_isfile := (\<lambda>_. True)\<rparr>"

lemma unclosed_function_cached:
  "case load_statements open_class ''c'' ''/c.bbclass'' ''/c.bbclass'' ''c.bbclass'' demo_state of
     Inl _ \<Rightarrow> False
   | Inr (sts, p) \<Rightarrow> ps_open p = Some ''f'' \<and>
       bb_handle 3 open_class True (\<lambda>_. Inr) ''/c.bbclass'' demo_state = Inl (ParseError ''Shell function is never closed'') \<and>
       (case bb_handle 3 open_class True (\<lambda>_. Inr) ''/c.bbclass'' (p\<lparr>ps_open := None\<rparr>) of Inl _ \<Rightarrow> False | Inr _ \<Rightarrow> True)"
  by code_simp

end
