(* ===== verification/VarDeps.thy ===== *)
theory VarDeps
  imports RecipeTasks DepStrings
begin

text \<open>
  The variables a task depends on and its base hash, from \<open>poky/bitbake/lib/bb/data.py\<close>:
  \<open>build_dependencies\<close> for one variable, flag or function, \<open>generate_dependencies\<close> for all that the tasks
  of a recipe reach, and \<open>generate_dependency_hash\<close>.

  \<^item> What the parsers of \<open>codeparser.py\<close> find in a Python or shell function, the functions of modules
    with what they refer to, and the hash function are arguments.
  \<^item> Sets of names are lists without duplicates; the dictionaries of dependencies and values come in
    the order in which the code fills them, for a set walked in the order of its list.
  \<^item> The values that a removal (\<open>:remove\<close>) or a list of words has are strings; other values are the
    error that the missing string method gives.
\<close>

type_synonym uses = "string list \<times> string list \<times> (string, string list) dict"

record dep_env =
  ge_parse :: parse_env
  ge_mods :: "(string, uses \<times> string) dict"
  ge_python :: "string \<Rightarrow> pval \<Rightarrow> pyerr + uses"
  ge_shell :: "string \<Rightarrow> pval \<Rightarrow> pyerr + string list"
  ge_hash :: "string \<Rightarrow> string"

abbreviation ge_ds :: "dep_env \<Rightarrow> ds_env" where
  "ge_ds env \<equiv> pe_ds (ge_parse env)"

text \<open>The words of a value that may be missing.\<close>

definition text_words :: "pval \<Rightarrow> pyerr + string list" where
  "text_words v = (if \<not> truthy_val v then Inr [] else (case v of PStr s \<Rightarrow> Inr (words s) | _ \<Rightarrow> Inl AttributeError))"

definition flag_words :: "flags \<Rightarrow> string \<Rightarrow> pyerr + string list" where
  "flag_words fl f = (case map_of fl f of None \<Rightarrow> Inr [] | Some (PStr s) \<Rightarrow> Inr (words s) | Some _ \<Rightarrow> Inl AttributeError)"

section \<open>build\_dependencies\<close>

text \<open>The line for one value that a function tests a list for.\<close>

definition contains_line :: "string \<Rightarrow> string list \<Rightarrow> string \<Rightarrow> string" where
  "contains_line k l item =
     CHR 0x0A # k @ ''{'' @ item @ ''} = '' @ (if ssubset (words item) l then ''Set'' else ''Unset'')"

definition contains_var ::
  "nat \<Rightarrow> dep_env \<Rightarrow> (string, string list) dict \<Rightarrow> string list \<Rightarrow> string \<Rightarrow> string \<times> dstore \<Rightarrow> pyerr + (string \<times> dstore)" where
  "contains_var n env conts excluded k = (\<lambda>(t, d).
     if k \<in> set excluded then Inr (t, d)
     else
       bindE (getVar n (ge_ds env) k True d) (\<lambda>(v, d).
       bindE (text_words v) (\<lambda>l.
         Inr (t @ concat (map (contains_line k l) (sort (dgetd conts k []))), d))))"

definition handle_contains ::
  "nat \<Rightarrow> dep_env \<Rightarrow> pval \<Rightarrow> (string, string list) dict \<Rightarrow> string list \<Rightarrow> dstore \<Rightarrow> pyerr + (string \<times> dstore)" where
  "handle_contains n env v conts excluded d =
     foldE (contains_var n env conts excluded) (sort (dkeys conts))
       (if truthy_val v then py_str (ge_parse env) v else [], d)"

text \<open>
  The removals.  The first round adds to the set of the caller; then \<open>deps = deps | ..\<close> makes a new
  set, so what later rounds add is lost.  The flag says whether the set is still that of the caller.
\<close>

definition remove_step ::
  "nat \<Rightarrow> dep_env \<Rightarrow> string list \<Rightarrow> string \<Rightarrow> string \<times> string list \<times> bool \<times> dstore \<Rightarrow>
   pyerr + (string \<times> string list \<times> bool \<times> dstore)" where
  "remove_step n env excluded r = (\<lambda>(t, deps, shared, d).
     bindE (expandWithRefs' n (ge_ds env) (PStr r) None d) (\<lambda>(r2, d).
     bindE (handle_contains n env (PStr (t @ CHR 0x0A # ''_remove of '' @ r)) (vp_contains r2) excluded d) (\<lambda>(t, d).
       Inr (t, if shared then sunion deps (vp_refs r2) else deps, False, d))))"

definition handle_remove ::
  "nat \<Rightarrow> dep_env \<Rightarrow> string \<Rightarrow> string list \<Rightarrow> pval list option \<Rightarrow> string list \<Rightarrow> dstore \<Rightarrow>
   pyerr + (string \<times> string list \<times> dstore)" where
  "handle_remove n env t ds removes excluded d =
     (case removes of
        None \<Rightarrow> Inr (t, ds, d)
      | Some rs \<Rightarrow>
          bindE (foldE (\<lambda>r l. bindE (name_of r) (\<lambda>s. Inr (l @ [s]))) rs []) (\<lambda>rs.
          bindE (foldE (remove_step n env excluded) (sort rs) (t, ds, True, d)) (\<lambda>(t, ds, shared, d).
            Inr (t, ds, d))))"

text \<open>\<open>value.replace(excl, '')\<close> for text that is not empty; the number counts what is still skipped.\<close>

fun remove_text :: "string \<Rightarrow> nat \<Rightarrow> string \<Rightarrow> string" where
  "remove_text p k [] = []"
| "remove_text p (Suc k) (c # cs) = remove_text p k cs"
| "remove_text p 0 (c # cs) =
     (if startswith (c # cs) p then remove_text p (length p - 1) cs else c # remove_text p 0 cs)"

definition exclude_values :: "flags \<Rightarrow> pval \<Rightarrow> pyerr + pval" where
  "exclude_values fl v =
     (case map_of fl ''vardepvalueexclude'' of
        None \<Rightarrow> Inr v
      | Some (PStr e) \<Rightarrow>
          foldE (\<lambda>excl v. if excl = [] then Inr v
                          else (case v of PStr s \<Rightarrow> Inr (PStr (remove_text excl 0 s)) | _ \<Rightarrow> Inl AttributeError))
            (split_on (CHR ''|'') e) v
      | Some _ \<Rightarrow> Inl AttributeError)"

text \<open>The flags that are dependencies of their own; the variable of excluded ones is searched as text.\<close>

definition flag_deps :: "string \<Rightarrow> flags \<Rightarrow> pval \<Rightarrow> pyerr + string list" where
  "flag_deps key fl excl =
     (if \<not> truthy_val excl then Inr []
      else foldE (\<lambda>f l. bindE (str_in f excl) (\<lambda>x. Inr (if x then l else l @ [key @ ''['' @ f @ '']'']))) (dkeys fl) [])"

text \<open>What the reads of one variable need besides the store.\<close>

record dep_scope =
  sc_keys :: "string list"
  sc_shell :: "string list"
  sc_excl :: pval
  sc_ignored :: "string list"

text \<open>A value read with its parse.\<close>

definition read_parsed ::
  "nat \<Rightarrow> dep_env \<Rightarrow> string \<Rightarrow> string \<Rightarrow> dstore \<Rightarrow> pyerr + (pval \<times> vparse \<times> dstore)" where
  "read_parsed n env var flag d =
     bindE (getVarFlag n (ge_ds env) var flag False False False True d) (\<lambda>(v, p, d).
       case p of None \<Rightarrow> Inl TypeError | Some p \<Rightarrow> Inr (v, p, d))"

definition flag_key :: "nat \<Rightarrow> dep_env \<Rightarrow> dep_scope \<Rightarrow> string \<Rightarrow> dstore \<Rightarrow> pyerr + (string list \<times> pval \<times> dstore)" where
  "flag_key n env sc key d =
     (case split_on (CHR ''['') (butlast key) of
        var # flag # _ \<Rightarrow>
          if flag = ''vardepvalueexclude'' then Inr ([], PStr [], d)
          else bindE (read_parsed n env var flag d) (\<lambda>(v, p, d).
                 Inr (sdiff (sunion (vp_refs p) (sinter (sc_keys sc) (vp_execs p))) (sc_ignored sc), v, d))
      | _ \<Rightarrow> Inl IndexError)"

definition python_key ::
  "nat \<Rightarrow> dep_env \<Rightarrow> dep_scope \<Rightarrow> string \<Rightarrow> string list \<Rightarrow> dstore \<Rightarrow> dstore \<Rightarrow>
   pyerr + (string list \<times> pval \<times> dstore \<times> dstore)" where
  "python_key n env sc key exclusions d cd =
     bindE (getVarFlag n (ge_ds env) key ''_content'' False False False False cd) (\<lambda>(v, p, cd).
     bindE (ge_python env key v) (\<lambda>(refs, execs, conts).
     bindE (handle_contains n env v conts (exclusions @ sc_ignored sc) d) (\<lambda>(t, d).
       Inr (sunion refs (sinter (sc_keys sc) execs), PStr t, d, cd))))"

definition shell_key ::
  "nat \<Rightarrow> dep_env \<Rightarrow> dep_scope \<Rightarrow> string \<Rightarrow> string list \<Rightarrow> dstore \<Rightarrow> dstore \<Rightarrow>
   pyerr + (string list \<times> pval \<times> dstore \<times> dstore)" where
  "shell_key n env sc key exclusions d cd =
     bindE (read_parsed n env key ''_content'' cd) (\<lambda>(v, p, cd).
     bindE (ge_shell env key (vp_value p)) (\<lambda>execs.
     let deps = sunion (sunion (sunion (sc_shell sc) (vp_refs p)) (sinter (sc_keys sc) execs)) (sinter (sc_keys sc) (vp_execs p))
     in bindE (handle_contains n env v (vp_contains p) (exclusions @ sc_ignored sc) d) (\<lambda>(t, d).
        bindE (handle_remove n env t deps (vp_removes p) (exclusions @ sc_ignored sc) d) (\<lambda>(t, deps, d).
          Inr (deps, PStr t, d, cd)))))"

definition func_key ::
  "nat \<Rightarrow> dep_env \<Rightarrow> dep_scope \<Rightarrow> string \<Rightarrow> flags \<Rightarrow> string list \<Rightarrow> dstore \<Rightarrow> dstore \<Rightarrow>
   pyerr + (string list \<times> pval \<times> dstore \<times> dstore)" where
  "func_key n env sc key fl exclusions d cd =
     bindE ((if truthy_val (dgetd fl ''python'' PNone) then python_key else shell_key) n env sc key exclusions d cd)
       (\<lambda>(deps, v, d, cd).
     bindE (flag_words fl ''prefuncs'') (\<lambda>pre.
     bindE (flag_words fl ''postfuncs'') (\<lambda>post.
     bindE (flag_words fl ''exports'') (\<lambda>ex.
       Inr (sunion (sunion (sunion deps pre) post) ex, v, d, cd)))))"

definition var_key ::
  "nat \<Rightarrow> dep_env \<Rightarrow> dep_scope \<Rightarrow> string \<Rightarrow> string list \<Rightarrow> dstore \<Rightarrow> pyerr + (string list \<times> pval \<times> dstore)" where
  "var_key n env sc key exclusions d =
     bindE (read_parsed n env key ''_content'' d) (\<lambda>(v, p, d).
     let deps = sunion (vp_refs p) (sinter (sc_keys sc) (vp_execs p))
     in bindE (handle_contains n env v (vp_contains p) (exclusions @ sc_ignored sc) d) (\<lambda>(t, d).
        bindE (handle_remove n env t deps (vp_removes p) (exclusions @ sc_ignored sc) d) (\<lambda>(t, deps, d).
          Inr (deps, PStr t, d))))"

definition vardep_flags :: "string list" where
  "vardep_flags =
     [''vardeps'', ''vardepvalue'', ''vardepsexclude'', ''exports'', ''postfuncs'', ''prefuncs'', ''lineno'', ''filename'']"

definition build_dependencies ::
  "nat \<Rightarrow> dep_env \<Rightarrow> dep_scope \<Rightarrow> string \<Rightarrow> dstore \<times> dstore \<Rightarrow> pyerr + (string list \<times> pval \<times> dstore \<times> dstore)" where
  "build_dependencies n env sc key = (\<lambda>(d, cd).
     case map_of (ge_mods env) key of
       Some ((refs, execs, conts), extra) \<Rightarrow>
         bindE (handle_contains n env (PStr extra) conts (sc_ignored sc) d) (\<lambda>(t, d).
           Inr (sdiff (sunion refs (sinter (sc_keys sc) execs)) (sc_ignored sc), PStr t, d, cd))
     | None \<Rightarrow>
         if key = [] then Inl IndexError
         else if last key = CHR '']'' then bindE (flag_key n env sc key d) (\<lambda>(deps, v, d). Inr (deps, v, d, cd))
         else
           bindE (getVarFlags n (ge_ds env) key vardep_flags False d) (\<lambda>(fl, d).
           let fl = (case fl of None \<Rightarrow> [] | Some fl \<Rightarrow> fl)
           in bindE (flag_words fl ''vardepsexclude'') (\<lambda>exclusions.
              bindE (case map_of fl ''vardepvalue'' of
                       Some v \<Rightarrow> Inr ([], v, d, cd)
                     | None \<Rightarrow>
                         if truthy_val (dgetd fl ''func'' PNone) then func_key n env sc key fl exclusions d cd
                         else bindE (var_key n env sc key exclusions d) (\<lambda>(deps, v, d). Inr (deps, v, d, cd)))
                (\<lambda>(deps, v, d, cd).
              bindE (exclude_values fl v) (\<lambda>v.
              bindE (flag_deps key fl (sc_excl sc)) (\<lambda>fdeps.
              bindE (text_words (dgetd fl ''vardeps'' PNone)) (\<lambda>vardeps.
                Inr (sdiff (sdiff (sunion (sunion deps fdeps) vardeps) exclusions) (sc_ignored sc), v, d, cd))))))))"

section \<open>generate\_dependencies\<close>

record gen_state =
  gs_deps :: "(string, string list) dict"
  gs_values :: "(string, pval) dict"
  gs_stores :: "dstore \<times> dstore"

definition build_into :: "nat \<Rightarrow> dep_env \<Rightarrow> dep_scope \<Rightarrow> string \<Rightarrow> gen_state \<Rightarrow> pyerr + gen_state" where
  "build_into n env sc key g =
     bindE (build_dependencies n env sc key (gs_stores g)) (\<lambda>(deps, v, ds).
       Inr (g\<lparr>gs_deps := dset key deps (gs_deps g), gs_values := dset key v (gs_values g), gs_stores := ds\<rparr>))"

definition visit_dep ::
  "nat \<Rightarrow> dep_env \<Rightarrow> dep_scope \<Rightarrow> string \<Rightarrow> string list \<times> gen_state \<Rightarrow> pyerr + (string list \<times> gen_state)" where
  "visit_dep n env sc dep = (\<lambda>(newdeps, g).
     bindE (if din dep (gs_deps g) then Inr g else build_into n env sc dep g) (\<lambda>g.
     bindE (dget (gs_deps g) dep) (\<lambda>l. Inr (sunion newdeps l, g))))"

fun visit_loop ::
  "nat \<Rightarrow> nat \<Rightarrow> dep_env \<Rightarrow> dep_scope \<Rightarrow> string list \<Rightarrow> string list \<Rightarrow> gen_state \<Rightarrow> pyerr + gen_state" where
  "visit_loop 0 n env sc newdeps seen g = Inl Diverges"
| "visit_loop (Suc k) n env sc newdeps seen g =
     (if newdeps = [] then Inr g
      else
        (let seen = sunion seen newdeps
         in bindE (foldE (visit_dep n env sc) newdeps ([], g)) (\<lambda>(nextdeps, g).
              visit_loop k n env sc (sdiff nextdeps seen) seen g)))"

definition visit_task :: "nat \<Rightarrow> dep_env \<Rightarrow> dep_scope \<Rightarrow> string \<Rightarrow> gen_state \<Rightarrow> pyerr + gen_state" where
  "visit_task n env sc task g =
     bindE (build_into n env sc task g) (\<lambda>g.
     bindE (dget (gs_deps g) task) (\<lambda>l. visit_loop n n env sc l [] g))"

definition bool_arg :: "pval \<Rightarrow> pyerr + boolarg" where
  "bool_arg v =
     (if \<not> truthy_val v then Inr BNone
      else (case v of PStr s \<Rightarrow> Inr (BStr s) | PInt i \<Rightarrow> Inr (BInt i) | PBool b \<Rightarrow> Inr (BInt 1) | _ \<Rightarrow> Inl AttributeError))"

definition flag_set :: "nat \<Rightarrow> dep_env \<Rightarrow> string \<Rightarrow> string \<Rightarrow> dstore \<Rightarrow> pyerr + (bool \<times> dstore)" where
  "flag_set n env var flag d =
     bindE (getVarFlag n (ge_ds env) var flag True False False False d) (\<lambda>(v, p, d).
     bindE (bool_arg v) (\<lambda>a. bindE (to_boolean a None) (\<lambda>b. Inr (b = Some True, d))))"

definition shell_dep ::
  "nat \<Rightarrow> dep_env \<Rightarrow> pval \<Rightarrow> string list \<times> dstore \<Rightarrow> pyerr + (string list \<times> dstore)" where
  "shell_dep n env item = (\<lambda>(l, d).
     bindE (name_of item) (\<lambda>key.
     bindE (flag_set n env key ''export'' d) (\<lambda>(x, d).
     bindE (if x then flag_set n env key ''unexport'' d else Inr (True, d)) (\<lambda>(u, d).
       Inr (if u then l else sadd key l, d)))))"

definition force_value :: "nat \<Rightarrow> dep_env \<Rightarrow> string \<Rightarrow> dstore \<Rightarrow> pyerr + dstore" where
  "force_value n env forced cd =
     (if CHR ''='' \<notin> set forced then Inl (ValueError ''not enough values to unpack'')
      else setVar n (ge_ds env) (takeWhile (\<lambda>c. c \<noteq> CHR ''='') forced)
             (PStr (tl (dropWhile (\<lambda>c. c \<noteq> CHR ''='') forced))) False cd)"

definition generate_dependencies ::
  "nat \<Rightarrow> dep_env \<Rightarrow> string list \<Rightarrow> dstore \<Rightarrow>
   pyerr + (string list \<times> (string, string list) dict \<times> (string, pval) dict \<times> dstore)" where
  "generate_dependencies n env ignored d =
     bindE (ds_keys n (ge_ds env) d) (\<lambda>(ks, d).
     bindE (getVar n (ge_ds env) ''__exportlist'' False d) (\<lambda>(el, d).
     bindE (dep_items el) (\<lambda>el.
     bindE (foldE (shell_dep n env) el ([], d)) (\<lambda>(shelldeps, d).
     bindE (getVar n (ge_ds env) ''BB_SIGNATURE_EXCLUDE_FLAGS'' True d) (\<lambda>(excl, d).
     bindE (getVar n (ge_ds env) ''BB_HASH_CODEPARSER_VALS'' True d) (\<lambda>(vals, d).
     bindE (text_words vals) (\<lambda>vals.
     bindE (foldE (force_value n env) vals (createCopy d)) (\<lambda>cd.
     bindE (read_list n (ge_parse env) ''__BBTASKS'' d) (\<lambda>(tasks, d).
     bindE (foldE (\<lambda>t l. bindE (name_of t) (\<lambda>s. Inr (l @ [s]))) tasks []) (\<lambda>tasks.
     let sc = \<lparr>sc_keys = sunion (filter (\<lambda>k. \<not> startswith k ''__'') ks) (dkeys (ge_mods env)), sc_shell = shelldeps,
               sc_excl = excl, sc_ignored = ignored\<rparr>
     in bindE (foldE (visit_task n env sc) tasks \<lparr>gs_deps = [], gs_values = [], gs_stores = (d, cd)\<rparr>) (\<lambda>g.
          Inr (tasks, gs_deps g, gs_values g, fst (gs_stores g)))))))))))))"

section \<open>generate\_dependency\_hash\<close>

text \<open>One round: the dependencies of all new ones.\<close>

definition next_deps :: "(string, string list) dict \<Rightarrow> string list \<Rightarrow> pyerr + string list" where
  "next_deps gendeps new = foldE (\<lambda>dep l. bindE (dget gendeps dep) (\<lambda>m. Inr (sunion l m))) new []"

fun seen_loop :: "nat \<Rightarrow> (string, string list) dict \<Rightarrow> string list \<Rightarrow> string list \<Rightarrow> pyerr + string list" where
  "seen_loop 0 gendeps new seen = Inl Diverges"
| "seen_loop (Suc k) gendeps new seen =
     (if new = [] then Inr seen
      else
        (let seen = sunion seen new
         in bindE (next_deps gendeps new) (\<lambda>next. seen_loop k gendeps (sdiff next seen) seen)))"

definition dep_text :: "dep_env \<Rightarrow> (string, pval) dict \<Rightarrow> string \<Rightarrow> string \<Rightarrow> pyerr + string" where
  "dep_text env values dep t =
     bindE (dget values dep) (\<lambda>v. Inr (t @ dep @ (if v = PNone then [] else py_str (ge_parse env) v)))"

definition task_text :: "pval \<Rightarrow> pyerr + string" where
  "task_text v = (case v of PNone \<Rightarrow> Inr [] | PStr s \<Rightarrow> Inr s | _ \<Rightarrow> Inl TypeError)"

definition hash_task ::
  "dep_env \<Rightarrow> (string, string list) dict \<Rightarrow> (string, pval) dict \<Rightarrow> string \<Rightarrow> string \<Rightarrow>
   (string, string list) dict \<times> (string, string) dict \<Rightarrow> pyerr + ((string, string list) dict \<times> (string, string) dict)" where
  "hash_task env gendeps values fn task = (\<lambda>(taskdeps, basehash).
     bindE (dget values task) (\<lambda>v.
     bindE (dget gendeps task) (\<lambda>new.
     bindE (seen_loop (length gendeps + 2) gendeps new []) (\<lambda>seen.
     bindE (task_text v) (\<lambda>t.
     bindE (foldE (dep_text env values) (sort seen) t) (\<lambda>t.
       Inr (dset task seen taskdeps, dset (fn @ '':'' @ task) (ge_hash env t) basehash)))))))"

definition generate_dependency_hash ::
  "dep_env \<Rightarrow> string list \<Rightarrow> (string, string list) dict \<Rightarrow> (string, pval) dict \<Rightarrow> string \<Rightarrow>
   pyerr + ((string, string list) dict \<times> (string, string) dict)" where
  "generate_dependency_hash env tasklist gendeps values fn = foldE (hash_task env gendeps values fn) tasklist ([], [])"

end
