(* ===== verification/SigGen.thy ===== *)
theory SigGen
  imports VarDeps Tids "HOL-Library.Product_Lexorder"
begin

text \<open>
  The signature generator, from \<open>poky/bitbake/lib/bb/siggen.py\<close>: the base hashes of a recipe, the hash
  of a task from those of its dependencies, its files and its taint, the names of stamp files, and
  the signature data that \<open>dump_sigtask\<close> writes with the two functions that compute the hashes again.

  The object is the record \<open>siggen\<close>.  The pattern \<open>BB_TASKHASH_IGNORE_TASKS\<close>, the checksums of files, the
  contents of taint files, a fresh \<open>uuid\<close> and the hash function are arguments.  The server of
  unified hashes is not modelled: \<open>get_unihash\<close> is that of the basic generators, the task hash.
\<close>

record siggen =
  sg_basehash :: "(tid, string) dict"
  sg_taskhash :: "(tid, string) dict"
  sg_runtaskdeps :: "(tid, (string \<times> tid) list) dict"
  sg_checksums :: "(tid, (string \<times> string option) list) dict"
  sg_taints :: "(tid, string) dict"
  sg_tidtopn :: "(tid, string) dict"

record sig_env =
  se_dep :: dep_env
  se_search :: "(string \<Rightarrow> bool) option"
  se_sums :: "string \<Rightarrow> string \<Rightarrow> (string \<times> string option) list"
  se_taint :: "string \<Rightarrow> string option"
  se_uuid :: "tid \<Rightarrow> string"

abbreviation se_hash :: "sig_env \<Rightarrow> string \<Rightarrow> string" where
  "se_hash env \<equiv> ge_hash (se_dep env)"

definition SignatureGeneratorBasic :: siggen where
  "SignatureGeneratorBasic =
     \<lparr>sg_basehash = [], sg_taskhash = [], sg_runtaskdeps = [], sg_checksums = [], sg_taints = [], sg_tidtopn = []\<rparr>"

section \<open>Base hashes\<close>

text \<open>
  \<open>_build_data\<close>; a base hash that changes when a recipe is parsed again is an error message, and the
  new one is kept.  The result has what \<open>finalise\<close> puts in the variables \<open>__siggen_taskdeps\<close>,
  \<open>__siggen_gendeps\<close> and \<open>__siggen_varvals\<close>.
\<close>

record sig_parts =
  sp_taskdeps :: "(string, string list) dict"
  sp_gendeps :: "(string, string list) dict"
  sp_varvals :: "(string, pval) dict"

definition keep_basehash ::
  "string \<Rightarrow> (string, string) dict \<Rightarrow> string \<Rightarrow> siggen \<Rightarrow> pyerr + siggen" where
  "keep_basehash mcfn basehash task sg =
     bindE (dget basehash (mcfn @ '':'' @ task)) (\<lambda>h.
       Inr (sg\<lparr>sg_basehash := dset (mcfn @ '':'' @ task) h (sg_basehash sg)\<rparr>))"

definition build_data ::
  "nat \<Rightarrow> sig_env \<Rightarrow> string list \<Rightarrow> string \<Rightarrow> dstore \<Rightarrow> siggen \<Rightarrow> pyerr + (sig_parts \<times> dstore \<times> siggen)" where
  "build_data n env ignored mcfn d sg =
     bindE (generate_dependencies n (se_dep env) ignored d) (\<lambda>(tasklist, gendeps, lookupcache, d).
     bindE (generate_dependency_hash (se_dep env) tasklist gendeps lookupcache mcfn) (\<lambda>(taskdeps, basehash).
     bindE (foldE (keep_basehash mcfn basehash) tasklist sg) (\<lambda>sg.
       Inr (\<lparr>sp_taskdeps = taskdeps, sp_gendeps = gendeps, sp_varvals = lookupcache\<rparr>, d, sg))))"

section \<open>Task hashes\<close>

definition build_pnid :: "string \<Rightarrow> string \<Rightarrow> string \<Rightarrow> string" where
  "build_pnid mc pn taskname =
     (if mc \<noteq> [] then ''mc:'' @ mc @ '':'' @ pn @ '':'' @ taskname else pn @ '':'' @ taskname)"

definition rundep_check :: "sig_env \<Rightarrow> string \<Rightarrow> string \<Rightarrow> bool" where
  "rundep_check env recipename depname \<longleftrightarrow>
     (case se_search env of None \<Rightarrow> True | Some search \<Rightarrow> search recipename \<or> \<not> search depname)"

definition prep_dep ::
  "sig_env \<Rightarrow> (string, cache) dict \<Rightarrow> string \<Rightarrow> tid \<Rightarrow> tid \<Rightarrow> siggen \<Rightarrow> pyerr + siggen" where
  "prep_dep env dataCaches recipename tid dep sg =
     bindE (split_tid_mcfn dep) (\<lambda>(depmc, _, deptask, depmcfn).
     bindE (dget dataCaches depmc) (\<lambda>c.
     bindE (dget (pkg_fn c) depmcfn) (\<lambda>dep_pn.
       if \<not> rundep_check env recipename dep_pn then Inr sg
       else if \<not> din dep (sg_taskhash sg) then Inl (Fatal ''not in taskhash, caller isn't calling in dependency order?'')
       else Inr (sg\<lparr>sg_runtaskdeps :=
              dset tid (dgetd (sg_runtaskdeps sg) tid [] @ [(build_pnid depmc dep_pn deptask, dep)]) (sg_runtaskdeps sg)\<rparr>))))"

definition prep_taints :: "sig_env \<Rightarrow> task_deps \<Rightarrow> string \<Rightarrow> string \<Rightarrow> tid \<Rightarrow> siggen \<Rightarrow> siggen" where
  "prep_taints env taskdep stamp task tid sg =
     (let sg = (if flagged taskdep ''nostamp'' task \<and>
                   (case map_of (sg_taints sg) tid of None \<Rightarrow> True | Some t \<Rightarrow> \<not> startswith t ''nostamp:'')
                then sg\<lparr>sg_taints := dset tid (''nostamp:'' @ se_uuid env tid) (sg_taints sg)\<rparr> else sg)
      in case se_taint env (stamp @ ''.'' @ task @ ''.taint'') of
           None \<Rightarrow> sg
         | Some taint \<Rightarrow> if taint = [] then sg else sg\<lparr>sg_taints := dset tid taint (sg_taints sg)\<rparr>)"

definition prep_taskhash ::
  "sig_env \<Rightarrow> tid \<Rightarrow> tid list \<Rightarrow> (string, cache) dict \<Rightarrow> siggen \<Rightarrow> pyerr + (tid list \<times> siggen)" where
  "prep_taskhash env tid ds dataCaches sg =
     bindE (split_tid_mcfn tid) (\<lambda>(mc, _, task, mcfn).
     bindE (dget dataCaches mc) (\<lambda>c.
     bindE (dget (basetaskhash c) tid) (\<lambda>h.
     bindE (dget (pkg_fn c) mcfn) (\<lambda>recipename.
     let sg = sg\<lparr>sg_basehash := dset tid h (sg_basehash sg), sg_runtaskdeps := dset tid [] (sg_runtaskdeps sg),
                 sg_checksums := dset tid [] (sg_checksums sg), sg_tidtopn := dset tid recipename (sg_tidtopn sg)\<rparr>
     in bindE (foldE (prep_dep env dataCaches recipename tid) ds sg) (\<lambda>sg.
        bindE (dget (file_checksums_of c) mcfn) (\<lambda>sums.
        let sg = (case map_of sums task of
                    None \<Rightarrow> sg
                  | Some files \<Rightarrow> sg\<lparr>sg_checksums := dset tid (se_sums env files recipename) (sg_checksums sg)\<rparr>)
        in bindE (dget (task_deps_of c) mcfn) (\<lambda>taskdep.
           bindE (dget (stamp_of c) mcfn) (\<lambda>stamp.
           let sg = prep_taints env taskdep stamp task tid sg
           in Inr (remdups (map snd (dgetd (sg_runtaskdeps sg) tid [])), sg)))))))))"

definition get_unihash :: "siggen \<Rightarrow> tid \<Rightarrow> pyerr + string" where
  "get_unihash sg tid = dget (sg_taskhash sg) tid"

text \<open>The path of a file without what is before \<open>/./\<close>; \<open>split\<close> keeps what is before a second one.\<close>

fun before_sub :: "string \<Rightarrow> string \<Rightarrow> string" where
  "before_sub p [] = []"
| "before_sub p (c # cs) = (if startswith (c # cs) p then [] else c # before_sub p cs)"

fun after_sub :: "string \<Rightarrow> string \<Rightarrow> string option" where
  "after_sub p [] = (if p = [] then Some [] else None)"
| "after_sub p (c # cs) = (if startswith (c # cs) p then Some (drop (length p) (c # cs)) else after_sub p cs)"

definition local_part :: "string \<Rightarrow> string option" where
  "local_part f = map_option (\<lambda>r. ''./'' @ before_sub ''/./'' r) (after_sub ''/./'' f)"

definition clean_checksum_file_path :: "string \<times> string option \<Rightarrow> string" where
  "clean_checksum_file_path x = (case local_part (fst x) of None \<Rightarrow> fst x | Some p \<Rightarrow> p)"

definition sum_text :: "string \<times> string option \<Rightarrow> string" where
  "sum_text = (\<lambda>(f, cs).
     case cs of
       None \<Rightarrow> []
     | Some s \<Rightarrow> if s = [] then [] else (case local_part f of None \<Rightarrow> [] | Some p \<Rightarrow> p) @ s)"

definition taint_text :: "string \<Rightarrow> string" where
  "taint_text t = (if startswith t ''nostamp:'' then drop 8 t else t)"

definition unihash_text :: "siggen \<Rightarrow> string \<times> tid \<Rightarrow> string \<Rightarrow> pyerr + string" where
  "unihash_text sg dep t = bindE (get_unihash sg (snd dep)) (\<lambda>h. Inr (t @ h))"

definition get_taskhash :: "sig_env \<Rightarrow> tid \<Rightarrow> siggen \<Rightarrow> pyerr + (string \<times> siggen)" where
  "get_taskhash env tid sg =
     bindE (dget (sg_basehash sg) tid) (\<lambda>base.
     bindE (dget (sg_runtaskdeps sg) tid) (\<lambda>deps.
     bindE (foldE (unihash_text sg) (sort deps) base) (\<lambda>t.
     bindE (dget (sg_checksums sg) tid) (\<lambda>sums.
     let t = t @ concat (map sum_text (sort_key clean_checksum_file_path sums)) @
               (case map_of (sg_taints sg) tid of None \<Rightarrow> [] | Some taint \<Rightarrow> taint_text taint);
         h = se_hash env t
     in Inr (h, sg\<lparr>sg_taskhash := dset tid h (sg_taskhash sg)\<rparr>)))))"

section \<open>Stamp files\<close>

definition rstrip_dots :: "string \<Rightarrow> string" where
  "rstrip_dots s = rev (dropWhile (\<lambda>c. c = CHR ''.'') (rev s))"

definition get_stampfile_hash :: "siggen \<Rightarrow> tid \<Rightarrow> pyerr + string" where
  "get_stampfile_hash sg tid =
     (case map_of (sg_taskhash sg) tid of Some h \<Rightarrow> Inr h | None \<Rightarrow> dget (sg_basehash sg) tid)"

text \<open>The name of the basic generator, and the one with the hash.\<close>

definition stampfile_basic :: "string \<Rightarrow> string \<Rightarrow> string \<Rightarrow> string" where
  "stampfile_basic stampbase taskname extrainfo = rstrip_dots (stampbase @ ''.'' @ taskname @ ''.'' @ extrainfo)"

definition stampfile :: "siggen \<Rightarrow> string \<Rightarrow> string \<Rightarrow> string \<Rightarrow> string \<Rightarrow> bool \<Rightarrow> pyerr + string" where
  "stampfile sg stampbase mcfn taskname extrainfo clean =
     (let task = (if endswith taskname ''_setscene'' then take (length taskname - 9) taskname else taskname)
      in bindE (if clean then Inr ''*'' else get_stampfile_hash sg (mcfn @ '':'' @ task)) (\<lambda>h.
           Inr (rstrip_dots (stampbase @ ''.'' @ taskname @ ''.'' @ h @ ''.'' @ extrainfo))))"

text \<open>\<open>replace('_setscene', '')\<close>, everywhere in the name.\<close>

definition without_setscene :: "string \<Rightarrow> string" where
  "without_setscene taskname =
     (if endswith taskname ''_setscene'' then remove_text ''_setscene'' 0 taskname else taskname)"

definition stampfile_mcfn ::
  "siggen \<Rightarrow> (string, cache) dict \<Rightarrow> string \<Rightarrow> string \<Rightarrow> bool \<Rightarrow> pyerr + string option" where
  "stampfile_mcfn sg datacaches taskname mcfn extrainfo =
     bindE (dget datacaches (mc_from_tid mcfn)) (\<lambda>c.
     bindE (dget (stamp_of c) mcfn) (\<lambda>stamp.
       if stamp = [] then Inr None
       else
         bindE (if extrainfo
                then bindE (dget (stamp_extrainfo_of c) mcfn) (\<lambda>x. Inr (dgetd x (without_setscene taskname) []))
                else Inr []) (\<lambda>info.
         bindE (stampfile sg stamp mcfn taskname info False) (\<lambda>s. Inr (Some s)))))"

section \<open>Signature data\<close>

text \<open>The entries written only for a task that has its task hash.\<close>

record sig_run =
  sr_runtaskdeps :: "string list"
  sr_checksums :: "(string \<times> string option) list"
  sr_runtaskhashes :: "(string, string) dict"

record sig_data =
  sd_task :: string
  sd_taskdeps :: "string list"
  sd_basehash :: string
  sd_gendeps :: "(string, string list) dict"
  sd_varvals :: "(string, pval) dict"
  sd_run :: "sig_run option"
  sd_taint :: "string option"

definition calc_dep :: "parse_env \<Rightarrow> (string, pval) dict \<Rightarrow> string \<Rightarrow> string \<Rightarrow> pyerr + string" where
  "calc_dep env varvals dep t =
     bindE (dget varvals dep) (\<lambda>v. Inr ((t @ dep) @ (if v = PNone then [] else py_str env v)))"

definition calc_basehash :: "dep_env \<Rightarrow> sig_data \<Rightarrow> pyerr + string" where
  "calc_basehash env sd =
     bindE (dget (sd_varvals sd) (sd_task sd)) (\<lambda>v.
     bindE (task_text v) (\<lambda>t.
     bindE (foldE (calc_dep (ge_parse env) (sd_varvals sd)) (sort (sd_taskdeps sd)) t) (\<lambda>t.
       Inr (ge_hash env t))))"

definition calc_sum :: "string \<times> string option \<Rightarrow> string" where
  "calc_sum = (\<lambda>(f, cs).
     case cs of
       None \<Rightarrow> []
     | Some s \<Rightarrow> if s = [] then [] else (if contains_sub f ''./'' then f else []) @ s)"

definition calc_taint :: "string \<Rightarrow> string" where
  "calc_taint t = (if contains_sub t ''nostamp:'' then drop 8 t else t)"

definition calc_taskhash :: "dep_env \<Rightarrow> sig_data \<Rightarrow> pyerr + string" where
  "calc_taskhash env sd =
     (case sd_run sd of
        None \<Rightarrow> Inl KeyError
      | Some sr \<Rightarrow>
          bindE (foldE (\<lambda>dep t. bindE (dget (sr_runtaskhashes sr) dep) (\<lambda>h. Inr (t @ h))) (sr_runtaskdeps sr) (sd_basehash sd)) (\<lambda>t.
            Inr (ge_hash env (t @ concat (map calc_sum (sr_checksums sr)) @
                   (case sd_taint sd of None \<Rightarrow> [] | Some taint \<Rightarrow> calc_taint taint)))))"

definition path_base :: "string \<Rightarrow> string" where
  "path_base f = last (split_on (CHR ''/'') f)"

definition dumped_sum :: "string \<times> string option \<Rightarrow> string \<times> string option" where
  "dumped_sum = (\<lambda>(f, cs). (case local_part f of Some p \<Rightarrow> p | None \<Rightarrow> path_base f, cs))"

definition copy_dep ::
  "sig_parts \<Rightarrow> string list \<Rightarrow> string \<Rightarrow> (string, string list) dict \<times> (string, pval) dict \<Rightarrow>
   pyerr + ((string, string list) dict \<times> (string, pval) dict)" where
  "copy_dep sp ignored dep = (\<lambda>(gd, vv).
     if dep \<in> set ignored then Inr (gd, vv)
     else bindE (dget (sp_gendeps sp) dep) (\<lambda>g. bindE (dget (sp_varvals sp) dep) (\<lambda>v. Inr (dset dep g gd, dset dep v vv))))"

definition dump_hash :: "siggen \<Rightarrow> string \<times> tid \<Rightarrow> (string, string) dict \<Rightarrow> pyerr + (string, string) dict" where
  "dump_hash sg dep hs = bindE (get_unihash sg (snd dep)) (\<lambda>h. Inr (dset (fst dep) h hs))"

definition sigtask_run :: "siggen \<Rightarrow> tid \<Rightarrow> pyerr + sig_run" where
  "sigtask_run sg tid =
     bindE (dget (sg_runtaskdeps sg) tid) (\<lambda>deps.
     bindE (dget (sg_checksums sg) tid) (\<lambda>sums.
     bindE (foldE (dump_hash sg) deps []) (\<lambda>hs.
       Inr \<lparr>sr_runtaskdeps = map fst (sort deps),
            sr_checksums = map dumped_sum (sort_key clean_checksum_file_path sums),
            sr_runtaskhashes = hs\<rparr>)))"

text \<open>
  The data of \<open>dump_sigtask\<close>, as written to the file; the messages of hashes that differ and the file
  itself are left out.  \<open>runtime\<close> is the argument of the code as a condition.
\<close>

definition sigtask_data ::
  "sig_env \<Rightarrow> string list \<Rightarrow> sig_parts \<Rightarrow> string \<Rightarrow> string \<Rightarrow> string \<Rightarrow> bool \<Rightarrow> siggen \<Rightarrow> pyerr + sig_data" where
  "sigtask_data env ignored sp mcfn task stampbase runtime sg =
     (let tid = mcfn @ '':'' @ task
      in bindE (dget (sp_taskdeps sp) task) (\<lambda>taskdeps.
         bindE (dget (sg_basehash sg) tid) (\<lambda>basehash.
         bindE (dget (sp_varvals sp) task) (\<lambda>v.
         bindE (foldE (copy_dep sp ignored) taskdeps ([], [(task, v)])) (\<lambda>(gd, vv).
         bindE (if runtime \<and> din tid (sg_taskhash sg) then bindE (sigtask_run sg tid) (\<lambda>sr. Inr (Some sr)) else Inr None) (\<lambda>run.
         let taint = (case se_taint env (stampbase @ ''.'' @ task @ ''.taint'') of
                        None \<Rightarrow> None | Some t \<Rightarrow> if t = [] then None else Some t);
             taint = (case if runtime then map_of (sg_taints sg) tid else None of
                        None \<Rightarrow> taint | Some t \<Rightarrow> if contains_sub t ''nostamp:'' then Some t else taint)
         in Inr \<lparr>sd_task = task, sd_taskdeps = taskdeps, sd_basehash = basehash, sd_gendeps = gd, sd_varvals = vv,
                 sd_run = run, sd_taint = taint\<rparr>))))))"

end
