(* ===== verification/SigProps.thy ===== *)
theory SigProps
  imports SigGen SceneProps
begin

text \<open>
  Properties of base hashes and task hashes: the variables that go into a base hash are exactly
  those a task reaches, every one of them has a value, the hashes written with the signature data
  are computed again from them, and the order of dependencies does not matter.
\<close>

section \<open>The variables of a task\<close>

definition dep_on :: "(string, string list) dict \<Rightarrow> string \<Rightarrow> string \<Rightarrow> bool" where
  "dep_on gd v w \<longleftrightarrow> w \<in> set (dgetd gd v [])"

interpretation vars: closure_loop "dep_on gd" for gd .

definition add_deps :: "(string, string list) dict \<Rightarrow> string \<Rightarrow> string list \<Rightarrow> pyerr + string list" where
  "add_deps gd dep l = bindE (dget gd dep) (\<lambda>m. Inr (sunion l m))"

lemma next_deps_eq: "next_deps gd new = foldE (add_deps gd) new []"
  by (simp add: next_deps_def add_deps_def [abs_def])

lemma add_deps_loop:
  "case foldE (add_deps gd) xs a of
     Inl e \<Rightarrow> e = KeyError \<and> (\<exists>v \<in> set xs. \<not> din v gd)
   | Inr b \<Rightarrow> (\<forall>v \<in> set xs. din v gd) \<and> set b = set a \<union> {w. \<exists>v \<in> set xs. dep_on gd v w} \<and> (distinct a \<longrightarrow> distinct b)"
proof (induction xs arbitrary: a)
  case (Cons x xs)
  show ?case
  proof (cases "map_of gd x")
    case None
    then have "dget gd x = Inl KeyError" "\<not> din x gd" by (simp_all add: dget_def din_iff)
    then show ?thesis by (simp add: add_deps_def)
  next
    case (Some m)
    then have m: "dget gd x = Inr m" "din x gd" "\<And>w. dep_on gd x w \<longleftrightarrow> w \<in> set m"
      by (auto simp: dget_def din_iff dep_on_def dgetd_def)
    then show ?thesis using Cons.IH [of "sunion a m"]
      by (auto simp: add_deps_def distinct_sets split: sum.splits)
  qed
qed simp

lemma next_deps_result:
  "case next_deps gd new of
     Inl e \<Rightarrow> e = KeyError \<and> (\<exists>v \<in> set new. \<not> din v gd)
   | Inr b \<Rightarrow> (\<forall>v \<in> set new. din v gd) \<and> set b = {w. \<exists>v \<in> set new. dep_on gd v w} \<and> distinct b"
  using add_deps_loop [where gd = gd and xs = new and a = "[]"] by (auto simp: next_deps_eq split: sum.splits)

lemma few_keys:
  assumes "distinct xs" and "\<forall>v \<in> set xs. din v gd"
  shows "length xs \<le> length gd"
proof -
  have "set xs \<subseteq> set (dkeys gd)" using assms(2) by auto
  then have "card (set xs) \<le> card (set (dkeys gd))" by (rule card_mono [OF finite_set])
  also have "\<dots> \<le> length gd" using card_length [of "dkeys gd"] by simp
  finally show ?thesis using assms(1) by (simp add: distinct_card)
qed

lemma seen_loop_exact:
  assumes "set seen \<union> set new \<subseteq> vars.reached gd S" and "S \<subseteq> set seen \<union> set new"
    and "\<And>v w. v \<in> set seen \<Longrightarrow> dep_on gd v w \<Longrightarrow> w \<in> set seen \<union> set new" and "\<forall>v \<in> set seen. din v gd"
    and "distinct seen" and "length gd + 2 \<le> k + length seen" and "set new \<inter> set seen = {}"
  shows "case seen_loop k gd new seen of
      Inl e \<Rightarrow> e = KeyError \<and> (\<exists>v \<in> vars.reached gd S. \<not> din v gd)
    | Inr out \<Rightarrow> set out = vars.reached gd S \<and> (\<forall>v \<in> set out. din v gd) \<and> distinct out"
  using assms
proof (induction k arbitrary: new seen)
  case 0
  then show ?case using few_keys [of seen gd] by simp
next
  case (Suc k)
  show ?case
  proof (cases "new = []")
    case True
    have "set seen = vars.reached gd S"
      by (rule vars.reached_eq) (use Suc.prems True in auto)
    with True Suc.prems(4,5) show ?thesis by simp
  next
    case False
    let ?seen = "sunion seen new"
    show ?thesis
    proof (cases "next_deps gd new")
      case (Inl e)
      with False next_deps_result [of new gd] Suc.prems(1) show ?thesis by auto
    next
      case (Inr l)
      with next_deps_result [of new gd] have l: "\<forall>v \<in> set new. din v gd" "set l = {w. \<exists>v \<in> set new. dep_on gd v w}"
        by simp_all
      have "length seen < length ?seen"
        using False Suc.prems(7) by (cases new) (auto simp: sunion_def filter_empty_conv)
      moreover have "vars.reached gd S \<supseteq> set l" using l(2) Suc.prems(1) vars.reached_step by fastforce
      moreover have "distinct ?seen" using Suc.prems(5) by (simp add: distinct_sets)
      ultimately have "case seen_loop k gd (sdiff l ?seen) ?seen of
          Inl e \<Rightarrow> e = KeyError \<and> (\<exists>v \<in> vars.reached gd S. \<not> din v gd)
        | Inr out \<Rightarrow> set out = vars.reached gd S \<and> (\<forall>v \<in> set out. din v gd) \<and> distinct out"
        by (intro Suc.IH) (use Suc.prems l in \<open>auto dest: Suc.prems(3)\<close>)
      with False Inr show ?thesis by (simp add: Let_def)
    qed
  qed
qed

text \<open>The loop of a task, with the bound it is given.\<close>

lemma seen_loop_task:
  "case seen_loop (length gd + 2) gd new [] of
     Inl e \<Rightarrow> e = KeyError \<and> (\<exists>v \<in> vars.reached gd (set new). \<not> din v gd)
   | Inr out \<Rightarrow> set out = vars.reached gd (set new) \<and> (\<forall>v \<in> set out. din v gd) \<and> distinct out"
  by (rule seen_loop_exact) (use vars.reached_start in auto)

section \<open>Every variable has its value\<close>

text \<open>
  The two dictionaries have the same names, and the dependencies of a name are among them.
\<close>

definition same_names :: "gen_state \<Rightarrow> bool" where
  "same_names g \<longleftrightarrow> (\<forall>v. din v (gs_values g) = din v (gs_deps g))"

text \<open>A later state: it has all entries of the earlier one.\<close>

definition extends :: "gen_state \<Rightarrow> gen_state \<Rightarrow> bool" where
  "extends g g' \<longleftrightarrow> (\<forall>v. din v (gs_deps g) \<longrightarrow> map_of (gs_deps g') v = map_of (gs_deps g) v)"

lemma extends_din: "extends g g' \<Longrightarrow> din v (gs_deps g) \<Longrightarrow> din v (gs_deps g')"
  by (simp add: extends_def din_iff)

lemma extends_dep_on: "extends g g' \<Longrightarrow> din v (gs_deps g) \<Longrightarrow> dep_on (gs_deps g') v = dep_on (gs_deps g) v"
  by (simp add: extends_def dep_on_def dgetd_def fun_eq_iff)

lemma extends_trans:
  assumes "extends g g'" and "extends g' g''"
  shows "extends g g''"
  unfolding extends_def
proof (intro allI impI)
  fix v
  assume v: "din v (gs_deps g)"
  then have "map_of (gs_deps g') v = map_of (gs_deps g) v" using assms(1) by (simp add: extends_def)
  moreover have "map_of (gs_deps g'') v = map_of (gs_deps g') v"
    using assms(2) extends_din [OF assms(1) v] by (simp add: extends_def)
  ultimately show "map_of (gs_deps g'') v = map_of (gs_deps g) v" by simp
qed

lemma extends_refl [simp]: "extends g g"
  by (simp add: extends_def)

lemma build_into_result:
  assumes "build_into n env sc key g = Inr g'" and "same_names g"
  shows "same_names g' \<and> din key (gs_deps g') \<and> (\<forall>v. v \<noteq> key \<longrightarrow> map_of (gs_deps g') v = map_of (gs_deps g) v)"
proof -
  from assms(1) obtain l x ds where g': "g' = g\<lparr>gs_deps := dset key l (gs_deps g), gs_values := dset key x (gs_values g), gs_stores := ds\<rparr>"
    by (auto simp: build_into_def)
  show ?thesis using assms(2) by (simp add: g' same_names_def map_of_dset)
qed

text \<open>Visiting names adds at most these names, all of them, and keeps the entries there are.\<close>

definition visited :: "gen_state \<Rightarrow> string set \<Rightarrow> gen_state \<Rightarrow> bool" where
  "visited g ds g' \<longleftrightarrow> same_names g' \<and> extends g g' \<and> (\<forall>v. din v (gs_deps g') \<longleftrightarrow> din v (gs_deps g) \<or> v \<in> ds)"

lemma visited_trans: "visited g ds g' \<Longrightarrow> visited g' es g'' \<Longrightarrow> visited g (ds \<union> es) g''"
  unfolding visited_def using extends_trans by blast

lemma visit_dep_result:
  assumes "visit_dep n env sc dep (l, g) = Inr (l', g')" and "same_names g"
  shows "visited g {dep} g' \<and> set l' = set l \<union> {w. dep_on (gs_deps g') dep w}"
proof -
  from assms(1) obtain m where step: "(if din dep (gs_deps g) then Inr g else build_into n env sc dep g) = Inr g'"
    and m: "map_of (gs_deps g') dep = Some m" "l' = sunion l m"
    by (auto simp: visit_dep_def dget_Inr_iff)
  have "visited g {dep} g'"
  proof (cases "din dep (gs_deps g)")
    case True
    with step assms(2) show ?thesis by (auto simp: visited_def)
  next
    case False
    with step build_into_result [of n env sc dep g g'] assms(2)
    have b: "same_names g'" "din dep (gs_deps g')" "\<And>v. v \<noteq> dep \<Longrightarrow> map_of (gs_deps g') v = map_of (gs_deps g) v" by simp_all
    have "din v (gs_deps g') \<longleftrightarrow> din v (gs_deps g) \<or> v \<in> {dep}" for v
      using b(2) b(3) [of v] by (cases "v = dep") (simp_all add: din_iff)
    moreover have "extends g g'"
      unfolding extends_def using False b(3) by metis
    ultimately show ?thesis using b(1) by (simp add: visited_def)
  qed
  moreover have "dep_on (gs_deps g') dep w \<longleftrightarrow> w \<in> set m" for w
    using m(1) by (simp add: dep_on_def dgetd_def)
  ultimately show ?thesis using m(2) by auto
qed

lemma visit_deps_result:
  assumes "foldE (visit_dep n env sc) ds (l, g) = Inr (l', g')" and "same_names g"
  shows "visited g (set ds) g' \<and> set l' = set l \<union> {w. \<exists>v \<in> set ds. dep_on (gs_deps g') v w}"
  using assms
proof (induction ds arbitrary: l g)
  case Nil
  then show ?case by (simp add: visited_def)
next
  case (Cons v ds)
  from Cons.prems(1) obtain l1 g1 where 1: "visit_dep n env sc v (l, g) = Inr (l1, g1)"
    and 2: "foldE (visit_dep n env sc) ds (l1, g1) = Inr (l', g')" by auto
  note one = visit_dep_result [OF 1 Cons.prems(2)]
  then have "same_names g1" by (simp add: visited_def)
  note two = Cons.IH [OF 2 this]
  have "visited g (set (v # ds)) g'" using visited_trans [of g "{v}" g1 "set ds" g'] one two by simp
  moreover have "dep_on (gs_deps g') v = dep_on (gs_deps g1) v"
    using one two extends_dep_on [of g1 g' v] by (simp add: visited_def)
  ultimately show ?case using one two by auto
qed

text \<open>What a name of the dictionary depends on is a name of it, or one of the next ones.\<close>

definition closed_up_to :: "gen_state \<Rightarrow> string set \<Rightarrow> bool" where
  "closed_up_to g N \<longleftrightarrow> same_names g \<and> (\<forall>v w. din v (gs_deps g) \<longrightarrow> dep_on (gs_deps g) v w \<longrightarrow> din w (gs_deps g) \<or> w \<in> N)"

lemma visit_loop_result:
  assumes "visit_loop k n env sc new seen g = Inr g'" and "closed_up_to g (set new)" and "\<forall>v \<in> set seen. din v (gs_deps g)"
  shows "closed_up_to g' {} \<and> (\<forall>v. din v (gs_deps g) \<longrightarrow> din v (gs_deps g'))"
  using assms
proof (induction k arbitrary: new seen g)
  case (Suc k)
  show ?case
  proof (cases "new = []")
    case False
    let ?seen = "sunion seen new"
    from False Suc.prems(1) obtain l g1 where 1: "foldE (visit_dep n env sc) new ([], g) = Inr (l, g1)"
      and 2: "visit_loop k n env sc (sdiff l ?seen) ?seen g1 = Inr g'"
      by (auto simp: Let_def)
    from Suc.prems(2) have names: "same_names g" by (simp add: closed_up_to_def)
    from visit_deps_result [OF 1 names]
    have one: "visited g (set new) g1" and l: "set l = {w. \<exists>v \<in> set new. dep_on (gs_deps g1) v w}" by simp_all
    then have din: "din v (gs_deps g1) \<longleftrightarrow> din v (gs_deps g) \<or> v \<in> set new" for v by (simp add: visited_def)
    have "closed_up_to g1 (set (sdiff l ?seen))"
      unfolding closed_up_to_def
    proof (intro conjI allI impI)
      show "same_names g1" using one by (simp add: visited_def)
    next
      fix v w
      assume v: "din v (gs_deps g1)" and w: "dep_on (gs_deps g1) v w"
      show "din w (gs_deps g1) \<or> w \<in> set (sdiff l ?seen)"
      proof (cases "v \<in> set new")
        case True
        with w l din Suc.prems(3) show ?thesis by auto
      next
        case False
        with v din have v0: "din v (gs_deps g)" by simp
        with w one have "dep_on (gs_deps g) v w" using extends_dep_on [of g g1 v] by (simp add: visited_def)
        with v0 Suc.prems(2) din show ?thesis unfolding closed_up_to_def by blast
      qed
    qed
    moreover have "\<forall>v \<in> set ?seen. din v (gs_deps g1)" using Suc.prems(3) din by auto
    ultimately show ?thesis using Suc.IH [OF 2] din by blast
  qed (use Suc.prems in simp)
qed simp

lemma visit_task_result:
  assumes "visit_task n env sc task g = Inr g'" and "closed_up_to g {}"
  shows "closed_up_to g' {} \<and> din task (gs_deps g') \<and> (\<forall>v. din v (gs_deps g) \<longrightarrow> din v (gs_deps g'))"
proof -
  from assms(1) obtain g1 l where 1: "build_into n env sc task g = Inr g1" and l: "map_of (gs_deps g1) task = Some l"
    and 2: "visit_loop n n env sc l [] g1 = Inr g'"
    by (auto simp: visit_task_def dget_Inr_iff)
  from assms(2) have "same_names g" by (simp add: closed_up_to_def)
  from build_into_result [OF 1 this]
  have b: "same_names g1" "din task (gs_deps g1)" "\<And>v. v \<noteq> task \<Longrightarrow> map_of (gs_deps g1) v = map_of (gs_deps g) v" by simp_all
  have mono: "din v (gs_deps g) \<Longrightarrow> din v (gs_deps g1)" for v
    using b(2) b(3) [of v] by (cases "v = task") (simp_all add: din_iff)
  have "closed_up_to g1 (set l)"
    unfolding closed_up_to_def
  proof (intro conjI allI impI b(1))
    fix v w
    assume v: "din v (gs_deps g1)" and w: "dep_on (gs_deps g1) v w"
    show "din w (gs_deps g1) \<or> w \<in> set l"
    proof (cases "v = task")
      case True
      with w l show ?thesis by (simp add: dep_on_def dgetd_def)
    next
      case False
      with v w b(3) [of v] have "din v (gs_deps g)" "dep_on (gs_deps g) v w"
        by (simp_all add: din_iff dep_on_def dgetd_def)
      with assms(2) mono show ?thesis by (auto simp: closed_up_to_def)
    qed
  qed
  with visit_loop_result [OF 2] b(2) mono show ?thesis by simp
qed

lemma visit_tasks_result:
  assumes "foldE (visit_task n env sc) tasks g = Inr g'" and "closed_up_to g {}"
  shows "closed_up_to g' {} \<and> (\<forall>v. v \<in> set tasks \<or> din v (gs_deps g) \<longrightarrow> din v (gs_deps g'))"
  using assms
proof (induction tasks arbitrary: g)
  case (Cons t tasks)
  from Cons.prems(1) obtain g1 where 1: "visit_task n env sc t g = Inr g1" and 2: "foldE (visit_task n env sc) tasks g1 = Inr g'"
    by auto
  from visit_task_result [OF 1 Cons.prems(2)] Cons.IH [OF 2] show ?case by auto
qed simp

text \<open>Names that are ignored are no dependency of anything.\<close>

definition not_ignored :: "dep_scope \<Rightarrow> gen_state \<Rightarrow> bool" where
  "not_ignored sc g \<longleftrightarrow> (\<forall>v w. dep_on (gs_deps g) v w \<longrightarrow> w \<notin> set (sc_ignored sc))"

lemma build_dependencies_ignored:
  "build_dependencies n env sc key ds = Inr (l, v, ds') \<Longrightarrow> set l \<inter> set (sc_ignored sc) = {}"
  by (cases ds) (auto simp: build_dependencies_def flag_key_def Let_def split: option.splits if_splits list.splits)

lemma build_into_ignored:
  assumes "build_into n env sc key g = Inr g'" and "not_ignored sc g"
  shows "not_ignored sc g'"
proof -
  obtain l x ds where l: "build_dependencies n env sc key (gs_stores g) = Inr (l, x, ds)"
    and g': "g' = g\<lparr>gs_deps := dset key l (gs_deps g), gs_values := dset key x (gs_values g), gs_stores := ds\<rparr>"
    using assms(1) by (auto simp: build_into_def)
  have "dep_on (gs_deps g') v = (if v = key then (\<lambda>w. w \<in> set l) else dep_on (gs_deps g) v)" for v
    by (auto simp: g' dep_on_def dgetd_def map_of_dset)
  with build_dependencies_ignored [OF l] assms(2) show ?thesis by (auto simp: not_ignored_def)
qed

lemma visit_deps_ignored:
  "foldE (visit_dep n env sc) ds (l, g) = Inr (l', g') \<Longrightarrow> not_ignored sc g \<Longrightarrow> not_ignored sc g'"
proof (induction ds arbitrary: l g)
  case (Cons v ds)
  from Cons.prems(1) obtain l1 g1 where 1: "visit_dep n env sc v (l, g) = Inr (l1, g1)"
    and 2: "foldE (visit_dep n env sc) ds (l1, g1) = Inr (l', g')" by auto
  from 1 have "not_ignored sc g1"
    using build_into_ignored Cons.prems(2) by (auto simp: visit_dep_def split: if_splits)
  with Cons.IH [OF 2] show ?case by simp
qed simp

lemma visit_loop_ignored:
  "visit_loop k n env sc new seen g = Inr g' \<Longrightarrow> not_ignored sc g \<Longrightarrow> not_ignored sc g'"
proof (induction k arbitrary: new seen g)
  case (Suc k)
  then show ?case using visit_deps_ignored by (fastforce simp: Let_def split: if_splits)
qed simp

lemma visit_tasks_ignored:
  "foldE (visit_task n env sc) tasks g = Inr g' \<Longrightarrow> not_ignored sc g \<Longrightarrow> not_ignored sc g'"
proof (induction tasks arbitrary: g)
  case (Cons t tasks)
  from Cons.prems(1) obtain g1 where 1: "visit_task n env sc t g = Inr g1"
    and 2: "foldE (visit_task n env sc) tasks g1 = Inr g'" by auto
  from 1 obtain g0 l where "build_into n env sc t g = Inr g0" "visit_loop n n env sc l [] g0 = Inr g1"
    by (auto simp: visit_task_def)
  then have "not_ignored sc g1" using build_into_ignored visit_loop_ignored Cons.prems(2) by blast
  with Cons.IH [OF 2] show ?case by simp
qed simp

text \<open>What \<open>generate_dependencies\<close> returns.\<close>

lemma generated:
  assumes "generate_dependencies n env ignored d = Inr (tasks, gd, vals, d')"
  shows "(\<forall>v. din v vals = din v gd) \<and> (\<forall>t \<in> set tasks. din t gd) \<and>
    (\<forall>v w. din v gd \<longrightarrow> dep_on gd v w \<longrightarrow> din w gd \<and> w \<notin> set ignored)"
proof -
  from assms obtain sc ds g where run: "foldE (visit_task n env sc) tasks \<lparr>gs_deps = [], gs_values = [], gs_stores = ds\<rparr> = Inr g"
    and sc: "sc_ignored sc = ignored" and g: "gs_deps g = gd" "gs_values g = vals"
    by (auto simp: generate_dependencies_def Let_def)
  have "closed_up_to g {} \<and> (\<forall>t \<in> set tasks. din t (gs_deps g))"
    using visit_tasks_result [OF run] by (auto simp: closed_up_to_def same_names_def dep_on_def dgetd_def)
  moreover have "not_ignored sc g"
    by (rule visit_tasks_ignored [OF run]) (simp add: not_ignored_def dep_on_def dgetd_def)
  ultimately show ?thesis by (auto simp: closed_up_to_def same_names_def not_ignored_def sc g)
qed

section \<open>The text of a base hash\<close>

lemma distinct_sort_set: "distinct (xs :: string list) \<Longrightarrow> sort xs = sorted_list_of_set (set xs)"
  by (metis sorted_list_of_set_sort_remdups distinct_remdups_id)

definition entry_text :: "dep_env \<Rightarrow> (string, pval) dict \<Rightarrow> string \<Rightarrow> string" where
  "entry_text env values v =
     v @ (case map_of values v of Some x \<Rightarrow> if x = PNone then [] else py_str (ge_parse env) x | None \<Rightarrow> [])"

lemma dep_texts:
  "\<forall>v \<in> set xs. din v values \<Longrightarrow> foldE (dep_text env values) xs t = Inr (t @ concat (map (entry_text env values) xs))"
proof (induction xs arbitrary: t)
  case (Cons v xs)
  from Cons.prems obtain x where "map_of values v = Some x" by (auto simp: din_iff)
  with Cons show ?case by (simp add: dep_text_def dget_def entry_text_def)
qed simp

text \<open>The variables of a task, and the text that is hashed for them, as a function of that set.\<close>

definition task_vars :: "(string, string list) dict \<Rightarrow> string \<Rightarrow> string set" where
  "task_vars gd t = vars.reached gd (set (dgetd gd t []))"

definition task_words :: "dep_env \<Rightarrow> (string, string list) dict \<Rightarrow> (string, pval) dict \<Rightarrow> string \<Rightarrow> string" where
  "task_words env gd values t = concat (map (entry_text env values) (sorted_list_of_set (task_vars gd t)))"

definition proper :: "string list \<Rightarrow> (string, string list) dict \<Rightarrow> (string, pval) dict \<Rightarrow> bool" where
  "proper tasks gd values \<longleftrightarrow> (\<forall>v. din v values = din v gd) \<and> (\<forall>t \<in> set tasks. din t gd) \<and>
     (\<forall>v w. din v gd \<longrightarrow> dep_on gd v w \<longrightarrow> din w gd)"

lemma generated_proper: "generate_dependencies n env ignored d = Inr (tasks, gd, vals, d') \<Longrightarrow> proper tasks gd vals"
  by (auto simp: proper_def dest: generated)

lemma task_vars_known:
  assumes "proper tasks gd vals" and "din t gd"
  shows "\<forall>v \<in> task_vars gd t. din v gd"
proof -
  have "vars.reached gd (set (dgetd gd t [])) \<subseteq> {v. din v gd}"
    using assms by (intro vars.reached_least) (auto simp: proper_def dep_on_def)
  then show ?thesis by (auto simp: task_vars_def)
qed

lemma hash_task_result:
  assumes "proper tasks gd vals" and "din t gd"
  shows "\<exists>seen x. set seen = task_vars gd t \<and> distinct seen \<and> map_of vals t = Some x \<and>
    hash_task env gd vals fn t (td, bh) =
      bindE (task_text x) (\<lambda>s. Inr (dset t seen td, dset (fn @ '':'' @ t) (ge_hash env (s @ task_words env gd vals t)) bh))"
proof -
  from assms obtain x l where x: "map_of vals t = Some x" and l: "map_of gd t = Some l"
    unfolding proper_def by (metis din_iff not_None_eq)
  then have reach: "task_vars gd t = vars.reached gd (set l)" by (simp add: task_vars_def dgetd_def)
  have known: "\<forall>v \<in> vars.reached gd (set l). din v gd" using task_vars_known [OF assms] reach by simp
  then obtain seen where run: "seen_loop (length gd + 2) gd l [] = Inr seen"
    and seen: "set seen = vars.reached gd (set l)" "distinct seen"
    using seen_loop_task [of gd l] by (auto split: sum.splits)
  have run2: "seen_loop (Suc (Suc (length gd))) gd l [] = Inr seen" using run by (simp only: add_2_eq_Suc')
  have "sort seen = sorted_list_of_set (task_vars gd t)"
    using seen reach distinct_sort_set by simp
  moreover have "\<forall>v \<in> set (sort seen). din v vals" using known seen(1) assms(1) by (simp add: proper_def)
  ultimately have "hash_task env gd vals fn t (td, bh) =
      bindE (task_text x) (\<lambda>s. Inr (dset t seen td, dset (fn @ '':'' @ t) (ge_hash env (s @ task_words env gd vals t)) bh))"
    by (simp add: hash_task_def dget_def x l run2 dep_texts task_words_def del: seen_loop.simps)
  with seen reach x show ?thesis by blast
qed

definition hashed ::
  "dep_env \<Rightarrow> (string, string list) dict \<Rightarrow> (string, pval) dict \<Rightarrow> string \<Rightarrow>
   (string, string list) dict \<times> (string, string) dict \<Rightarrow> string \<Rightarrow> bool" where
  "hashed env gd vals fn = (\<lambda>(td, bh) t.
     \<exists>seen x s. map_of td t = Some seen \<and> set seen = task_vars gd t \<and> distinct seen \<and> map_of vals t = Some x \<and> task_text x = Inr s \<and>
       map_of bh (fn @ '':'' @ t) = Some (ge_hash env (s @ task_words env gd vals t)))"

lemma hash_tasks_result:
  assumes "proper all gd vals" and "set tasks \<subseteq> set all" and "\<forall>t \<in> T. hashed env gd vals fn s t"
  shows "case foldE (hash_task env gd vals fn) tasks s of
      Inl e \<Rightarrow> e = TypeError \<and> (\<exists>t \<in> set tasks. \<exists>x. map_of vals t = Some x \<and> task_text x = Inl TypeError)
    | Inr s' \<Rightarrow> \<forall>t \<in> T \<union> set tasks. hashed env gd vals fn s' t"
  using assms(2,3)
proof (induction tasks arbitrary: s T)
  case (Cons t tasks)
  obtain td bh where s: "s = (td, bh)" by (cases s)
  from assms(1) Cons.prems(1) have "din t gd" by (auto simp: proper_def)
  from hash_task_result [OF assms(1) this] obtain seen x where seen: "set seen = task_vars gd t" "distinct seen" and x: "map_of vals t = Some x"
    and run: "hash_task env gd vals fn t (td, bh) =
      bindE (task_text x) (\<lambda>s. Inr (dset t seen td, dset (fn @ '':'' @ t) (ge_hash env (s @ task_words env gd vals t)) bh))"
    by blast
  show ?case
  proof (cases "task_text x")
    case (Inl e)
    then have "e = TypeError" by (auto simp: task_text_def split: pval.splits)
    with Inl run s x show ?thesis by auto
  next
    case (Inr w)
    let ?s = "(dset t seen td, dset (fn @ '':'' @ t) (ge_hash env (w @ task_words env gd vals t)) bh)"
    have step: "hash_task env gd vals fn t s = Inr ?s" using run Inr s by simp
    have "hashed env gd vals fn ?s u" if "u \<in> insert t T" for u
    proof (cases "u = t")
      case True
      then show ?thesis using seen x Inr by (auto simp: hashed_def map_of_dset)
    next
      case False
      with that Cons.prems(2) s have "hashed env gd vals fn (td, bh) u" by auto
      with False show ?thesis by (simp add: hashed_def map_of_dset)
    qed
    with Cons.IH [of "insert t T" ?s] Cons.prems(1) step show ?thesis
      by (auto split: sum.splits)
  qed
qed simp

lemma hashes_result:
  assumes "generate_dependencies n env ignored d = Inr (tasks, gd, vals, d')"
  shows "case generate_dependency_hash env tasks gd vals fn of
      Inl e \<Rightarrow> e = TypeError \<and> (\<exists>t \<in> set tasks. \<exists>x. map_of vals t = Some x \<and> task_text x = Inl TypeError)
    | Inr s \<Rightarrow> \<forall>t \<in> set tasks. hashed env gd vals fn s t"
  using hash_tasks_result [OF generated_proper [OF assms], where T = "{}" and tasks = tasks and s = "([], [])" and env = env and fn = fn]
  by (auto simp: generate_dependency_hash_def split: sum.splits)

text \<open>No ignored name is a variable of a task.\<close>

lemma task_vars_ignored:
  assumes "generate_dependencies n env ignored d = Inr (tasks, gd, vals, d')" and "din t gd"
  shows "task_vars gd t \<inter> set ignored = {}"
proof -
  have "vars.reached gd (set (dgetd gd t [])) \<subseteq> {v. din v gd \<and> v \<notin> set ignored}"
    using generated [OF assms(1)] assms(2) by (intro vars.reached_least) (auto simp: dep_on_def)
  then show ?thesis by (auto simp: task_vars_def)
qed

text \<open>
  C24: the variables of a task, from generating the dependencies of a recipe to its base hash.  Every
  variable that the dependencies of a task reach, and no other, is recorded for the task; none of
  them is ignored; and the base hash is the hash of the text of the task followed by the sorted
  names with their values, so it depends on this set alone and not on the order in which it was
  found.  The only error is that of a task whose value is not text: no name is ever missing.
\<close>

theorem base_hash_variables:
  assumes "generate_dependencies n env ignored d = Inr (tasks, gd, vals, d')"
  shows "case generate_dependency_hash env tasks gd vals fn of
      Inl e \<Rightarrow> e = TypeError \<and> (\<exists>t \<in> set tasks. \<exists>x. map_of vals t = Some x \<and> task_text x = Inl TypeError)
    | Inr (td, bh) \<Rightarrow>
        \<forall>t \<in> set tasks. task_vars gd t \<inter> set ignored = {} \<and>
          (\<exists>seen x s. map_of td t = Some seen \<and> set seen = task_vars gd t \<and> map_of vals t = Some x \<and> task_text x = Inr s \<and>
             map_of bh (fn @ '':'' @ t) =
               Some (ge_hash env (s @ concat (map (entry_text env vals) (sorted_list_of_set (task_vars gd t))))))"
proof (cases "generate_dependency_hash env tasks gd vals fn")
  case (Inl e)
  with hashes_result [OF assms, of fn] show ?thesis by simp
next
  case (Inr s)
  obtain td bh where s: "s = (td, bh)" by (cases s)
  have "task_vars gd t \<inter> set ignored = {}" if "t \<in> set tasks" for t
    using generated [OF assms] that task_vars_ignored [OF assms] by blast
  with hashes_result [OF assms, of fn] Inr s show ?thesis
    by (fastforce simp: hashed_def task_words_def)
qed

section \<open>Signature data: the base hash\<close>

lemma copy_deps_result:
  assumes "\<forall>v \<in> set vs. din v (sp_gendeps sp) \<and> din v (sp_varvals sp) \<and> v \<notin> set ignored"
    and "\<forall>v \<in> V. map_of vv v = map_of (sp_varvals sp) v"
  shows "\<exists>gd' vv'. foldE (copy_dep sp ignored) vs (gd, vv) = Inr (gd', vv') \<and>
    (\<forall>v \<in> V \<union> set vs. map_of vv' v = map_of (sp_varvals sp) v)"
  using assms
proof (induction vs arbitrary: gd vv V)
  case (Cons w vs)
  from Cons.prems(1) obtain g x where g: "map_of (sp_gendeps sp) w = Some g" and x: "map_of (sp_varvals sp) w = Some x"
    and w: "w \<notin> set ignored" by (auto simp: din_iff)
  have "\<forall>v \<in> insert w V. map_of (dset w x vv) v = map_of (sp_varvals sp) v"
    using Cons.prems(2) x by (simp add: map_of_dset)
  with Cons.IH [of "insert w V" "dset w x vv" "dset w g gd"] Cons.prems(1) g x w
  show ?case by (simp add: copy_dep_def dget_def)
qed simp

lemma calc_deps_result:
  assumes "\<forall>v \<in> set vs. map_of vv v = map_of vals v \<and> din v vals"
  shows "foldE (calc_dep (ge_parse env) vv) vs t = Inr (t @ concat (map (entry_text env vals) vs))"
  using assms
proof (induction vs arbitrary: t)
  case (Cons v vs)
  then obtain x where "map_of vv v = Some x" "map_of vals v = Some x" by (auto simp: din_iff)
  with Cons show ?case by (simp add: calc_dep_def dget_def entry_text_def)
qed simp

lemma keep_basehash_result:
  assumes "foldE (keep_basehash mcfn bh) tasks sg = Inr sg'" and "\<forall>t \<in> T. map_of (sg_basehash sg) (mcfn @ '':'' @ t) = map_of bh (mcfn @ '':'' @ t)"
  shows "\<forall>t \<in> T \<union> set tasks. map_of (sg_basehash sg') (mcfn @ '':'' @ t) = map_of bh (mcfn @ '':'' @ t)"
  using assms
proof (induction tasks arbitrary: sg T)
  case (Cons t tasks)
  from Cons.prems(1) obtain sg1 where step: "keep_basehash mcfn bh t sg = Inr sg1"
    and run: "foldE (keep_basehash mcfn bh) tasks sg1 = Inr sg'" by auto
  from step obtain h where h: "map_of bh (mcfn @ '':'' @ t) = Some h"
    and sg1: "sg1 = sg\<lparr>sg_basehash := dset (mcfn @ '':'' @ t) h (sg_basehash sg)\<rparr>"
    by (auto simp: keep_basehash_def dget_Inr_iff)
  from Cons.IH [OF run, of "insert t T"] Cons.prems(2) h show ?case by (simp add: sg1 map_of_dset)
qed simp

lemma hash_tasks_names:
  "foldE (hash_task env gd vals fn) tasks s = Inr s' \<Longrightarrow> din t (fst s') \<Longrightarrow> din t (fst s) \<or> t \<in> set tasks"
proof (induction tasks arbitrary: s)
  case (Cons u tasks)
  from Cons.prems(1) obtain s1 where step: "hash_task env gd vals fn u s = Inr s1"
    and run: "foldE (hash_task env gd vals fn) tasks s1 = Inr s'" by auto
  from step obtain seen where "fst s1 = dset u seen (fst s)"
    by (cases s) (auto simp: hash_task_def simp del: seen_loop.simps)
  with Cons.IH [OF run Cons.prems(2)] show ?case by (auto simp: din_iff map_of_dset split: if_splits)
qed simp

text \<open>
  C25: the signature data of a task gives its base hash.  What \<open>dump_sigtask\<close> writes for a task of a
  recipe, whose base hash is the one that \<open>_build_data\<close> recorded, makes \<open>calc_basehash\<close> compute this
  base hash, for any ignored variables and any state of the data store.
\<close>

theorem recomputed_basehash:
  assumes build: "build_data n env ignored mcfn d sg = Inr (sp, d', sg')"
    and same: "map_of (sg_basehash sg2) (mcfn @ '':'' @ task) = map_of (sg_basehash sg') (mcfn @ '':'' @ task)"
    and data: "sigtask_data env ignored sp mcfn task stampbase runtime sg2 = Inr sd"
  shows "calc_basehash (se_dep env) sd = Inr (sd_basehash sd)"
proof -
  from build obtain tasks gd vals td bh where gen: "generate_dependencies n (se_dep env) ignored d = Inr (tasks, gd, vals, d')"
    and hashes: "generate_dependency_hash (se_dep env) tasks gd vals mcfn = Inr (td, bh)"
    and keep: "foldE (keep_basehash mcfn bh) tasks sg = Inr sg'"
    and sp: "sp = \<lparr>sp_taskdeps = td, sp_gendeps = gd, sp_varvals = vals\<rparr>"
    by (auto simp: build_data_def)
  let ?tid = "mcfn @ '':'' @ task"
  from data obtain vs h v gd2 vv where vs: "map_of td task = Some vs" and h: "map_of (sg_basehash sg2) ?tid = Some h"
    and v: "map_of vals task = Some v" and copy: "foldE (copy_dep sp ignored) vs ([], [(task, v)]) = Inr (gd2, vv)"
    and sd: "sd_task sd = task" "sd_taskdeps sd = vs" "sd_basehash sd = h" "sd_varvals sd = vv"
    by (auto simp: sigtask_data_def sp dget_Inr_iff Let_def)
  have task: "task \<in> set tasks"
    using hash_tasks_names [of "se_dep env" gd vals mcfn tasks "([], [])" "(td, bh)" task] hashes vs
    by (simp add: generate_dependency_hash_def din_iff)
  with hashes_result [OF gen, where fn = mcfn] hashes have "hashed (se_dep env) gd vals mcfn (td, bh) task" by simp
  with vs v obtain w where set: "set vs = task_vars gd task" "distinct vs" and w: "task_text v = Inr w"
    and bh: "map_of bh ?tid = Some (ge_hash (se_dep env) (w @ task_words (se_dep env) gd vals task))"
    by (auto simp: hashed_def)
  have "h = ge_hash (se_dep env) (w @ task_words (se_dep env) gd vals task)"
    using keep_basehash_result [OF keep, where T = "{}"] task same h bh by simp
  note known = generated [OF gen]
  then have din: "din task gd" using task by simp
  have vars: "\<forall>v \<in> set vs. din v gd \<and> din v vals \<and> v \<notin> set ignored"
    using task_vars_known [OF generated_proper [OF gen] din] task_vars_ignored [OF gen din] known set by auto
  with copy_deps_result [of vs sp ignored "{task}" "[(task, v)]" "[]"] copy v
  have vv: "\<forall>u \<in> insert task (set vs). map_of vv u = map_of vals u" by (auto simp: sp)
  then have "map_of vv task = Some v" using v by simp
  moreover have "\<forall>u \<in> set (sort vs). map_of vv u = map_of vals u \<and> din u vals" using vv vars by simp
  from calc_deps_result [OF this]
  have "foldE (calc_dep (ge_parse (se_dep env)) vv) (sort vs) w = Inr (w @ task_words (se_dep env) gd vals task)"
    using distinct_sort_set [OF set(2)] set(1) by (simp add: task_words_def)
  ultimately show ?thesis
    using \<open>h = _\<close> w by (simp add: calc_basehash_def sd dget_def)
qed

end
