(* ===== verification/HashProps.thy ===== *)
theory HashProps
  imports SigGen
begin

text \<open>
  Properties of task hashes: the order in which the dependencies of a task are given does not
  matter, and the hash is computed again from the signature data that is written for the task.
\<close>

lemma bindE_assoc: "bindE (bindE m f) g = bindE m (\<lambda>x. bindE (f x) g)"
  by (cases m) simp_all

section \<open>The dependencies of a task\<close>

text \<open>The recipe of a dependency and the name it has in signatures.\<close>

definition dep_pnid :: "(string, cache) dict \<Rightarrow> tid \<Rightarrow> pyerr + (string \<times> string)" where
  "dep_pnid dcs dep =
     bindE (split_tid_mcfn dep) (\<lambda>(depmc, _, deptask, depmcfn).
     bindE (dget dcs depmc) (\<lambda>c.
     bindE (dget (pkg_fn c) depmcfn) (\<lambda>pn. Inr (pn, build_pnid depmc pn deptask))))"

definition prep_ok :: "sig_env \<Rightarrow> (string, cache) dict \<Rightarrow> string \<Rightarrow> siggen \<Rightarrow> tid \<Rightarrow> bool" where
  "prep_ok env dcs rn sg dep \<longleftrightarrow>
     (case dep_pnid dcs dep of Inl e \<Rightarrow> False | Inr (pn, _) \<Rightarrow> rundep_check env rn pn \<longrightarrow> din dep (sg_taskhash sg))"

definition kept_dep :: "sig_env \<Rightarrow> (string, cache) dict \<Rightarrow> string \<Rightarrow> tid \<Rightarrow> (string \<times> tid) list" where
  "kept_dep env dcs rn dep =
     (case dep_pnid dcs dep of Inl e \<Rightarrow> [] | Inr (pn, p) \<Rightarrow> if rundep_check env rn pn then [(p, dep)] else [])"

definition kept_deps :: "sig_env \<Rightarrow> (string, cache) dict \<Rightarrow> string \<Rightarrow> tid list \<Rightarrow> (string \<times> tid) list" where
  "kept_deps env dcs rn ds = concat (map (kept_dep env dcs rn) ds)"

lemma prep_dep_eq:
  "prep_dep env dcs rn tid dep sg =
     bindE (dep_pnid dcs dep) (\<lambda>(pn, p).
       if \<not> rundep_check env rn pn then Inr sg
       else if \<not> din dep (sg_taskhash sg) then Inl (Fatal ''not in taskhash, caller isn't calling in dependency order?'')
       else Inr (sg\<lparr>sg_runtaskdeps := dset tid (dgetd (sg_runtaskdeps sg) tid [] @ [(p, dep)]) (sg_runtaskdeps sg)\<rparr>))"
  by (auto simp: prep_dep_def dep_pnid_def bindE_def split: sum.splits)

definition with_deps :: "siggen \<Rightarrow> tid \<Rightarrow> (string \<times> tid) list \<Rightarrow> siggen \<Rightarrow> bool" where
  "with_deps sg tid l sg' \<longleftrightarrow>
     map_of (sg_runtaskdeps sg') tid = Some l \<and> sg\<lparr>sg_runtaskdeps := []\<rparr> = sg'\<lparr>sg_runtaskdeps := []\<rparr>"

lemma with_deps_same:
  assumes "with_deps sg tid l sg'"
  shows "sg_taskhash sg' = sg_taskhash sg" "sg_basehash sg' = sg_basehash sg" "sg_checksums sg' = sg_checksums sg"
    "sg_taints sg' = sg_taints sg" "sg_tidtopn sg' = sg_tidtopn sg" "map_of (sg_runtaskdeps sg') tid = Some l"
proof -
  from assms have e: "sg\<lparr>sg_runtaskdeps := []\<rparr> = sg'\<lparr>sg_runtaskdeps := []\<rparr>" and l: "map_of (sg_runtaskdeps sg') tid = Some l"
    by (simp_all add: with_deps_def)
  from e show "sg_taskhash sg' = sg_taskhash sg" "sg_basehash sg' = sg_basehash sg" "sg_checksums sg' = sg_checksums sg"
    "sg_taints sg' = sg_taints sg" "sg_tidtopn sg' = sg_tidtopn sg"
    by (cases sg; cases sg'; simp)+
  from l show "map_of (sg_runtaskdeps sg') tid = Some l" .
qed

lemma prep_deps_result:
  assumes "map_of (sg_runtaskdeps sg) tid = Some l"
  shows "case foldE (prep_dep env dcs rn tid) ds sg of
      Inl e \<Rightarrow> \<exists>d \<in> set ds. \<not> prep_ok env dcs rn sg d
    | Inr sg' \<Rightarrow> (\<forall>d \<in> set ds. prep_ok env dcs rn sg d) \<and> with_deps sg tid (l @ kept_deps env dcs rn ds) sg'"
  using assms
proof (induction ds arbitrary: sg l)
  case Nil
  then show ?case by (simp add: with_deps_def kept_deps_def)
next
  case (Cons d ds)
  show ?case
  proof (cases "dep_pnid dcs d")
    case (Inl e)
    then show ?thesis by (simp add: prep_dep_eq prep_ok_def)
  next
    case (Inr x)
    obtain pn p where x: "x = (pn, p)" by (cases x)
    show ?thesis
    proof (cases "rundep_check env rn pn")
      case False
      with Inr x have "prep_dep env dcs rn tid d sg = Inr sg" "prep_ok env dcs rn sg d" "kept_dep env dcs rn d = []"
        by (simp_all add: prep_dep_eq prep_ok_def kept_dep_def)
      with Cons.IH [OF Cons.prems] show ?thesis by (auto simp: kept_deps_def split: sum.splits)
    next
      case check: True
      show ?thesis
      proof (cases "din d (sg_taskhash sg)")
        case False
        with Inr x check show ?thesis by (simp add: prep_dep_eq prep_ok_def)
      next
        case True
        let ?sg = "sg\<lparr>sg_runtaskdeps := dset tid (l @ [(p, d)]) (sg_runtaskdeps sg)\<rparr>"
        have step: "prep_dep env dcs rn tid d sg = Inr ?sg" "prep_ok env dcs rn sg d" "kept_dep env dcs rn d = [(p, d)]"
          using Inr x check True Cons.prems by (simp_all add: prep_dep_eq prep_ok_def kept_dep_def dgetd_def)
        have ok: "prep_ok env dcs rn ?sg u = prep_ok env dcs rn sg u" for u
          by (cases "dep_pnid dcs u") (auto simp: prep_ok_def)
        have same: "with_deps ?sg tid m sg' = with_deps sg tid m sg'" for m sg' by (simp add: with_deps_def)
        have "map_of (sg_runtaskdeps ?sg) tid = Some (l @ [(p, d)])" by (simp add: map_of_dset)
        from Cons.IH [OF this] step show ?thesis
          unfolding ok same by (auto simp: kept_deps_def split: sum.splits)
      qed
    qed
  qed
qed

lemma kept_deps_mset: "mset ds' = mset ds \<Longrightarrow> mset (kept_deps env dcs rn ds') = mset (kept_deps env dcs rn ds)"
  by (simp add: kept_deps_def mset_concat sum_mset_sum_list [symmetric])

section \<open>prep\_taskhash\<close>

definition prep_start :: "tid \<Rightarrow> string \<Rightarrow> string \<Rightarrow> siggen \<Rightarrow> siggen" where
  "prep_start tid h rn sg =
     sg\<lparr>sg_basehash := dset tid h (sg_basehash sg), sg_runtaskdeps := dset tid [] (sg_runtaskdeps sg),
        sg_checksums := dset tid [] (sg_checksums sg), sg_tidtopn := dset tid rn (sg_tidtopn sg)\<rparr>"

text \<open>What follows the dependencies: checksums and taints, from the cache of the recipe.\<close>

definition prep_end :: "sig_env \<Rightarrow> tid \<Rightarrow> cache \<Rightarrow> string \<Rightarrow> string \<Rightarrow> string \<Rightarrow> siggen \<Rightarrow> pyerr + siggen" where
  "prep_end env tid c mcfn task rn sg =
     bindE (dget (file_checksums_of c) mcfn) (\<lambda>sums.
     bindE (dget (task_deps_of c) mcfn) (\<lambda>taskdep.
     bindE (dget (stamp_of c) mcfn) (\<lambda>stamp.
       Inr (prep_taints env taskdep stamp task tid
         (case map_of sums task of
            None \<Rightarrow> sg
          | Some files \<Rightarrow> sg\<lparr>sg_checksums := dset tid (se_sums env files rn) (sg_checksums sg)\<rparr>)))))"

lemma prep_taskhash_eq:
  "prep_taskhash env tid ds dcs sg =
     bindE (split_tid_mcfn tid) (\<lambda>(mc, _, task, mcfn).
     bindE (dget dcs mc) (\<lambda>c.
     bindE (dget (basetaskhash c) tid) (\<lambda>h.
     bindE (dget (pkg_fn c) mcfn) (\<lambda>rn.
     bindE (foldE (prep_dep env dcs rn tid) ds (prep_start tid h rn sg)) (\<lambda>sg.
     bindE (prep_end env tid c mcfn task rn sg) (\<lambda>sg.
       Inr (remdups (map snd (dgetd (sg_runtaskdeps sg) tid [])), sg)))))))"
  by (simp add: prep_taskhash_def prep_start_def prep_end_def Let_def bindE_assoc split_def)

lemma prep_end_deps: "prep_end env tid c mcfn task rn sg = Inr sg' \<Longrightarrow>
    sg_runtaskdeps sg' = sg_runtaskdeps sg \<and> sg_taskhash sg' = sg_taskhash sg \<and> sg_basehash sg' = sg_basehash sg"
  by (auto simp: prep_end_def prep_taints_def Let_def split: option.splits if_splits)

text \<open>The hash of a task depends on the parts of the generator named here.\<close>

definition taskhash_text :: "siggen \<Rightarrow> tid \<Rightarrow> (string \<times> tid) list \<Rightarrow> pyerr + string" where
  "taskhash_text sg tid l =
     bindE (dget (sg_basehash sg) tid) (\<lambda>base.
     bindE (foldE (unihash_text sg) (sort l) base) (\<lambda>t.
     bindE (dget (sg_checksums sg) tid) (\<lambda>sums.
       Inr (t @ concat (map sum_text (sort_key clean_checksum_file_path sums)) @
            (case map_of (sg_taints sg) tid of None \<Rightarrow> [] | Some taint \<Rightarrow> taint_text taint)))))"

lemma get_taskhash_eq:
  "map_of (sg_runtaskdeps sg) tid = Some l \<Longrightarrow>
   get_taskhash env tid sg =
     bindE (taskhash_text sg tid l) (\<lambda>t. Inr (se_hash env t, sg\<lparr>sg_taskhash := dset tid (se_hash env t) (sg_taskhash sg)\<rparr>))"
  by (simp add: get_taskhash_def taskhash_text_def bindE_assoc dget_def Let_def)

lemma taskhash_text_mset:
  assumes "mset l' = mset l"
  shows "taskhash_text sg tid l' = taskhash_text sg tid l"
proof -
  have "sort l' = sort l" using arg_cong [OF assms, of sorted_list_of_multiset] by simp
  then show ?thesis by (simp only: taskhash_text_def)
qed

definition prep_hash :: "sig_env \<Rightarrow> tid \<Rightarrow> tid list \<Rightarrow> (string, cache) dict \<Rightarrow> siggen \<Rightarrow> pyerr + string" where
  "prep_hash env tid ds dcs sg =
     bindE (prep_taskhash env tid ds dcs sg) (\<lambda>(l, sg). bindE (get_taskhash env tid sg) (\<lambda>(h, sg). Inr h))"

text \<open>The state after the dependencies, up to what it holds for other tasks.\<close>

lemma prep_end_with_deps:
  assumes "with_deps sg tid l sg1"
  shows "prep_end env tid c mcfn task rn sg1 =
    bindE (prep_end env tid c mcfn task rn sg) (\<lambda>s. Inr (s\<lparr>sg_runtaskdeps := sg_runtaskdeps sg1\<rparr>))"
proof -
  from assms have "sg1 = sg\<lparr>sg_runtaskdeps := sg_runtaskdeps sg1\<rparr>"
    unfolding with_deps_def by (cases sg; cases sg1; simp)
  then obtain r where sg1: "sg1 = sg\<lparr>sg_runtaskdeps := r\<rparr>" by blast
  show ?thesis
    unfolding sg1 prep_end_def prep_taints_def Let_def bindE_assoc
    by (intro bindE_cong refl) (auto split: option.splits)
qed

lemma taskhash_text_deps [simp]: "taskhash_text (sg\<lparr>sg_runtaskdeps := r\<rparr>) tid l = taskhash_text sg tid l"
proof -
  have "unihash_text (sg\<lparr>sg_runtaskdeps := r\<rparr>) = unihash_text sg"
    by (simp add: fun_eq_iff unihash_text_def get_unihash_def)
  then show ?thesis by (simp add: taskhash_text_def)
qed

lemma prep_hash_deps:
  assumes "map_of (sg_runtaskdeps sg0) tid = Some []"
  shows "bindE (foldE (prep_dep env dcs rn tid) ds sg0) (\<lambda>sg.
      bindE (prep_end env tid c mcfn task rn sg) (\<lambda>sg. bindE (get_taskhash env tid sg) (\<lambda>(h, sg). Inr h))) = Inr h \<longleftrightarrow>
    (\<forall>d \<in> set ds. prep_ok env dcs rn sg0 d) \<and>
    bindE (prep_end env tid c mcfn task rn sg0) (\<lambda>sg.
      bindE (taskhash_text sg tid (kept_deps env dcs rn ds)) (\<lambda>t. Inr (se_hash env t))) = Inr h"
proof (cases "foldE (prep_dep env dcs rn tid) ds sg0")
  case (Inl e)
  with prep_deps_result [OF assms, where env = env and dcs = dcs and rn = rn and ds = ds] show ?thesis by auto
next
  case (Inr sg1)
  with prep_deps_result [OF assms, where env = env and dcs = dcs and rn = rn and ds = ds]
  have ok: "\<forall>d \<in> set ds. prep_ok env dcs rn sg0 d" and w: "with_deps sg0 tid (kept_deps env dcs rn ds) sg1" by simp_all
  have l: "map_of (sg_runtaskdeps sg1) tid = Some (kept_deps env dcs rn ds)" using w by (simp add: with_deps_def)
  show ?thesis
  proof (cases "prep_end env tid c mcfn task rn sg0")
    case (Inl e)
    then show ?thesis using Inr prep_end_with_deps [OF w] by simp
  next
    case e: (Inr s)
    let ?s = "s\<lparr>sg_runtaskdeps := sg_runtaskdeps sg1\<rparr>"
    have "get_taskhash env tid ?s = bindE (taskhash_text s tid (kept_deps env dcs rn ds))
        (\<lambda>t. Inr (se_hash env t, ?s\<lparr>sg_taskhash := dset tid (se_hash env t) (sg_taskhash ?s)\<rparr>))"
      using get_taskhash_eq [of ?s tid] l by simp
    then show ?thesis using Inr e ok prep_end_with_deps [OF w] by (simp add: bindE_assoc)
  qed
qed

text \<open>
  C27: the order of the dependencies of a task does not matter.  When the task hash can be computed
  with the dependencies in one order, \<open>prep_taskhash\<close> and \<open>get_taskhash\<close> give the same hash with
  them in any other.
\<close>

theorem prep_hash_order:
  assumes "prep_hash env tid ds dcs sg = Inr h" and "mset ds' = mset ds"
  shows "prep_hash env tid ds' dcs sg = Inr h"
proof -
  have eq: "prep_hash env tid ds dcs sg =
      bindE (split_tid_mcfn tid) (\<lambda>(mc, _, task, mcfn).
      bindE (dget dcs mc) (\<lambda>c.
      bindE (dget (basetaskhash c) tid) (\<lambda>h.
      bindE (dget (pkg_fn c) mcfn) (\<lambda>rn.
      bindE (foldE (prep_dep env dcs rn tid) ds (prep_start tid h rn sg)) (\<lambda>sg.
      bindE (prep_end env tid c mcfn task rn sg) (\<lambda>sg. bindE (get_taskhash env tid sg) (\<lambda>(h, sg). Inr h)))))))" for ds
    by (simp add: prep_hash_def prep_taskhash_eq bindE_assoc split_def)
  from assms(1) obtain mc x task mcfn c b rn where parts: "split_tid_mcfn tid = Inr (mc, x, task, mcfn)" "dget dcs mc = Inr c"
      "dget (basetaskhash c) tid = Inr b" "dget (pkg_fn c) mcfn = Inr rn"
    unfolding eq by (auto split: prod.splits)
  have start: "map_of (sg_runtaskdeps (prep_start tid b rn sg)) tid = Some []" by (simp add: prep_start_def map_of_dset)
  have "set ds' = set ds" using assms(2) by (metis set_mset_mset)
  moreover have "taskhash_text s tid (kept_deps env dcs rn ds') = taskhash_text s tid (kept_deps env dcs rn ds)" for s
    by (rule taskhash_text_mset [OF kept_deps_mset [OF assms(2)]])
  ultimately show ?thesis
    using assms(1) unfolding eq parts bindE_simps split prep_hash_deps [OF start] by simp
qed

section \<open>Signature data: the task hash\<close>

lemma dump_hashes:
  assumes "foldE (dump_hash sg) l hs0 = Inr hs" and "distinct (map fst l)"
  shows "(\<forall>(p, d) \<in> set l. map_of hs p = map_of (sg_taskhash sg) d) \<and>
    (\<forall>p. p \<notin> fst ` set l \<longrightarrow> map_of hs p = map_of hs0 p)"
  using assms
proof (induction l arbitrary: hs0)
  case (Cons x l)
  obtain p d where x: "x = (p, d)" by (cases x)
  from Cons.prems(1) obtain hs1 where step: "dump_hash sg x hs0 = Inr hs1" and rest: "foldE (dump_hash sg) l hs1 = Inr hs"
    by auto
  from step x obtain h where h: "map_of (sg_taskhash sg) d = Some h" and hs1: "hs1 = dset p h hs0"
    by (auto simp: dump_hash_def get_unihash_def dget_Inr_iff)
  have run: "foldE (dump_hash sg) l (dset p h hs0) = Inr hs" using rest by (simp only: hs1)
  from Cons.IH [OF run] Cons.prems(2) h x show ?case by (auto simp: map_of_dset)
qed simp

lemma calc_hashes:
  assumes "\<forall>(p, d) \<in> set l. map_of hs p = map_of (sg_taskhash sg) d"
  shows "foldE (\<lambda>dep t. bindE (dget hs dep) (\<lambda>h. Inr (t @ h))) (map fst l) t = foldE (unihash_text sg) l t"
  using assms
  by (induction l arbitrary: t) (auto simp: unihash_text_def get_unihash_def dget_def intro!: bindE_cong)

lemma contains_sub_chars: "contains_sub s p \<Longrightarrow> set p \<subseteq> set s"
  by (auto simp: contains_sub_def startswith_def) (metis in_set_takeD in_set_dropD)

lemma contains_sub_start: "startswith s p \<Longrightarrow> contains_sub s p"
  unfolding contains_sub_def by (rule bexI [of _ 0]) simp_all

lemma calc_sum_dumped: "calc_sum (dumped_sum x) = sum_text x"
proof (cases x)
  case (Pair f cs)
  show ?thesis
  proof (cases "local_part f")
    case None
    have "CHR ''/'' \<notin> set (path_base f)"
      unfolding path_base_def using split_on_no_sep_in [of "CHR ''/''" f] last_in_set [OF split_on_nonempty] by blast
    then have "\<not> contains_sub (path_base f) ''./''" using contains_sub_chars [of "path_base f" "''./''"] by auto
    with None Pair show ?thesis by (auto simp: calc_sum_def dumped_sum_def sum_text_def split: option.splits)
  next
    case (Some p)
    then have "startswith p ''./''" by (auto simp: local_part_def startswith_def)
    with Some Pair show ?thesis by (auto simp: calc_sum_def dumped_sum_def sum_text_def contains_sub_start split: option.splits)
  qed
qed

text \<open>The taint a task has after \<open>prep_taskhash\<close>, and the one that is written.\<close>

definition file_taint :: "sig_env \<Rightarrow> string \<Rightarrow> string option" where
  "file_taint env p = (case se_taint env p of None \<Rightarrow> None | Some t \<Rightarrow> if t = [] then None else Some t)"

lemma prep_end_taint:
  assumes "prep_end env tid c mcfn task rn sg = Inr sg'" and "map_of (sg_taints sg) tid = None"
    and "map_of (stamp_of c) mcfn = Some stamp"
  shows "map_of (sg_taints sg') tid =
      (case file_taint env (stamp @ ''.'' @ task @ ''.taint'') of Some t \<Rightarrow> Some t
       | None \<Rightarrow> map_of (sg_taints sg') tid) \<and>
    (file_taint env (stamp @ ''.'' @ task @ ''.taint'') = None \<longrightarrow>
      map_of (sg_taints sg') tid \<in> {None, Some (''nostamp:'' @ se_uuid env tid)})"
  using assms
  by (auto simp: prep_end_def prep_taints_def file_taint_def Let_def dget_Inr_iff map_of_dset
        split: option.splits if_splits)

definition written_taint :: "sig_env \<Rightarrow> string \<Rightarrow> tid \<Rightarrow> siggen \<Rightarrow> string option" where
  "written_taint env p tid sg =
     (case map_of (sg_taints sg) tid of
        None \<Rightarrow> file_taint env p
      | Some t \<Rightarrow> if contains_sub t ''nostamp:'' then Some t else file_taint env p)"

definition taint_same :: "sig_env \<Rightarrow> string \<Rightarrow> tid \<Rightarrow> siggen \<Rightarrow> bool" where
  "taint_same env p tid sg \<longleftrightarrow> map_option calc_taint (written_taint env p tid sg) = map_option taint_text (map_of (sg_taints sg) tid)"

lemma prep_end_taint_same:
  assumes "prep_end env tid c mcfn task rn sg = Inr sg'" and "map_of (sg_taints sg) tid = None"
    and "map_of (stamp_of c) mcfn = Some stamp"
    and plain: "\<forall>t. se_taint env (stamp @ ''.'' @ task @ ''.taint'') = Some t \<longrightarrow> \<not> contains_sub t ''nostamp:''"
  shows "taint_same env (stamp @ ''.'' @ task @ ''.taint'') tid sg'"
proof -
  let ?p = "stamp @ ''.'' @ task @ ''.taint''"
  note end_taint = prep_end_taint [OF assms(1-3)]
  show ?thesis
  proof (cases "file_taint env ?p")
    case None
    have "startswith (''nostamp:'' @ u) ''nostamp:''" "contains_sub (''nostamp:'' @ u) ''nostamp:''" for u
      using startswith_append contains_sub_start by blast+
    with None end_taint show ?thesis
      by (auto simp: taint_same_def written_taint_def calc_taint_def taint_text_def)
  next
    case (Some t)
    then have "se_taint env ?p = Some t" by (auto simp: file_taint_def split: option.splits if_splits)
    with plain have "\<not> contains_sub t ''nostamp:''" by blast
    moreover from this have "\<not> startswith t ''nostamp:''" using contains_sub_start by blast
    moreover have "map_of (sg_taints sg') tid = Some t" using Some end_taint by simp
    ultimately show ?thesis using Some
      by (simp add: taint_same_def written_taint_def calc_taint_def taint_text_def)
  qed
qed

lemma taskhash_of_data:
  assumes hash: "get_taskhash env tid sg = Inr (h, sg')" and l: "map_of (sg_runtaskdeps sg) tid = Some l"
    and names: "distinct (map fst l)" and self: "tid \<notin> snd ` set l"
    and data: "sigtask_data env ignored sp mcfn task stamp True sg' = Inr sd" and tid: "tid = mcfn @ '':'' @ task"
    and taint: "taint_same env (stamp @ ''.'' @ task @ ''.taint'') tid sg"
  shows "calc_taskhash (se_dep env) sd = Inr h"
proof -
  let ?p = "stamp @ ''.'' @ task @ ''.taint''" and ?q = "stamp @ CHR ''.'' # task @ ''.taint''"
  have pq: "?p = ?q" by simp
  from hash l obtain base t sums where base: "map_of (sg_basehash sg) tid = Some base"
    and txts: "foldE (unihash_text sg) (sort l) base = Inr t" and sums: "map_of (sg_checksums sg) tid = Some sums"
    and h: "h = se_hash env (t @ concat (map sum_text (sort_key clean_checksum_file_path sums)) @
              (case map_of (sg_taints sg) tid of None \<Rightarrow> [] | Some taint \<Rightarrow> taint_text taint))"
    and sg': "sg' = sg\<lparr>sg_taskhash := dset tid h (sg_taskhash sg)\<rparr>"
    by (auto simp: get_taskhash_def dget_Inr_iff Let_def)
  have known: "din tid (sg_taskhash sg')" by (simp add: sg' din_iff map_of_dset)
  from data obtain sr where sr: "sigtask_run sg' tid = Inr sr"
    and sd: "sd_basehash sd = base" "sd_run sd = Some sr"
      "sd_taint sd = (case map_of (sg_taints sg) tid of
         None \<Rightarrow> case se_taint env ?q of None \<Rightarrow> None | Some t \<Rightarrow> if t = [] then None else Some t
       | Some t \<Rightarrow> if contains_sub t ''nostamp:'' then Some t
                   else case se_taint env ?q of None \<Rightarrow> None | Some t \<Rightarrow> if t = [] then None else Some t)"
    using known base by (auto simp: sigtask_data_def sg' dget_Inr_iff Let_def tid)
  from sr l sums obtain hs where hs: "foldE (dump_hash sg') l [] = Inr hs"
    and sr_parts: "sr_runtaskdeps sr = map fst (sort l)" "sr_runtaskhashes sr = hs"
      "sr_checksums sr = map dumped_sum (sort_key clean_checksum_file_path sums)"
    by (auto simp: sigtask_run_def sg' dget_Inr_iff)
  from sd(3) have wt: "sd_taint sd = written_taint env ?p tid sg" unfolding written_taint_def file_taint_def pq .
  have "\<forall>(p, d) \<in> set (sort l). map_of hs p = map_of (sg_taskhash sg) d"
    using dump_hashes [OF hs names] self by (force simp: sg' map_of_dset)
  from calc_hashes [OF this] txts
  have "foldE (\<lambda>dep t. bindE (dget hs dep) (\<lambda>h. Inr (t @ h))) (map fst (sort l)) base = Inr t" by simp
  moreover have "(case sd_taint sd of None \<Rightarrow> [] | Some t \<Rightarrow> calc_taint t) =
      (case map_of (sg_taints sg) tid of None \<Rightarrow> [] | Some t \<Rightarrow> taint_text t)"
    using taint unfolding wt taint_same_def by (auto split: option.splits)
  ultimately show ?thesis by (simp add: calc_taskhash_def sd(1,2) sr_parts h calc_sum_dumped comp_def)
qed

lemma prepared_taskhash:
  assumes prep: "prep_taskhash env tid ds dcs sg = Inr (l, sg1)" and none: "map_of (sg_taints sg) tid = None"
    and names: "split_tid_mcfn tid = Inr (mc, fn, task, mcfn)" "map_of dcs mc = Some c" "map_of (stamp_of c) mcfn = Some stamp"
    and plain: "\<forall>t. se_taint env (stamp @ ''.'' @ task @ ''.taint'') = Some t \<longrightarrow> \<not> contains_sub t ''nostamp:''"
  shows "(\<exists>l. map_of (sg_runtaskdeps sg1) tid = Some l) \<and> taint_same env (stamp @ ''.'' @ task @ ''.taint'') tid sg1"
proof -
  from prep names obtain b rn sg0 where deps: "foldE (prep_dep env dcs rn tid) ds (prep_start tid b rn sg) = Inr sg0"
    and fin: "prep_end env tid c mcfn task rn sg0 = Inr sg1"
    by (auto simp: prep_taskhash_eq dget_Inr_iff)
  have "map_of (sg_runtaskdeps (prep_start tid b rn sg)) tid = Some []" by (simp add: prep_start_def map_of_dset)
  from prep_deps_result [OF this, where env = env and dcs = dcs and rn = rn and ds = ds] deps
  have w: "with_deps (prep_start tid b rn sg) tid (kept_deps env dcs rn ds) sg0" by simp
  have "map_of (sg_taints sg0) tid = None" using with_deps_same [OF w] none by (simp add: prep_start_def)
  from prep_end_taint_same [OF fin this names(3) plain] prep_end_deps [OF fin] with_deps_same [OF w]
  show ?thesis by simp
qed

text \<open>
  C26: the signature data of a task gives its task hash.  After \<open>prep_taskhash\<close> and \<open>get_taskhash\<close>, the
  data that \<open>dump_sigtask\<close> writes makes \<open>calc_taskhash\<close> compute the same hash, when no two
  dependencies have the same name in signatures, the task does not depend on itself and a taint file
  has no text \<open>nostamp:\<close>.
\<close>

theorem recomputed_taskhash:
  assumes "prep_taskhash env tid ds dcs sg = Inr (l, sg1)" and "get_taskhash env tid sg1 = Inr (h, sg2)"
    and "sigtask_data env ignored sp mcfn task stamp True sg2 = Inr sd"
    and "split_tid_mcfn tid = Inr (mc, fn, task, mcfn)" and "tid = mcfn @ '':'' @ task"
    and "map_of dcs mc = Some c" and "map_of (stamp_of c) mcfn = Some stamp"
    and "map_of (sg_taints sg) tid = None"
    and "\<forall>t. se_taint env (stamp @ ''.'' @ task @ ''.taint'') = Some t \<longrightarrow> \<not> contains_sub t ''nostamp:''"
    and "distinct (map fst (dgetd (sg_runtaskdeps sg1) tid []))" and "tid \<notin> snd ` set (dgetd (sg_runtaskdeps sg1) tid [])"
  shows "calc_taskhash (se_dep env) sd = Inr h"
proof -
  from prepared_taskhash [OF assms(1,8,4,6,7,9)] obtain ds' where "map_of (sg_runtaskdeps sg1) tid = Some ds'"
    and "taint_same env (stamp @ ''.'' @ task @ ''.taint'') tid sg1" by blast
  with taskhash_of_data [OF assms(2)] assms(3,5,10,11) show ?thesis by (simp add: dgetd_def)
qed

end
