(* ===== verification/SigDemo.thy ===== *)
theory SigDemo
  imports SigProps HashProps ParseProps
begin

text \<open>
  A recipe with two tasks and the variables they use, and two tasks of a run, on which the properties
  of base hashes and task hashes are applied.
\<close>

definition demo_deps :: dep_env where
  "demo_deps =
     \<lparr>ge_parse = demo_parse, ge_mods = [], ge_python = (\<lambda>_ _. Inr ([], [], [])),
      ge_shell = (\<lambda>_ _. Inr []), ge_hash = (\<lambda>s. s)\<rparr>"

definition demo_vars :: dstore where
  "demo_vars =
     run_or DataSmart
       (bindE (addtask 3 demo_parse ''a'' None None DataSmart) (\<lambda>d.
        bindE (setVar 3 (ge_ds demo_deps) ''__exportlist'' (PList []) False d) (\<lambda>d.
        bindE (setVar 3 (ge_ds demo_deps) ''do_a'' (PStr ''echo ${A}'') False d) (\<lambda>d.
        bindE (setVarFlag 3 (ge_ds demo_deps) ''do_a'' ''func'' (PStr ''1'') d) (\<lambda>d.
        bindE (setVar 3 (ge_ds demo_deps) ''A'' (PStr ''${B}${T}'') False d) (\<lambda>d.
        bindE (setVar 3 (ge_ds demo_deps) ''T'' (PStr ''now'') False d)
          (setVar 3 (ge_ds demo_deps) ''B'' (PStr ''1'') False)))))))"

lemma demo_generated:
  "bindE (generate_dependencies 20 demo_deps [''T''] demo_vars) (\<lambda>(tasks, gd, vals, d).
     bindE (generate_dependency_hash demo_deps tasks gd vals ''a.bb'') (\<lambda>(td, bh). Inr (tasks, gd, td, bh))) =
   Inr ([''do_a''], [(''do_a'', [''A'']), (''A'', [''B'']), (''B'', [])], [(''do_a'', [''A'', ''B''])],
     [(''a.bb:do_a'', ''echo ${A}A${B}${T}B1'')])"
  by code_simp

lemma base_hash_variables_witness:
  "set [''A'', ''B''] = task_vars [(''do_a'', [''A'']), (''A'', [''B'']), (''B'', [])] ''do_a'' \<and>
   ''T'' \<notin> task_vars [(''do_a'', [''A'']), (''A'', [''B'']), (''B'', [])] ''do_a''"
proof -
  from demo_generated obtain vals d' where
    gen: "generate_dependencies 20 demo_deps [''T''] demo_vars =
      Inr ([''do_a''], [(''do_a'', [''A'']), (''A'', [''B'']), (''B'', [])], vals, d')"
    and hashes: "generate_dependency_hash demo_deps [''do_a''] [(''do_a'', [''A'']), (''A'', [''B'']), (''B'', [])] vals ''a.bb'' =
      Inr ([(''do_a'', [''A'', ''B''])], [(''a.bb:do_a'', ''echo ${A}A${B}${T}B1'')])"
    by (auto elim!: bindE_InrE)
  from base_hash_variables [OF gen, of "''a.bb''"] hashes show ?thesis by auto
qed

definition demo_sig :: "(string \<Rightarrow> string option) \<Rightarrow> sig_env" where
  "demo_sig taints =
     \<lparr>se_dep = demo_deps, se_search = None,
      se_sums = (\<lambda>files recipe. [(''/x/./p/'' @ files, Some ''c1''), (''/y/g'', Some ''c2''), (''/y/h'', None)]),
      se_taint = taints, se_uuid = (\<lambda>tid. ''uuid'')\<rparr>"

definition demo_sigcache :: cache where
  "demo_sigcache = cache_init\<lparr>
     task_deps_of := [(''a.bb'', \<lparr>td_tasks = [''do_a'', ''do_b'', ''do_c''], td_parents = [], td_flags = []\<rparr>)],
     pkg_fn := [(''a.bb'', ''a'')], stamp_of := [(''a.bb'', ''/st/a'')], file_checksums_of := [(''a.bb'', [(''do_a'', ''f'')])],
     basetaskhash := [(''a.bb:do_a'', ''echo ${A}A${B}${T}B1''), (''a.bb:do_b'', ''Hb''), (''a.bb:do_c'', ''Hc'')]\<rparr>"

text \<open>The generator after \<open>do_c\<close> and \<open>do_b\<close>, which have no dependencies.\<close>

definition hash_one :: "tid \<Rightarrow> tid list \<Rightarrow> siggen \<Rightarrow> siggen" where
  "hash_one tid ds sg =
     (case bindE (prep_taskhash (demo_sig (\<lambda>_. None)) tid ds [('''', demo_sigcache)] sg)
             (\<lambda>(l, sg). SigGen.get_taskhash (demo_sig (\<lambda>_. None)) tid sg) of
        Inl e \<Rightarrow> sg | Inr (h, sg) \<Rightarrow> sg)"

definition demo_gen :: siggen where
  "demo_gen = hash_one ''a.bb:do_b'' [] (hash_one ''a.bb:do_c'' [] SignatureGeneratorBasic)"

lemma demo_recipe_data:
  "bindE (build_data 20 (demo_sig (\<lambda>_. None)) [''T''] ''a.bb'' demo_vars SignatureGeneratorBasic) (\<lambda>(sp, d, sg).
     bindE (sigtask_data (demo_sig (\<lambda>_. None)) [''T''] sp ''a.bb'' ''do_a'' ''/st/a'' False sg) (\<lambda>sd.
       Inr (sd_basehash sd, sd_taskdeps sd, dkeys (sd_varvals sd)))) =
   Inr (''echo ${A}A${B}${T}B1'', [''A'', ''B''], [''do_a'', ''A'', ''B''])"
  by code_simp

lemma recomputed_basehash_witness:
  "\<exists>sp d sg sd. build_data 20 (demo_sig (\<lambda>_. None)) [''T''] ''a.bb'' demo_vars SignatureGeneratorBasic = Inr (sp, d, sg) \<and>
     sigtask_data (demo_sig (\<lambda>_. None)) [''T''] sp ''a.bb'' ''do_a'' ''/st/a'' False sg = Inr sd \<and>
     calc_basehash demo_deps sd = Inr ''echo ${A}A${B}${T}B1''"
proof -
  from demo_recipe_data obtain sp d sg sd where
    build: "build_data 20 (demo_sig (\<lambda>_. None)) [''T''] ''a.bb'' demo_vars SignatureGeneratorBasic = Inr (sp, d, sg)"
    and data: "sigtask_data (demo_sig (\<lambda>_. None)) [''T''] sp ''a.bb'' ''do_a'' ''/st/a'' False sg = Inr sd"
    and hash: "sd_basehash sd = ''echo ${A}A${B}${T}B1''"
    by (auto elim!: bindE_InrE)
  have "calc_basehash (se_dep (demo_sig (\<lambda>_. None))) sd = Inr (sd_basehash sd)"
    by (rule recomputed_basehash [OF build refl data])
  with build data hash show ?thesis by (auto simp: demo_sig_def)
qed

lemma prep_hash_order_witness:
  "prep_hash (demo_sig (\<lambda>_. None)) ''a.bb:do_a'' [''a.bb:do_b'', ''a.bb:do_c''] [('''', demo_sigcache)] demo_gen =
     Inr ''echo ${A}A${B}${T}B1HbHc./p/fc1c2''"
proof (rule prep_hash_order)
  show "prep_hash (demo_sig (\<lambda>_. None)) ''a.bb:do_a'' [''a.bb:do_c'', ''a.bb:do_b''] [('''', demo_sigcache)] demo_gen =
      Inr ''echo ${A}A${B}${T}B1HbHc./p/fc1c2''" by code_simp
qed simp

definition demo_parts :: sig_parts where
  "demo_parts =
     \<lparr>sp_taskdeps = [(''do_a'', [''A''])], sp_gendeps = [(''A'', [])],
      sp_varvals = [(''do_a'', PStr ''echo''), (''A'', PStr ''1'')]\<rparr>"

text \<open>A run of \<open>do_a\<close> after its two dependencies: its own preparation, its hash, its data.\<close>

lemma demo_task_data:
  "bindE (prep_taskhash (demo_sig (\<lambda>_. None)) ''a.bb:do_a'' [''a.bb:do_c'', ''a.bb:do_b''] [('''', demo_sigcache)] demo_gen) (\<lambda>(l, sg1).
   bindE (SigGen.get_taskhash (demo_sig (\<lambda>_. None)) ''a.bb:do_a'' sg1) (\<lambda>(h, sg2).
   bindE (sigtask_data (demo_sig (\<lambda>_. None)) [] demo_parts ''a.bb'' ''do_a'' ''/st/a'' True sg2) (\<lambda>sd.
     Inr (h, dgetd (sg_runtaskdeps sg1) ''a.bb:do_a'' [], sd_run sd)))) =
   Inr (''echo ${A}A${B}${T}B1HbHc./p/fc1c2'', [(''a:do_c'', ''a.bb:do_c''), (''a:do_b'', ''a.bb:do_b'')],
     Some \<lparr>sr_runtaskdeps = [''a:do_b'', ''a:do_c''],
       sr_checksums = [(''./p/f'', Some ''c1''), (''g'', Some ''c2''), (''h'', None)],
       sr_runtaskhashes = [(''a:do_c'', ''Hc''), (''a:do_b'', ''Hb'')]\<rparr>)"
  by code_simp

lemma demo_task_ok:
  "split_tid_mcfn ''a.bb:do_a'' = Inr ('''', ''a.bb'', ''do_a'', ''a.bb'')"
  "map_of [('''', demo_sigcache)] '''' = Some demo_sigcache" "map_of (stamp_of demo_sigcache) ''a.bb'' = Some ''/st/a''"
  "map_of (sg_taints demo_gen) ''a.bb:do_a'' = None"
  by (code_simp, simp, code_simp, code_simp)

lemma recomputed_taskhash_witness:
  "\<exists>sg1 sg2 sd l. prep_taskhash (demo_sig (\<lambda>_. None)) ''a.bb:do_a'' [''a.bb:do_c'', ''a.bb:do_b''] [('''', demo_sigcache)] demo_gen =
       Inr (l, sg1) \<and>
     sigtask_data (demo_sig (\<lambda>_. None)) [] demo_parts ''a.bb'' ''do_a'' ''/st/a'' True sg2 = Inr sd \<and>
     calc_taskhash demo_deps sd = Inr ''echo ${A}A${B}${T}B1HbHc./p/fc1c2''"
proof -
  from demo_task_data obtain l sg1 sg2 sd where
    prep: "prep_taskhash (demo_sig (\<lambda>_. None)) ''a.bb:do_a'' [''a.bb:do_c'', ''a.bb:do_b''] [('''', demo_sigcache)] demo_gen = Inr (l, sg1)"
    and hash: "SigGen.get_taskhash (demo_sig (\<lambda>_. None)) ''a.bb:do_a'' sg1 = Inr (''echo ${A}A${B}${T}B1HbHc./p/fc1c2'', sg2)"
    and data: "sigtask_data (demo_sig (\<lambda>_. None)) [] demo_parts ''a.bb'' ''do_a'' ''/st/a'' True sg2 = Inr sd"
    and deps: "dgetd (sg_runtaskdeps sg1) ''a.bb:do_a'' [] = [(''a:do_c'', ''a.bb:do_c''), (''a:do_b'', ''a.bb:do_b'')]"
    by (auto elim!: bindE_InrE)
  have "calc_taskhash (se_dep (demo_sig (\<lambda>_. None))) sd = Inr ''echo ${A}A${B}${T}B1HbHc./p/fc1c2''"
    by (rule recomputed_taskhash [OF prep hash data demo_task_ok(1) _ demo_task_ok(2-4)]) (simp_all add: deps demo_sig_def)
  with prep data show ?thesis by (auto simp: demo_sig_def)
qed

section \<open>What the dictionaries and sets of the code lose\<close>

text \<open>
  Two removals, \<open>${A}\<close> and \<open>${B}\<close>: the reference of the first joins the dependencies, that of the
  second does not, since the set of the caller is left after the first round.
\<close>

lemma second_removal_lost:
  "bindE (handle_remove 20 demo_deps [] [''X''] (Some [PStr ''${A}'', PStr ''${B}'']) [] demo_vars) (\<lambda>(t, ds, d). Inr ds) =
   Inr [''X'', ''A'']"
  by code_simp

text \<open>A flag \<open>doc\<close> counts as excluded when \<open>BB_SIGNATURE_EXCLUDE_FLAGS\<close> lists \<open>docs\<close> only.\<close>

lemma excluded_as_text:
  "flag_deps ''A'' [(''doc'', PStr ''x''), (''type'', PStr ''y'')] (PStr ''docs umask'') = Inr [''A[type]'']"
  by code_simp

text \<open>
  Two dependencies of the same recipe name, in two files, share their name in the signature data, and
  the hash computed again from the data takes the hash of the last for both.
\<close>

definition twin_cache :: cache where
  "twin_cache = demo_sigcache\<lparr>
     task_deps_of := (''a_2.bb'', \<lparr>td_tasks = [''do_c''], td_parents = [], td_flags = []\<rparr>) # task_deps_of demo_sigcache,
     pkg_fn := (''a_2.bb'', ''a'') # pkg_fn demo_sigcache, stamp_of := (''a_2.bb'', ''/st/a2'') # stamp_of demo_sigcache,
     file_checksums_of := (''a_2.bb'', []) # file_checksums_of demo_sigcache,
     basetaskhash := (''a_2.bb:do_c'', ''H2'') # basetaskhash demo_sigcache\<rparr>"

definition twin_hash :: "tid \<Rightarrow> tid list \<Rightarrow> siggen \<Rightarrow> pyerr + (string \<times> siggen)" where
  "twin_hash tid ds sg =
     bindE (prep_taskhash (demo_sig (\<lambda>_. None)) tid ds [('''', twin_cache)] sg)
       (\<lambda>(l, sg). SigGen.get_taskhash (demo_sig (\<lambda>_. None)) tid sg)"

lemma same_name_mismatch:
  "bindE (twin_hash ''a_2.bb:do_c'' [] demo_gen) (\<lambda>(h, sg).
   bindE (twin_hash ''a.bb:do_a'' [''a.bb:do_c'', ''a_2.bb:do_c''] sg) (\<lambda>(h, sg).
   bindE (sigtask_data (demo_sig (\<lambda>_. None)) [] demo_parts ''a.bb'' ''do_a'' ''/st/a'' True sg) (\<lambda>sd.
   bindE (calc_taskhash demo_deps sd) (\<lambda>h2. Inr (h, h2))))) =
   Inr (''echo ${A}A${B}${T}B1HcH2./p/fc1c2'', ''echo ${A}A${B}${T}B1H2H2./p/fc1c2'')"
  by code_simp

end
