(* ===== verification/HashStore.thy ===== *)
theory HashStore
  imports Prelude "HOL-Library.Option_ord"
begin

text \<open>
  The tables of the hash equivalence server, from \<open>poky/bitbake/lib/hashserv/sqlite.py\<close>: one
  definition per method of \<open>Database\<close>, with its statement of SQL as an operation on lists of rows.

  \<^item> A table is the list of its rows in the order of their numbers; \<open>UNIQUE\<close> makes an insertion of a row
    with known keys do nothing.  The numbers themselves are not kept.
  \<^item> A time is the text that the driver stores, and times are compared as text; no time is before all.
    Among rows of the same time the query takes the first.
  \<^item> What \<open>lastrowid\<close> is after an ignored insertion depends on the version of the driver: the result of
    an insertion for a known row is an argument.
\<close>

record uni_row =
  u_method :: string
  u_taskhash :: string
  u_unihash :: string
  u_gc_mark :: string

record out_row =
  o_method :: string
  o_taskhash :: string
  o_outhash :: string
  o_created :: "string option"
  o_fields :: "(string, string) dict"

record user_row =
  r_username :: string
  r_token :: string
  r_permissions :: string

record hash_db =
  unihashes :: "uni_row list"
  outhashes :: "out_row list"
  users :: "user_row list"
  config :: "(string, string option) dict"

definition new_db :: hash_db where
  "new_db = \<lparr>unihashes = [], outhashes = [], users = [], config = []\<rparr>"

section \<open>Queries\<close>

text \<open>\<open>ORDER BY created ASC LIMIT 1\<close>.\<close>

definition older :: "('a \<Rightarrow> string option) \<Rightarrow> 'a \<Rightarrow> 'a \<Rightarrow> 'a" where
  "older f x best = (if f x < f best then x else best)"

definition oldest_by :: "('a \<Rightarrow> string option) \<Rightarrow> 'a list \<Rightarrow> 'a option" where
  "oldest_by f xs = (case xs of [] \<Rightarrow> None | x # xs \<Rightarrow> Some (fold (older f) xs x))"

text \<open>The join of both tables on method and task hash.\<close>

definition joined :: "hash_db \<Rightarrow> (out_row \<times> uni_row) list" where
  "joined db =
     filter (\<lambda>(r, u). u_method u = o_method r \<and> u_taskhash u = o_taskhash r) (List.product (outhashes db) (unihashes db))"

definition get_unihash_by_taskhash_full :: "string \<Rightarrow> string \<Rightarrow> hash_db \<Rightarrow> (out_row \<times> uni_row) option" where
  "get_unihash_by_taskhash_full method taskhash db =
     oldest_by (\<lambda>(r, u). o_created r) (filter (\<lambda>(r, u). o_method r = method \<and> o_taskhash r = taskhash) (joined db))"

definition get_unihash_by_outhash :: "string \<Rightarrow> string \<Rightarrow> hash_db \<Rightarrow> (out_row \<times> uni_row) option" where
  "get_unihash_by_outhash method outhash db =
     oldest_by (\<lambda>(r, u). o_created r) (filter (\<lambda>(r, u). o_method r = method \<and> o_outhash r = outhash) (joined db))"

definition unihash_exists :: "string \<Rightarrow> hash_db \<Rightarrow> bool" where
  "unihash_exists unihash db \<longleftrightarrow> list_ex (\<lambda>u. u_unihash u = unihash) (unihashes db)"

definition get_outhash :: "string \<Rightarrow> string \<Rightarrow> hash_db \<Rightarrow> out_row option" where
  "get_outhash method outhash db =
     oldest_by o_created (filter (\<lambda>r. o_method r = method \<and> o_outhash r = outhash) (outhashes db))"

definition get_equivalent_for_outhash :: "string \<Rightarrow> string \<Rightarrow> string \<Rightarrow> hash_db \<Rightarrow> (string \<times> string) option" where
  "get_equivalent_for_outhash method outhash taskhash db =
     map_option (\<lambda>(r, u). (o_taskhash r, u_unihash u))
       (oldest_by (\<lambda>(r, u). o_created r)
         (filter (\<lambda>(r, u). o_method r = method \<and> o_outhash r = outhash \<and> o_taskhash r \<noteq> taskhash) (joined db)))"

definition get_equivalent :: "string \<Rightarrow> string \<Rightarrow> hash_db \<Rightarrow> uni_row option" where
  "get_equivalent method taskhash db = find (\<lambda>u. u_method u = method \<and> u_taskhash u = taskhash) (unihashes db)"

section \<open>Insertions\<close>

definition get_config :: "string \<Rightarrow> hash_db \<Rightarrow> string option" where
  "get_config name db = dgetd (config db) name None"

definition set_config :: "string \<Rightarrow> string option \<Rightarrow> hash_db \<Rightarrow> hash_db" where
  "set_config name value db = db\<lparr>config := dset name value (config db)\<rparr>"

definition current_mark :: "hash_db \<Rightarrow> string" where
  "current_mark db = (case get_config ''gc-mark'' db of None \<Rightarrow> [] | Some m \<Rightarrow> m)"

definition insert_unihash :: "bool \<Rightarrow> string \<Rightarrow> string \<Rightarrow> string \<Rightarrow> hash_db \<Rightarrow> bool \<times> hash_db" where
  "insert_unihash stale method taskhash unihash db =
     (if list_ex (\<lambda>u. u_method u = method \<and> u_taskhash u = taskhash) (unihashes db) then (stale, db)
      else (True, db\<lparr>unihashes := unihashes db @
              [\<lparr>u_method = method, u_taskhash = taskhash, u_unihash = unihash, u_gc_mark = current_mark db\<rparr>]\<rparr>))"

definition same_out :: "out_row \<Rightarrow> out_row \<Rightarrow> bool" where
  "same_out r s \<longleftrightarrow> o_method r = o_method s \<and> o_taskhash r = o_taskhash s \<and> o_outhash r = o_outhash s"

definition insert_outhash :: "bool \<Rightarrow> out_row \<Rightarrow> hash_db \<Rightarrow> bool \<times> hash_db" where
  "insert_outhash stale row db =
     (if list_ex (same_out row) (outhashes db) then (stale, db) else (True, db\<lparr>outhashes := outhashes db @ [row]\<rparr>))"

section \<open>Removal and garbage collection\<close>

type_synonym condition = "(string, string option) dict"

definition uni_columns :: "string list" where
  "uni_columns = [''method'', ''taskhash'', ''unihash'', ''gc_mark'']"

definition out_columns :: "string list" where
  "out_columns =
     [''method'', ''taskhash'', ''outhash'', ''created'', ''owner'', ''PN'', ''PV'', ''PR'', ''task'', ''outhash_siginfo'']"

definition uni_col :: "uni_row \<Rightarrow> string \<Rightarrow> string option" where
  "uni_col u c =
     (if c = ''method'' then Some (u_method u) else if c = ''taskhash'' then Some (u_taskhash u)
      else if c = ''unihash'' then Some (u_unihash u) else if c = ''gc_mark'' then Some (u_gc_mark u) else None)"

definition out_col :: "out_row \<Rightarrow> string \<Rightarrow> string option" where
  "out_col r c =
     (if c = ''method'' then Some (o_method r) else if c = ''taskhash'' then Some (o_taskhash r)
      else if c = ''outhash'' then Some (o_outhash r) else if c = ''created'' then o_created r
      else map_of (o_fields r) c)"

text \<open>The part of a condition about the columns of a table; a comparison with \<open>NULL\<close> never holds.\<close>

definition where_part :: "string list \<Rightarrow> condition \<Rightarrow> (string \<times> string) list" where
  "where_part columns cond = concat (map (\<lambda>c. case dgetd cond c None of None \<Rightarrow> [] | Some v \<Rightarrow> [(c, v)]) columns)"

definition matches :: "(string \<Rightarrow> string option) \<Rightarrow> (string \<times> string) list \<Rightarrow> bool" where
  "matches col wh \<longleftrightarrow> list_all (\<lambda>(c, v). col c = Some v) wh"

definition remove_rows :: "('r \<Rightarrow> string \<Rightarrow> string option) \<Rightarrow> (string \<times> string) list \<Rightarrow> 'r list \<Rightarrow> nat \<times> 'r list" where
  "remove_rows col wh rows =
     (if wh = [] then (0, rows)
      else (length (filter (\<lambda>r. matches (col r) wh) rows), filter (\<lambda>r. \<not> matches (col r) wh) rows))"

definition db_remove :: "condition \<Rightarrow> hash_db \<Rightarrow> nat \<times> hash_db" where
  "db_remove cond db =
     (let (n, rs) = remove_rows out_col (where_part out_columns cond) (outhashes db);
          (k, us) = remove_rows uni_col (where_part uni_columns cond) (unihashes db)
      in (n + k, db\<lparr>outhashes := rs, unihashes := us\<rparr>))"

definition get_current_gc_mark :: "hash_db \<Rightarrow> string option" where
  "get_current_gc_mark db = get_config ''gc-mark'' db"

definition db_gc_status :: "hash_db \<Rightarrow> nat \<times> nat \<times> string option" where
  "db_gc_status db =
     (length (filter (\<lambda>u. u_gc_mark u = current_mark db) (unihashes db)),
      length (filter (\<lambda>u. u_gc_mark u \<noteq> current_mark db) (unihashes db)), get_config ''gc-mark'' db)"

definition mark_row :: "(string \<times> string) list \<Rightarrow> string \<Rightarrow> uni_row \<Rightarrow> uni_row" where
  "mark_row wh mark u = (if matches (uni_col u) wh then u\<lparr>u_gc_mark := mark\<rparr> else u)"

definition db_gc_mark :: "string \<Rightarrow> condition \<Rightarrow> hash_db \<Rightarrow> nat \<times> hash_db" where
  "db_gc_mark mark cond db =
     (let db = set_config ''gc-mark'' (Some mark) db; wh = where_part uni_columns cond
      in if wh = [] then (0, db)
         else (length (filter (\<lambda>u. matches (uni_col u) wh) (unihashes db)),
               db\<lparr>unihashes := map (mark_row wh (current_mark db)) (unihashes db)\<rparr>))"

text \<open>Without a mark the comparison is with \<open>NULL\<close>, and no row is deleted.\<close>

definition db_gc_sweep :: "hash_db \<Rightarrow> nat \<times> hash_db" where
  "db_gc_sweep db =
     (let gone = (\<lambda>u. case get_config ''gc-mark'' db of None \<Rightarrow> False | Some m \<Rightarrow> u_gc_mark u \<noteq> m)
      in (length (filter gone (unihashes db)),
          set_config ''gc-mark'' None (db\<lparr>unihashes := filter (\<lambda>u. \<not> gone u) (unihashes db)\<rparr>)))"

definition unused_before :: "string \<Rightarrow> hash_db \<Rightarrow> out_row \<Rightarrow> bool" where
  "unused_before oldest db r \<longleftrightarrow>
     (case o_created r of None \<Rightarrow> False | Some t \<Rightarrow> t < oldest) \<and>
     \<not> list_ex (\<lambda>u. u_method u = o_method r \<and> u_taskhash u = o_taskhash r) (unihashes db)"

definition db_clean_unused :: "string \<Rightarrow> hash_db \<Rightarrow> nat \<times> hash_db" where
  "db_clean_unused oldest db =
     (length (filter (unused_before oldest db) (outhashes db)),
      db\<lparr>outhashes := filter (\<lambda>r. \<not> unused_before oldest db r) (outhashes db)\<rparr>)"

section \<open>Users\<close>

record hash_user =
  username :: string
  permissions :: "string list"

definition map_user :: "user_row \<Rightarrow> hash_user" where
  "map_user r = \<lparr>username = r_username r, permissions = remdups (words (r_permissions r))\<rparr>"

definition get_user :: "string \<Rightarrow> hash_db \<Rightarrow> user_row option" where
  "get_user name db = find (\<lambda>r. r_username r = name) (users db)"

definition lookup_user :: "string \<Rightarrow> hash_db \<Rightarrow> hash_user option" where
  "lookup_user name db = map_option map_user (get_user name db)"

definition lookup_user_token :: "string \<Rightarrow> hash_db \<Rightarrow> (hash_user \<times> string) option" where
  "lookup_user_token name db = map_option (\<lambda>r. (map_user r, r_token r)) (get_user name db)"

definition update_row :: "string \<Rightarrow> (user_row \<Rightarrow> user_row) \<Rightarrow> user_row \<Rightarrow> user_row" where
  "update_row name f r = (if r_username r = name then f r else r)"

definition update_user :: "string \<Rightarrow> (user_row \<Rightarrow> user_row) \<Rightarrow> hash_db \<Rightarrow> bool \<times> hash_db" where
  "update_user name f db =
     (list_ex (\<lambda>r. r_username r = name) (users db),
      db\<lparr>users := map (update_row name f) (users db)\<rparr>)"

definition set_user_token :: "string \<Rightarrow> string \<Rightarrow> hash_db \<Rightarrow> bool \<times> hash_db" where
  "set_user_token name token = update_user name (\<lambda>r. r\<lparr>r_token := token\<rparr>)"

definition set_user_perms :: "string \<Rightarrow> string list \<Rightarrow> hash_db \<Rightarrow> bool \<times> hash_db" where
  "set_user_perms name perms = update_user name (\<lambda>r. r\<lparr>r_permissions := join_with '' '' perms\<rparr>)"

definition get_all_users :: "hash_db \<Rightarrow> hash_user list" where
  "get_all_users db = map map_user (users db)"

definition new_user :: "string \<Rightarrow> string list \<Rightarrow> string \<Rightarrow> hash_db \<Rightarrow> bool \<times> hash_db" where
  "new_user name perms token db =
     (if list_ex (\<lambda>r. r_username r = name) (users db) then (False, db)
      else (True, db\<lparr>users := users db @ [\<lparr>r_username = name, r_token = token, r_permissions = join_with '' '' perms\<rparr>]\<rparr>))"

definition delete_user :: "string \<Rightarrow> hash_db \<Rightarrow> bool \<times> hash_db" where
  "delete_user name db =
     (list_ex (\<lambda>r. r_username r = name) (users db), db\<lparr>users := filter (\<lambda>r. r_username r \<noteq> name) (users db)\<rparr>)"

definition get_usage :: "hash_db \<Rightarrow> (string, nat) dict" where
  "get_usage db =
     [(''unihashes_v3'', length (unihashes db)), (''outhashes_v2'', length (outhashes db)),
      (''users'', length (users db)), (''config'', length (config db))]"

definition get_query_columns :: "string list" where
  "get_query_columns = remdups (uni_columns @ filter (\<lambda>c. c \<noteq> ''created'') out_columns)"

section \<open>Lookups\<close>

lemma find_SomeD: "find p xs = Some x \<Longrightarrow> p x \<and> x \<in> set xs"
  by (induction xs) (auto split: if_splits)

lemma find_append: "find p (xs @ ys) = (case find p xs of None \<Rightarrow> find p ys | Some x \<Rightarrow> Some x)"
  by (induction xs) auto

lemma find_map_same: "(\<And>x. p (f x) = p x) \<Longrightarrow> find p (map f xs) = map_option f (find p xs)"
  by (induction xs) auto

lemma mark_row_simps [simp]:
  "u_method (mark_row wh x u) = u_method u" "u_taskhash (mark_row wh x u) = u_taskhash u"
  "u_unihash (mark_row wh x u) = u_unihash u"
  by (simp_all add: mark_row_def)

lemma oldest_by_in: "oldest_by f xs = Some x \<Longrightarrow> x \<in> set xs"
proof -
  have "fold (older f) ys y \<in> insert y (set ys)" for ys y
    by (induction ys arbitrary: y) (auto simp: older_def)
  then show "oldest_by f xs = Some x \<Longrightarrow> x \<in> set xs" by (cases xs) (force simp: oldest_by_def)+
qed

lemma oldest_by_None [simp]: "oldest_by f xs = None \<longleftrightarrow> xs = []"
  by (simp add: oldest_by_def split: list.splits)

lemma oldest_by_least: "oldest_by f xs = Some x \<Longrightarrow> y \<in> set xs \<Longrightarrow> f x \<le> f y"
proof -
  have "f (fold (older f) ys y) \<le> f y \<and> (\<forall>z \<in> set ys. f (fold (older f) ys y) \<le> f z)" for ys y
  proof (induction ys arbitrary: y)
    case (Cons z ys)
    then have "f (fold (older f) ys (older f z y)) \<le> f (older f z y)" by blast
    moreover have "f (older f z y) \<le> f z" "f (older f z y) \<le> f y" by (auto simp: older_def)
    ultimately show ?case using Cons [of "older f z y"] by auto
  qed simp
  then show "oldest_by f xs = Some x \<Longrightarrow> y \<in> set xs \<Longrightarrow> f x \<le> f y" by (cases xs) (force simp: oldest_by_def)+
qed

end
