(* ===== verification/HashServer.thy ===== *)
theory HashServer
  imports HashStore
begin

text \<open>
  The hash equivalence server, from \<open>poky/bitbake/lib/hashserv/server.py\<close>: the permissions of users,
  one definition per handler of a connection, and the choice of the handler for a message.

  \<^item> A message is its commands with their arguments; the arguments have the types the handlers use.
    Transport, statistics and the protocol version are left out.
  \<^item> \<open>hash_server\<close> is what all connections share, the database and the queue of hashes to fetch from the
    upstream server; \<open>session\<close> is a connection, which keeps the user that has logged in.
  \<^item> The upstream server, the hash of tokens, fresh tokens and the text of a time are arguments.
\<close>

datatype rpc_error = InvokeError string | ClientError string | Raised pyerr

record upstream =
  up_get_taskhash :: "string \<Rightarrow> string \<Rightarrow> uni_row option"
  up_get_full :: "string \<Rightarrow> string \<Rightarrow> (out_row \<times> uni_row) option"
  up_get_unihash :: "string \<Rightarrow> string \<Rightarrow> string option"
  up_unihash_exists :: "string \<Rightarrow> bool"
  up_get_outhash :: "string \<Rightarrow> string \<Rightarrow> string \<Rightarrow> (out_row \<times> uni_row) option"

record server_env =
  read_only :: bool
  anon_perms :: "string list"
  up_server :: "upstream option"
  stale_rowid :: bool
  iso_time :: "int \<Rightarrow> string"
  hash_token :: "string \<Rightarrow> string \<Rightarrow> string \<Rightarrow> string"
  new_token :: string
  new_salt :: string

record hash_server =
  hs_db :: hash_db
  hs_backfill :: "(string \<times> string) list"

record session =
  s_user :: "hash_user option"
  s_server :: hash_server

abbreviation s_db :: "session \<Rightarrow> hash_db" where
  "s_db s \<equiv> hs_db (s_server s)"

definition on_db :: "(hash_db \<Rightarrow> 'a \<times> hash_db) \<Rightarrow> session \<Rightarrow> 'a \<times> session" where
  "on_db f s = (let (x, db) = f (s_db s) in (x, s\<lparr>s_server := (s_server s)\<lparr>hs_db := db\<rparr>\<rparr>))"

section \<open>Permissions\<close>

abbreviation NONE_PERM :: string where "NONE_PERM \<equiv> ''@none''"
abbreviation READ_PERM :: string where "READ_PERM \<equiv> ''@read''"
abbreviation REPORT_PERM :: string where "REPORT_PERM \<equiv> ''@report''"
abbreviation DB_ADMIN_PERM :: string where "DB_ADMIN_PERM \<equiv> ''@db-admin''"
abbreviation USER_ADMIN_PERM :: string where "USER_ADMIN_PERM \<equiv> ''@user-admin''"
abbreviation ALL_PERM :: string where "ALL_PERM \<equiv> ''@all''"

definition ALL_PERMISSIONS :: "string list" where
  "ALL_PERMISSIONS = [READ_PERM, REPORT_PERM, DB_ADMIN_PERM, USER_ADMIN_PERM, ALL_PERM]"

definition user_has_permissions :: "server_env \<Rightarrow> string list \<Rightarrow> bool \<Rightarrow> session \<Rightarrow> bool" where
  "user_has_permissions env perms allow_anon s \<longleftrightarrow>
     allow_anon \<and> (ALL_PERM \<in> set (anon_perms env) \<or> set perms \<subseteq> set (anon_perms env)) \<or>
     (case s_user s of
        None \<Rightarrow> False
      | Some u \<Rightarrow> ALL_PERM \<in> set (permissions u) \<or> set perms \<subseteq> set (permissions u))"

text \<open>
  The decorator \<open>permissions\<close>, without and with \<open>allow_self_service\<close>; in the latter the name in the
  request may be missing, and the handler gets the name.
\<close>

type_synonym 'a handler = "session \<Rightarrow> rpc_error + ('a \<times> session)"

definition denied :: "server_env \<Rightarrow> string list \<Rightarrow> session \<Rightarrow> rpc_error" where
  "denied env perms s =
     InvokeError ((case s_user s of None \<Rightarrow> ''Anonymous user'' | Some u \<Rightarrow> username u) @
       '' is not allowed to access permissions(s) '' @ join_with '', '' perms)"

definition permitted :: "server_env \<Rightarrow> string list \<Rightarrow> bool \<Rightarrow> 'a handler \<Rightarrow> 'a handler" where
  "permitted env perms allow_anon func s =
     (if user_has_permissions env perms allow_anon s then func s else Inl (denied env perms s))"

definition self_service ::
  "server_env \<Rightarrow> string list \<Rightarrow> string option \<Rightarrow> (string \<Rightarrow> 'a handler) \<Rightarrow> 'a handler" where
  "self_service env perms name func s =
     (case s_user s of
        Some u \<Rightarrow>
          if name = None \<or> name = Some (username u) then func (username u) s
          else permitted env perms False (case name of None \<Rightarrow> \<lambda>s. Inl (Raised KeyError) | Some n \<Rightarrow> func n) s
      | None \<Rightarrow> permitted env perms False (case name of None \<Rightarrow> \<lambda>s. Inl (Raised KeyError) | Some n \<Rightarrow> func n) s)"

section \<open>Queries\<close>

type_synonym triple = "string \<times> string \<times> string"

definition triple_of :: "uni_row \<Rightarrow> triple" where
  "triple_of u = (u_method u, u_taskhash u, u_unihash u)"

definition update_unified :: "server_env \<Rightarrow> out_row \<times> uni_row \<Rightarrow> hash_db \<Rightarrow> hash_db" where
  "update_unified env = (\<lambda>(r, u) db.
     snd (insert_outhash (stale_rowid env) r
       (snd (insert_unihash (stale_rowid env) (u_method u) (u_taskhash u) (u_unihash u) db))))"

text \<open>\<open>get_unihash\<close>: all columns of both tables, or the row of the unihash.\<close>

definition get_unihash_full :: "server_env \<Rightarrow> string \<Rightarrow> string \<Rightarrow> hash_db \<Rightarrow> (out_row \<times> uni_row) option \<times> hash_db" where
  "get_unihash_full env method taskhash db =
     (case get_unihash_by_taskhash_full method taskhash db of
        Some row \<Rightarrow> (Some row, db)
      | None \<Rightarrow>
          (case up_server env of
             None \<Rightarrow> (None, db)
           | Some up \<Rightarrow>
               (case up_get_full up method taskhash of
                  None \<Rightarrow> (None, db)
                | Some row \<Rightarrow> (Some row, update_unified env row db))))"

text \<open>For a hash that the upstream server does not know, \<open>d["method"]\<close> is a subscript of \<open>None\<close>.\<close>

definition get_unihash :: "server_env \<Rightarrow> string \<Rightarrow> string \<Rightarrow> hash_db \<Rightarrow> pyerr + (triple option \<times> hash_db)" where
  "get_unihash env method taskhash db =
     (case get_equivalent method taskhash db of
        Some u \<Rightarrow> Inr (Some (triple_of u), db)
      | None \<Rightarrow>
          (case up_server env of
             None \<Rightarrow> Inr (None, db)
           | Some up \<Rightarrow>
               (case up_get_taskhash up method taskhash of
                  None \<Rightarrow> Inl TypeError
                | Some u \<Rightarrow>
                    Inr (Some (triple_of u),
                         snd (insert_unihash (stale_rowid env) (u_method u) (u_taskhash u) (u_unihash u) db)))))"

definition server_get_outhash ::
  "server_env \<Rightarrow> string \<Rightarrow> string \<Rightarrow> string \<Rightarrow> bool \<Rightarrow> hash_db \<Rightarrow> (out_row \<times> uni_row option) option \<times> hash_db" where
  "server_get_outhash env method outhash taskhash with_unihash db =
     (case (if with_unihash then map_option (\<lambda>(r, u). (r, Some u)) (get_unihash_by_outhash method outhash db)
            else map_option (\<lambda>r. (r, None)) (get_outhash method outhash db)) of
        Some row \<Rightarrow> (Some row, db)
      | None \<Rightarrow>
          (case up_server env of
             None \<Rightarrow> (None, db)
           | Some up \<Rightarrow>
               (case up_get_outhash up method outhash taskhash of
                  None \<Rightarrow> (None, db)
                | Some (r, u) \<Rightarrow> (Some (r, Some u), update_unified env (r, u) db))))"

text \<open>One line of a stream of queries; a hash found upstream is put on the queue and not stored here.\<close>

definition get_stream_line :: "server_env \<Rightarrow> string \<Rightarrow> hash_server \<Rightarrow> pyerr + (string \<times> hash_server)" where
  "get_stream_line env l hs =
     (case words l of
        [method, taskhash] \<Rightarrow>
          (case get_equivalent method taskhash (hs_db hs) of
             Some u \<Rightarrow> Inr (u_unihash u, hs)
           | None \<Rightarrow>
               (case up_server env of
                  None \<Rightarrow> Inr ([], hs)
                | Some up \<Rightarrow>
                    (case up_get_unihash up method taskhash of
                       None \<Rightarrow> Inr ([], hs)
                     | Some h \<Rightarrow>
                         if h = [] then Inr ([], hs)
                         else Inr (h, hs\<lparr>hs_backfill := hs_backfill hs @ [(method, taskhash)]\<rparr>))))
      | _ \<Rightarrow> Inl (ValueError ''not enough values to unpack''))"

definition exists_stream_line :: "server_env \<Rightarrow> string \<Rightarrow> hash_server \<Rightarrow> pyerr + (string \<times> hash_server)" where
  "exists_stream_line env l hs =
     Inr (if unihash_exists l (hs_db hs) \<or> (case up_server env of None \<Rightarrow> False | Some up \<Rightarrow> up_unihash_exists up l)
          then ''true'' else ''false'', hs)"

text \<open>
  The loop of a stream over the lines received, up to an empty line or \<open>END\<close>, and its answers.  An
  exception ends it after the answers to the lines before, with what they did to the server.
\<close>

fun stream_handler ::
  "(string \<Rightarrow> hash_server \<Rightarrow> pyerr + (string \<times> hash_server)) \<Rightarrow> string list \<Rightarrow> hash_server \<Rightarrow>
   (string list \<times> pyerr option) \<times> hash_server" where
  "stream_handler f [] hs = (([''ok''], None), hs)"
| "stream_handler f (l # ls) hs =
     (if l = [] \<or> l = ''END'' then (([''ok''], None), hs)
      else
        (case f l hs of
           Inl e \<Rightarrow> (([], Some e), hs)
         | Inr (msg, hs) \<Rightarrow> (let ((out, e), hs) = stream_handler f ls hs in ((msg # out, e), hs))))"

text \<open>One round of the task that fetches queued hashes.\<close>

definition backfill_step :: "server_env \<Rightarrow> hash_server \<Rightarrow> hash_server" where
  "backfill_step env hs =
     (case hs_backfill hs of
        [] \<Rightarrow> hs
      | (method, taskhash) # rest \<Rightarrow>
          (case up_server env of
             None \<Rightarrow> hs
           | Some up \<Rightarrow>
               (case up_get_taskhash up method taskhash of
                  None \<Rightarrow> hs\<lparr>hs_backfill := rest\<rparr>
                | Some u \<Rightarrow>
                    hs\<lparr>hs_backfill := rest,
                       hs_db := snd (insert_unihash (stale_rowid env) (u_method u) (u_taskhash u) (u_unihash u) (hs_db hs))\<rparr>)))"

end
