(* ===== verification/HashRequests.thy ===== *)
theory HashRequests
  imports HashServer
begin

text \<open>
  The handlers of the hash equivalence server that write: reports, removal, garbage collection and
  users, the answer to a message, and the start of a server, from \<open>hashserv/server.py\<close>.
\<close>

section \<open>Reports\<close>

record report =
  p_method :: string
  p_taskhash :: string
  p_outhash :: string
  p_unihash :: string
  p_fields :: "(string, string) dict"

definition report_fields :: "string list" where
  "report_fields = [''owner'', ''PN'', ''PV'', ''PR'', ''task'', ''outhash_siginfo'']"

definition report_row :: "server_env \<Rightarrow> int \<Rightarrow> report \<Rightarrow> session \<Rightarrow> out_row" where
  "report_row env now p s =
     (let fields = concat (map (\<lambda>k. case map_of (p_fields p) k of None \<Rightarrow> [] | Some v \<Rightarrow> [(k, v)]) report_fields);
          fields = (case s_user s of None \<Rightarrow> fields | Some u \<Rightarrow> dset ''owner'' (username u) fields)
      in \<lparr>o_method = p_method p, o_taskhash = p_taskhash p, o_outhash = p_outhash p,
          o_created = Some (iso_time env now), o_fields = fields\<rparr>)"

definition report_readonly :: "server_env \<Rightarrow> report \<Rightarrow> hash_db \<Rightarrow> triple \<times> hash_db" where
  "report_readonly env p db =
     (let (info, db) = server_get_outhash env (p_method p) (p_outhash p) (p_taskhash p) True db;
          unihash = (case info of Some (r, Some u) \<Rightarrow> u_unihash u | _ \<Rightarrow> p_unihash p)
      in ((p_method p, p_taskhash p, unihash), db))"

text \<open>The unihash for a new row: that of an equivalent one, of the upstream server, or the reported one.\<close>

definition new_unihash :: "server_env \<Rightarrow> report \<Rightarrow> hash_db \<Rightarrow> string" where
  "new_unihash env p db =
     (case get_equivalent_for_outhash (p_method p) (p_outhash p) (p_taskhash p) db of
        Some (_, unihash) \<Rightarrow> unihash
      | None \<Rightarrow>
          (case up_server env of
             None \<Rightarrow> p_unihash p
           | Some up \<Rightarrow>
               (case up_get_outhash up (p_method p) (p_outhash p) (p_taskhash p) of
                  None \<Rightarrow> p_unihash p | Some (_, u) \<Rightarrow> u_unihash u)))"

definition report_write :: "server_env \<Rightarrow> out_row \<Rightarrow> report \<Rightarrow> hash_db \<Rightarrow> pyerr + (triple \<times> hash_db)" where
  "report_write env row p db =
     (let (new, db) = insert_outhash (stale_rowid env) row db;
          db = (if new then snd (insert_unihash (stale_rowid env) (p_method p) (p_taskhash p) (new_unihash env p db) db) else db)
      in bindE (get_unihash env (p_method p) (p_taskhash p) db) (\<lambda>(found, db).
           Inr ((p_method p, p_taskhash p, case found of None \<Rightarrow> p_unihash p | Some (_, _, u) \<Rightarrow> u), db)))"

definition raised :: "pyerr + 'a \<Rightarrow> rpc_error + 'a" where
  "raised m = (case m of Inl e \<Rightarrow> Inl (Raised e) | Inr x \<Rightarrow> Inr x)"

definition handle_report :: "server_env \<Rightarrow> int \<Rightarrow> report \<Rightarrow> triple handler" where
  "handle_report env now p s =
     (if read_only env \<or> \<not> user_has_permissions env [REPORT_PERM] True s then Inr (on_db (report_readonly env p) s)
      else
        bindE (raised (report_write env (report_row env now p s) p (s_db s))) (\<lambda>(t, db).
          Inr (t, s\<lparr>s_server := (s_server s)\<lparr>hs_db := db\<rparr>\<rparr>)))"

definition handle_equivreport :: "server_env \<Rightarrow> string \<Rightarrow> string \<Rightarrow> string \<Rightarrow> triple handler" where
  "handle_equivreport env method taskhash unihash s =
     (let (_, s) = on_db (insert_unihash (stale_rowid env) method taskhash unihash) s
      in case get_equivalent method taskhash (s_db s) of
           None \<Rightarrow> Inl (Raised TypeError)
         | Some u \<Rightarrow> Inr (triple_of u, s))"

section \<open>Garbage collection\<close>

definition quoted :: "string \<Rightarrow> string" where
  "quoted x = [CHR 0x27] @ x @ [CHR 0x27]"

definition stale_mark :: "string \<Rightarrow> rpc_error" where
  "stale_mark mark = InvokeError (quoted mark @ '' is not the current mark. Refusing to sweep'')"

definition handle_gc_sweep :: "string \<Rightarrow> nat handler" where
  "handle_gc_sweep mark s =
     (case get_current_gc_mark (s_db s) of
        None \<Rightarrow> Inl (stale_mark mark)
      | Some m \<Rightarrow> if m = [] \<or> mark \<noteq> m then Inl (stale_mark mark) else Inr (on_db db_gc_sweep s))"

text \<open>\<open>timedelta(seconds=-max_age)\<close> is negative, so the time lies ahead of now.\<close>

definition handle_clean_unused :: "server_env \<Rightarrow> int \<Rightarrow> int \<Rightarrow> nat handler" where
  "handle_clean_unused env now max_age s = Inr (on_db (db_clean_unused (iso_time env (now - (- max_age)))) s)"

text \<open>The queue exists only with an upstream server.\<close>

definition handle_backfill_wait :: "server_env \<Rightarrow> nat handler" where
  "handle_backfill_wait env s =
     (if up_server env = None then Inl (Raised AttributeError)
      else (let n = length (hs_backfill (s_server s))
            in Inr (n, s\<lparr>s_server := (backfill_step env ^^ n) (s_server s)\<rparr>)))"

section \<open>Users\<close>

definition unknown_perms :: "string list \<Rightarrow> rpc_error" where
  "unknown_perms perms = InvokeError (''Unknown permissions '' @ join_with '', '' (sort perms))"

definition get_perm_arg :: "string list \<Rightarrow> rpc_error + string list" where
  "get_perm_arg arg =
     (let arg = filter (\<lambda>p. p \<noteq> NONE_PERM) (remdups arg)
      in if set arg \<subseteq> set ALL_PERMISSIONS then Inr (sort arg)
         else Inl (unknown_perms (filter (\<lambda>p. p \<notin> set ALL_PERMISSIONS) arg)))"

definition return_perms :: "string list \<Rightarrow> string list" where
  "return_perms perms = sort (if ALL_PERM \<in> set perms then ALL_PERMISSIONS else perms)"

definition TOKEN_ALGORITHM :: string where
  "TOKEN_ALGORITHM = ''sha256''"

definition fresh_token :: "server_env \<Rightarrow> string" where
  "fresh_token env = hash_token env TOKEN_ALGORITHM (new_salt env) (new_token env)"

definition no_auth :: "string \<Rightarrow> rpc_error" where
  "no_auth name = InvokeError (''Unable to authenticate as '' @ name)"

definition handle_auth :: "server_env \<Rightarrow> string \<Rightarrow> string \<Rightarrow> hash_user handler" where
  "handle_auth env name token s =
     (case lookup_user_token name (s_db s) of
        None \<Rightarrow> Inl (no_auth name)
      | Some (u, db_token) \<Rightarrow>
          (case split_on (CHR '':'') db_token of
             [algo, salt, _] \<Rightarrow>
               if hash_token env algo salt token \<noteq> db_token then Inl (no_auth name)
               else Inr (u\<lparr>permissions := sort (permissions u)\<rparr>, s\<lparr>s_user := Some u\<rparr>)
           | _ \<Rightarrow> Inl (no_auth name)))"

definition no_user :: "string \<Rightarrow> rpc_error" where
  "no_user name = InvokeError (''No user named '' @ quoted name @ '' exists'')"

definition handle_refresh_token :: "server_env \<Rightarrow> string \<Rightarrow> (string \<times> string) handler" where
  "handle_refresh_token env name s =
     (let (ok, s) = on_db (set_user_token name (fresh_token env)) s
      in if ok then Inr ((name, new_token env), s) else Inl (no_user name))"

definition handle_set_perms :: "string \<Rightarrow> string list \<Rightarrow> hash_user handler" where
  "handle_set_perms name perms s =
     bindE (get_perm_arg perms) (\<lambda>perms.
     let (ok, s) = on_db (set_user_perms name perms) s
     in if ok then Inr (\<lparr>username = name, permissions = return_perms perms\<rparr>, s) else Inl (no_user name))"

definition answer_user :: "hash_user \<Rightarrow> hash_user" where
  "answer_user u = u\<lparr>permissions := return_perms (permissions u)\<rparr>"

definition handle_get_user :: "string \<Rightarrow> hash_user option handler" where
  "handle_get_user name s = Inr (map_option answer_user (lookup_user name (s_db s)), s)"

definition handle_get_all_users :: "hash_user list handler" where
  "handle_get_all_users s = Inr (map answer_user (get_all_users (s_db s)), s)"

definition handle_new_user :: "server_env \<Rightarrow> string \<Rightarrow> string list \<Rightarrow> (hash_user \<times> string) handler" where
  "handle_new_user env name perms s =
     bindE (get_perm_arg perms) (\<lambda>perms.
     let (ok, s) = on_db (new_user name perms (fresh_token env)) s
     in if ok then Inr ((\<lparr>username = name, permissions = return_perms perms\<rparr>, new_token env), s)
        else Inl (InvokeError (''Cannot create new user '' @ quoted name)))"

definition handle_delete_user :: "string \<Rightarrow> string handler" where
  "handle_delete_user name s =
     (let (ok, s) = on_db (delete_user name) s in if ok then Inr (name, s) else Inl (no_user name))"

definition handle_become_user :: "string \<Rightarrow> hash_user handler" where
  "handle_become_user name s =
     (case lookup_user name (s_db s) of
        None \<Rightarrow> Inl (InvokeError (''User '' @ name @ '' doesn'' @ [CHR 0x27] @ ''t exist''))
      | Some u \<Rightarrow> Inr (answer_user u, s\<lparr>s_user := Some u\<rparr>))"

section \<open>Messages\<close>

datatype command =
    Ping
  | Get string string bool
  | GetOuthash string string string bool
  | GetStream "string list"
  | ExistsStream "string list"
  | GetDbUsage
  | GetDbQueryColumns
  | Report report
  | Auth string string
  | GetUser "string option"
  | GetAllUsers
  | BecomeUser string
  | ReportEquiv string string string
  | BackfillWait
  | Remove condition
  | GcMark string condition
  | GcSweep string
  | GcStatus
  | CleanUnused int
  | RefreshToken "string option"
  | SetUserPerms string "string list"
  | NewUser string "string list"
  | DeleteUser "string option"

fun command_name :: "command \<Rightarrow> string" where
  "command_name Ping = ''ping''"
| "command_name (Get _ _ _) = ''get''"
| "command_name (GetOuthash _ _ _ _) = ''get-outhash''"
| "command_name (GetStream _) = ''get-stream''"
| "command_name (ExistsStream _) = ''exists-stream''"
| "command_name GetDbUsage = ''get-db-usage''"
| "command_name GetDbQueryColumns = ''get-db-query-columns''"
| "command_name (Report _) = ''report''"
| "command_name (Auth _ _) = ''auth''"
| "command_name (GetUser _) = ''get-user''"
| "command_name GetAllUsers = ''get-all-users''"
| "command_name (BecomeUser _) = ''become-user''"
| "command_name (ReportEquiv _ _ _) = ''report-equiv''"
| "command_name BackfillWait = ''backfill-wait''"
| "command_name (Remove _) = ''remove''"
| "command_name (GcMark _ _) = ''gc-mark''"
| "command_name (GcSweep _) = ''gc-sweep''"
| "command_name GcStatus = ''gc-status''"
| "command_name (CleanUnused _) = ''clean-unused''"
| "command_name (RefreshToken _) = ''refresh-token''"
| "command_name (SetUserPerms _ _) = ''set-user-perms''"
| "command_name (NewUser _ _) = ''new-user''"
| "command_name (DeleteUser _) = ''delete-user''"

datatype response =
    RAlive
  | RTriple "triple option"
  | RFull "(out_row \<times> uni_row) option"
  | ROut "(out_row \<times> uni_row option) option"
  | RStream "string list \<times> pyerr option"
  | RCount nat
  | RStatus nat nat "string option"
  | RUsage "(string, nat) dict"
  | RNames "string list"
  | RUser "hash_user option"
  | RUsers "hash_user list"
  | RToken string string
  | RNewUser hash_user string
  | RDeleted string

definition answer :: "('a \<Rightarrow> response) \<Rightarrow> 'a handler \<Rightarrow> response handler" where
  "answer f h s = bindE (h s) (\<lambda>(x, s). Inr (f x, s))"

definition on_server :: "(hash_server \<Rightarrow> pyerr + ('a \<times> hash_server)) \<Rightarrow> 'a handler" where
  "on_server f s = bindE (raised (f (s_server s))) (\<lambda>(x, hs). Inr (x, s\<lparr>s_server := hs\<rparr>))"

definition pure_server :: "(hash_server \<Rightarrow> 'a \<times> hash_server) \<Rightarrow> 'a handler" where
  "pure_server f = on_server (\<lambda>hs. Inr (f hs))"

definition pure_db :: "(hash_db \<Rightarrow> 'a \<times> hash_db) \<Rightarrow> 'a handler" where
  "pure_db f s = Inr (on_db f s)"

fun run_command :: "server_env \<Rightarrow> int \<Rightarrow> command \<Rightarrow> response handler" where
  "run_command env now Ping = (\<lambda>s. Inr (RAlive, s))"
| "run_command env now (Get m t full) =
     permitted env [READ_PERM] True
       (if full then answer RFull (pure_db (get_unihash_full env m t))
        else answer RTriple (on_server (\<lambda>hs. bindE (get_unihash env m t (hs_db hs)) (\<lambda>(x, db). Inr (x, hs\<lparr>hs_db := db\<rparr>)))))"
| "run_command env now (GetOuthash m h t w) =
     permitted env [READ_PERM] True (answer ROut (pure_db (server_get_outhash env m h t w)))"
| "run_command env now (GetStream ls) =
     permitted env [READ_PERM] True (answer RStream (pure_server (stream_handler (get_stream_line env) ls)))"
| "run_command env now (ExistsStream ls) =
     permitted env [READ_PERM] True (answer RStream (pure_server (stream_handler (exists_stream_line env) ls)))"
| "run_command env now GetDbUsage =
     permitted env [DB_ADMIN_PERM] True (answer RUsage (pure_db (\<lambda>db. (get_usage db, db))))"
| "run_command env now GetDbQueryColumns =
     permitted env [DB_ADMIN_PERM] True (answer RNames (pure_db (\<lambda>db. (get_query_columns, db))))"
| "run_command env now (Report p) = permitted env [READ_PERM] True (answer (\<lambda>t. RTriple (Some t)) (handle_report env now p))"
| "run_command env now (Auth u t) = answer (\<lambda>u. RUser (Some u)) (handle_auth env u t)"
| "run_command env now (GetUser u) = self_service env [USER_ADMIN_PERM] u (\<lambda>n. answer RUser (handle_get_user n))"
| "run_command env now GetAllUsers = permitted env [USER_ADMIN_PERM] False (answer RUsers handle_get_all_users)"
| "run_command env now (BecomeUser u) =
     permitted env [USER_ADMIN_PERM] False (answer (\<lambda>u. RUser (Some u)) (handle_become_user u))"
| "run_command env now (ReportEquiv m t u) =
     permitted env [READ_PERM, REPORT_PERM] True (answer (\<lambda>t. RTriple (Some t)) (handle_equivreport env m t u))"
| "run_command env now BackfillWait = permitted env [READ_PERM] True (answer RCount (handle_backfill_wait env))"
| "run_command env now (Remove c) = permitted env [DB_ADMIN_PERM] True (answer RCount (pure_db (db_remove c)))"
| "run_command env now (GcMark m c) = permitted env [DB_ADMIN_PERM] True (answer RCount (pure_db (db_gc_mark m c)))"
| "run_command env now (GcSweep m) = permitted env [DB_ADMIN_PERM] True (answer RCount (handle_gc_sweep m))"
| "run_command env now GcStatus =
     permitted env [DB_ADMIN_PERM] True (answer (\<lambda>(k, r, m). RStatus k r m) (pure_db (\<lambda>db. (db_gc_status db, db))))"
| "run_command env now (CleanUnused age) =
     permitted env [DB_ADMIN_PERM] True (answer RCount (handle_clean_unused env now age))"
| "run_command env now (RefreshToken u) =
     self_service env [USER_ADMIN_PERM] u (\<lambda>n. answer (\<lambda>(n, t). RToken n t) (handle_refresh_token env n))"
| "run_command env now (SetUserPerms u ps) =
     permitted env [USER_ADMIN_PERM] False (answer (\<lambda>u. RUser (Some u)) (handle_set_perms u ps))"
| "run_command env now (NewUser u ps) =
     permitted env [USER_ADMIN_PERM] False (answer (\<lambda>(u, t). RNewUser u t) (handle_new_user env u ps))"
| "run_command env now (DeleteUser u) =
     self_service env [USER_ADMIN_PERM] u (\<lambda>n. answer RDeleted (handle_delete_user n))"

text \<open>The commands of a connection, in the order of \<open>handlers\<close>; a read-only server has the first ones.\<close>

definition handler_names :: "server_env \<Rightarrow> string list" where
  "handler_names env =
     [''ping'', ''get'', ''get-outhash'', ''get-stream'', ''exists-stream'', ''get-db-usage'', ''get-db-query-columns'',
      ''report'', ''auth'', ''get-user'', ''get-all-users'', ''become-user''] @
     (if read_only env then []
      else [''report-equiv'', ''backfill-wait'', ''remove'', ''gc-mark'', ''gc-sweep'', ''gc-status'', ''clean-unused'',
            ''refresh-token'', ''set-user-perms'', ''new-user'', ''delete-user''])"

definition dispatch_message :: "server_env \<Rightarrow> int \<Rightarrow> command list \<Rightarrow> response handler" where
  "dispatch_message env now msg s =
     (case find (\<lambda>k. k \<in> set (map command_name msg)) (handler_names env) of
        None \<Rightarrow> Inl (ClientError ''Unrecognized command'')
      | Some k \<Rightarrow>
          (case find (\<lambda>c. command_name c = k) msg of
             None \<Rightarrow> Inl (ClientError ''Unrecognized command'') | Some c \<Rightarrow> run_command env now c s))"

section \<open>The server\<close>

datatype server_error = ServerError string

text \<open>
  The checks of the constructor, and the database at the start.  The text of the error has the
  permissions in the order given (a set in the code).
\<close>

definition Server :: "server_env \<Rightarrow> server_error + hash_server" where
  "Server env =
     (let disallowed = filter (\<lambda>p. p \<notin> {NONE_PERM, READ_PERM, REPORT_PERM, DB_ADMIN_PERM}) (remdups (anon_perms env))
      in if up_server env \<noteq> None \<and> read_only env then Inl (ServerError ''Read-only hashserv cannot pull from an upstream server'')
      else if disallowed \<noteq> []
      then Inl (ServerError (''Permission(s) '' @ join_with '' '' disallowed @ '' are not allowed for anonymous users''))
      else Inr \<lparr>hs_db = new_db, hs_backfill = []\<rparr>)"

definition create_admin_user :: "server_env \<Rightarrow> string \<Rightarrow> string \<Rightarrow> hash_db \<Rightarrow> hash_db" where
  "create_admin_user env name password db =
     (let token = (\<lambda>_. hash_token env TOKEN_ALGORITHM (new_salt env) password);
          (added, db) = new_user name [ALL_PERM] (token ()) db
      in if added then db else snd (set_user_token name (token ()) (snd (set_user_perms name [ALL_PERM] db))))"

end
