(* ===== verification/HashServerProps.thy ===== *)
theory HashServerProps
  imports HashRequests
begin

text \<open>
  Properties of the hash equivalence server: what each command may write, the invariants of its
  tables over all runs of any number of connections, what reports agree on, and what garbage
  collection keeps.
\<close>

section \<open>Writes\<close>

text \<open>The elementary writes to the database.\<close>

datatype hash_write =
    WUni string string string
  | WOut out_row
  | WRemove condition
  | WMark string condition
  | WSweep
  | WClean string
  | WToken string string
  | WPerms string "string list"
  | WNew string "string list" string
  | WDelete string

fun do_write :: "hash_write \<Rightarrow> hash_db \<Rightarrow> hash_db" where
  "do_write (WUni m t u) db = snd (insert_unihash True m t u db)"
| "do_write (WOut r) db = snd (insert_outhash True r db)"
| "do_write (WRemove c) db = snd (db_remove c db)"
| "do_write (WMark m c) db = snd (db_gc_mark m c db)"
| "do_write WSweep db = snd (db_gc_sweep db)"
| "do_write (WClean t) db = snd (db_clean_unused t db)"
| "do_write (WToken n t) db = snd (set_user_token n t db)"
| "do_write (WPerms n p) db = snd (set_user_perms n p db)"
| "do_write (WNew n p t) db = snd (new_user n p t db)"
| "do_write (WDelete n) db = snd (delete_user n db)"

declare do_write.simps [simp del]

lemma insert_stale [simp]:
  "snd (insert_unihash b m t u db) = do_write (WUni m t u) db"
  "snd (insert_outhash b r db) = do_write (WOut r) db"
  by (simp_all add: do_write.simps insert_unihash_def insert_outhash_def)

lemmas other_writes = do_write.simps(3-10)

text \<open>Which writes a command of a connection may lead to, given its arguments and who sends it.\<close>

definition admin :: "server_env \<Rightarrow> session \<Rightarrow> bool" where
  "admin env s \<longleftrightarrow> user_has_permissions env [USER_ADMIN_PERM] False s"

definition own_name :: "string \<Rightarrow> session \<Rightarrow> bool" where
  "own_name n s \<longleftrightarrow> map_option username (s_user s) = Some n"

fun is_report :: "command \<Rightarrow> bool" where
  "is_report (Report _) = True"
| "is_report (ReportEquiv _ _ _) = True"
| "is_report _ = False"

definition db_admin :: "server_env \<Rightarrow> session \<Rightarrow> bool" where
  "db_admin env s \<longleftrightarrow> user_has_permissions env [DB_ADMIN_PERM] True s"

definition may_report :: "server_env \<Rightarrow> command \<Rightarrow> session \<Rightarrow> bool" where
  "may_report env c s \<longleftrightarrow>
     (\<exists>p. c = Report p \<and> \<not> read_only env \<and> user_has_permissions env [REPORT_PERM] True s) \<or>
     (\<exists>m t u. c = ReportEquiv m t u \<and> user_has_permissions env [READ_PERM, REPORT_PERM] True s)"

fun may_write :: "server_env \<Rightarrow> command \<Rightarrow> session \<Rightarrow> hash_write \<Rightarrow> bool" where
  "may_write env c s (WUni _ _ _) \<longleftrightarrow> up_server env \<noteq> None \<or> may_report env c s"
| "may_write env c s (WOut _) \<longleftrightarrow> up_server env \<noteq> None \<or> may_report env c s"
| "may_write env c s (WRemove cond) \<longleftrightarrow> c = Remove cond \<and> db_admin env s"
| "may_write env c s (WMark m cond) \<longleftrightarrow> c = GcMark m cond \<and> db_admin env s"
| "may_write env c s WSweep \<longleftrightarrow> (\<exists>m. c = GcSweep m \<and> get_current_gc_mark (s_db s) = Some m) \<and> db_admin env s"
| "may_write env c s (WClean _) \<longleftrightarrow> (\<exists>age. c = CleanUnused age) \<and> db_admin env s"
| "may_write env c s (WToken n t) \<longleftrightarrow> (\<exists>u. c = RefreshToken u) \<and> (own_name n s \<or> admin env s)"
| "may_write env c s (WPerms n ps) \<longleftrightarrow> (\<exists>qs. c = SetUserPerms n qs \<and> get_perm_arg qs = Inr ps) \<and> admin env s"
| "may_write env c s (WNew n ps t) \<longleftrightarrow> (\<exists>qs. c = NewUser n qs \<and> get_perm_arg qs = Inr ps) \<and> admin env s"
| "may_write env c s (WDelete n) \<longleftrightarrow> (\<exists>u. c = DeleteUser u) \<and> (own_name n s \<or> admin env s)"

definition wrote :: "(hash_write \<Rightarrow> bool) \<Rightarrow> hash_db \<Rightarrow> hash_db \<Rightarrow> bool" where
  "wrote P db db' \<longleftrightarrow> (\<exists>ws. list_all P ws \<and> db' = fold do_write ws db)"

lemma wrote_refl [simp, intro]: "wrote P db db"
  unfolding wrote_def by (rule exI [of _ "[]"]) simp

lemma wrote_one [intro]: "P w \<Longrightarrow> wrote P db (do_write w db)"
  unfolding wrote_def by (rule exI [of _ "[w]"]) simp

lemma wrote_trans: "wrote P db db' \<Longrightarrow> wrote P db' db'' \<Longrightarrow> wrote P db db''"
  unfolding wrote_def by (metis fold_append list_all_append comp_apply)

lemma wrote_mono: "wrote P db db' \<Longrightarrow> (\<And>w. P w \<Longrightarrow> Q w) \<Longrightarrow> wrote Q db db'"
  unfolding wrote_def by (metis list_all_iff)

lemma wrote_invariant:
  assumes "wrote P db db'" and "Q db" and "\<And>w db. P w \<Longrightarrow> Q db \<Longrightarrow> Q (do_write w db)"
  shows "Q db'"
proof -
  from assms(1) obtain ws where "list_all P ws" "db' = fold do_write ws db" by (auto simp: wrote_def)
  then show ?thesis using assms(2,3) by (induction ws arbitrary: db) auto
qed

section \<open>What a command writes\<close>

lemma on_db_parts: "on_db f s = (x, s') \<longleftrightarrow> x = fst (f (s_db s)) \<and> s' = s\<lparr>s_server := (s_server s)\<lparr>hs_db := snd (f (s_db s))\<rparr>\<rparr>"
  by (auto simp: on_db_def split: prod.splits)

definition hashes_only :: "server_env \<Rightarrow> hash_write \<Rightarrow> bool" where
  "hashes_only env w \<longleftrightarrow> up_server env \<noteq> None \<and> (\<exists>m t u r. w = WUni m t u \<or> w = WOut r)"

lemma update_unified_wrote:
  "up_server env \<noteq> None \<Longrightarrow> wrote (hashes_only env) db (update_unified env x db)"
proof -
  assume up: "up_server env \<noteq> None"
  obtain r u where x: "x = (r, u)" by (cases x)
  have "wrote (hashes_only env) db (do_write (WUni (u_method u) (u_taskhash u) (u_unihash u)) db)"
    using up by (intro wrote_one) (simp add: hashes_only_def)
  moreover have "wrote (hashes_only env) db1 (do_write (WOut r) db1)" for db1
    using up by (intro wrote_one) (simp add: hashes_only_def)
  ultimately show ?thesis unfolding x update_unified_def prod.case insert_stale by (rule wrote_trans)
qed

lemma queries_wrote:
  "wrote (hashes_only env) db (snd (get_unihash_full env m t db))"
  "get_unihash env m t db = Inr (x, db') \<Longrightarrow> wrote (hashes_only env) db db'"
  "wrote (hashes_only env) db (snd (server_get_outhash env m h t w db))"
  "wrote (hashes_only env) db (snd (report_readonly env p db))"
proof -
  show "wrote (hashes_only env) db (snd (get_unihash_full env m t db))"
    using update_unified_wrote [of env] by (auto simp: get_unihash_full_def split: option.splits)
  show "get_unihash env m t db = Inr (x, db') \<Longrightarrow> wrote (hashes_only env) db db'"
    by (auto simp: get_unihash_def hashes_only_def  split: option.splits)
  show *: "wrote (hashes_only env) db (snd (server_get_outhash env m h t w db))" for m h t w
    using update_unified_wrote [of env] by (auto simp: server_get_outhash_def split: option.splits)
  show "wrote (hashes_only env) db (snd (report_readonly env p db))"
    using * [of "p_method p" "p_outhash p" "p_taskhash p" True] by (simp add: report_readonly_def split_def Let_def)
qed

lemma stream_db:
  "(\<And>l hs msg hs'. f l hs = Inr (msg, hs') \<Longrightarrow> hs_db hs' = hs_db hs) \<Longrightarrow> hs_db (snd (stream_handler f ls hs)) = hs_db hs"
proof (induction ls arbitrary: hs)
  case (Cons l ls)
  show ?case
  proof (cases "f l hs")
    case (Inr x)
    then obtain msg hs1 where "f l hs = Inr (msg, hs1)" by (cases x) auto
    with Cons show ?thesis by (auto simp: split_def Let_def)
  qed simp
qed simp

lemma stream_lines_db:
  "get_stream_line env l hs = Inr (msg, hs') \<Longrightarrow> hs_db hs' = hs_db hs"
  "exists_stream_line env l hs = Inr (msg, hs') \<Longrightarrow> hs_db hs' = hs_db hs"
  by (auto simp: get_stream_line_def exists_stream_line_def split: list.splits option.splits if_splits)

lemma backfill_wrote: "wrote (hashes_only env) (hs_db hs) (hs_db (backfill_step env hs))"
  by (auto simp: backfill_step_def hashes_only_def  split: list.splits option.splits)

lemma backfills_wrote: "wrote (hashes_only env) (hs_db hs) (hs_db ((backfill_step env ^^ n) hs))"
  by (induction n) (auto intro: wrote_trans backfill_wrote)

lemma permitted_Inr: "permitted env ps a h s = Inr x \<longleftrightarrow> user_has_permissions env ps a s \<and> h s = Inr x"
  by (simp add: permitted_def)

lemma self_service_Inr:
  assumes "self_service env ps name h s = Inr x"
  obtains n where "h n s = Inr x" and "own_name n s \<or> user_has_permissions env ps False s" and "name = None \<or> name = Some n"
proof (cases "s_user s")
  case None
  with assms that show ?thesis
    by (cases name) (auto simp: self_service_def permitted_Inr)
next
  case (Some u)
  show ?thesis
  proof (cases "name = None \<or> name = Some (username u)")
    case True
    with Some assms have "h (username u) s = Inr x" by (simp add: self_service_def)
    with True Some that [of "username u"] show ?thesis by (auto simp: own_name_def)
  next
    case False
    with Some assms that show ?thesis
      by (cases name) (auto simp: self_service_def permitted_Inr)
  qed
qed

lemma answer_Inr: "answer f h s = Inr (r, s') \<longleftrightarrow> (\<exists>x. h s = Inr (x, s') \<and> r = f x)"
  by (auto simp: answer_def bindE_Inr_iff)

lemma pure_db_Inr:
  "pure_db f s = Inr (x, s') \<longleftrightarrow> x = fst (f (s_db s)) \<and> s' = s\<lparr>s_server := (s_server s)\<lparr>hs_db := snd (f (s_db s))\<rparr>\<rparr>"
  by (cases "f (s_db s)") (auto simp: pure_db_def on_db_def)

lemma on_server_Inr: "on_server f s = Inr (x, s') \<longleftrightarrow> (\<exists>hs. f (s_server s) = Inr (x, hs) \<and> s' = s\<lparr>s_server := hs\<rparr>)"
proof (cases "f (s_server s)")
  case (Inr y)
  obtain a hs where "y = (a, hs)" by (cases y)
  with Inr show ?thesis by (auto simp: on_server_def raised_def)
qed (simp add: on_server_def raised_def)

lemma report_write_wrote:
  assumes "report_write env row p db = Inr (t, db')"
  shows "wrote (\<lambda>w. \<exists>m t u r. w = WUni m t u \<or> w = WOut r) db db'"
proof -
  let ?P = "\<lambda>w. \<exists>m t u r. w = WUni m t u \<or> w = WOut r"
  obtain new db1 where 1: "insert_outhash (stale_rowid env) row db = (new, db1)" by fastforce
  then have "db1 = do_write (WOut row) db" using insert_stale(2) [of "stale_rowid env" row db] by simp
  then have w1: "wrote ?P db db1" by (simp add: wrote_one)
  define db2 where "db2 = (if new then snd (insert_unihash (stale_rowid env) (p_method p) (p_taskhash p) (new_unihash env p db1) db1) else db1)"
  then have w2: "wrote ?P db1 db2" by (cases new) (simp_all add: wrote_one)
  have "report_write env row p db = bindE (get_unihash env (p_method p) (p_taskhash p) db2) (\<lambda>(found, db).
      Inr ((p_method p, p_taskhash p, case found of None \<Rightarrow> p_unihash p | Some (_, _, u) \<Rightarrow> u), db))"
    by (simp only: report_write_def 1 Let_def db2_def prod.case)
  with assms obtain found where "get_unihash env (p_method p) (p_taskhash p) db2 = Inr (found, db')" by auto
  from queries_wrote(2) [OF this] have "wrote ?P db2 db'" by (rule wrote_mono) (auto simp: hashes_only_def)
  with w1 w2 wrote_trans show ?thesis by blast
qed

text \<open>What a command writes is what it may write.\<close>

lemma session_db [simp]: "s_db (s\<lparr>s_server := (s_server s)\<lparr>hs_db := db\<rparr>\<rparr>) = db"
  by simp

lemma hashes_only_may: "wrote (hashes_only env) db db' \<Longrightarrow> wrote (may_write env c s) db db'"
  by (erule wrote_mono) (auto simp: hashes_only_def)

lemma command_wrote:
  assumes "run_command env now c s = Inr (r, s')"
  shows "wrote (may_write env c s) (s_db s) (s_db s')"
proof (cases c)
  case Ping
  with assms show ?thesis by simp
next
  case (Get m t full)
  with assms queries_wrote(1) [of env "s_db s" m t] queries_wrote(2) [of env m t "s_db s"] show ?thesis
    by (intro hashes_only_may)
      (auto simp: permitted_Inr answer_Inr pure_db_Inr on_server_Inr split: if_splits)
next
  case (GetOuthash m h t w)
  with assms queries_wrote(3) [of env "s_db s" m h t w] show ?thesis
    by (intro hashes_only_may) (auto simp: permitted_Inr answer_Inr pure_db_Inr)
next
  case (GetStream ls)
  have "hs_db (snd (stream_handler (get_stream_line env) ls hs)) = hs_db hs" for hs
    by (rule stream_db) (rule stream_lines_db)
  with GetStream assms show ?thesis
    by (auto simp: permitted_Inr answer_Inr pure_server_def on_server_Inr) (metis snd_conv wrote_refl)
next
  case (ExistsStream ls)
  have "hs_db (snd (stream_handler (exists_stream_line env) ls hs)) = hs_db hs" for hs
    by (rule stream_db) (rule stream_lines_db)
  with ExistsStream assms show ?thesis
    by (auto simp: permitted_Inr answer_Inr pure_server_def on_server_Inr) (metis snd_conv wrote_refl)
next
  case (Report p)
  with assms obtain t where t: "handle_report env now p s = Inr (t, s')" by (auto simp: permitted_Inr answer_Inr)
  show ?thesis
  proof (cases "read_only env \<or> \<not> user_has_permissions env [REPORT_PERM] True s")
    case True
    with t queries_wrote(4) [of env "s_db s" p] show ?thesis
      by (intro hashes_only_may) (auto simp: handle_report_def on_db_parts)
  next
    case False
    with t obtain db where db: "report_write env (report_row env now p s) p (s_db s) = Inr (t, db)" "s_db s' = db"
      by (auto simp: handle_report_def raised_def bindE_Inr_iff split: sum.splits)
    from report_write_wrote [OF db(1)] db(2) show ?thesis
      using False Report by (auto simp: may_report_def elim!: wrote_mono)
  qed
next
  case (ReportEquiv m t u)
  with assms show ?thesis
    by (auto simp: permitted_Inr answer_Inr handle_equivreport_def on_db_def split_def Let_def may_report_def
          intro!: wrote_one split: option.splits)
next
  case BackfillWait
  with assms backfills_wrote [of env "s_server s"] show ?thesis
    by (intro hashes_only_may) (auto simp: permitted_Inr answer_Inr handle_backfill_wait_def Let_def split: if_splits)
next
  case (Remove cond)
  with assms wrote_one [of "may_write env c s" "WRemove cond" "s_db s"] show ?thesis
    by (auto simp: permitted_Inr answer_Inr pure_db_Inr db_admin_def other_writes)
next
  case (GcMark m cond)
  with assms wrote_one [of "may_write env c s" "WMark m cond" "s_db s"] show ?thesis
    by (auto simp: permitted_Inr answer_Inr pure_db_Inr db_admin_def other_writes)
next
  case (GcSweep m)
  with assms wrote_one [of "may_write env c s" WSweep "s_db s"] show ?thesis
    by (auto simp: permitted_Inr answer_Inr handle_gc_sweep_def on_db_parts db_admin_def other_writes split: option.splits if_splits)
next
  case (CleanUnused age)
  with assms wrote_one [of "may_write env c s" "WClean (iso_time env (now - (- age)))" "s_db s"] show ?thesis
    by (auto simp: permitted_Inr answer_Inr handle_clean_unused_def on_db_parts db_admin_def other_writes)
next
  case (RefreshToken u)
  with assms obtain n x where n: "handle_refresh_token env n s = Inr (x, s')" "own_name n s \<or> admin env s"
    by (auto simp: answer_Inr admin_def elim!: self_service_Inr)
  with wrote_one [of "may_write env c s" "WToken n (fresh_token env)" "s_db s"] RefreshToken show ?thesis
    by (auto simp: handle_refresh_token_def on_db_def split_def Let_def other_writes split: if_splits)
next
  case (SetUserPerms n qs)
  with assms obtain x where x: "handle_set_perms n qs s = Inr (x, s')" "admin env s"
    by (auto simp: permitted_Inr answer_Inr admin_def)
  then obtain ps where ps: "get_perm_arg qs = Inr ps" "s_db s' = do_write (WPerms n ps) (s_db s)"
    by (auto simp: handle_set_perms_def on_db_def split_def Let_def other_writes split: if_splits)
  with wrote_one [of "may_write env c s" "WPerms n ps" "s_db s"] SetUserPerms x(2) show ?thesis by auto
next
  case (NewUser n qs)
  with assms obtain x where x: "handle_new_user env n qs s = Inr (x, s')" "admin env s"
    by (auto simp: permitted_Inr answer_Inr admin_def)
  then obtain ps where ps: "get_perm_arg qs = Inr ps" "s_db s' = do_write (WNew n ps (fresh_token env)) (s_db s)"
    by (auto simp: handle_new_user_def on_db_def split_def Let_def other_writes split: if_splits)
  with wrote_one [of "may_write env c s" "WNew n ps (fresh_token env)" "s_db s"] NewUser x(2) show ?thesis by auto
next
  case (DeleteUser u)
  with assms obtain n x where n: "handle_delete_user n s = Inr (x, s')" "own_name n s \<or> admin env s"
    by (auto simp: answer_Inr admin_def elim!: self_service_Inr)
  with wrote_one [of "may_write env c s" "WDelete n" "s_db s"] DeleteUser show ?thesis
    by (auto simp: handle_delete_user_def on_db_def split_def Let_def other_writes split: if_splits)
next
  case (Auth n t)
  with assms show ?thesis by (auto simp: answer_Inr handle_auth_def split: option.splits list.splits if_splits)
next
  case (BecomeUser n)
  with assms show ?thesis by (auto simp: permitted_Inr answer_Inr handle_become_user_def split: option.splits)
next
  case (GetUser u)
  with assms show ?thesis by (auto simp: answer_Inr handle_get_user_def elim!: self_service_Inr)
qed (use assms in \<open>auto simp: permitted_Inr answer_Inr pure_db_Inr handle_get_all_users_def split_def\<close>)

end
