(* ===== verification/HashRuns.thy ===== *)
theory HashRuns
  imports HashServerProps
begin

text \<open>
  Runs of the hash equivalence server with any number of connections, as a step relation, and what
  holds in every state they reach.
\<close>

section \<open>Runs\<close>

text \<open>
  A state is the server and the user of each connection.  \<open>Q\<close> restricts the commands of a run.  A
  request that ends in an error changes nothing.
\<close>

type_synonym hash_state = "hash_server \<times> (nat \<Rightarrow> hash_user option)"

inductive hash_step :: "server_env \<Rightarrow> (command \<Rightarrow> bool) \<Rightarrow> hash_state \<Rightarrow> hash_state \<Rightarrow> bool" for env Q where
  message:
    "list_all Q msg \<Longrightarrow> dispatch_message env now msg \<lparr>s_user = us i, s_server = hs\<rparr> = Inr (r, s') \<Longrightarrow>
     hash_step env Q (hs, us) (s_server s', us(i := s_user s'))"
| backfill: "hash_step env Q (hs, us) (backfill_step env hs, us)"
| hangup: "hash_step env Q (hs, us) (hs, us(i := None))"
| restart: "hash_step env Q (hs, us) (hs\<lparr>hs_backfill := []\<rparr>, \<lambda>_. None)"

definition hash_start :: "server_env \<Rightarrow> (string \<times> string) option \<Rightarrow> hash_state \<Rightarrow> bool" where
  "hash_start env adm st \<longleftrightarrow>
     (\<exists>hs. Server env = Inr hs \<and>
       st = ((case adm of None \<Rightarrow> hs | Some (n, p) \<Rightarrow> hs\<lparr>hs_db := create_admin_user env n p (hs_db hs)\<rparr>), \<lambda>_. None))"

definition hash_reach :: "server_env \<Rightarrow> (command \<Rightarrow> bool) \<Rightarrow> (string \<times> string) option \<Rightarrow> hash_state \<Rightarrow> bool" where
  "hash_reach env Q adm st \<longleftrightarrow> (\<exists>st0. hash_start env adm st0 \<and> (hash_step env Q)\<^sup>*\<^sup>* st0 st)"

lemma dispatch_command:
  assumes "dispatch_message env now msg s = Inr (r, s')"
  obtains c where "c \<in> set msg" and "command_name c \<in> set (handler_names env)" and "run_command env now c s = Inr (r, s')"
proof -
  from assms obtain k where k: "find (\<lambda>k. k \<in> set (map command_name msg)) (handler_names env) = Some k"
    by (auto simp: dispatch_message_def split: option.splits)
  with assms obtain c where c: "find (\<lambda>c. command_name c = k) msg = Some c" "run_command env now c s = Inr (r, s')"
    by (auto simp: dispatch_message_def split: option.splits)
  from find_SomeD [OF k] find_SomeD [OF c(1)] c(2) that show ?thesis by blast
qed

text \<open>The writes of a step: those that one of the commands may lead to.\<close>

definition run_write :: "server_env \<Rightarrow> (command \<Rightarrow> bool) \<Rightarrow> hash_write \<Rightarrow> bool" where
  "run_write env Q w \<longleftrightarrow> (\<exists>c s. Q c \<and> command_name c \<in> set (handler_names env) \<and> may_write env c s w) \<or> hashes_only env w"

lemma step_wrote:
  assumes "hash_step env Q st st'"
  shows "wrote (run_write env Q) (hs_db (fst st)) (hs_db (fst st'))"
  using assms
proof cases
  case (message msg now us i hs r s')
  from message(4) obtain c where c: "c \<in> set msg" "command_name c \<in> set (handler_names env)"
    and run: "run_command env now c \<lparr>s_user = us i, s_server = hs\<rparr> = Inr (r, s')" by (rule dispatch_command)
  have "wrote (run_write env Q) (hs_db hs) (s_db s')"
    using c message(3) by (intro wrote_mono [OF command_wrote [OF run, simplified]]) (auto simp: run_write_def list_all_iff)
  with message(1,2) show ?thesis by simp
next
  case (backfill hs us)
  with backfill_wrote [of env hs] show ?thesis by (auto simp: run_write_def elim!: wrote_mono)
qed auto

lemma steps_wrote:
  assumes "(hash_step env Q)\<^sup>*\<^sup>* st st'"
  shows "wrote (run_write env Q) (hs_db (fst st)) (hs_db (fst st'))"
  using assms by (induction rule: rtranclp_induct) (auto intro: wrote_trans step_wrote)

section \<open>The keys of the tables\<close>

definition keys_unique :: "hash_db \<Rightarrow> bool" where
  "keys_unique db \<longleftrightarrow>
     distinct (map (\<lambda>u. (u_method u, u_taskhash u)) (unihashes db)) \<and>
     distinct (map (\<lambda>r. (o_method r, o_taskhash r, o_outhash r)) (outhashes db)) \<and>
     distinct (map r_username (users db))"

lemma map_filter_distinct: "distinct (map f xs) \<Longrightarrow> distinct (map f (filter p xs))"
  by (induction xs) auto

lemma write_unique: "keys_unique db \<Longrightarrow> keys_unique (do_write w db)"
proof (induction w)
  case (WMark m c)
  have "map (\<lambda>u. (u_method u, u_taskhash u)) (map (mark_row wh x) us) = map (\<lambda>u. (u_method u, u_taskhash u)) us" for wh x us
    by (induction us) auto
  with WMark show ?case by (simp add: keys_unique_def do_write.simps db_gc_mark_def set_config_def Let_def del: map_map)
next
  case (WToken n t)
  have "map r_username (map (update_row n (\<lambda>r. r\<lparr>r_token := t\<rparr>)) us) = map r_username us" for us
    by (induction us) (auto simp: update_row_def)
  with WToken show ?case by (simp add: keys_unique_def do_write.simps set_user_token_def update_user_def del: map_map)
next
  case (WPerms n ps)
  have "map r_username (map (update_row n (\<lambda>r. r\<lparr>r_permissions := p\<rparr>)) us) = map r_username us" for us p
    by (induction us) (auto simp: update_row_def)
  with WPerms show ?case by (simp add: keys_unique_def do_write.simps set_user_perms_def update_user_def del: map_map)
qed (auto simp: keys_unique_def do_write.simps insert_unihash_def insert_outhash_def db_remove_def remove_rows_def db_gc_sweep_def
    db_clean_unused_def new_user_def delete_user_def set_config_def same_out_def list_ex_iff Let_def map_filter_distinct)

lemma create_admin_unique: "keys_unique db \<Longrightarrow> keys_unique (create_admin_user env n p db)"
proof -
  assume u: "keys_unique db"
  let ?t = "hash_token env TOKEN_ALGORITHM (new_salt env) p"
  have "create_admin_user env n p db = do_write (WNew n [ALL_PERM] ?t) db \<or>
      create_admin_user env n p db = do_write (WToken n ?t) (do_write (WPerms n [ALL_PERM]) db)"
    by (auto simp: create_admin_user_def new_user_def do_write.simps)
  with u show ?thesis using write_unique by metis
qed

lemma start_unique: "hash_start env adm st \<Longrightarrow> keys_unique (hs_db (fst st))"
proof -
  have "keys_unique new_db" by (simp add: keys_unique_def new_db_def)
  then show "hash_start env adm st \<Longrightarrow> keys_unique (hs_db (fst st))"
    using create_admin_unique by (auto simp: hash_start_def Server_def Let_def split: option.splits if_splits)
qed

text \<open>
  C34: the keys of the tables.  In every state that any number of connections reach with any commands,
  through restarts and fetches from the upstream server included, no two rows have the same method
  and task hash, no two reports the same method, task hash and output, and no two users one name.
\<close>

theorem reach_unique: "hash_reach env Q adm (hs, us) \<Longrightarrow> keys_unique (hs_db hs)"
  unfolding hash_reach_def using steps_wrote start_unique wrote_invariant [where Q = keys_unique] write_unique
  by (metis fst_conv)

section \<open>Unihashes stay\<close>

definition unihash_of :: "hash_db \<Rightarrow> string \<Rightarrow> string \<Rightarrow> string option" where
  "unihash_of db m t = map_option u_unihash (get_equivalent m t db)"

lemma get_equivalent_append:
  "get_equivalent m t (db\<lparr>unihashes := unihashes db @ [u]\<rparr>) =
    (case get_equivalent m t db of None \<Rightarrow> if u_method u = m \<and> u_taskhash u = t then Some u else None | Some v \<Rightarrow> Some v)"
  by (simp add: get_equivalent_def find_append split: option.split)

definition removing :: "hash_write \<Rightarrow> bool" where
  "removing w \<longleftrightarrow> w = WSweep \<or> (\<exists>c. w = WRemove c)"

lemma write_keeps_unihash:
  assumes "unihash_of db m t = Some h" and "\<not> removing w"
  shows "unihash_of (do_write w db) m t = Some h"
  using assms
proof (induction w)
  case (WUni m' t' u)
  then show ?case
    by (auto simp: unihash_of_def do_write.simps insert_unihash_def get_equivalent_append)
next
  case (WMark mark c)
  have "find (\<lambda>u. u_method u = m \<and> u_taskhash u = t) (map (mark_row wh x) us) =
      map_option (mark_row wh x) (find (\<lambda>u. u_method u = m \<and> u_taskhash u = t) us)" for wh x us
    by (rule find_map_same) simp
  with WMark show ?case
    by (auto simp: unihash_of_def do_write.simps db_gc_mark_def get_equivalent_def set_config_def Let_def)
qed (auto simp: unihash_of_def removing_def do_write.simps insert_outhash_def get_equivalent_def db_clean_unused_def
    set_user_token_def set_user_perms_def update_user_def new_user_def delete_user_def)

definition no_removal :: "command \<Rightarrow> bool" where
  "no_removal c \<longleftrightarrow> (\<forall>cond. c \<noteq> Remove cond) \<and> (\<forall>m. c \<noteq> GcSweep m)"

lemma run_write_keeps: "run_write env no_removal w \<Longrightarrow> \<not> removing w"
  by (auto simp: run_write_def removing_def no_removal_def hashes_only_def)

text \<open>
  C30: a unihash stays.  Once a task hash has a unihash, it keeps it through every run without the
  commands remove and gc-sweep, whatever is reported for it later, by whom, and what the upstream
  server says.
\<close>

theorem unihash_stays:
  assumes "(hash_step env no_removal)\<^sup>*\<^sup>* (hs, us) (hs', us')" and "unihash_of (hs_db hs) m t = Some h"
  shows "unihash_of (hs_db hs') m t = Some h"
  using wrote_invariant [OF steps_wrote [OF assms(1)], where Q = "\<lambda>db. unihash_of db m t = Some h"]
    assms(2) write_keeps_unihash run_write_keeps by simp

section \<open>Who may change what\<close>

lemma handler_names_read_only:
  "read_only env \<Longrightarrow> command_name c \<in> set (handler_names env) \<Longrightarrow>
   may_write env c s w \<Longrightarrow> up_server env \<noteq> None"
  by (cases c; cases w) (auto simp: handler_names_def may_report_def)

lemma Server_parts:
  "Server env = Inr hs \<Longrightarrow> hs = \<lparr>hs_db = new_db, hs_backfill = []\<rparr> \<and> (read_only env \<longrightarrow> up_server env = None) \<and>
    set (anon_perms env) \<subseteq> {NONE_PERM, READ_PERM, REPORT_PERM, DB_ADMIN_PERM}"
  by (auto simp: Server_def Let_def filter_empty_conv split: if_splits)


text \<open>A connection without the permission to administrate users.\<close>

definition only_own :: "string option \<Rightarrow> hash_db \<Rightarrow> hash_db \<Rightarrow> bool" where
  "only_own me db db' \<longleftrightarrow>
     (\<forall>n r'. get_user n db' = Some r' \<longrightarrow> (\<exists>r. get_user n db = Some r \<and> r_permissions r' = r_permissions r)) \<and>
     (\<forall>n. me \<noteq> Some n \<longrightarrow> get_user n db' = get_user n db)"

lemma get_user_update:
  "(\<And>r. r_username (f r) = r_username r) \<Longrightarrow>
   get_user n (snd (update_user k f db)) = (if n = k then map_option f (get_user n db) else get_user n db)"
proof -
  assume f: "\<And>r. r_username (f r) = r_username r"
  have "find (\<lambda>r. r_username r = n) (map (update_row k f) us) =
      map_option (update_row k f) (find (\<lambda>r. r_username r = n) us)" for us
    by (rule find_map_same) (simp add: update_row_def f)
  moreover have "map_option (update_row k f) (get_user n db) = (if n = k then map_option f (get_user n db) else get_user n db)"
  proof (cases "get_user n db")
    case (Some r)
    then have "r_username r = n" unfolding get_user_def by (auto dest: find_SomeD)
    with Some show ?thesis by (cases "n = k") (auto simp: update_row_def)
  qed auto
  ultimately show ?thesis by (simp add: get_user_def update_user_def)
qed

lemma get_user_delete: "get_user n (snd (delete_user k db)) = (if n = k then None else get_user n db)"
proof -
  have *: "find (\<lambda>r. r_username r = n) (filter (\<lambda>r. r_username r \<noteq> k) us) =
      (if n = k then None else find (\<lambda>r. r_username r = n) us)" for us
    by (induction us) auto
  show ?thesis unfolding get_user_def delete_user_def snd_conv using * [of "users db"] by simp
qed

lemma write_only_own:
  assumes "may_write env c s w" and "\<not> admin env s"
  shows "only_own (map_option username (s_user s)) db (do_write w db)"
  using assms
proof (cases w)
  case (WToken n t)
  with assms show ?thesis
    by (auto simp: only_own_def own_name_def do_write.simps set_user_token_def get_user_update split: if_splits)
next
  case (WDelete n)
  with assms show ?thesis
    by (auto simp: only_own_def own_name_def do_write.simps get_user_delete split: if_splits)
qed (auto simp: only_own_def do_write.simps get_user_def insert_unihash_def insert_outhash_def db_remove_def db_gc_mark_def
    db_gc_sweep_def db_clean_unused_def set_config_def Let_def split: prod.splits)

lemma only_own_refl [simp]: "only_own me db db"
  by (simp add: only_own_def)

lemma only_own_trans: "only_own me db db' \<Longrightarrow> only_own me db' db'' \<Longrightarrow> only_own me db db''"
  unfolding only_own_def by metis

lemma command_keeps_user:
  "run_command env now c s = Inr (r, s') \<Longrightarrow> \<not> admin env s \<Longrightarrow> (\<And>n t. c \<noteq> Auth n t) \<Longrightarrow> s_user s' = s_user s"
  by (cases c)
    (auto simp: permitted_Inr answer_Inr pure_db_Inr on_server_Inr pure_server_def handle_report_def on_db_def handle_equivreport_def
      handle_backfill_wait_def handle_gc_sweep_def handle_clean_unused_def handle_get_user_def handle_get_all_users_def
      handle_refresh_token_def handle_delete_user_def admin_def Let_def split_def elim!: self_service_Inr split: if_splits option.splits)

text \<open>
  C32: users without the permission to administrate.  No message of such a connection, anonymous ones
  included, adds a user or changes the permissions of one, and all rows but that of the user itself
  stay as they are.
\<close>

theorem message_without_admin:
  assumes "dispatch_message env now msg s = Inr (r, s')" and "\<not> admin env s"
  shows "only_own (map_option username (s_user s)) (s_db s) (s_db s')"
proof -
  from assms(1) obtain c where run: "run_command env now c s = Inr (r, s')" by (rule dispatch_command)
  show ?thesis
  proof (rule wrote_invariant [OF command_wrote [OF run], where Q = "only_own (map_option username (s_user s)) (s_db s)"])
    fix w db
    assume "may_write env c s w" and "only_own (map_option username (s_user s)) (s_db s) db"
    then show "only_own (map_option username (s_user s)) (s_db s) (do_write w db)"
      using only_own_trans write_only_own assms(2) by blast
  qed simp
qed

end
