(* ===== verification/HashReports.thy ===== *)
theory HashReports
  imports HashRuns
begin

text \<open>
  What reports to the hash equivalence server agree on: the answer to a report on every branch, and
  that tasks with the same output have the same unihash in every run.
\<close>

section \<open>The answer to a report\<close>

definition known_row :: "out_row \<Rightarrow> hash_db \<Rightarrow> bool" where
  "known_row r db \<longleftrightarrow> list_ex (same_out r) (outhashes db)"

lemma unihash_of_insert:
  "unihash_of (do_write (WUni m t u) db) m' t' =
    (case unihash_of db m' t' of None \<Rightarrow> if m' = m \<and> t' = t then Some u else None | Some h \<Rightarrow> Some h)"
proof (cases "list_ex (\<lambda>r. u_method r = m \<and> u_taskhash r = t) (unihashes db)")
  case True
  then have "find (\<lambda>r. u_method r = m \<and> u_taskhash r = t) (unihashes db) \<noteq> None"
    by (auto simp: find_None_iff list_ex_iff)
  with True show ?thesis
    by (auto simp: unihash_of_def do_write.simps insert_unihash_def get_equivalent_def split: option.splits)
next
  case False
  then show ?thesis
    by (auto simp: unihash_of_def do_write.simps insert_unihash_def get_equivalent_append split: option.splits)
qed

lemma unihash_of_out [simp]: "unihash_of (do_write (WOut r) db) m t = unihash_of db m t"
  by (simp add: unihash_of_def get_equivalent_def do_write.simps insert_outhash_def)

lemma outhashes_writes [simp]:
  "outhashes (do_write (WUni m t u) db) = outhashes db"
  "set (outhashes (do_write (WOut r) db)) = (if known_row r db then {} else {r}) \<union> set (outhashes db)"
  "unihashes (do_write (WOut r) db) = unihashes db"
  by (auto simp: do_write.simps insert_unihash_def insert_outhash_def known_row_def)

lemma joined_new_row:
  assumes "o_taskhash r = t" and "\<not> known_row r db"
  shows "filter (\<lambda>(s, u). o_method s = m \<and> o_outhash s = h \<and> o_taskhash s \<noteq> t) (joined (do_write (WOut r) db)) =
    filter (\<lambda>(s, u). o_method s = m \<and> o_outhash s = h \<and> o_taskhash s \<noteq> t) (joined db)"
proof -
  have "List.product (xs @ [r]) ys = List.product xs ys @ map (Pair r) ys" for xs and ys :: "uni_row list" by (induction xs) auto
  then show ?thesis using assms
    by (simp add: joined_def do_write.simps insert_outhash_def known_row_def filter_map comp_def)
qed

lemma equivalent_new_row:
  "o_taskhash r = t \<Longrightarrow> get_equivalent_for_outhash m h t (do_write (WOut r) db) = get_equivalent_for_outhash m h t db"
  by (cases "known_row r db")
    (simp_all add: get_equivalent_for_outhash_def joined_new_row, simp add: do_write.simps insert_outhash_def known_row_def)

text \<open>Without an upstream server: what the report is worth, and the database after it.\<close>

definition report_worth :: "report \<Rightarrow> hash_db \<Rightarrow> string" where
  "report_worth p db =
     (case unihash_of db (p_method p) (p_taskhash p) of
        Some h \<Rightarrow> h
      | None \<Rightarrow>
          (case get_equivalent_for_outhash (p_method p) (p_outhash p) (p_taskhash p) db of
             Some (_, h) \<Rightarrow> h | None \<Rightarrow> p_unihash p))"

lemma report_write_result:
  assumes none: "up_server env = None" and t: "o_taskhash row = p_taskhash p"
    and fresh: "known_row row db \<longrightarrow> unihash_of db (p_method p) (p_taskhash p) \<noteq> None"
  shows "\<exists>db'. report_write env row p db = Inr ((p_method p, p_taskhash p, report_worth p db), db') \<and>
    unihash_of db' (p_method p) (p_taskhash p) = Some (report_worth p db) \<and>
    db' \<in> {db, do_write (WUni (p_method p) (p_taskhash p) (report_worth p db)) (do_write (WOut row) db)} \<and>
    outhashes db' = outhashes (do_write (WOut row) db)"
proof -
  let ?m = "p_method p" and ?t = "p_taskhash p"
  obtain new db1 where ins: "insert_outhash (stale_rowid env) row db = (new, db1)" by fastforce
  then have db1: "db1 = do_write (WOut row) db" using insert_stale(2) [of "stale_rowid env" row db] by simp
  have new: "new \<longleftrightarrow> \<not> known_row row db \<or> stale_rowid env"
    using ins by (auto simp: insert_outhash_def known_row_def split: if_splits)
  define worth where "worth = new_unihash env p db1"
  define db2 where "db2 = (if new then do_write (WUni ?m ?t worth) db1 else db1)"
  have worth: "worth = (case get_equivalent_for_outhash ?m (p_outhash p) ?t db of Some (_, h) \<Rightarrow> h | None \<Rightarrow> p_unihash p)"
    by (simp add: worth_def new_unihash_def none db1 equivalent_new_row t split: option.splits)
  have known: "unihash_of db2 ?m ?t = Some (report_worth p db)"
    using fresh new by (auto simp: db2_def db1 unihash_of_insert report_worth_def worth split: option.splits)
  then obtain u where u: "get_equivalent ?m ?t db2 = Some u" "u_unihash u = report_worth p db"
    by (auto simp: unihash_of_def)
  have "u_method u = ?m \<and> u_taskhash u = ?t" using u(1) by (auto simp: get_equivalent_def dest: find_SomeD)
  then have "get_unihash env ?m ?t db2 = Inr (Some (?m, ?t, report_worth p db), db2)"
    using u by (simp add: get_unihash_def triple_of_def)
  moreover have "report_write env row p db = bindE (get_unihash env ?m ?t db2) (\<lambda>(found, db).
      Inr ((?m, ?t, case found of None \<Rightarrow> p_unihash p | Some (_, _, u) \<Rightarrow> u), db))"
    by (simp only: report_write_def ins Let_def db2_def worth_def insert_stale prod.case)
  moreover have "db2 \<in> {db, do_write (WUni ?m ?t (report_worth p db)) (do_write (WOut row) db)}"
  proof (cases "unihash_of db ?m ?t")
    case None
    then show ?thesis using fresh new by (simp add: db2_def db1 report_worth_def worth)
  next
    case (Some h)
    then have "list_ex (\<lambda>u. u_method u = ?m \<and> u_taskhash u = ?t) (unihashes db1)"
      by (auto simp: unihash_of_def get_equivalent_def db1 list_ex_iff dest!: find_SomeD)
    then have same: "do_write (WUni ?m ?t x) db1 = db1" for x by (simp add: do_write.simps insert_unihash_def)
    then have "db2 = db1" by (simp add: db2_def)
    moreover have "db1 = db" if "known_row row db" using that by (simp add: db1 do_write.simps insert_outhash_def known_row_def)
    ultimately show ?thesis using same by (simp add: db1)
  qed
  moreover have "outhashes db2 = outhashes (do_write (WOut row) db)" by (simp add: db2_def db1)
  ultimately show ?thesis using known by simp
qed

section \<open>Equal outputs\<close>

text \<open>
  Every reported row has a unihash, every unihash belongs to a reported row, and rows of one output
  agree as long as every task hash is reported with one output.
\<close>

definition one_output :: "hash_db \<Rightarrow> bool" where
  "one_output db \<longleftrightarrow>
     (\<forall>r \<in> set (outhashes db). \<forall>s \<in> set (outhashes db).
        o_method r = o_method s \<longrightarrow> o_taskhash r = o_taskhash s \<longrightarrow> o_outhash r = o_outhash s)"

definition row_unihash :: "hash_db \<Rightarrow> out_row \<Rightarrow> string option" where
  "row_unihash db r = unihash_of db (o_method r) (o_taskhash r)"

definition outputs_agree :: "hash_db \<Rightarrow> bool" where
  "outputs_agree db \<longleftrightarrow>
     (\<forall>r \<in> set (outhashes db). \<forall>s \<in> set (outhashes db).
        o_method r = o_method s \<longrightarrow> o_outhash r = o_outhash s \<longrightarrow> row_unihash db r = row_unihash db s)"

definition reports_inv :: "hash_db \<Rightarrow> bool" where
  "reports_inv db \<longleftrightarrow>
     (\<forall>r \<in> set (outhashes db). row_unihash db r \<noteq> None) \<and>
     (\<forall>m t. unihash_of db m t \<noteq> None \<longrightarrow> (\<exists>r \<in> set (outhashes db). o_method r = m \<and> o_taskhash r = t)) \<and>
     (one_output db \<longrightarrow> outputs_agree db)"

lemma reports_inv_same:
  "outhashes db' = outhashes db \<Longrightarrow> unihash_of db' = unihash_of db \<Longrightarrow> reports_inv db' = reports_inv db"
  by (simp only: reports_inv_def one_output_def outputs_agree_def row_unihash_def)

fun hash_row_write :: "hash_write \<Rightarrow> bool" where
  "hash_row_write (WUni _ _ _) = True"
| "hash_row_write (WOut _) = True"
| "hash_row_write _ = False"

lemma other_write_reports:
  assumes "reports_inv db" and "\<not> hash_row_write w" and "\<not> removing w"
  shows "reports_inv (do_write w db)"
proof -
  have "outhashes (do_write w db) = outhashes db \<and> unihash_of (do_write w db) = unihash_of db"
  proof (cases w)
    case (WMark mark c)
    have "find (\<lambda>u. u_method u = m \<and> u_taskhash u = t) (map (mark_row wh x) us) =
        map_option (mark_row wh x) (find (\<lambda>u. u_method u = m \<and> u_taskhash u = t) us)" for wh x us m t
      by (rule find_map_same) simp
    with WMark show ?thesis
      by (auto simp: fun_eq_iff unihash_of_def other_writes db_gc_mark_def get_equivalent_def set_config_def Let_def
          option.map_comp comp_def)
  next
    case (WClean old)
    have "\<not> unused_before old db r" if "r \<in> set (outhashes db)" for r
    proof -
      from assms(1) that obtain u where "get_equivalent (o_method r) (o_taskhash r) db = Some u"
        by (auto simp: reports_inv_def row_unihash_def unihash_of_def)
      then have "list_ex (\<lambda>u. u_method u = o_method r \<and> u_taskhash u = o_taskhash r) (unihashes db)"
        unfolding get_equivalent_def by (auto simp: list_ex_iff dest: find_SomeD)
      then show ?thesis by (simp add: unused_before_def)
    qed
    with WClean show ?thesis
      by (simp add: fun_eq_iff unihash_of_def get_equivalent_def other_writes db_clean_unused_def)
  qed (use assms(2,3) in \<open>auto simp: fun_eq_iff removing_def unihash_of_def get_equivalent_def other_writes
      set_user_token_def set_user_perms_def update_user_def new_user_def delete_user_def\<close>)
  with reports_inv_same assms(1) show ?thesis by blast
qed

text \<open>The rows that a report is compared with.\<close>

lemma equivalent_row:
  assumes "get_equivalent_for_outhash m h t db = Some (x, y)" and "keys_unique db"
  shows "\<exists>r \<in> set (outhashes db). o_method r = m \<and> o_outhash r = h \<and> o_taskhash r \<noteq> t \<and> row_unihash db r = Some y"
proof -
  from assms(1) obtain r u where "oldest_by (\<lambda>(r, u). o_created r)
      (filter (\<lambda>(r, u). o_method r = m \<and> o_outhash r = h \<and> o_taskhash r \<noteq> t) (joined db)) = Some (r, u)" and y: "y = u_unihash u"
    by (auto simp: get_equivalent_for_outhash_def)
  from oldest_by_in [OF this(1)] have r: "r \<in> set (outhashes db)" "o_method r = m" "o_outhash r = h" "o_taskhash r \<noteq> t"
    and u: "u \<in> set (unihashes db)" "u_method u = o_method r" "u_taskhash u = o_taskhash r"
    by (auto simp: joined_def)
  from u obtain v where v: "get_equivalent (o_method r) (o_taskhash r) db = Some v"
    by (cases "get_equivalent (o_method r) (o_taskhash r) db") (auto simp: get_equivalent_def find_None_iff)
  then have "v \<in> set (unihashes db)" "u_method v = u_method u" "u_taskhash v = u_taskhash u"
    using u by (auto simp: get_equivalent_def dest: find_SomeD)
  with u(1) assms(2) have "v = u"
    by (auto simp: keys_unique_def distinct_map inj_on_def)
  with v y r show ?thesis by (auto simp: row_unihash_def unihash_of_def)
qed

lemma no_equivalent_row:
  assumes "get_equivalent_for_outhash m h t db = None" and "r \<in> set (outhashes db)"
    and "o_method r = m" and "o_outhash r = h" and "row_unihash db r \<noteq> None"
  shows "o_taskhash r = t"
proof (rule ccontr)
  assume ne: "o_taskhash r \<noteq> t"
  from assms(5) obtain u where "get_equivalent (o_method r) (o_taskhash r) db = Some u"
    by (auto simp: row_unihash_def unihash_of_def)
  then have "(r, u) \<in> set (filter (\<lambda>(r, u). o_method r = m \<and> o_outhash r = h \<and> o_taskhash r \<noteq> t) (joined db))"
    using assms(2-4) ne by (auto simp: joined_def get_equivalent_def dest: find_SomeD)
  then show False using assms(1) by (auto simp: get_equivalent_for_outhash_def filter_empty_conv)
qed

lemma one_output_mono: "one_output db' \<Longrightarrow> set (outhashes db) \<subseteq> set (outhashes db') \<Longrightarrow> one_output db"
  unfolding one_output_def by blast

lemma new_report_inv:
  assumes inv: "reports_inv db" and uniq: "keys_unique db"
    and row: "o_method row = p_method p" "o_taskhash row = p_taskhash p" "o_outhash row = p_outhash p"
  shows "reports_inv (do_write (WUni (p_method p) (p_taskhash p) (report_worth p db)) (do_write (WOut row) db))"
    (is "reports_inv ?db")
proof -
  let ?m = "p_method p" and ?t = "p_taskhash p" and ?h = "report_worth p db"
  have uni: "unihash_of ?db m t = (if m = ?m \<and> t = ?t then Some ?h else unihash_of db m t)" for m t
    by (auto simp: unihash_of_insert report_worth_def split: option.splits)
  have known: "\<exists>r \<in> set (outhashes db). same_out row r" if "known_row row db"
    using that by (auto simp: known_row_def list_ex_iff)
  have outs: "r \<in> set (outhashes ?db) \<longleftrightarrow> r \<in> set (outhashes db) \<or> r = row \<and> \<not> known_row row db" for r by auto
  have row_uni: "row_unihash ?db r = (if o_method r = ?m \<and> o_taskhash r = ?t then Some ?h else row_unihash db r)" for r
    by (simp add: row_unihash_def uni)
  have "\<forall>r \<in> set (outhashes ?db). row_unihash ?db r \<noteq> None"
    using inv row by (auto simp: reports_inv_def row_uni)
  moreover have "\<exists>r \<in> set (outhashes ?db). o_method r = m \<and> o_taskhash r = t" if "unihash_of ?db m t \<noteq> None" for m t
  proof (cases "m = ?m \<and> t = ?t")
    case True
    then show ?thesis using row known by (cases "known_row row db") (auto simp: same_out_def)
  next
    case False
    with that uni inv have "\<exists>r \<in> set (outhashes db). o_method r = m \<and> o_taskhash r = t" by (auto simp: reports_inv_def)
    then show ?thesis by auto
  qed
  moreover have "outputs_agree ?db" if one: "one_output ?db"
  proof -
    have "one_output db" by (rule one_output_mono [OF one]) auto
    with inv have agree: "outputs_agree db" by (simp add: reports_inv_def)
    have worth: "row_unihash db r = Some ?h" if r: "r \<in> set (outhashes db)" "o_method r = ?m" "o_outhash r = p_outhash p" for r
    proof (cases "unihash_of db ?m ?t")
      case (Some h)
      then have "unihash_of db ?m ?t \<noteq> None" by simp
      with inv obtain s where s: "s \<in> set (outhashes db)" "o_method s = ?m" "o_taskhash s = ?t"
        unfolding reports_inv_def by blast
      obtain s' where s': "s' \<in> set (outhashes ?db)" "o_method s' = ?m" "o_taskhash s' = ?t" "o_outhash s' = p_outhash p"
        using row known by (cases "known_row row db") (auto simp: same_out_def)
      have "s \<in> set (outhashes ?db)" using s(1) unfolding outs by simp
      from one [unfolded one_output_def, rule_format, OF this s'(1)] s s' have "o_outhash s = p_outhash p" by simp
      then have "row_unihash db r = row_unihash db s"
        using agree [unfolded outputs_agree_def, rule_format, OF r(1) s(1)] r(2,3) s(2) by simp
      with s Some show ?thesis by (simp add: row_unihash_def report_worth_def)
    next
      case None
      show ?thesis
      proof (cases "get_equivalent_for_outhash ?m (p_outhash p) ?t db")
        case (Some xy)
        obtain x y where xy: "xy = (x, y)" by (cases xy)
        with Some equivalent_row [OF _ uniq] obtain s where "s \<in> set (outhashes db)" "o_method s = ?m"
          "o_outhash s = p_outhash p" "row_unihash db s = Some y" by blast
        with agree r have "row_unihash db r = Some y" unfolding outputs_agree_def by metis
        then show ?thesis using None Some xy by (simp add: report_worth_def)
      next
        case none: None
        have "row_unihash db r \<noteq> None" using inv r(1) by (simp add: reports_inv_def)
        with no_equivalent_row [OF none r] have "unihash_of db ?m ?t \<noteq> None" using r by (simp add: row_unihash_def)
        with None show ?thesis by simp
      qed
    qed
    have "row_unihash ?db r = row_unihash ?db s"
      if rs: "r \<in> set (outhashes ?db)" "s \<in> set (outhashes ?db)" "o_method r = o_method s" "o_outhash r = o_outhash s" for r s
    proof -
      have hit: "row_unihash ?db x = Some ?h" if "x \<in> set (outhashes ?db)" "o_method x = ?m" "o_outhash x = p_outhash p" for x
        using that worth [of x] row unfolding outs by (auto simp: row_uni)
      obtain y where y: "y \<in> set (outhashes ?db)" "o_method y = ?m" "o_taskhash y = ?t" "o_outhash y = p_outhash p"
        using row known by (cases "known_row row db") (auto simp: same_out_def)
      have only: "o_outhash x = p_outhash p" if "x \<in> set (outhashes ?db)" "o_method x = ?m" "o_taskhash x = ?t" for x
        using one [unfolded one_output_def, rule_format, OF that(1) y(1)] that y by simp
      show ?thesis
      proof (cases "o_method r = ?m \<and> o_outhash r = p_outhash p")
        case True
        with hit rs show ?thesis by simp
      next
        case False
        with rs only have "\<not> (o_method r = ?m \<and> o_taskhash r = ?t)" "\<not> (o_method s = ?m \<and> o_taskhash s = ?t)" by auto
        moreover have "r \<in> set (outhashes db)" "s \<in> set (outhashes db)" using rs False row unfolding outs by auto
        ultimately show ?thesis
          using agree [unfolded outputs_agree_def, rule_format, of r s] rs(3,4) unfolding row_uni by presburger
      qed
    qed
    then show ?thesis unfolding outputs_agree_def by blast
  qed
  ultimately show ?thesis unfolding reports_inv_def by blast
qed

section \<open>Runs of reports\<close>

definition reports_only :: "command \<Rightarrow> bool" where
  "reports_only c \<longleftrightarrow> no_removal c \<and> (\<forall>m t u. c \<noteq> ReportEquiv m t u)"

lemma other_writes_reports:
  assumes "wrote P db db'" and "reports_inv db" and "\<And>w. P w \<Longrightarrow> \<not> hash_row_write w \<and> \<not> removing w"
  shows "reports_inv db'"
  using wrote_invariant [OF assms(1), where Q = reports_inv] assms(2,3) other_write_reports by blast

lemma handle_report_Inr:
  assumes "handle_report env now p s = Inr (t, s')" and "\<not> read_only env" and "user_has_permissions env [REPORT_PERM] True s"
  shows "report_write env (report_row env now p s) p (s_db s) = Inr (t, s_db s')"
  using assms by (auto simp: handle_report_def raised_def bindE_Inr_iff split: sum.splits)

lemma report_row_simps [simp]:
  "o_method (report_row env now p s) = p_method p" "o_taskhash (report_row env now p s) = p_taskhash p"
  "o_outhash (report_row env now p s) = p_outhash p"
  by (simp_all add: report_row_def Let_def)

lemma known_has_unihash:
  assumes "reports_inv db" and "known_row row db" and "o_method row = m" and "o_taskhash row = t"
  shows "unihash_of db m t \<noteq> None"
proof -
  from assms(2-4) obtain r where "r \<in> set (outhashes db)" "o_method r = m" "o_taskhash r = t"
    by (auto simp: known_row_def list_ex_iff same_out_def)
  with assms(1) show ?thesis by (auto simp: reports_inv_def row_unihash_def)
qed

lemma command_reports_inv:
  assumes run: "run_command env now c s = Inr (r, s')" and none: "up_server env = None" and c: "reports_only c"
    and inv: "reports_inv (s_db s)" and uniq: "keys_unique (s_db s)"
  shows "reports_inv (s_db s')"
proof (cases "may_report env c s")
  case False
  then have "\<not> hash_row_write w \<and> \<not> removing w" if "may_write env c s w" for w
    using that none c by (cases w) (auto simp: reports_only_def no_removal_def removing_def)
  with other_writes_reports [OF command_wrote [OF run] inv] show ?thesis by blast
next
  case True
  with c obtain p where p: "c = Report p" "\<not> read_only env" "user_has_permissions env [REPORT_PERM] True s"
    by (auto simp: may_report_def reports_only_def)
  with run obtain t where "handle_report env now p s = Inr (t, s')" by (auto simp: permitted_Inr answer_Inr)
  note wr = handle_report_Inr [OF this p(2,3)]
  let ?row = "report_row env now p s"
  from report_write_result [OF none, of ?row p "s_db s"] wr known_has_unihash [OF inv]
  have "s_db s' \<in> {s_db s, do_write (WUni (p_method p) (p_taskhash p) (report_worth p (s_db s))) (do_write (WOut ?row) (s_db s))}"
    by auto
  with inv new_report_inv [OF inv uniq, of ?row p] show ?thesis by auto
qed

lemma start_reports_inv: "hash_start env adm st \<Longrightarrow> reports_inv (hs_db (fst st))"
proof -
  have *: "reports_inv db" if "outhashes db = []" "unihashes db = []" for db
    using that by (simp add: reports_inv_def one_output_def outputs_agree_def unihash_of_def get_equivalent_def)
  have "outhashes (create_admin_user env n p db) = outhashes db \<and> unihashes (create_admin_user env n p db) = unihashes db" for n p db
    by (auto simp: create_admin_user_def new_user_def set_user_token_def set_user_perms_def update_user_def)
  then show "hash_start env adm st \<Longrightarrow> reports_inv (hs_db (fst st))"
    by (auto simp: hash_start_def new_db_def dest!: Server_parts split: option.splits intro!: *)
qed

lemma step_reports_inv:
  assumes "hash_step env reports_only st st'" and "up_server env = None"
    and "reports_inv (hs_db (fst st))" and "keys_unique (hs_db (fst st))"
  shows "reports_inv (hs_db (fst st'))"
  using assms(1)
proof cases
  case (message msg now us i hs r s')
  from message(4) obtain c where "c \<in> set msg" and run: "run_command env now c \<lparr>s_user = us i, s_server = hs\<rparr> = Inr (r, s')"
    by (rule dispatch_command)
  with message assms(3,4) command_reports_inv [OF run assms(2)] show ?thesis by (auto simp: list_all_iff)
next
  case (backfill hs us)
  with assms(2,3) show ?thesis by (auto simp: backfill_step_def split: list.splits)
qed (use assms(3) in simp_all)

lemma reach_reports_inv:
  assumes "hash_reach env reports_only adm (hs, us)" and none: "up_server env = None"
  shows "reports_inv (hs_db hs)"
proof -
  from assms(1) obtain st0 where start: "hash_start env adm st0" and run: "(hash_step env reports_only)\<^sup>*\<^sup>* st0 (hs, us)"
    by (auto simp: hash_reach_def)
  from run have "reports_inv (hs_db (fst (hs, us))) \<and> keys_unique (hs_db (fst (hs, us)))"
  proof (induction rule: rtranclp_induct)
    case base
    show ?case using start_reports_inv [OF start] start_unique [OF start] by simp
  next
    case (step st st')
    then show ?case
      using step_reports_inv [OF step.hyps(2) none] wrote_invariant [OF step_wrote [OF step.hyps(2)], where Q = keys_unique] write_unique
      by blast
  qed
  then show ?thesis by simp
qed



end
