(* ===== verification/HashGc.thy ===== *)
theory HashGc
  imports HashReports
begin

text \<open>
  What a garbage collection of the hash equivalence server keeps, and the properties of the server.
\<close>

section \<open>Collections\<close>

text \<open>
  The writes between the first mark of a collection and its sweep: more marks under the same name,
  with conditions that do not ask for the mark itself, and reports.
\<close>

definition collecting :: "string \<Rightarrow> hash_write \<Rightarrow> bool" where
  "collecting mark w \<longleftrightarrow>
     (\<exists>c. w = WMark mark c \<and> dgetd c ''gc_mark'' None = None) \<or> (\<exists>m t u. w = WUni m t u) \<or> (\<exists>r. w = WOut r)"

fun mark_by :: "hash_write \<Rightarrow> uni_row \<Rightarrow> uni_row" where
  "mark_by (WMark mark c) u = (if where_part uni_columns c = [] then u else mark_row (where_part uni_columns c) mark u)"
| "mark_by _ u = u"

definition marked_by :: "hash_write list \<Rightarrow> uni_row \<Rightarrow> bool" where
  "marked_by ws u \<longleftrightarrow>
     (\<exists>w \<in> set ws. \<exists>mark c. w = WMark mark c \<and> where_part uni_columns c \<noteq> [] \<and> matches (uni_col u) (where_part uni_columns c))"

lemma where_part_no_mark:
  "dgetd c ''gc_mark'' None = None \<Longrightarrow> (x, v) \<in> set (where_part uni_columns c) \<Longrightarrow> x \<noteq> ''gc_mark''"
  by (auto simp: where_part_def split: option.splits)

lemma matches_mark_row:
  assumes "dgetd c ''gc_mark'' None = None"
  shows "matches (uni_col (mark_row wh x u)) (where_part uni_columns c) = matches (uni_col u) (where_part uni_columns c)"
proof -
  have same: "uni_col (mark_row wh x u) k = uni_col u k" if "k \<noteq> ''gc_mark''" for k using that by (simp add: uni_col_def)
  show ?thesis
    unfolding matches_def list_all_iff
  proof (rule ball_cong [OF refl])
    fix y
    assume "y \<in> set (where_part uni_columns c)"
    then have "fst y \<noteq> ''gc_mark''" using where_part_no_mark [OF assms, of "fst y" "snd y"] by simp
    then show "(case y of (c, v) \<Rightarrow> uni_col (mark_row wh x u) c = Some v) = (case y of (c, v) \<Rightarrow> uni_col u c = Some v)"
      by (simp add: same split_def)
  qed
qed

lemma mark_by_triple [simp]: "triple_of (mark_by w u) = triple_of u"
  by (cases w) (simp_all add: triple_of_def)

lemma marks_triple [simp]: "triple_of (fold mark_by ws u) = triple_of u"
  by (induction ws arbitrary: u) auto

lemma marked_by_mark:
  assumes "list_all (collecting mark) ws"
  shows "marked_by ws (mark_by w u) = marked_by ws u"
proof -
  have "matches (uni_col (mark_by w u)) (where_part uni_columns c) = matches (uni_col u) (where_part uni_columns c)"
    if "WMark x c \<in> set ws" for x c
  proof -
    have "dgetd c ''gc_mark'' None = None" using assms that by (auto simp: list_all_iff collecting_def)
    then show ?thesis using matches_mark_row by (cases w) auto
  qed
  then show ?thesis unfolding marked_by_def by blast
qed

lemma marks_result:
  assumes "list_all (collecting mark) ws"
  shows "u_gc_mark (fold mark_by ws u) = mark \<longleftrightarrow> u_gc_mark u = mark \<or> marked_by ws u"
  using assms
proof (induction ws arbitrary: u)
  case (Cons w ws)
  have "u_gc_mark (mark_by w u) = mark \<longleftrightarrow> u_gc_mark u = mark \<or> marked_by [w] u"
    using Cons.prems by (cases w) (auto simp: marked_by_def mark_row_def collecting_def)
  moreover have "marked_by (w # ws) u \<longleftrightarrow> marked_by [w] u \<or> marked_by ws u" by (auto simp: marked_by_def)
  ultimately show ?case using Cons marked_by_mark [of mark ws w u] by simp
qed (simp add: marked_by_def)

lemma collecting_write:
  assumes "collecting mark w" and "get_config ''gc-mark'' db = Some mark"
  shows "get_config ''gc-mark'' (do_write w db) = Some mark \<and>
    (\<exists>new. unihashes (do_write w db) = map (mark_by w) (unihashes db) @ new \<and> (\<forall>u \<in> set new. u_gc_mark u = mark))"
proof (cases w)
  case (WMark x c)
  then have "x = mark" using assms(1) by (simp add: collecting_def)
  moreover have "map (mark_by (WMark mark c)) us = (if where_part uni_columns c = [] then us else map (mark_row (where_part uni_columns c) mark) us)" for us
    by (simp add: map_idI)
  ultimately show ?thesis using WMark assms(2)
    by (simp add: do_write.simps db_gc_mark_def set_config_def get_config_def current_mark_def dgetd_def map_of_dset Let_def)
next
  case (WUni m t u)
  then show ?thesis using assms(2)
    by (auto simp: do_write.simps insert_unihash_def current_mark_def get_config_def map_idI)
next
  case (WOut r)
  then show ?thesis using assms(2) by (simp add: do_write.simps insert_outhash_def get_config_def map_idI)
qed (use assms(1) in \<open>auto simp: collecting_def\<close>)

lemma collecting_writes:
  assumes "list_all (collecting mark) ws" and "get_config ''gc-mark'' db = Some mark"
  shows "get_config ''gc-mark'' (fold do_write ws db) = Some mark \<and>
    (\<exists>new. unihashes (fold do_write ws db) = map (fold mark_by ws) (unihashes db) @ new \<and> (\<forall>u \<in> set new. u_gc_mark u = mark))"
  using assms
proof (induction ws arbitrary: db)
  case (Cons w ws)
  from collecting_write [of mark w db] Cons.prems obtain new where conf: "get_config ''gc-mark'' (do_write w db) = Some mark"
    and new: "unihashes (do_write w db) = map (mark_by w) (unihashes db) @ new" "\<forall>u \<in> set new. u_gc_mark u = mark" by auto
  from Cons.IH [OF _ conf] Cons.prems(1) obtain more where
    rest: "get_config ''gc-mark'' (fold do_write ws (do_write w db)) = Some mark"
      "unihashes (fold do_write ws (do_write w db)) = map (fold mark_by ws) (map (mark_by w) (unihashes db) @ new) @ more"
      "\<forall>u \<in> set more. u_gc_mark u = mark" by (auto simp: new(1))
  have "\<forall>u \<in> set (map (fold mark_by ws) new @ more). u_gc_mark u = mark"
    using new(2) rest(3) marks_result [of mark ws] Cons.prems(1) by auto
  then show ?case using rest(1,2) by (intro conjI exI [of _ "map (fold mark_by ws) new @ more"]) (simp_all add: comp_def)
qed simp

lemma sweep_result:
  "get_config ''gc-mark'' db = Some mark \<Longrightarrow> unihashes (do_write WSweep db) = filter (\<lambda>u. u_gc_mark u = mark) (unihashes db)"
  by (simp add: do_write.simps db_gc_sweep_def set_config_def Let_def)

text \<open>The first mark also sets the name of the collection.\<close>

lemma first_mark:
  assumes "dgetd c ''gc_mark'' None = None"
  shows "get_config ''gc-mark'' (do_write (WMark mark c) db) = Some mark \<and>
    unihashes (do_write (WMark mark c) db) = map (mark_by (WMark mark c)) (unihashes db)"
proof -
  have "map (mark_by (WMark mark c)) us = (if where_part uni_columns c = [] then us else map (mark_row (where_part uni_columns c) mark) us)" for us
    by (simp add: map_idI)
  then show ?thesis
    by (simp add: do_write.simps db_gc_mark_def set_config_def get_config_def current_mark_def dgetd_def map_of_dset Let_def)
qed

text \<open>
  C31: what garbage collection keeps.  A collection marks rows with any number of conditions while
  reports come in, and then sweeps.  The rows left are, in their order and with their unihashes, the
  old rows that one of the conditions matched or that had the mark before, and all rows that were
  reported since the first mark.
\<close>

theorem collection_keeps:
  assumes "list_all (collecting mark) ws" and "ws \<noteq> []" and "\<exists>c. hd ws = WMark mark c"
  shows "map triple_of (unihashes (do_write WSweep (fold do_write ws db))) =
    map triple_of (filter (\<lambda>u. u_gc_mark u = mark \<or> marked_by ws u) (unihashes db)) @
    drop (length (unihashes db)) (map triple_of (unihashes (fold do_write ws db)))"
proof -
  from assms obtain c rest where ws: "ws = WMark mark c # rest" "dgetd c ''gc_mark'' None = None" "list_all (collecting mark) rest"
    by (cases ws) (auto simp: collecting_def)
  let ?db = "do_write (WMark mark c) db"
  from first_mark [OF ws(2), of mark db] have conf: "get_config ''gc-mark'' ?db = Some mark"
    and first: "unihashes ?db = map (mark_by (WMark mark c)) (unihashes db)" by simp_all
  from collecting_writes [OF ws(3) conf] obtain new where
    last: "get_config ''gc-mark'' (fold do_write ws db) = Some mark"
    and all: "unihashes (fold do_write ws db) = map (fold mark_by ws) (unihashes db) @ new" "\<forall>u \<in> set new. u_gc_mark u = mark"
    by (auto simp: ws(1) first)
  have "filter (\<lambda>u. u_gc_mark u = mark) new = new" using all(2) by (simp add: filter_id_conv)
  moreover have "(\<lambda>u. u_gc_mark (fold mark_by ws u) = mark) = (\<lambda>u. u_gc_mark u = mark \<or> marked_by ws u)"
    using marks_result [OF assms(1)] by (simp add: fun_eq_iff)
  ultimately show ?thesis
    by (simp add: sweep_result [OF last] all(1) filter_map comp_def)
qed

end
