(* ===== verification/HashDemo.thy ===== *)
theory HashDemo
  imports HashGc
begin

text \<open>
  Two builders that report to one server, on which the properties of the server are applied, and what
  the server does for a hash its upstream server does not know and for rows of any age.
\<close>

definition demo_server :: "bool \<Rightarrow> upstream option \<Rightarrow> server_env" where
  "demo_server ro up =
     \<lparr>read_only = ro, anon_perms = [READ_PERM, REPORT_PERM, DB_ADMIN_PERM], up_server = up, stale_rowid = True,
      iso_time = (\<lambda>t. if t \<le> 1 then ''2024-01-01'' else if t = 2 then ''2024-01-02'' else ''2024-01-03''),
      hash_token = (\<lambda>a s t. a @ '':'' @ s @ '':'' @ t), new_token = ''secret'', new_salt = ''salt''\<rparr>"

definition demo_report :: "string \<Rightarrow> string \<Rightarrow> report" where
  "demo_report taskhash outhash =
     \<lparr>p_method = ''sstate'', p_taskhash = taskhash, p_outhash = outhash, p_unihash = taskhash, p_fields = [(''PN'', ''a'')]\<rparr>"

definition demo_hash_start :: hash_state where
  "demo_hash_start = (\<lparr>hs_db = create_admin_user (demo_server False None) ''root'' ''pw'' new_db, hs_backfill = []\<rparr>, \<lambda>_. None)"

text \<open>A message from connection \<open>i\<close>, and the state after it; an error leaves the state.\<close>

definition send :: "server_env \<Rightarrow> int \<Rightarrow> nat \<Rightarrow> command list \<Rightarrow> hash_state \<Rightarrow> hash_state" where
  "send env now i msg st =
     (case dispatch_message env now msg \<lparr>s_user = snd st i, s_server = fst st\<rparr> of
        Inl e \<Rightarrow> st | Inr (r, s) \<Rightarrow> (s_server s, (snd st)(i := s_user s)))"

lemma send_step: "list_all Q msg \<Longrightarrow> (hash_step env Q)\<^sup>*\<^sup>* st (send env now i msg st)"
proof (cases "dispatch_message env now msg \<lparr>s_user = snd st i, s_server = fst st\<rparr>")
  case (Inr x)
  assume Q: "list_all Q msg"
  obtain r s where "x = (r, s)" by (cases x)
  with Inr hash_step.message [OF Q, of env now "snd st" i "fst st" r s] show ?thesis
    by (simp add: send_def r_into_rtranclp)
qed (simp add: send_def)

definition two_reports :: hash_state where
  "two_reports =
     send (demo_server False None) 2 1 [Report (demo_report ''t2'' ''out'')]
       (send (demo_server False None) 1 0 [Report (demo_report ''t1'' ''out'')] demo_hash_start)"

lemma demo_started: "hash_start (demo_server False None) (Some (''root'', ''pw'')) demo_hash_start"
  by (simp add: hash_start_def demo_hash_start_def Server_def demo_server_def)

lemma two_reports_reach: "hash_reach (demo_server False None) reports_only (Some (''root'', ''pw'')) two_reports"
  unfolding hash_reach_def two_reports_def
  by (intro exI conjI, rule demo_started, rule rtranclp_trans; rule send_step)
    (simp_all add: reports_only_def no_removal_def)

lemma two_reports_rows:
  "map triple_of (unihashes (hs_db (fst two_reports))) = [(''sstate'', ''t1'', ''t1''), (''sstate'', ''t2'', ''t1'')]"
  "map (\<lambda>r. (o_method r, o_taskhash r, o_outhash r)) (outhashes (hs_db (fst two_reports))) =
     [(''sstate'', ''t1'', ''out''), (''sstate'', ''t2'', ''out'')]"
  by code_simp+

text \<open>The properties of every run, on these reports.\<close>

lemma reach_unique_witness: "keys_unique (hs_db (fst two_reports))"
  using reach_unique [of "demo_server False None" reports_only "Some (''root'', ''pw'')" "fst two_reports" "snd two_reports"]
    two_reports_reach by simp

text \<open>A later attempt to give the second hash another unihash.\<close>

definition third_report :: hash_state where
  "third_report = send (demo_server False None) 3 0 [ReportEquiv ''sstate'' ''t2'' ''other''] two_reports"

lemma unihash_stays_witness: "unihash_of (hs_db (fst third_report)) ''sstate'' ''t2'' = Some ''t1''"
proof (rule unihash_stays)
  show "(hash_step (demo_server False None) no_removal)\<^sup>*\<^sup>*
      (fst two_reports, snd two_reports) (fst third_report, snd third_report)"
    using send_step [of no_removal "[ReportEquiv ''sstate'' ''t2'' ''other'']" "demo_server False None" two_reports 3 0]
    by (simp add: third_report_def no_removal_def)
  show "unihash_of (hs_db (fst two_reports)) ''sstate'' ''t2'' = Some ''t1''" by code_simp
qed

definition demo_mirror :: hash_state where
  "demo_mirror = send (demo_server True None) 1 0 [Report (demo_report ''t1'' ''out'')]
     (\<lparr>hs_db = new_db, hs_backfill = []\<rparr>, \<lambda>_. None)"


text \<open>A user who asks for a new token: only the own row changes.\<close>

definition demo_session :: session where
  "demo_session =
     \<lparr>s_user = Some \<lparr>username = ''ann'', permissions = [READ_PERM]\<rparr>,
      s_server = \<lparr>hs_db = snd (new_user ''ann'' [READ_PERM] ''t'' (hs_db (fst demo_hash_start))), hs_backfill = []\<rparr>\<rparr>"

lemma message_without_admin_witness:
  "case dispatch_message (demo_server False None) 1 [RefreshToken None] demo_session of
     Inl e \<Rightarrow> False
   | Inr (r, s') \<Rightarrow> only_own (Some ''ann'') (s_db demo_session) (s_db s') \<and> s_db s' \<noteq> s_db demo_session"
proof (cases "dispatch_message (demo_server False None) 1 [RefreshToken None] demo_session")
  case (Inl e)
  moreover have "\<not> (case dispatch_message (demo_server False None) 1 [RefreshToken None] demo_session of
      Inl e \<Rightarrow> True | Inr x \<Rightarrow> False)" by code_simp
  ultimately show ?thesis by simp
next
  case (Inr x)
  obtain r s' where x: "x = (r, s')" by (cases x)
  have "only_own (Some ''ann'') (s_db demo_session) (s_db s')"
    using message_without_admin [OF Inr [unfolded x]] by (simp add: demo_session_def admin_def demo_server_def user_has_permissions_def)
  moreover have "case dispatch_message (demo_server False None) 1 [RefreshToken None] demo_session of
      Inl e \<Rightarrow> True | Inr (r, s') \<Rightarrow> users (s_db s') \<noteq> users (s_db demo_session)" by code_simp
  ultimately show ?thesis using Inr x by auto
qed



text \<open>A collection that asks for one unihash while a report comes in.\<close>

definition demo_collection :: "hash_write list" where
  "demo_collection = [WMark ''m'' [(''unihash'', Some ''h1'')], WUni ''sstate'' ''t9'' ''h9'']"

definition demo_rows :: hash_db where
  "demo_rows = snd (insert_unihash True ''sstate'' ''t2'' ''h2'' (snd (insert_unihash True ''sstate'' ''t1'' ''h1'' new_db)))"

lemma collection_keeps_witness:
  "map triple_of (unihashes (do_write WSweep (fold do_write demo_collection demo_rows))) =
     [(''sstate'', ''t1'', ''h1''), (''sstate'', ''t9'', ''h9'')]"
proof -
  have "map triple_of (unihashes (fold do_write demo_collection demo_rows)) =
      [(''sstate'', ''t1'', ''h1''), (''sstate'', ''t2'', ''h2''), (''sstate'', ''t9'', ''h9'')]" by code_simp
  moreover have "unihashes demo_rows =
      [\<lparr>u_method = ''sstate'', u_taskhash = ''t1'', u_unihash = ''h1'', u_gc_mark = []\<rparr>,
       \<lparr>u_method = ''sstate'', u_taskhash = ''t2'', u_unihash = ''h2'', u_gc_mark = []\<rparr>]" by code_simp
  ultimately show ?thesis
    using collection_keeps [of "''m''" demo_collection demo_rows]
    by (simp add: demo_collection_def collecting_def marked_by_def where_part_def uni_columns_def matches_def uni_col_def
        dgetd_def triple_of_def)
qed

section \<open>What the server does not intend\<close>

text \<open>An insertion that is ignored counts as made, for the driver at hand.\<close>

lemma ignored_insertion_counts:
  "fst (insert_unihash True ''sstate'' ''t1'' ''other'' demo_rows)"
  "snd (insert_unihash True ''sstate'' ''t1'' ''other'' demo_rows) = demo_rows"
  by code_simp+

text \<open>Rows younger than the age asked for are removed, as the limit lies ahead of now.\<close>

definition demo_unused :: session where
  "demo_unused =
     \<lparr>s_user = None, s_server = \<lparr>hs_db = snd (insert_outhash True
        \<lparr>o_method = ''sstate'', o_taskhash = ''t1'', o_outhash = ''out'', o_created = Some ''2024-01-02'', o_fields = []\<rparr> new_db),
        hs_backfill = []\<rparr>\<rparr>"

lemma young_rows_cleaned:
  "case handle_clean_unused (demo_server False None) 2 1 demo_unused of Inl e \<Rightarrow> False | Inr (n, s) \<Rightarrow> n = 1"
  by code_simp

text \<open>A request for a hash the upstream server does not know ends in an exception.\<close>

definition demo_upstream :: upstream where
  "demo_upstream = \<lparr>up_get_taskhash = (\<lambda>_ _. None), up_get_full = (\<lambda>_ _. None), up_get_unihash = (\<lambda>_ _. None),
     up_unihash_exists = (\<lambda>_. False), up_get_outhash = (\<lambda>_ _ _. None)\<rparr>"

lemma unknown_upstream_raises:
  "run_command (demo_server False (Some demo_upstream)) 1 (Get ''sstate'' ''t1'' False)
     \<lparr>s_user = None, s_server = \<lparr>hs_db = new_db, hs_backfill = []\<rparr>\<rparr> = Inl (Raised TypeError)"
  by (simp add: permitted_def user_has_permissions_def demo_server_def demo_upstream_def answer_def on_server_def
      get_unihash_def get_equivalent_def new_db_def raised_def bindE_def)

text \<open>So does waiting for fetches of a server without an upstream server.\<close>

lemma backfill_wait_raises:
  "run_command (demo_server False None) 1 BackfillWait s = Inl (Raised AttributeError)"
  by (simp add: permitted_def user_has_permissions_def demo_server_def answer_def handle_backfill_wait_def bindE_def)

end
